(* ===== verification/Prelude.thy ===== *)
theory Prelude
  imports Main "HOL-Library.Word" "HOL-Library.Monad_Syntax"
begin

unbundle bit_operations_syntax

text \<open>
  Shared ground of the development: the machine types of the i686 target, the byte-addressed
  memory, bounded arrays, loops over index ranges, and the bit lemmas the page bitmaps, the
  allocator and the drivers use.

  A computation that can go wrong has type \<open>'a option\<close>. \<open>None\<close> stands for a C execution
  with no defined continuation: an access outside an array, a dereference of a pointer to no
  object, or a loop that never ends. Theorems about such a computation state that it returns
  \<open>Some\<close>.
\<close>

section \<open>Machine types\<close>

type_synonym u8 = "8 word"
type_synonym u16 = "16 word"
type_synonym u20 = "20 word"
type_synonym u32 = "32 word"
type_synonym u64 = "64 word"

text \<open>The byte memory of one address space: every 32-bit address holds a byte.\<close>

type_synonym bytes = "u32 \<Rightarrow> u8"

named_theorems word_facts \<open>conversions between word arithmetic and arithmetic on \<open>nat\<close>\<close>
named_theorems bit_facts \<open>single bits of the results of bitwise operations\<close>
named_theorems loop_facts \<open>introduction and unfolding rules for the loop combinators\<close>

section \<open>Bounded arrays\<close>

text \<open>
  A C array of \<open>n\<close> elements is a function from indices; \<open>aget\<close> and \<open>aset\<close> check the index,
  since C gives no meaning to an access outside the array.
\<close>

definition aget :: "nat \<Rightarrow> (nat \<Rightarrow> 'a) \<Rightarrow> nat \<Rightarrow> 'a option" where
  "aget n f i = (if i < n then Some (f i) else None)"

definition aset :: "nat \<Rightarrow> (nat \<Rightarrow> 'a) \<Rightarrow> nat \<Rightarrow> 'a \<Rightarrow> (nat \<Rightarrow> 'a) option" where
  "aset n f i v = (if i < n then Some (f(i := v)) else None)"

lemma aget_Some_iff [simp]: "aget n f i = Some v \<longleftrightarrow> i < n \<and> v = f i"
  by (auto simp: aget_def)

lemma aset_Some_iff [simp]: "aset n f i v = Some g \<longleftrightarrow> i < n \<and> g = f(i := v)"
  by (auto simp: aset_def)

lemma aget_in [simp]: "i < n \<Longrightarrow> aget n f i = Some (f i)"
  by (simp add: aget_def)

lemma aset_in [simp]: "i < n \<Longrightarrow> aset n f i v = Some (f(i := v))"
  by (simp add: aset_def)

lemma aget_None_iff [simp]: "aget n f i = None \<longleftrightarrow> n \<le> i"
  by (auto simp: aget_def)

section \<open>Loops\<close>

text \<open>
  \<open>ofold f xs s\<close> runs the loop body \<open>f\<close> over the index values \<open>xs\<close>, stopping at the first
  fault. \<open>findM f xs\<close> is a search loop: the body answers \<open>Some None\<close> to continue,
  \<open>Some (Some y)\<close> to return \<open>y\<close> from the enclosing function and \<open>None\<close> on a fault; the whole
  loop answers \<open>Some None\<close> when it runs to its end.
\<close>

primrec ofold :: "('a \<Rightarrow> 's \<Rightarrow> 's option) \<Rightarrow> 'a list \<Rightarrow> 's \<Rightarrow> 's option" where
  "ofold f [] s = Some s"
| "ofold f (x # xs) s = Option.bind (f x s) (ofold f xs)"

primrec findM :: "('a \<Rightarrow> 'b option option) \<Rightarrow> 'a list \<Rightarrow> 'b option option" where
  "findM f [] = Some None"
| "findM f (x # xs) =
     (case f x of
        None \<Rightarrow> None
      | Some None \<Rightarrow> findM f xs
      | Some (Some y) \<Rightarrow> Some (Some y))"

lemma ofold_append: "ofold f (xs @ ys) s = Option.bind (ofold f xs s) (ofold f ys)"
  by (induction xs arbitrary: s) (auto split: bind_splits)

lemma ofold_invariant:
  assumes "ofold f xs s = Some t" and "P s"
    and "\<And>x s t. x \<in> set xs \<Longrightarrow> P s \<Longrightarrow> f x s = Some t \<Longrightarrow> P t"
  shows "P t"
  using assms
proof (induction xs arbitrary: s)
  case Nil
  then show ?case by simp
next
  case (Cons x xs)
  from Cons.prems(1) obtain s' where s': "f x s = Some s'" and rest: "ofold f xs s' = Some t"
    by (auto split: bind_splits)
  have "P s'"
    using Cons.prems(2,3) s' by auto
  then show ?case
    using Cons.IH [OF rest] Cons.prems(3) by auto
qed

lemma ofold_returns:
  assumes "P s"
    and "\<And>x s. x \<in> set xs \<Longrightarrow> P s \<Longrightarrow> \<exists>t. f x s = Some t \<and> P t"
  shows "\<exists>t. ofold f xs s = Some t \<and> P t"
  using assms
proof (induction xs arbitrary: s)
  case Nil
  then show ?case by simp
next
  case (Cons x xs)
  from Cons.prems obtain s' where s': "f x s = Some s'" and "P s'"
    by fastforce
  with Cons.IH [of s'] Cons.prems(2) show ?case
    by auto
qed

lemma findM_append:
  "findM f (xs @ ys) =
     (case findM f xs of None \<Rightarrow> None | Some None \<Rightarrow> findM f ys | Some (Some y) \<Rightarrow> Some (Some y))"
  by (induction xs) (auto split: option.splits)

lemma findM_SomeD:
  "findM f xs = Some (Some y) \<Longrightarrow> \<exists>x \<in> set xs. f x = Some (Some y)"
  by (induction xs) (auto split: option.splits)

lemma findM_continue: "(\<And>x. x \<in> set xs \<Longrightarrow> f x = Some None) \<Longrightarrow> findM f xs = Some None"
  by (induction xs) auto

lemma findM_None_all: "findM f xs = Some None \<Longrightarrow> x \<in> set xs \<Longrightarrow> f x = Some None"
  by (induction xs) (auto split: option.splits)

lemma upt_split: "i \<le> j \<Longrightarrow> j < k \<Longrightarrow> [i..<k] = [i..<j] @ j # [Suc j..<k]"
  by (metis le_Suc_ex less_imp_le_nat upt_add_eq_append upt_conv_Cons)

lemma findM_upt_first:
  assumes "findM f [i..<k] = Some (Some y)"
  shows "\<exists>j. i \<le> j \<and> j < k \<and> f j = Some (Some y) \<and> (\<forall>l. i \<le> l \<and> l < j \<longrightarrow> f l = Some None)"
  using assms
proof (induction "k - i" arbitrary: i)
  case 0
  then show ?case by simp
next
  case (Suc n)
  then have up: "[i..<k] = i # [Suc i..<k]" and n: "n = k - Suc i" and ik: "i < k"
    by (simp_all add: upt_conv_Cons)
  consider "f i = Some (Some y)" | "f i = Some None" "findM f [Suc i..<k] = Some (Some y)"
    using Suc.prems by (auto simp: up split: option.splits)
  then show ?case
  proof cases
    case 1
    with ik show ?thesis by (intro exI [of _ i]) auto
  next
    case 2
    with Suc.hyps(1) [OF n] obtain j where
      "Suc i \<le> j \<and> j < k \<and> f j = Some (Some y) \<and> (\<forall>l. Suc i \<le> l \<and> l < j \<longrightarrow> f l = Some None)"
      by blast
    with 2 show ?thesis
      by (intro exI [of _ j]) (metis Suc_leD Suc_leI le_neq_implies_less)
  qed
qed

lemma findM_upt_hit:
  assumes "i \<le> j" and "j < k" and "f j = Some (Some y)"
    and "\<And>l. i \<le> l \<Longrightarrow> l < j \<Longrightarrow> f l = Some None"
  shows "findM f [i..<k] = Some (Some y)"
proof -
  have "findM f [i..<j] = Some None"
    using assms(4) by (intro findM_continue) auto
  then show ?thesis
    using assms(1-3) by (simp add: upt_split findM_append)
qed

section \<open>Words\<close>

lemma unat_lt [word_facts]: "unat (w :: 'a::len word) < 2 ^ LENGTH('a)"
  by (rule unsigned_less)

lemma unat_u32_bound [simp]: "unat (w :: u32) < 4294967296"
  using unat_lt [of w] by simp

lemma unat_of_nat_small [word_facts]:
  "n < 2 ^ LENGTH('a) \<Longrightarrow> unat (of_nat n :: 'a::len word) = n"
  by (simp add: unat_of_nat take_bit_nat_eq_self)

lemma unat_of_nat32 [simp]: "n < 4294967296 \<Longrightarrow> unat (of_nat n :: u32) = n"
  using unat_of_nat_small [where 'a = 32, of n] by simp

lemma bit_above_unat:
  assumes "unat (p :: u32) < 2 ^ n" and "n \<le> i"
  shows "\<not> bit p i"
proof -
  have "(2 :: nat) ^ n \<le> 2 ^ i" using assms(2) by (rule power_increasing) simp
  then have "unat p div 2 ^ i = 0" using less_le_trans [OF assms(1)] by (intro div_less)
  then have "\<not> bit (unat p) i" by (simp add: bit_iff_odd)
  then show ?thesis by (simp add: bit_unsigned_iff)
qed

lemma of_nat32_eq: "x < 4294967296 \<Longrightarrow> y < 4294967296 \<Longrightarrow> (of_nat x :: u32) = of_nat y \<longleftrightarrow> x = y"
  by (metis unat_of_nat32)

lemma unat_add_small [word_facts]:
  "unat (a :: u32) + unat b < 4294967296 \<Longrightarrow> unat (a + b) = unat a + unat b"
  by (simp add: unat_word_ariths)

lemma word_neq_minus1_bit: "(w :: u32) \<noteq> - 1 \<longleftrightarrow> (\<exists>i < 32. \<not> bit w i)"
  by (auto simp: bit_eq_iff bit_simps)

text \<open>\<open>onebit i\<close> is the C expression \<open>1 << i\<close> on a 32-bit unsigned operand.\<close>

definition onebit :: "nat \<Rightarrow> u32" where
  "onebit i = push_bit i 1"

lemma bit_onebit [bit_facts]: "bit (onebit i) j \<longleftrightarrow> i = j \<and> j < 32"
  by (auto simp: onebit_def bit_simps)

lemma bit_or_onebit [bit_facts]:
  "j < 32 \<Longrightarrow> bit (w OR onebit i) j \<longleftrightarrow> bit w j \<or> i = j"
  by (auto simp: bit_onebit bit_or_iff)

lemma bit_and_not_onebit [bit_facts]:
  "j < 32 \<Longrightarrow> bit (w AND NOT (onebit i)) j \<longleftrightarrow> bit w j \<and> i \<noteq> j"
  by (auto simp: bit_onebit bit_and_iff bit_not_iff)

lemma and_onebit_eq_0 [bit_facts]: "i < 32 \<Longrightarrow> w AND onebit i = 0 \<longleftrightarrow> \<not> bit w i"
  by (auto simp: bit_eq_iff [of "w AND onebit i" 0] bit_onebit bit_and_iff)

lemma unat_drop_bit [word_facts]: "unat (drop_bit n (w :: u32)) = unat w div 2 ^ n"
proof -
  have "take_bit 32 (unat w) = unat w"
    using unat_lt [of w] by (simp add: take_bit_nat_eq_self)
  then show ?thesis
    by (simp add: unsigned_drop_bit_eq drop_bit_eq_div [where 'a = nat])
qed

section \<open>Signed numbers\<close>

lemma sint_as_nat:
  fixes x :: "'a::len word"
  shows "sint x = int (unat x) - (if bit x (LENGTH('a) - 1) then 2 ^ LENGTH('a) else 0)"
proof -
  have "sint x = take_bit (Suc (LENGTH('a) - 1)) (uint x) - 2 ^ Suc (LENGTH('a) - 1) * of_bool (bit (uint x) (LENGTH('a) - 1))"
    by (simp only: sint_uint signed_take_bit_eq_take_bit_minus One_nat_def)
  moreover have "take_bit LENGTH('a) (uint x) = uint x" using uint_lt2p [of x] by (simp add: take_bit_int_eq_self)
  ultimately show ?thesis by (simp add: bit_uint_iff)
qed

lemma top_bit:
  fixes x :: "'a::len word"
  shows "bit x (LENGTH('a) - 1) \<longleftrightarrow> 2 ^ (LENGTH('a) - 1) \<le> unat x"
proof -
  have l: "(2::nat) ^ LENGTH('a) = 2 * 2 ^ (LENGTH('a) - 1)" by (metis One_nat_def Suc_pred len_gt_0 power_Suc)
  have "bit x (LENGTH('a) - 1) \<longleftrightarrow> bit (unat x) (LENGTH('a) - 1)" by (simp add: bit_unsigned_iff)
  also have "\<dots> \<longleftrightarrow> odd (unat x div 2 ^ (LENGTH('a) - 1))" by (simp add: bit_iff_odd)
  also have "\<dots> \<longleftrightarrow> 2 ^ (LENGTH('a) - 1) \<le> unat x"
  proof (cases "2 ^ (LENGTH('a) - 1) \<le> unat x")
    case True
    have "unat x < 2 * 2 ^ (LENGTH('a) - 1)" using unsigned_less [of x] l by metis
    then have "unat x div 2 ^ (LENGTH('a) - 1) = 1" using True by (simp add: div_nat_eqI)
    then show ?thesis using True by simp
  qed simp
  finally show ?thesis .
qed

lemma sint_values:
  "sint (x :: u32) = (if unat x < 2147483648 then int (unat x) else int (unat x) - 4294967296)"
  "sint (y :: u16) = (if unat y < 32768 then int (unat y) else int (unat y) - 65536)"
  "sint (z :: u8) = (if unat z < 128 then int (unat z) else int (unat z) - 256)"
  using sint_as_nat [of x] top_bit [of x] sint_as_nat [of y] top_bit [of y] sint_as_nat [of z] top_bit [of z]
  by (simp_all add: not_less del: int_nat_eq)

lemma negative_iff: "sint (x :: u32) < 0 \<longleftrightarrow> 2147483648 \<le> unat x"
  using uint_lt2p [of x] unfolding sint_values by auto

end
