(* ===== verification/Strings.thy ===== *)
theory Strings
  imports Prelude
begin

text \<open>
  Bytes in memory: \<open>memcpy\<close>, \<open>memset\<close> and the zero-terminated strings of \<open>kernel/util\<close> and
  \<open>hlib\<close> (both have the same \<open>strlen\<close>, \<open>memcpy\<close> and \<open>memset\<close>). Loops over a string end at the zero
  byte; where none follows they run forever, which is \<open>None\<close>.
\<close>

section \<open>Operations\<close>

definition memcpy :: "bytes \<Rightarrow> u32 \<Rightarrow> u32 \<Rightarrow> u32 \<Rightarrow> bytes" where
  "memcpy m source destination count =
     foldl (\<lambda>m i. m(destination + of_nat i := m (source + of_nat i))) m [0..<unat count]"

definition memset :: "bytes \<Rightarrow> u32 \<Rightarrow> u8 \<Rightarrow> u32 \<Rightarrow> bytes" where
  "memset m target byte count = foldl (\<lambda>m i. m(target + of_nat i := byte)) m [0..<unat count]"

partial_function (option) strlenLoop :: "bytes \<Rightarrow> u32 \<Rightarrow> u32 \<Rightarrow> u32 option" where
  "strlenLoop m p count = (if m p = 0 then Some count else strlenLoop m (p + 1) (count + 1))"

definition strlen :: "bytes \<Rightarrow> u32 \<Rightarrow> u32 option" where
  "strlen m p = (if p = 0 then Some 0 else strlenLoop m p 0)"

partial_function (option) stringEqualsLoop :: "bytes \<Rightarrow> u32 \<Rightarrow> u32 \<Rightarrow> bool option" where
  "stringEqualsLoop m string1 string2 =
     (if m string1 \<noteq> 0
      then (if m string1 \<noteq> m string2 then Some False else stringEqualsLoop m (string1 + 1) (string2 + 1))
      else Some (m string2 = 0))"

definition stringEquals :: "bytes \<Rightarrow> u32 \<Rightarrow> u32 \<Rightarrow> bool option" where
  "stringEquals m string1 string2 =
     (if string1 = string2 then Some True else stringEqualsLoop m string1 string2)"

text \<open>The copying loops of \<open>combineStrings\<close>; the result is the memory and the next place to write.\<close>

partial_function (option) appendLoop :: "bytes \<Rightarrow> u32 \<Rightarrow> u32 \<Rightarrow> (bytes \<times> u32) option" where
  "appendLoop m p w = (if m p = 0 then Some (m, w) else appendLoop (m(w := m p)) (p + 1) (w + 1))"

definition combineStrings ::
  "('s \<Rightarrow> u32 \<Rightarrow> (u32 \<times> 's) option) \<Rightarrow> 's \<Rightarrow> bytes \<Rightarrow> u32 \<Rightarrow> u32 \<Rightarrow> (u32 \<times> 's \<times> bytes) option" where
  "combineStrings alloc h m string1 string2 = do {
     n1 \<leftarrow> strlen m string1;
     n2 \<leftarrow> strlen m string2;
     (result, h) \<leftarrow> alloc h (n1 + n2 + 1);
     (m, w) \<leftarrow> appendLoop m string1 result;
     (m, w) \<leftarrow> appendLoop m string2 w;
     Some (result, h, m(w := 0))
   }"

section \<open>Numbers in memory\<close>

definition read16 :: "bytes \<Rightarrow> u32 \<Rightarrow> u16" where
  "read16 m p = ucast (m p) OR push_bit 8 (ucast (m (p + 1)))"

definition read32 :: "bytes \<Rightarrow> u32 \<Rightarrow> u32" where
  "read32 m p = ucast (m p) OR push_bit 8 (ucast (m (p + 1))) OR push_bit 16 (ucast (m (p + 2))) OR
     push_bit 24 (ucast (m (p + 3)))"

definition write16 :: "bytes \<Rightarrow> u32 \<Rightarrow> u16 \<Rightarrow> bytes" where
  "write16 m p v = m(p := ucast v, p + 1 := ucast (drop_bit 8 v))"

definition write32 :: "bytes \<Rightarrow> u32 \<Rightarrow> u32 \<Rightarrow> bytes" where
  "write32 m p v = m(p := ucast v, p + 1 := ucast (drop_bit 8 v), p + 2 := ucast (drop_bit 16 v),
     p + 3 := ucast (drop_bit 24 v))"

section \<open>Strings in memory\<close>

text \<open>\<open>cstr m p s\<close>: the memory holds the bytes \<open>s\<close>, none of them zero, from \<open>p\<close> on, and then a zero.\<close>

fun cstr :: "bytes \<Rightarrow> u32 \<Rightarrow> u8 list \<Rightarrow> bool" where
  "cstr m p [] \<longleftrightarrow> m p = 0"
| "cstr m p (c # s) \<longleftrightarrow> m p = c \<and> c \<noteq> 0 \<and> cstr m (p + 1) s"

definition span :: "u32 \<Rightarrow> nat \<Rightarrow> u32 set" where
  "span p n = {p + of_nat i | i. i < n}"

lemma span_Suc: "span p (Suc n) = insert p (span (p + 1) n)"
proof -
  have "(\<exists>i < Suc n. a = p + of_nat i) \<longleftrightarrow> a = p \<or> (\<exists>i < n. a = p + 1 + of_nat i)" for a :: u32
    by (subst Ex_less_Suc2) (simp add: algebra_simps)
  then show ?thesis by (auto simp: span_def)
qed

lemma span_0 [simp]: "span p 0 = {}"
  by (simp add: span_def)

lemma span_in: "i < n \<Longrightarrow> p + of_nat i \<in> span p n"
  by (auto simp: span_def)

lemma cstr_unique: "cstr m p s \<Longrightarrow> cstr m p t \<Longrightarrow> s = t"
proof (induction s arbitrary: p t)
  case Nil
  then show ?case by (cases t) auto
next
  case (Cons c s)
  then show ?case by (cases t) auto
qed

lemma cstr_cong:
  "(\<And>a. a \<in> span p (Suc (length s)) \<Longrightarrow> m' a = m a) \<Longrightarrow> cstr m' p s = cstr m p s"
proof (induction s arbitrary: p)
  case Nil
  then show ?case by (simp add: span_Suc)
next
  case (Cons c s)
  have "cstr m' (p + 1) s = cstr m (p + 1) s"
    by (rule Cons.IH) (simp add: Cons.prems span_Suc [of p])
  moreover have "m' p = m p" by (simp add: Cons.prems span_Suc)
  ultimately show ?case by simp
qed

lemma strlenLoop_cstr: "cstr m p s \<Longrightarrow> strlenLoop m p n = Some (n + of_nat (length s))"
proof (induction s arbitrary: p n)
  case Nil
  then show ?case by (simp add: strlenLoop.simps)
next
  case (Cons c s)
  then show ?case by (simp add: strlenLoop.simps [of m p])
qed

lemma stringEqualsLoop_cstr: "cstr m p s \<Longrightarrow> cstr m q t \<Longrightarrow> stringEqualsLoop m p q = Some (s = t)"
proof (induction s arbitrary: p q t)
  case Nil
  then show ?case by (cases t) (auto simp: stringEqualsLoop.simps)
next
  case (Cons c s)
  then show ?case by (cases t) (auto simp: stringEqualsLoop.simps [of m p])
qed

lemma memset_spec:
  "n \<le> 4294967296 \<Longrightarrow> foldl (\<lambda>m i. m(p + of_nat i := b)) m [0..<n] a = (if a \<in> span p n then b else m a)"
proof (induction n)
  case (Suc n)
  have "a \<in> span p (Suc n) \<longleftrightarrow> a \<in> span p n \<or> a = p + of_nat n"
    by (auto simp: span_def less_Suc_eq)
  with Suc show ?case by simp
qed simp

lemma memcpy_spec:
  assumes "n \<le> 4294967296" and "span p n \<inter> span q n = {}"
  shows "foldl (\<lambda>m i. m(q + of_nat i := m (p + of_nat i))) m [0..<n] a =
     (if a \<in> span q n then m (p + (a - q)) else m a)"
  using assms
proof (induction n arbitrary: a)
  case (Suc n)
  define f where "f = foldl (\<lambda>m i. m(q + of_nat i := m (p + of_nat i))) m [0..<n]"
  have ext: "span r (Suc n) = insert (r + of_nat n) (span r n)" for r
    by (auto simp: span_def less_Suc_eq)
  have IH: "f a = (if a \<in> span q n then m (p + (a - q)) else m a)" for a
    unfolding f_def by (rule Suc.IH) (use Suc.prems in \<open>auto simp: ext\<close>)
  have out: "p + of_nat n \<notin> span q n" using Suc.prems(2) by (auto simp: ext)
  have step: "foldl (\<lambda>m i. m(q + of_nat i := m (p + of_nat i))) m [0..<Suc n] = f(q + of_nat n := f (p + of_nat n))"
    by (simp add: f_def)
  show ?case unfolding step using out by (auto simp: IH ext)
qed simp

lemma appendLoop_spec:
  assumes "cstr m p s" and "span p (Suc (length s)) \<inter> span w (length s) = {}"
    and "length s < 4294967296"
  shows "\<exists>m'. appendLoop m p w = Some (m', w + of_nat (length s)) \<and> (\<forall>i < length s. m' (w + of_nat i) = s ! i) \<and>
    (\<forall>a. a \<notin> span w (length s) \<longrightarrow> m' a = m a)"
  using assms
proof (induction s arbitrary: m p w)
  case Nil
  then show ?case by (simp add: appendLoop.simps)
next
  case (Cons c s)
  let ?m = "m(w := c)"
  have w: "w \<notin> span p (Suc (Suc (length s)))" using Cons.prems(2) by (auto simp: span_Suc)
  have dis: "span (p + 1) (Suc (length s)) \<inter> span (w + 1) (length s) = {}"
    using Cons.prems(2) by (auto simp: span_Suc)
  have "cstr m (p + 1) s" using Cons.prems(1) by simp
  moreover have "w \<notin> span (p + 1) (Suc (length s))" using w by (simp add: span_Suc)
  ultimately have "cstr ?m (p + 1) s" using cstr_cong [of "p + 1" s ?m m] by force
  moreover have "length s < 4294967296" using Cons.prems(3) by simp
  ultimately obtain m' where
    m': "appendLoop ?m (p + 1) (w + 1) = Some (m', w + 1 + of_nat (length s))"
    "\<forall>i < length s. m' (w + 1 + of_nat i) = s ! i" "\<forall>a. a \<notin> span (w + 1) (length s) \<longrightarrow> m' a = ?m a"
    using Cons.IH [of ?m "p + 1" "w + 1"] dis by blast
  have "w \<notin> span (w + 1) (length s)"
  proof
    assume "w \<in> span (w + 1) (length s)"
    then obtain i where "i < length s" "w + of_nat 0 = w + of_nat (Suc i)" by (auto simp: span_def add_ac)
    then show False using Cons.prems(3) of_nat32_eq [of 0 "Suc i"] by (auto simp del: of_nat_Suc of_nat_0)
  qed
  then have "m' w = c" using m'(3) by simp
  then have "m' (w + of_nat i) = (c # s) ! i" if "i < length (c # s)" for i
    using m'(2) that by (cases i) (auto simp: add_ac)
  moreover have "appendLoop m p w = Some (m', w + of_nat (length (c # s)))"
    using Cons.prems(1) m'(1) by (simp add: appendLoop.simps [of m p] add_ac)
  moreover have "m' a = m a" if "a \<notin> span w (length (c # s))" for a
    using m'(3) that by (auto simp: span_Suc)
  ultimately show ?case by blast
qed

lemma cstr_I:
  "(\<And>i. i < length s \<Longrightarrow> m (p + of_nat i) = s ! i) \<Longrightarrow> m (p + of_nat (length s)) = 0 \<Longrightarrow> 0 \<notin> set s \<Longrightarrow> cstr m p s"
proof (induction s arbitrary: p)
  case (Cons c s)
  have "cstr m (p + 1) s"
  proof (rule Cons.IH)
    show "m (p + 1 + of_nat i) = s ! i" if "i < length s" for i
      using Cons.prems(1) [of "Suc i"] that by (simp add: add_ac)
  qed (use Cons.prems in \<open>simp_all add: add_ac\<close>)
  then show ?case using Cons.prems(1) [of 0] Cons.prems(3) by simp
qed simp

lemma cstr_no_zero: "cstr m p s \<Longrightarrow> 0 \<notin> set s"
  by (induction s arbitrary: p) auto

section \<open>Bytes in memory\<close>

fun bytes_at :: "bytes \<Rightarrow> u32 \<Rightarrow> u8 list \<Rightarrow> bool" where
  "bytes_at m p [] \<longleftrightarrow> True"
| "bytes_at m p (b # bs) \<longleftrightarrow> m p = b \<and> bytes_at m (p + 1) bs"

definition le16 :: "u16 \<Rightarrow> u8 list" where
  "le16 v = [ucast v, ucast (drop_bit 8 v)]"

definition le32 :: "u32 \<Rightarrow> u8 list" where
  "le32 v = [ucast v, ucast (drop_bit 8 v), ucast (drop_bit 16 v), ucast (drop_bit 24 v)]"

lemma bytes_at_append:
  "bytes_at m p (xs @ ys) \<longleftrightarrow> bytes_at m p xs \<and> bytes_at m (p + of_nat (length xs)) ys"
  by (induction xs arbitrary: p) (auto simp: add_ac)

lemma bytes_at_cong: "(\<And>a. a \<in> span p (length bs) \<Longrightarrow> m' a = m a) \<Longrightarrow> bytes_at m' p bs = bytes_at m p bs"
proof (induction bs arbitrary: p)
  case (Cons b bs)
  have "bytes_at m' (p + 1) bs = bytes_at m (p + 1) bs"
    by (rule Cons.IH) (simp add: Cons.prems span_Suc)
  then show ?case using Cons.prems by (simp add: span_Suc)
qed simp

lemma bytes_at_iff: "bytes_at m p bs \<longleftrightarrow> (\<forall>i < length bs. m (p + of_nat i) = bs ! i)"
proof (induction bs arbitrary: p)
  case (Cons b bs)
  have "(\<forall>i < Suc (length bs). m (p + of_nat i) = (b # bs) ! i) \<longleftrightarrow>
      m p = b \<and> (\<forall>i < length bs. m (p + of_nat (Suc i)) = bs ! i)"
    unfolding All_less_Suc2 by simp
  then show ?case using Cons.IH [of "p + 1"] by (simp add: add.assoc add.commute [of 1])
qed simp

lemma read16_le: "bytes_at m p (le16 v) \<Longrightarrow> read16 m p = v"
proof -
  assume "bytes_at m p (le16 v)"
  then have "m p = ucast v" "m (p + 1) = ucast (drop_bit 8 v)" by (simp_all add: le16_def)
  moreover have "ucast (ucast v :: u8) OR push_bit 8 (ucast (ucast (drop_bit 8 v) :: u8)) = v"
    by (auto simp: bit_eq_iff bit_simps)
  ultimately show ?thesis by (simp add: read16_def)
qed

lemma read32_le: "bytes_at m p (le32 v) \<Longrightarrow> read32 m p = v"
proof -
  assume "bytes_at m p (le32 v)"
  then have "m p = ucast v" "m (p + 1) = ucast (drop_bit 8 v)" "m (p + 2) = ucast (drop_bit 16 v)"
    "m (p + 3) = ucast (drop_bit 24 v)" by (simp_all add: le32_def add_ac)
  moreover have "ucast (ucast v :: u8) OR push_bit 8 (ucast (ucast (drop_bit 8 v) :: u8)) OR
      push_bit 16 (ucast (ucast (drop_bit 16 v) :: u8)) OR push_bit 24 (ucast (ucast (drop_bit 24 v) :: u8)) = v"
  proof (rule bit_word_eqI)
    fix n assume "n < LENGTH(32)"
    then consider "n < 8" | "8 \<le> n" "n < 16" | "16 \<le> n" "n < 24" | "24 \<le> n" "n < 32" by fastforce
    then show "bit ((ucast (ucast v :: u8) OR push_bit 8 (ucast (ucast (drop_bit 8 v) :: u8)) OR
      push_bit 16 (ucast (ucast (drop_bit 16 v) :: u8)) OR push_bit 24 (ucast (ucast (drop_bit 24 v) :: u8))) :: u32) n = bit v n"
      by cases (auto simp: bit_simps)
  qed
  ultimately show ?thesis by (simp add: read32_def)
qed

section \<open>Properties of the string functions\<close>

lemma strlen_cstr: "cstr m p s \<Longrightarrow> p \<noteq> 0 \<Longrightarrow> strlen m p = Some (of_nat (length s))"
  by (simp add: strlen_def strlenLoop_cstr)

lemma stringEquals_cstr: "cstr m p s \<Longrightarrow> cstr m q t \<Longrightarrow> stringEquals m p q = Some (s = t)"
  using cstr_unique by (auto simp: stringEquals_def stringEqualsLoop_cstr)

lemma combineStrings_spec:
  assumes s: "cstr m p s" and t: "cstr m q t" and pq: "p \<noteq> 0" "q \<noteq> 0"
    and al: "alloc h (of_nat (length s + length t + 1)) = Some (r, h')"
    and len: "length s + length t + 1 < 4294967296"
    and ps: "span p (Suc (length s)) \<inter> span r (length s + length t + 1) = {}"
    and qs: "span q (Suc (length t)) \<inter> span r (length s + length t + 1) = {}"
  shows "\<exists>m'. combineStrings alloc h m p q = Some (r, h', m') \<and> cstr m' r (s @ t) \<and>
    (\<forall>a. a \<notin> span r (length s + length t + 1) \<longrightarrow> m' a = m a)"
proof -
  have sub: "span r (length s) \<subseteq> span r (length s + length t + 1)"
    "span (r + of_nat (length s)) (length t) \<subseteq> span r (length s + length t + 1)"
    by (auto simp: span_def intro: exI [of _ "length s + _"])
  obtain m1 where m1: "appendLoop m p r = Some (m1, r + of_nat (length s))" "\<forall>i < length s. m1 (r + of_nat i) = s ! i"
    "\<forall>a. a \<notin> span r (length s) \<longrightarrow> m1 a = m a"
    using appendLoop_spec [OF s, of r] ps sub(1) len by auto
  let ?w = "r + of_nat (length s)"
  have "cstr m1 q t" using cstr_cong [of q t m1 m] t m1(3) qs sub(1) by blast
  then obtain m2 where m2: "appendLoop m1 q ?w = Some (m2, ?w + of_nat (length t))" "\<forall>i < length t. m2 (?w + of_nat i) = t ! i"
    "\<forall>a. a \<notin> span ?w (length t) \<longrightarrow> m2 a = m1 a"
    using appendLoop_spec [of m1 q t ?w] qs sub(2) len by auto
  let ?e = "?w + of_nat (length t)"
  define m' where "m' = m2(?e := 0)"
  have e: "?e = r + of_nat (length s + length t)" by (simp add: add_ac)
  have at: "m' (r + of_nat i) = (s @ t) ! i" if "i < length s + length t" for i
  proof -
    have ne: "r + of_nat i \<noteq> ?e" using that len of_nat32_eq [of i "length s + length t"] by (auto simp: e)
    show ?thesis
    proof (cases "i < length s")
      case True
      have "r + of_nat i \<notin> span ?w (length t)"
      proof
        assume "r + of_nat i \<in> span ?w (length t)"
        then obtain j where "j < length t" "(of_nat i :: u32) = of_nat (length s + j)" by (auto simp: span_def)
        then show False using True len of_nat32_eq [of i "length s + j"] by auto
      qed
      then show ?thesis using m1(2) m2(3) True ne by (simp add: m'_def nth_append)
    next
      case False
      then have "i - length s < length t" and w: "?w + of_nat (i - length s) = r + of_nat i"
        using that by (simp_all add: of_nat_diff)
      from m2(2) this(1) have "m2 (r + of_nat i) = t ! (i - length s)" unfolding w [symmetric] by blast
      then show ?thesis using False ne by (simp add: m'_def nth_append)
    qed
  qed
  have "cstr m' r (s @ t)"
    by (rule cstr_I) (use at cstr_no_zero [OF s] cstr_no_zero [OF t] in \<open>auto simp: m'_def add_ac\<close>)
  moreover have "combineStrings alloc h m p q = Some (r, h', m')"
    using al m1(1) m2(1) by (simp add: combineStrings_def strlen_cstr [OF s pq(1)] strlen_cstr [OF t pq(2)] m'_def add_ac)
  moreover have "m' a = m a" if "a \<notin> span r (length s + length t + 1)" for a
  proof -
    have "a \<notin> span r (length s)" "a \<notin> span ?w (length t)" "a \<noteq> ?e"
      using that sub span_in [of "length s + length t" "length s + length t + 1" r] by (auto simp: e)
    then show ?thesis using m1(3) m2(3) by (simp add: m'_def)
  qed
  ultimately show ?thesis by blast
qed

text \<open>
  On zero-terminated strings \<open>strlen\<close> returns the length and \<open>stringEquals\<close> decides equality; on the
  null pointer \<open>strlen\<close> answers zero.
\<close>

theorem string_functions_correct:
  assumes "cstr m p s" and "cstr m q t" and "p \<noteq> 0" and "length s < 2 ^ 32"
  shows "map_option unat (strlen m p) = Some (length s) \<and> stringEquals m p q = Some (s = t) \<and> strlen m 0 = Some 0"
  using strlen_cstr [OF assms(1,3)] stringEquals_cstr [OF assms(1,2)] assms(4) by (simp add: strlen_def)

theorem string_functions_correct_witness:
  "let m = (\<lambda>_. 0)(1 := 104, 2 := 105, 11 := 104, 12 := 111)
   in map_option unat (strlen m 1) = Some (Suc 1) \<and> stringEquals m 1 11 = Some False"
proof -
  let ?m = "(\<lambda>_. 0)(1 := 104, 2 := 105, 11 := 104, 12 := 111) :: bytes"
  have "cstr ?m 1 [104, 105]" "cstr ?m 11 [104, 111]" by simp_all
  from string_functions_correct [OF this] show ?thesis by (simp add: Let_def)
qed

text \<open>
  \<open>combineStrings\<close> returns the concatenation in the memory it allocated and changes nothing else,
  provided the allocated bytes do not overlap the arguments.
\<close>

theorem combineStrings_concatenates:
  assumes "cstr m p s" and "cstr m q t" and "p \<noteq> 0" and "q \<noteq> 0"
    and "alloc h (of_nat (length s + length t + 1)) = Some (r, h')" and "length s + length t + 1 < 2 ^ 32"
    and "span p (Suc (length s)) \<inter> span r (length s + length t + 1) = {}"
    and "span q (Suc (length t)) \<inter> span r (length s + length t + 1) = {}"
  shows "\<exists>m'. combineStrings alloc h m p q = Some (r, h', m') \<and> cstr m' r (s @ t) \<and>
    (\<forall>a. a \<notin> span r (length s + length t + 1) \<longrightarrow> m' a = m a)"
  using combineStrings_spec [where alloc = alloc, OF assms(1-5) _ assms(7,8)] assms(6) by simp

theorem combineStrings_concatenates_witness:
  "\<exists>m'. combineStrings (\<lambda>h n. Some (0x100, h)) () ((\<lambda>_. 0)(1 := 104, 11 := 105)) 1 11 = Some (0x100, (), m') \<and>
     cstr m' 0x100 [104, 105]"
proof -
  let ?m = "(\<lambda>_. 0)(1 := 104, 11 := 105) :: bytes"
  have "cstr ?m 1 [104]" "cstr ?m 11 [105]" by simp_all
  from combineStrings_concatenates [OF this, of "\<lambda>h n. Some (0x100, h)" "()" "0x100" "()"] show ?thesis
    by (auto simp: span_Suc)
qed

text \<open>
  \<open>memcpy\<close> between ranges that do not overlap copies the bytes and changes nothing else; \<open>memset\<close>
  fills exactly its range.
\<close>

theorem memcpy_memset_exact:
  assumes "span source (unat n) \<inter> span destination (unat n) = {}"
  shows "memcpy m source destination n a =
      (if a \<in> span destination (unat n) then m (source + (a - destination)) else m a) \<and>
     memset m target b n a = (if a \<in> span target (unat n) then b else m a)"
proof -
  have "unat n \<le> 4294967296" using unat_u32_bound [of n] by linarith
  from memcpy_spec [OF this assms] memset_spec [OF this] show ?thesis
    unfolding memcpy_def memset_def by (intro conjI)
qed

theorem memcpy_memset_exact_witness:
  "memcpy ((\<lambda>_. 0)(4 := 9)) 4 8 1 8 = 9 \<and> memset (\<lambda>_. 0) 8 7 1 8 = (7 :: u8)"
  using memcpy_memset_exact [of 4 1 8 "(\<lambda>_. 0)(4 := 9)" 8] memcpy_memset_exact [of 4 1 8 "\<lambda>_. 0" 8 8 7]
  by (simp add: span_Suc)

end
