(* ===== verification/MsgPack.thy ===== *)
theory MsgPack
  imports Strings
begin

text \<open>
  The MessagePack library of \<open>hlib\<close> (\<open>hlib/msgPack\<close> and \<open>include/msgpack.h\<close>), with which the services
  describe data to each other: the table of formats, the functions that compute the length of an
  encoding, write it and read it, and those that walk over encoded data. Multi-byte numbers are stored
  little endian, as the processor stores them. Messages printed on errors are left out, the values
  returned are not.
\<close>

section \<open>The formats\<close>

datatype ReadTypes = Inline | InlineLength | FixedLength | ReadLength | ElementsInline | ReadElements

datatype IntegerType = Signed | Unsigned

datatype DataTypes = TYPE_INTEGER | TYPE_NIL | TYPE_BOOLEAN | TYPE_FLOAT | TYPE_STRING | TYPE_BINARY |
  TYPE_ARRAY | TYPE_MAP | TYPE_EXTENSION | TYPE_UNUSED

datatype Formats =
  FORMAT_POSITIVE_FIXINT | FORMAT_FIXMAP | FORMAT_FIXARRAY | FORMAT_FIXSTR | FORMAT_NIL | FORMAT_UNUSED |
  FORMAT_FIXBOOL | FORMAT_BIN8 | FORMAT_BIN16 | FORMAT_BIN32 | FORMAT_EXT8 | FORMAT_EXT16 |
  FORMAT_EXT32 | FORMAT_FLOAT32 | FORMAT_FLOAT64 | FORMAT_UINT8 | FORMAT_UINT16 | FORMAT_UINT32 |
  FORMAT_UINT64 | FORMAT_INT8 | FORMAT_INT16 | FORMAT_INT32 | FORMAT_INT64 | FORMAT_FIXEXT1 |
  FORMAT_FIXEXT2 | FORMAT_FIXEXT4 | FORMAT_FIXEXT8 | FORMAT_FIXEXT16 | FORMAT_STR8 | FORMAT_STR16 |
  FORMAT_STR32 | FORMAT_ARRAY16 | FORMAT_ARRAY32 | FORMAT_MAP16 | FORMAT_MAP32 | FORMAT_NEGATIVE_FIXINT

record FormatInfo =
  formatName :: string
  dataType :: DataTypes
  readType :: ReadTypes
  readTypeParameter :: u32
  fmin :: u8
  fmax :: u8

definition mkInfo :: "string \<Rightarrow> DataTypes \<Rightarrow> ReadTypes \<Rightarrow> u32 \<Rightarrow> u8 \<Rightarrow> u8 \<Rightarrow> FormatInfo" where
  "mkInfo name t r parameter low high = \<lparr>formatName = name, dataType = t, readType = r, readTypeParameter = parameter,
     fmin = low, fmax = high\<rparr>"

fun formatInfo :: "Formats \<Rightarrow> FormatInfo" where
  "formatInfo FORMAT_POSITIVE_FIXINT = mkInfo ''POSITIVE_FIXINT'' TYPE_INTEGER Inline (- 7) 0x0 0x7F"
| "formatInfo FORMAT_FIXMAP = mkInfo ''FIXMAP'' TYPE_MAP ElementsInline (- 4) 0x80 0x8F"
| "formatInfo FORMAT_FIXARRAY = mkInfo ''FIXARRAY'' TYPE_ARRAY ElementsInline (- 4) 0x90 0x9F"
| "formatInfo FORMAT_FIXSTR = mkInfo ''FIXSTR'' TYPE_STRING InlineLength (- 5) 0xA0 0xBF"
| "formatInfo FORMAT_NIL = mkInfo ''NIL'' TYPE_NIL Inline 0 0xC0 0xC0"
| "formatInfo FORMAT_UNUSED = mkInfo ''UNUSED'' TYPE_UNUSED Inline 0 0xC1 0xC1"
| "formatInfo FORMAT_FIXBOOL = mkInfo ''FIXBOOL'' TYPE_BOOLEAN Inline (- 1) 0xC2 0xC3"
| "formatInfo FORMAT_BIN8 = mkInfo ''BIN8'' TYPE_BINARY ReadLength 1 0xC4 0xC4"
| "formatInfo FORMAT_BIN16 = mkInfo ''BIN16'' TYPE_BINARY ReadLength 2 0xC5 0xC5"
| "formatInfo FORMAT_BIN32 = mkInfo ''BIN32'' TYPE_BINARY ReadLength 4 0xC6 0xC6"
| "formatInfo FORMAT_EXT8 = mkInfo ''EXT8'' TYPE_EXTENSION ReadLength 1 0xC7 0xC7"
| "formatInfo FORMAT_EXT16 = mkInfo ''EXT16'' TYPE_EXTENSION ReadLength 2 0xC8 0xC8"
| "formatInfo FORMAT_EXT32 = mkInfo ''EXT32'' TYPE_EXTENSION ReadLength 4 0xC9 0xC9"
| "formatInfo FORMAT_FLOAT32 = mkInfo ''FLOAT32'' TYPE_FLOAT FixedLength 4 0xCA 0xCA"
| "formatInfo FORMAT_FLOAT64 = mkInfo ''FLOAT64'' TYPE_FLOAT FixedLength 8 0xCB 0xCB"
| "formatInfo FORMAT_UINT8 = mkInfo ''UINT8'' TYPE_INTEGER FixedLength 1 0xCC 0xCC"
| "formatInfo FORMAT_UINT16 = mkInfo ''UINT16'' TYPE_INTEGER FixedLength 2 0xCD 0xCD"
| "formatInfo FORMAT_UINT32 = mkInfo ''UINT32'' TYPE_INTEGER FixedLength 4 0xCE 0xCE"
| "formatInfo FORMAT_UINT64 = mkInfo ''UINT64'' TYPE_INTEGER FixedLength 8 0xCF 0xCF"
| "formatInfo FORMAT_INT8 = mkInfo ''INT8'' TYPE_INTEGER FixedLength 1 0xD0 0xD0"
| "formatInfo FORMAT_INT16 = mkInfo ''INT16'' TYPE_INTEGER FixedLength 2 0xD1 0xD1"
| "formatInfo FORMAT_INT32 = mkInfo ''INT32'' TYPE_INTEGER FixedLength 4 0xD2 0xD2"
| "formatInfo FORMAT_INT64 = mkInfo ''INT64'' TYPE_INTEGER FixedLength 8 0xD3 0xD3"
| "formatInfo FORMAT_FIXEXT1 = mkInfo ''FIXEXT1'' TYPE_EXTENSION FixedLength 1 0xD4 0xD4"
| "formatInfo FORMAT_FIXEXT2 = mkInfo ''FIXEXT2'' TYPE_EXTENSION FixedLength 2 0xD5 0xD5"
| "formatInfo FORMAT_FIXEXT4 = mkInfo ''FIXEXT4'' TYPE_EXTENSION FixedLength 4 0xD6 0xD6"
| "formatInfo FORMAT_FIXEXT8 = mkInfo ''FIXEXT8'' TYPE_EXTENSION FixedLength 8 0xD7 0xD7"
| "formatInfo FORMAT_FIXEXT16 = mkInfo ''FIXEXT16'' TYPE_EXTENSION FixedLength 16 0xD8 0xD8"
| "formatInfo FORMAT_STR8 = mkInfo ''STR8'' TYPE_STRING ReadLength 1 0xD9 0xD9"
| "formatInfo FORMAT_STR16 = mkInfo ''STR16'' TYPE_STRING ReadLength 2 0xDA 0xDA"
| "formatInfo FORMAT_STR32 = mkInfo ''STR32'' TYPE_STRING ReadLength 4 0xDB 0xDB"
| "formatInfo FORMAT_ARRAY16 = mkInfo ''ARRAY16'' TYPE_ARRAY ReadElements 2 0xDC 0xDC"
| "formatInfo FORMAT_ARRAY32 = mkInfo ''ARRAY32'' TYPE_ARRAY ReadElements 4 0xDD 0xDD"
| "formatInfo FORMAT_MAP16 = mkInfo ''MAP16'' TYPE_MAP ReadElements 2 0xDE 0xDE"
| "formatInfo FORMAT_MAP32 = mkInfo ''MAP32'' TYPE_MAP ReadElements 4 0xDF 0xDF"
| "formatInfo FORMAT_NEGATIVE_FIXINT = mkInfo ''NEGATIVE_FIXINT'' TYPE_INTEGER Inline (- 5) 0xE0 0xFF"

text \<open>The formats in the order of the enumeration.\<close>

definition formats :: "Formats list" where
  "formats = [FORMAT_POSITIVE_FIXINT, FORMAT_FIXMAP, FORMAT_FIXARRAY, FORMAT_FIXSTR, FORMAT_NIL, FORMAT_UNUSED,
   FORMAT_FIXBOOL, FORMAT_BIN8, FORMAT_BIN16, FORMAT_BIN32, FORMAT_EXT8, FORMAT_EXT16,
   FORMAT_EXT32, FORMAT_FLOAT32, FORMAT_FLOAT64, FORMAT_UINT8, FORMAT_UINT16, FORMAT_UINT32,
   FORMAT_UINT64, FORMAT_INT8, FORMAT_INT16, FORMAT_INT32, FORMAT_INT64, FORMAT_FIXEXT1,
   FORMAT_FIXEXT2, FORMAT_FIXEXT4, FORMAT_FIXEXT8, FORMAT_FIXEXT16, FORMAT_STR8, FORMAT_STR16,
   FORMAT_STR32, FORMAT_ARRAY16, FORMAT_ARRAY32, FORMAT_MAP16, FORMAT_MAP32, FORMAT_NEGATIVE_FIXINT]"

definition formatIndex :: "Formats \<Rightarrow> nat" where
  "formatIndex f = length (takeWhile (\<lambda>g. g \<noteq> f) formats)"

text \<open>
  \<open>FirstByteToFormat\<close> as \<open>initializeFlatBuffers\<close> fills it: one call of \<open>fillSpots\<close> per format, in order.
  The table starts as zeros, the number of the first format.
\<close>

definition fillSpots :: "(nat \<Rightarrow> Formats) \<Rightarrow> nat \<Rightarrow> nat \<Rightarrow> Formats \<Rightarrow> nat \<Rightarrow> Formats" where
  "fillSpots table from to f = foldl (\<lambda>t i. t(i := f)) table [from..<Suc to]"

definition initializeFlatBuffers :: "(nat \<Rightarrow> Formats) \<Rightarrow> nat \<Rightarrow> Formats" where
  "initializeFlatBuffers table =
     foldl (\<lambda>t f. fillSpots t (unat (fmin (formatInfo f))) (unat (fmax (formatInfo f))) f) table formats"

definition FirstByteToFormat :: "u8 \<Rightarrow> Formats" where
  "FirstByteToFormat b = initializeFlatBuffers (\<lambda>_. FORMAT_POSITIVE_FIXINT) (unat b)"

abbreviation infoAt :: "bytes \<Rightarrow> u32 \<Rightarrow> FormatInfo" where
  "infoAt m data \<equiv> formatInfo (FirstByteToFormat (m data))"

section \<open>The table of first bytes\<close>

definition in_range :: "nat \<Rightarrow> Formats \<Rightarrow> bool" where
  "in_range i f \<longleftrightarrow> unat (fmin (formatInfo f)) \<le> i \<and> i \<le> unat (fmax (formatInfo f))"

lemma fillSpots_apply: "fillSpots t a b f i = (if a \<le> i \<and> i \<le> b then f else t i)"
proof -
  have "foldl (\<lambda>t i. t(i := f)) t [a..<n] i = (if a \<le> i \<and> i < n then f else t i)" for n
  proof (induction n)
    case (Suc n)
    have "[a..<Suc n] = (if a \<le> n then [a..<n] @ [n] else [])" by simp
    then show ?case using Suc by auto
  qed simp
  then show ?thesis by (auto simp: fillSpots_def less_Suc_eq_le)
qed

lemma fill_all:
  "foldl (\<lambda>t f. fillSpots t (unat (fmin (formatInfo f))) (unat (fmax (formatInfo f))) f) t fs i =
     (case find (in_range i) (rev fs) of Some f \<Rightarrow> f | None \<Rightarrow> t i)"
proof (induction fs rule: rev_induct)
  case (snoc f fs)
  then show ?case by (simp add: fillSpots_apply in_range_def)
qed simp

lemma first_byte_find: "FirstByteToFormat b =
    (case find (in_range (unat b)) (rev formats) of Some f \<Rightarrow> f | None \<Rightarrow> FORMAT_POSITIVE_FIXINT)"
  by (simp add: FirstByteToFormat_def initializeFlatBuffers_def fill_all)

text \<open>The ranges follow each other without gap or overlap.\<close>

fun contiguous :: "nat \<Rightarrow> Formats list \<Rightarrow> nat \<Rightarrow> bool" where
  "contiguous lo [] hi \<longleftrightarrow> lo = hi"
| "contiguous lo (f # fs) hi \<longleftrightarrow> unat (fmin (formatInfo f)) = lo \<and> lo \<le> unat (fmax (formatInfo f)) \<and>
     contiguous (Suc (unat (fmax (formatInfo f)))) fs hi"

lemma formats_contiguous: "contiguous 0 formats 256"
  by (simp add: formats_def mkInfo_def)

lemma contiguous_bounds: "contiguous lo fs hi \<Longrightarrow> f \<in> set fs \<Longrightarrow> in_range i f \<Longrightarrow> lo \<le> i \<and> i < hi"
proof (induction lo fs hi rule: contiguous.induct)
  case (2 lo g fs hi)
  have "lo \<le> hi" if "contiguous lo fs hi" for lo fs
    using that by (induction lo fs hi rule: contiguous.induct) auto
  with 2 show ?case by (fastforce simp: in_range_def)
qed simp

lemma contiguous_covers: "contiguous lo fs hi \<Longrightarrow> lo \<le> i \<Longrightarrow> i < hi \<Longrightarrow> \<exists>f \<in> set fs. in_range i f"
proof (induction lo fs hi rule: contiguous.induct)
  case (2 lo g fs hi)
  show ?case
  proof (cases "i \<le> unat (fmax (formatInfo g))")
    case True
    with 2 show ?thesis by (simp add: in_range_def)
  next
    case False
    with 2 show ?thesis by simp
  qed
qed simp

lemma contiguous_unique:
  "contiguous lo fs hi \<Longrightarrow> f \<in> set fs \<Longrightarrow> g \<in> set fs \<Longrightarrow> in_range i f \<Longrightarrow> in_range i g \<Longrightarrow> f = g"
proof (induction lo fs hi rule: contiguous.induct)
  case (2 lo h fs hi)
  have "Suc (unat (fmax (formatInfo h))) \<le> i" if "x \<in> set fs" "in_range i x" for x
    using contiguous_bounds [of "Suc (unat (fmax (formatInfo h)))" fs hi x i] 2(2) that by simp
  with 2 show ?case by (fastforce simp: in_range_def)
qed simp

lemma all_formats: "f \<in> set formats"
  by (cases f) (simp_all add: formats_def)

lemma first_byte_iff: "FirstByteToFormat b = f \<longleftrightarrow> in_range (unat b) f"
proof -
  have lt: "unat b < 256" using unsigned_less [of b] by simp
  obtain g where g: "in_range (unat b) g" using contiguous_covers [OF formats_contiguous _ lt] by auto
  then have ex: "find (in_range (unat b)) (rev formats) \<noteq> None"
    using all_formats [of g] by (auto simp: find_None_iff)
  then obtain h where h: "find (in_range (unat b)) (rev formats) = Some h" by blast
  then have "in_range (unat b) h" by (auto simp: find_Some_iff)
  then show ?thesis
    using contiguous_unique [OF formats_contiguous all_formats all_formats] h by (auto simp: first_byte_find)
qed

section \<open>Lengths\<close>

text \<open>The macro \<open>ABS\<close> on an \<open>int32_t\<close>; the negation of the least value wraps around.\<close>

definition ABS :: "u32 \<Rightarrow> u32" where
  "ABS x = (if sint x \<ge> 0 then x else - x)"

text \<open>
  \<open>msgPackIntegerLength\<close>. The last comparison is between unsigned numbers and always holds, so 9 is never
  returned. The type is not used.
\<close>

definition msgPackIntegerLength :: "u32 \<Rightarrow> IntegerType \<Rightarrow> u32" where
  "msgPackIntegerLength x integerType =
     (if x AND 0x7F = x \<or> NOT x AND 0x1F = NOT x then 1
      else let x = ABS x in
        if x AND 0xFF = x then 2
        else if x AND 0xFFFF = x then 3
        else if x AND 0xFFFFFFFF = x then 5
        else 9)"

definition msgPackStringLength :: "u32 \<Rightarrow> u32" where
  "msgPackStringLength n =
     (if n AND 0x1F = n then 1 + n
      else if n AND 0xFF = n then 2 + n
      else if n AND 0xFFFF = n then 3 + n
      else 5 + n)"

definition msgPackArrayLength :: "u32 \<Rightarrow> u32" where
  "msgPackArrayLength elementCount =
     (if elementCount AND readTypeParameter (formatInfo FORMAT_FIXARRAY) = elementCount then 1
      else if ucast (ucast elementCount :: u16) = elementCount then 3
      else 5)"

definition msgPackMapLength :: "u32 \<Rightarrow> u32" where
  "msgPackMapLength elementCount =
     (if elementCount mod 2 \<noteq> 0 then 0 else msgPackArrayLength (elementCount div 2))"

section \<open>Writing\<close>

text \<open>
  The writing functions return the position behind the encoding and the new memory. In
  \<open>msgPackIntegerWrite\<close> the comparison \<open>(uint32_t)x == x\<close> is made on unsigned numbers and always holds,
  so the branch for \<open>INT32\<close> is never reached.
\<close>

definition msgPackIntegerWrite :: "bytes \<Rightarrow> u32 \<Rightarrow> u32 \<Rightarrow> IntegerType \<Rightarrow> u32 \<times> bytes" where
  "msgPackIntegerWrite m buffer x type =
     (if sint x < 0 \<and> type \<noteq> Signed
      then (buffer + 5, write32 (m(buffer := fmin (formatInfo FORMAT_UINT32))) (buffer + 1) x)
      else if x AND 0x7F = x then (buffer + 1, m(buffer := ucast x))
      else if NOT x AND 0x1F = NOT x then (buffer + 1, m(buffer := ucast x))
      else if ucast (ucast x :: u8) = x
      then (buffer + 2, m(buffer := fmin (formatInfo FORMAT_UINT8), buffer + 1 := ucast x))
      else if scast (ucast x :: u8) = x
      then (buffer + 2, m(buffer := fmin (formatInfo FORMAT_INT8), buffer + 1 := ucast x))
      else if ucast (ucast x :: u16) = x
      then (buffer + 3, write16 (m(buffer := fmin (formatInfo FORMAT_UINT16))) (buffer + 1) (ucast x))
      else if scast (ucast x :: u16) = x
      then (buffer + 3, write16 (m(buffer := fmin (formatInfo FORMAT_INT16))) (buffer + 1) (ucast x))
      else if x = x
      then (buffer + 5, write32 (m(buffer := fmin (formatInfo FORMAT_UINT32))) (buffer + 1) x)
      else (buffer + 5, write32 (m(buffer := fmin (formatInfo FORMAT_INT32))) (buffer + 1) x))"

definition msgPackStringWrite :: "bytes \<Rightarrow> u32 \<Rightarrow> u32 \<Rightarrow> (u32 \<times> bytes) option" where
  "msgPackStringWrite m buffer string = do {
     length \<leftarrow> strlen m string;
     let (buffer, m) =
       (if length AND 0x1F = length
        then (buffer + 1, m(buffer := fmin (formatInfo FORMAT_FIXSTR) + ucast length))
        else if length AND 0xFF = length
        then (buffer + 2, m(buffer := fmin (formatInfo FORMAT_STR8), buffer + 1 := ucast length))
        else if length AND 0xFFFF = length
        then (buffer + 3, write16 (m(buffer := fmin (formatInfo FORMAT_STR16))) (buffer + 1) (ucast length))
        else (buffer + 5, write32 (m(buffer := fmin (formatInfo FORMAT_STR32))) (buffer + 1) length));
     Some (buffer + length, memcpy m string buffer length)
   }"

definition msgPackArrayWrite :: "bytes \<Rightarrow> u32 \<Rightarrow> u32 \<Rightarrow> u32 \<times> bytes" where
  "msgPackArrayWrite m buffer elementCount =
     (if elementCount AND 0xF = elementCount
      then (buffer + 1, m(buffer := fmin (formatInfo FORMAT_FIXARRAY) + ucast elementCount))
      else if ucast (ucast elementCount :: u16) = elementCount
      then (buffer + 3, write16 (m(buffer := fmin (formatInfo FORMAT_ARRAY16))) (buffer + 1) (ucast elementCount))
      else (buffer + 5, write32 (m(buffer := fmin (formatInfo FORMAT_ARRAY32))) (buffer + 1) elementCount))"

definition msgPackMapWrite :: "bytes \<Rightarrow> u32 \<Rightarrow> u32 \<Rightarrow> u32 \<times> bytes" where
  "msgPackMapWrite m buffer elementCount =
     (if elementCount mod 2 \<noteq> 0 then (buffer, m)
      else let elementCount = drop_bit 1 elementCount in
        if elementCount AND 0x0F = elementCount
        then (buffer + 1, m(buffer := fmin (formatInfo FORMAT_FIXMAP) + ucast elementCount))
        else if elementCount AND 0xFFFF = elementCount
        then (buffer + 3, write16 (m(buffer := fmin (formatInfo FORMAT_MAP16))) (buffer + 1) (ucast elementCount))
        else (buffer + 5, write32 (m(buffer := fmin (formatInfo FORMAT_MAP32))) (buffer + 1) elementCount))"

section \<open>Reading\<close>

text \<open>
  \<open>msgPackReadLength\<close>: the parameter is an \<open>int8_t\<close>; negative values ask for the lowest bits of the first
  byte. Sizes other than 1, 2 and 4 give zero.
\<close>

definition msgPackReadLength :: "bytes \<Rightarrow> u32 \<Rightarrow> u8 \<Rightarrow> u32" where
  "msgPackReadLength m data count =
     (if sint count < 0 then ucast (m data) AND (onebit (nat (- sint count)) - 1)
      else if count = 1 then ucast (m (data + 1))
      else if count = 2 then ucast (read16 m (data + 1))
      else if count = 4 then read32 m (data + 1)
      else 0)"

definition lengthAt :: "bytes \<Rightarrow> u32 \<Rightarrow> u32" where
  "lengthAt m data = msgPackReadLength m data (ucast (readTypeParameter (infoAt m data)))"

text \<open>\<open>msgPackReadInt\<close>: the result is an \<open>intmax_t\<close>, wide enough for every value read.\<close>

definition msgPackReadInt :: "bytes \<Rightarrow> u32 \<Rightarrow> int" where
  "msgPackReadInt m data =
     (let format = FirstByteToFormat (m data); info = formatInfo format in
      if dataType info \<noteq> TYPE_INTEGER then 0
      else if formatIndex format < formatIndex FORMAT_INT8
      then (if format = FORMAT_POSITIVE_FIXINT
            then uint (m data AND (push_bit (unat (- readTypeParameter info)) 1 - 1))
            else if format = FORMAT_UINT8 then uint (m (data + 1))
            else if format = FORMAT_UINT16 then uint (read16 m (data + 1))
            else if format = FORMAT_UINT32 then uint (read32 m (data + 1))
            else 0)
      else if format = FORMAT_NEGATIVE_FIXINT then sint (m data)
      else if format = FORMAT_INT8 then sint (m data)
      else if format = FORMAT_INT16 then sint (read16 m (data + 1))
      else if format = FORMAT_INT32 then sint (read32 m (data + 1))
      else 0)"

definition msgPackReadUint :: "bytes \<Rightarrow> u32 \<Rightarrow> int" where
  "msgPackReadUint m data = (if msgPackReadInt m data < 0 then 0 else msgPackReadInt m data)"

text \<open>
  The sizes of containers. The second component is the value stored through \<open>firstElement\<close>; it is not
  stored when the data is no container of that kind.
\<close>

definition msgPackReadArraySize :: "bytes \<Rightarrow> u32 \<Rightarrow> u32 \<times> u32 option" where
  "msgPackReadArraySize m data =
     (let format = FirstByteToFormat (m data) in
      if dataType (formatInfo format) \<noteq> TYPE_ARRAY then (0, None)
      else (lengthAt m data,
            if format = FORMAT_FIXARRAY then Some (data + 1)
            else if format = FORMAT_ARRAY16 then Some (data + 3)
            else if format = FORMAT_ARRAY32 then Some (data + 5)
            else None))"

definition msgPackReadMapSize :: "bytes \<Rightarrow> u32 \<Rightarrow> u32 \<times> u32 option" where
  "msgPackReadMapSize m data =
     (let format = FirstByteToFormat (m data) in
      if dataType (formatInfo format) \<noteq> TYPE_MAP then (0, None)
      else (lengthAt m data,
            if format = FORMAT_FIXMAP then Some (data + 1)
            else if format = FORMAT_MAP16 then Some (data + 3)
            else if format = FORMAT_MAP32 then Some (data + 5)
            else None))"

text \<open>\<open>msgPackReadStr\<close> copies the string into fresh memory; for data that is no string it returns null.\<close>

definition msgPackReadStr ::
  "('s \<Rightarrow> u32 \<Rightarrow> (u32 \<times> 's) option) \<Rightarrow> 's \<Rightarrow> bytes \<Rightarrow> u32 \<Rightarrow> (u32 \<times> 's \<times> bytes) option" where
  "msgPackReadStr alloc h m data =
     (let format = FirstByteToFormat (m data) in
      if dataType (formatInfo format) \<noteq> TYPE_STRING then Some (0, h, m)
      else do {
        let offset = (if format = FORMAT_FIXSTR then 1 else if format = FORMAT_STR8 then 2
                      else if format = FORMAT_STR16 then 3 else 5);
        let length = lengthAt m data;
        (str, h) \<leftarrow> alloc h (length + 1);
        let m = memcpy m (data + offset) str length;
        Some (str, h, m(str + length := 0))
      })"

section \<open>Walking over encoded data\<close>

text \<open>
  \<open>seekHead m data\<close> is the part of \<open>msgPackSeek\<close> before its loop: whether the data is a container, the
  position behind the value or of the first element, and the number of elements to skip.
\<close>

definition seekHead :: "bytes \<Rightarrow> u32 \<Rightarrow> bool \<times> u32 \<times> u32" where
  "seekHead m data =
     (let info = infoAt m data; length = lengthAt m data;
          length = (if dataType info = TYPE_MAP then length * 2 else length) in
      case readType info of
        Inline \<Rightarrow> (False, data + 1, 0)
      | FixedLength \<Rightarrow> (False, data + 1 + readTypeParameter info, 0)
      | ReadLength \<Rightarrow> (False, data + 1 + readTypeParameter info + length, 0)
      | InlineLength \<Rightarrow> (False, data + 1 + length, 0)
      | ElementsInline \<Rightarrow> (True, data + 1, length)
      | ReadElements \<Rightarrow> (True, data + 1 + readTypeParameter info, length))"

text \<open>
  The loop of \<open>msgPackSeek\<close> with its recursive calls. The counter is a \<open>uint8_t\<close>: with 256 or more elements
  it wraps around before it reaches the bound.
\<close>

partial_function (option) seekElements :: "bytes \<Rightarrow> u32 \<Rightarrow> u8 \<Rightarrow> u32 \<Rightarrow> u32 option" where
  "seekElements m data i count =
     (if ucast i < count then do {
        let head = seekHead m data;
        data \<leftarrow> (if fst head then seekElements m (fst (snd head)) 0 (snd (snd head)) else Some (fst (snd head)));
        seekElements m data (i + 1) count
      } else Some data)"

definition msgPackSeek :: "bytes \<Rightarrow> u32 \<Rightarrow> u32 option" where
  "msgPackSeek m data =
     (let head = seekHead m data in
      if fst head then seekElements m (fst (snd head)) 0 (snd (snd head)) else Some (fst (snd head)))"

text \<open>
  The loop of \<open>msgPackMapGetFromInt\<close> over the remaining pairs. A key that is no integer is skipped with its
  value inside the same round, so the round goes on with the next pair whatever the count says. The
  comparison is between unsigned 64-bit numbers.
\<close>

primrec mapGetFromIntLoop :: "bytes \<Rightarrow> u32 \<Rightarrow> u64 \<Rightarrow> nat \<Rightarrow> u32 option" where
  "mapGetFromIntLoop m element searchValue 0 = Some 0"
| "mapGetFromIntLoop m element searchValue (Suc n) = do {
     element \<leftarrow> (if dataType (infoAt m element) \<noteq> TYPE_INTEGER then do {
                    element \<leftarrow> msgPackSeek m element;
                    msgPackSeek m element
                  } else Some element);
     if of_int (msgPackReadInt m element) = searchValue then msgPackSeek m element
     else do {
       element \<leftarrow> msgPackSeek m element;
       element \<leftarrow> msgPackSeek m element;
       mapGetFromIntLoop m element searchValue n
     }
   }"

definition msgPackMapGetFromInt :: "bytes \<Rightarrow> u32 \<Rightarrow> u64 \<Rightarrow> u32 option" where
  "msgPackMapGetFromInt m data searchValue =
     (if dataType (infoAt m data) \<noteq> TYPE_MAP then Some 0
      else case msgPackReadMapSize m data of
          (pairCount, None) \<Rightarrow> None
        | (pairCount, Some element) \<Rightarrow> mapGetFromIntLoop m element searchValue (unat pairCount))"

text \<open>
  The comparison loop of \<open>msgPackMapGetFromString\<close>: it ends at the end of the searched string, without
  looking at whether the key ends there.
\<close>

partial_function (option) prefixLoop :: "bytes \<Rightarrow> u32 \<Rightarrow> u32 \<Rightarrow> u32 \<Rightarrow> bool option" where
  "prefixLoop m key searchValue i =
     (if m (searchValue + i) = 0 then Some True
      else if key = 0 then None
      else if m (key + i) \<noteq> m (searchValue + i) then Some False
      else prefixLoop m key searchValue (i + 1))"

primrec mapGetFromStringLoop ::
  "('s \<Rightarrow> u32 \<Rightarrow> (u32 \<times> 's) option) \<Rightarrow> ('s \<Rightarrow> u32 \<Rightarrow> 's option) \<Rightarrow> u32 \<Rightarrow> nat \<Rightarrow> u32 \<Rightarrow> 's \<Rightarrow> bytes \<Rightarrow>
     (u32 \<times> 's \<times> bytes) option" where
  "mapGetFromStringLoop alloc release searchValue 0 element h m = Some (0, h, m)"
| "mapGetFromStringLoop alloc release searchValue (Suc n) element h m = do {
     element \<leftarrow> (if dataType (infoAt m element) \<noteq> TYPE_STRING then do {
                    element \<leftarrow> msgPackSeek m element;
                    msgPackSeek m element
                  } else Some element);
     (key, h, m) \<leftarrow> msgPackReadStr alloc h m element;
     equal \<leftarrow> prefixLoop m key searchValue 0;
     h \<leftarrow> release h key;
     if equal then do {
       result \<leftarrow> msgPackSeek m element;
       Some (result, h, m)
     } else do {
       element \<leftarrow> msgPackSeek m element;
       element \<leftarrow> msgPackSeek m element;
       mapGetFromStringLoop alloc release searchValue n element h m
     }
   }"

definition msgPackMapGetFromString ::
  "('s \<Rightarrow> u32 \<Rightarrow> (u32 \<times> 's) option) \<Rightarrow> ('s \<Rightarrow> u32 \<Rightarrow> 's option) \<Rightarrow> 's \<Rightarrow> bytes \<Rightarrow> u32 \<Rightarrow> u32 \<Rightarrow>
     (u32 \<times> 's \<times> bytes) option" where
  "msgPackMapGetFromString alloc release h m data searchValue =
     (if dataType (infoAt m data) \<noteq> TYPE_MAP then Some (0, h, m)
      else case msgPackReadMapSize m data of
          (pairCount, None) \<Rightarrow> None
        | (pairCount, Some element) \<Rightarrow> mapGetFromStringLoop alloc release searchValue (unat pairCount) element h m)"

text \<open>
  The macro \<open>ARRAY_LOOP\<close>: after \<open>msgPackReadArraySize\<close> it overwrites the position of the first element with
  \<open>data + 1\<close>. The body gets the position of each element and a state; \<open>None\<close> as result of the whole loop
  is a fault, \<open>Some None\<close> the return in case the data is no array.
\<close>

primrec arrayLoop :: "bytes \<Rightarrow> (u32 \<Rightarrow> 's \<Rightarrow> 's) \<Rightarrow> u32 \<Rightarrow> nat \<Rightarrow> 's \<Rightarrow> 's option" where
  "arrayLoop m action element 0 s = Some s"
| "arrayLoop m action element (Suc n) s = do {
     let s = action element s;
     element \<leftarrow> msgPackSeek m element;
     arrayLoop m action element n s
   }"

definition ARRAY_LOOP :: "bytes \<Rightarrow> u32 \<Rightarrow> (u32 \<Rightarrow> 's \<Rightarrow> 's) \<Rightarrow> 's \<Rightarrow> 's option option" where
  "ARRAY_LOOP m data action s =
     (if dataType (infoAt m data) \<noteq> TYPE_ARRAY then Some None
      else do {
        s \<leftarrow> arrayLoop m action (data + 1) (unat (fst (msgPackReadArraySize m data))) s;
        Some (Some s)
      })"

section \<open>Encodings\<close>

text \<open>Values as the writing functions encode them. The bytes of an integer depend on the type given.\<close>

datatype msg = MInt u32 IntegerType | MStr "u8 list" | MArr "msg list" | MMap "(msg \<times> msg) list"

definition intBytes :: "u32 \<Rightarrow> IntegerType \<Rightarrow> u8 list" where
  "intBytes x type =
     (if sint x < 0 \<and> type \<noteq> Signed then 0xCE # le32 x
      else if x AND 0x7F = x \<or> NOT x AND 0x1F = NOT x then [ucast x]
      else if ucast (ucast x :: u8) = x then [0xCC, ucast x]
      else if scast (ucast x :: u8) = x then [0xD0, ucast x]
      else if ucast (ucast x :: u16) = x then 0xCD # le16 (ucast x)
      else if scast (ucast x :: u16) = x then 0xD1 # le16 (ucast x)
      else 0xCE # le32 x)"

definition strHead :: "nat \<Rightarrow> u8 list" where
  "strHead n = (if n < 32 then [0xA0 + of_nat n] else if n < 256 then [0xD9, of_nat n]
     else if n < 65536 then 0xDA # le16 (of_nat n) else 0xDB # le32 (of_nat n))"

definition arrHead :: "nat \<Rightarrow> u8 list" where
  "arrHead n = (if n < 16 then [0x90 + of_nat n] else if n < 65536 then 0xDC # le16 (of_nat n) else 0xDD # le32 (of_nat n))"

definition mapHead :: "nat \<Rightarrow> u8 list" where
  "mapHead n = (if n < 16 then [0x80 + of_nat n] else if n < 65536 then 0xDE # le16 (of_nat n) else 0xDF # le32 (of_nat n))"

fun encode :: "msg \<Rightarrow> u8 list" where
  "encode (MInt x t) = intBytes x t"
| "encode (MStr s) = strHead (length s) @ s"
| "encode (MArr vs) = arrHead (length vs) @ concat (map encode vs)"
| "encode (MMap kvs) = mapHead (length kvs) @ concat (map (\<lambda>(k, v). encode k @ encode v) kvs)"

text \<open>Containers small enough for the counter of \<open>msgPackSeek\<close>, strings short enough for their header.\<close>

fun small :: "msg \<Rightarrow> bool" where
  "small (MInt x t) \<longleftrightarrow> True"
| "small (MStr s) \<longleftrightarrow> length s < 2 ^ 32"
| "small (MArr vs) \<longleftrightarrow> length vs < 256 \<and> (\<forall>v \<in> set vs. small v)"
| "small (MMap kvs) \<longleftrightarrow> 2 * length kvs < 256 \<and> (\<forall>kv \<in> set kvs. small (fst kv) \<and> small (snd kv))"

lemma first_byteI: "in_range (unat b) f \<Longrightarrow> FirstByteToFormat b = f"
  by (simp add: first_byte_iff)

lemma byte_formats [simp]:
  "FirstByteToFormat 0xCC = FORMAT_UINT8" "FirstByteToFormat 0xCD = FORMAT_UINT16"
  "FirstByteToFormat 0xCE = FORMAT_UINT32" "FirstByteToFormat 0xD0 = FORMAT_INT8"
  "FirstByteToFormat 0xD1 = FORMAT_INT16" "FirstByteToFormat 0xD9 = FORMAT_STR8"
  "FirstByteToFormat 0xDA = FORMAT_STR16" "FirstByteToFormat 0xDB = FORMAT_STR32"
  "FirstByteToFormat 0xDC = FORMAT_ARRAY16" "FirstByteToFormat 0xDD = FORMAT_ARRAY32"
  "FirstByteToFormat 0xDE = FORMAT_MAP16" "FirstByteToFormat 0xDF = FORMAT_MAP32"
  by (simp_all add: first_byte_iff in_range_def mkInfo_def)

lemma unat_byte_plus: "unat (a :: u8) + n < 256 \<Longrightarrow> unat (a + of_nat n) = unat a + n"
  by (simp add: unat_word_ariths unat_of_nat take_bit_nat_eq_self)

lemma fix_formats:
  "n < 32 \<Longrightarrow> FirstByteToFormat (0xA0 + of_nat n) = FORMAT_FIXSTR"
  "n < 16 \<Longrightarrow> FirstByteToFormat (0x90 + of_nat n) = FORMAT_FIXARRAY"
  "n < 16 \<Longrightarrow> FirstByteToFormat (0x80 + of_nat n) = FORMAT_FIXMAP"
  using unat_byte_plus [of "0xA0" n] unat_byte_plus [of "0x90" n] unat_byte_plus [of "0x80" n]
  by (simp_all add: first_byte_iff in_range_def mkInfo_def)

lemma low_bits:
  "n < 32 \<Longrightarrow> ucast (0xA0 + of_nat n :: u8) AND 0x1F = (of_nat n :: u32)"
  "n < 16 \<Longrightarrow> ucast (0x90 + of_nat n :: u8) AND 0xF = (of_nat n :: u32)"
  "n < 16 \<Longrightarrow> ucast (0x80 + of_nat n :: u8) AND 0xF = (of_nat n :: u32)"
proof -
  have *: "unat (w AND mask k :: u32) = unat w mod 2 ^ k" for w and k :: nat
    unfolding take_bit_eq_mask [symmetric] unsigned_take_bit_eq by (rule take_bit_eq_mod)
  have u: "unat (ucast (b :: u8) :: u32) = unat b" for b
    using unat_lt [of b] by (simp add: unsigned_ucast_eq take_bit_nat_eq_self)
  have mods: "n < 32 \<Longrightarrow> (160 + n) mod 32 = n" "n < 16 \<Longrightarrow> (144 + n) mod 16 = n" "n < 16 \<Longrightarrow> (128 + n) mod 16 = n"
    using mod_mult_self1 [of n 5 32] mod_mult_self1 [of n 9 16] mod_mult_self1 [of n 8 16] by (simp_all add: add.commute)
  show "n < 32 \<Longrightarrow> ucast (0xA0 + of_nat n :: u8) AND 0x1F = (of_nat n :: u32)"
    using * [of "ucast (0xA0 + of_nat n :: u8)" 5] unat_byte_plus [of "0xA0" n]
    by (simp add: word_unat_eq_iff u mask_eq_exp_minus_1 mods)
  show "n < 16 \<Longrightarrow> ucast (0x90 + of_nat n :: u8) AND 0xF = (of_nat n :: u32)"
    using * [of "ucast (0x90 + of_nat n :: u8)" 4] unat_byte_plus [of "0x90" n]
    by (simp add: word_unat_eq_iff u mask_eq_exp_minus_1 mods)
  show "n < 16 \<Longrightarrow> ucast (0x80 + of_nat n :: u8) AND 0xF = (of_nat n :: u32)"
    using * [of "ucast (0x80 + of_nat n :: u8)" 4] unat_byte_plus [of "0x80" n]
    by (simp add: word_unat_eq_iff u mask_eq_exp_minus_1 mods)
qed

text \<open>What \<open>seekHead\<close> reads from the heads of the encodings.\<close>

lemma seekHead_str:
  assumes "bytes_at m p (strHead n)" and "n < 2 ^ 32"
  shows "seekHead m p = (False, p + of_nat (length (strHead n) + n), 0)"
proof -
  consider "n < 32" | "32 \<le> n" "n < 256" | "256 \<le> n" "n < 65536" | "65536 \<le> n" by linarith
  then show ?thesis
  proof cases
    case 1
    then have "m p = 0xA0 + of_nat n" using assms(1) by (simp add: strHead_def)
    then show ?thesis using 1 fix_formats(1) [of n] low_bits(1) [of n]
      by (simp add: seekHead_def lengthAt_def msgPackReadLength_def mkInfo_def strHead_def onebit_def)
  next
    case 2
    then have "m p = 0xD9" "m (p + 1) = of_nat n" using assms(1) by (simp_all add: strHead_def)
    moreover have "(ucast (of_nat n :: u8) :: u32) = of_nat n" using 2 by (simp add: word_unat_eq_iff unsigned_ucast_eq unat_of_nat take_bit_nat_eq_self)
    ultimately show ?thesis using 2
      by (simp add: seekHead_def lengthAt_def msgPackReadLength_def mkInfo_def strHead_def)
  next
    case 3
    then have b: "m p = 0xDA" "bytes_at m (p + 1) (le16 (of_nat n))" using assms(1) by (simp_all add: strHead_def)
    moreover have "(ucast (of_nat n :: u16) :: u32) = of_nat n" using 3 by (simp add: word_unat_eq_iff unsigned_ucast_eq unat_of_nat take_bit_nat_eq_self)
    ultimately show ?thesis using 3 read16_le [OF b(2)]
      by (simp add: seekHead_def lengthAt_def msgPackReadLength_def mkInfo_def strHead_def le16_def)
  next
    case 4
    then have b: "m p = 0xDB" "bytes_at m (p + 1) (le32 (of_nat n))" using assms(1) by (simp_all add: strHead_def)
    then show ?thesis using 4 read32_le [OF b(2)]
      by (simp add: seekHead_def lengthAt_def msgPackReadLength_def mkInfo_def strHead_def le32_def)
  qed
qed

lemma seekHead_arr:
  assumes "bytes_at m p (arrHead n)" and "n < 2 ^ 32"
  shows "seekHead m p = (True, p + of_nat (length (arrHead n)), of_nat n)"
proof -
  consider "n < 16" | "16 \<le> n" "n < 65536" | "65536 \<le> n" by linarith
  then show ?thesis
  proof cases
    case 1
    then have "m p = 0x90 + of_nat n" using assms(1) by (simp add: arrHead_def)
    then show ?thesis using 1 fix_formats(2) [of n] low_bits(2) [of n]
      by (simp add: seekHead_def lengthAt_def msgPackReadLength_def mkInfo_def arrHead_def onebit_def)
  next
    case 2
    then have b: "m p = 0xDC" "bytes_at m (p + 1) (le16 (of_nat n))" using assms(1) by (simp_all add: arrHead_def)
    moreover have "(ucast (of_nat n :: u16) :: u32) = of_nat n" using 2 by (simp add: word_unat_eq_iff unsigned_ucast_eq unat_of_nat take_bit_nat_eq_self)
    ultimately show ?thesis using 2 read16_le [OF b(2)]
      by (simp add: seekHead_def lengthAt_def msgPackReadLength_def mkInfo_def arrHead_def le16_def)
  next
    case 3
    then have b: "m p = 0xDD" "bytes_at m (p + 1) (le32 (of_nat n))" using assms(1) by (simp_all add: arrHead_def)
    then show ?thesis using 3 read32_le [OF b(2)]
      by (simp add: seekHead_def lengthAt_def msgPackReadLength_def mkInfo_def arrHead_def le32_def)
  qed
qed

lemma seekHead_map:
  assumes "bytes_at m p (mapHead n)" and "n < 2 ^ 32"
  shows "seekHead m p = (True, p + of_nat (length (mapHead n)), 2 * of_nat n)"
proof -
  consider "n < 16" | "16 \<le> n" "n < 65536" | "65536 \<le> n" by linarith
  then show ?thesis
  proof cases
    case 1
    then have "m p = 0x80 + of_nat n" using assms(1) by (simp add: mapHead_def)
    then show ?thesis using 1 fix_formats(3) [of n] low_bits(3) [of n]
      by (simp add: seekHead_def lengthAt_def msgPackReadLength_def mkInfo_def mapHead_def onebit_def)
  next
    case 2
    then have b: "m p = 0xDE" "bytes_at m (p + 1) (le16 (of_nat n))" using assms(1) by (simp_all add: mapHead_def)
    moreover have "(ucast (of_nat n :: u16) :: u32) = of_nat n" using 2 by (simp add: word_unat_eq_iff unsigned_ucast_eq unat_of_nat take_bit_nat_eq_self)
    ultimately show ?thesis using 2 read16_le [OF b(2)]
      by (simp add: seekHead_def lengthAt_def msgPackReadLength_def mkInfo_def mapHead_def le16_def)
  next
    case 3
    then have b: "m p = 0xDF" "bytes_at m (p + 1) (le32 (of_nat n))" using assms(1) by (simp_all add: mapHead_def)
    then show ?thesis using 3 read32_le [OF b(2)]
      by (simp add: seekHead_def lengthAt_def msgPackReadLength_def mkInfo_def mapHead_def le32_def)
  qed
qed

lemma and_mask_iff: "(x :: u32) AND mask k = x \<longleftrightarrow> unat x < 2 ^ k"
proof -
  have "unat (x AND mask k) = unat x mod 2 ^ k"
    unfolding take_bit_eq_mask [symmetric] unsigned_take_bit_eq by (rule take_bit_eq_mod)
  then have "x AND mask k = x \<longleftrightarrow> unat x mod 2 ^ k = unat x" by (simp add: word_unat_eq_iff)
  also have "\<dots> \<longleftrightarrow> unat x < 2 ^ k" by (metis mod_less mod_less_divisor zero_less_numeral zero_less_power)
  finally show ?thesis .
qed

lemma and_masks:
  "(x :: u32) AND 0x7F = x \<longleftrightarrow> unat x < 128" "x AND 0x1F = x \<longleftrightarrow> unat x < 32" "x AND 0xF = x \<longleftrightarrow> unat x < 16"
  "x AND 0xFF = x \<longleftrightarrow> unat x < 256" "x AND 0xFFFF = x \<longleftrightarrow> unat x < 65536"
  using and_mask_iff [of x 7] and_mask_iff [of x 5] and_mask_iff [of x 4] and_mask_iff [of x 8] and_mask_iff [of x 16]
  by (simp_all add: mask_eq_exp_minus_1)

lemma unat_not: "unat (NOT x :: u32) + unat x = 4294967295"
proof -
  have "NOT x = - 1 - x" by (simp add: not_eq_complement)
  moreover have "x \<le> - 1" by simp
  ultimately have "unat (NOT x) = unat (- 1 :: u32) - unat x" using unat_sub [of x "- 1"] by simp
  moreover have "unat (- 1 :: u32) = 4294967295" by (simp add: unsigned_minus_1_eq_mask mask_eq_exp_minus_1)
  ultimately show ?thesis using unat_u32_bound [of x] by linarith
qed

lemma not_fix: "NOT x AND 0x1F = NOT x \<longleftrightarrow> 4294967264 \<le> unat (x :: u32)"
  using and_masks(2) [of "NOT x"] unat_not [of x] by linarith

lemma unat_low_byte: "unat (ucast (x :: u32) :: u8) = unat x mod 256"
  by (simp add: unsigned_ucast_eq take_bit_eq_mod)

lemma int_formats:
  "unat x < 128 \<Longrightarrow> FirstByteToFormat (ucast (x :: u32)) = FORMAT_POSITIVE_FIXINT"
  "4294967264 \<le> unat x \<Longrightarrow> FirstByteToFormat (ucast x) = FORMAT_NEGATIVE_FIXINT"
proof -
  show "unat x < 128 \<Longrightarrow> FirstByteToFormat (ucast x) = FORMAT_POSITIVE_FIXINT"
    by (simp add: first_byte_iff in_range_def mkInfo_def unat_low_byte)
  assume "4294967264 \<le> unat x"
  then have k: "unat x = 256 * 16777215 + (unat x - 256 * 16777215)" "224 \<le> unat x - 256 * 16777215" "unat x - 256 * 16777215 < 256"
    using unat_u32_bound [of x] by linarith+
  have "unat x mod 256 = unat x - 256 * 16777215"
    by (subst k(1)) (simp only: mod_mult_self4 mod_less [OF k(3)])
  with k(2,3) show "FirstByteToFormat (ucast x) = FORMAT_NEGATIVE_FIXINT"
    by (simp add: first_byte_iff in_range_def mkInfo_def unat_low_byte)
qed
lemma seekHead_int:
  assumes "bytes_at m p (intBytes x t)"
  shows "seekHead m p = (False, p + of_nat (length (intBytes x t)), 0)"
proof -
  consider "sint x < 0" "t \<noteq> Signed" | "\<not> (sint x < 0 \<and> t \<noteq> Signed)" "unat x < 128"
    | "\<not> (sint x < 0 \<and> t \<noteq> Signed)" "\<not> unat x < 128" "4294967264 \<le> unat x"
    | "\<not> (sint x < 0 \<and> t \<noteq> Signed)" "\<not> unat x < 128" "\<not> 4294967264 \<le> unat x" by blast
  then show ?thesis
  proof cases
    case 1
    then show ?thesis using assms
      by (simp add: intBytes_def seekHead_def lengthAt_def msgPackReadLength_def mkInfo_def le32_def)
  next
    case 2
    then have i: "intBytes x t = [ucast x]" by (auto simp: intBytes_def and_masks)
    then have "m p = ucast x" using assms by simp
    then show ?thesis using int_formats(1) [OF 2(2)] by (simp add: i seekHead_def lengthAt_def msgPackReadLength_def mkInfo_def)
  next
    case 3
    then have i: "intBytes x t = [ucast x]" by (auto simp: intBytes_def not_fix)
    then have "m p = ucast x" using assms by simp
    then show ?thesis using int_formats(2) [OF 3(3)] by (simp add: i seekHead_def lengthAt_def msgPackReadLength_def mkInfo_def)
  next
    case 4
    then have "\<not> (x AND 0x7F = x \<or> NOT x AND 0x1F = NOT x)" by (simp add: and_masks(1) not_fix)
    then show ?thesis using assms 4(1)
      by (auto simp: intBytes_def seekHead_def lengthAt_def msgPackReadLength_def mkInfo_def le32_def le16_def split: if_splits)
  qed
qed

text \<open>Skipping the elements of a list of encodings.\<close>

definition seeks :: "bytes \<Rightarrow> u8 list \<Rightarrow> bool" where
  "seeks m bs \<longleftrightarrow> (\<forall>p. bytes_at m p bs \<longrightarrow> msgPackSeek m p = Some (p + of_nat (length bs)))"

lemma seekElements_list:
  assumes "\<forall>bs \<in> set bss. seeks m bs" and "bytes_at m p (concat bss)" and "i + length bss = n" and "n < 256"
  shows "seekElements m p (of_nat i) (of_nat n) = Some (p + of_nat (length (concat bss)))"
  using assms
proof (induction bss arbitrary: p i)
  case Nil
  have "(ucast (of_nat i :: u8) :: u32) = of_nat i"
    using Nil by (simp add: word_unat_eq_iff unsigned_ucast_eq unat_of_nat take_bit_nat_eq_self)
  then show ?case using Nil by (simp add: seekElements.simps)
next
  case (Cons bs bss)
  have "(ucast (of_nat i :: u8) :: u32) = of_nat i"
    using Cons.prems by (simp add: word_unat_eq_iff unsigned_ucast_eq unat_of_nat take_bit_nat_eq_self)
  then have lt: "ucast (of_nat i :: u8) < (of_nat n :: u32)"
    using Cons.prems(3,4) by (simp add: word_less_nat_alt)
  have b: "bytes_at m p bs" "bytes_at m (p + of_nat (length bs)) (concat bss)"
    using Cons.prems(2) by (simp_all add: bytes_at_append)
  have "msgPackSeek m p = Some (p + of_nat (length bs))" using Cons.prems(1) b(1) by (simp add: seeks_def)
  then have "seekElements m p (of_nat i) (of_nat n) = seekElements m (p + of_nat (length bs)) (of_nat (Suc i)) (of_nat n)"
    using lt by (subst seekElements.simps) (simp add: msgPackSeek_def Let_def add_ac split: if_splits)
  also have "\<dots> = Some (p + of_nat (length bs) + of_nat (length (concat bss)))"
    by (rule Cons.IH) (use Cons.prems b(2) in auto)
  finally show ?case by (simp add: add_ac)
qed

lemma seek_encode: "small v \<Longrightarrow> seeks m (encode v)"
proof (induction v)
  case (MInt x t)
  then show ?case using seekHead_int by (simp add: seeks_def msgPackSeek_def Let_def)
next
  case (MStr s)
  then have "seekHead m p = (False, p + of_nat (length (encode (MStr s))), 0)" if "bytes_at m p (encode (MStr s))" for p
    using that seekHead_str [of m p "length s"] by (simp add: bytes_at_append)
  then show ?case by (simp add: seeks_def msgPackSeek_def)
next
  case (MArr vs)
  have "seekElements m p 0 (of_nat (length vs)) = Some (p + of_nat (length (concat (map encode vs))))"
    if "bytes_at m p (concat (map encode vs))" for p
    using seekElements_list [of "map encode vs" m p 0 "length vs"] MArr that by simp
  then show ?case
    using MArr.prems seekHead_arr [of m _ "length vs"] by (simp add: seeks_def msgPackSeek_def bytes_at_append Let_def add_ac)
next
  case (MMap kvs)
  let ?bss = "concat (map (\<lambda>(k, v). [encode k, encode v]) kvs)"
  have flat: "concat ?bss = concat (map (\<lambda>(k, v). encode k @ encode v) kvs)" "length ?bss = 2 * length kvs"
    by (induction kvs) auto
  have all: "\<forall>bs \<in> set ?bss. seeks m bs" using MMap by fastforce
  have "seekElements m p 0 (of_nat (2 * length kvs)) = Some (p + of_nat (length (concat ?bss)))"
    if "bytes_at m p (concat ?bss)" for p
    using seekElements_list [OF all that, of 0 "2 * length kvs"] MMap.prems flat(2) by simp
  then show ?case
    using MMap.prems seekHead_map [of m _ "length kvs"] unfolding flat(1)
    by (simp add: seeks_def msgPackSeek_def bytes_at_append Let_def add_ac)
qed


lemma seek_too_many:
  assumes "seekElements m data i n = Some r" shows "unat n < 256"
  using assms
proof (induction rule: seekElements.raw_induct [rotated, consumes 1])
  case (1 f m data i n r)
  show ?case
  proof (cases "ucast i < n")
    case True
    then show ?thesis using 1 by (auto simp: Let_def split: bind_splits if_splits)
  next
    case False
    have "unat (ucast i :: u32) < 256"
      using unat_lt [of i] by (simp add: unsigned_ucast_eq take_bit_nat_eq_self)
    then show ?thesis using False by (simp add: word_less_nat_alt)
  qed
qed

lemma span_numerals:
  "span p 1 = {p}" "span p 2 = {p, p + 1}" "span p 3 = {p, p + 1, p + 2}" "span p 5 = {p, p + 1, p + 2, p + 3, p + 4}"
proof -
  have n: "(1::nat) = Suc 0" "(2::nat) = Suc (Suc 0)" "(3::nat) = Suc (Suc (Suc 0))" "(5::nat) = Suc (Suc (Suc (Suc (Suc 0))))"
    by simp_all
  have a: "p + 1 + 1 = p + 2" "p + 2 + 1 = p + 3" "p + 3 + 1 = p + 4" for p :: u32 by (simp_all add: add.assoc)
  show "span p 1 = {p}" "span p 2 = {p, p + 1}" "span p 3 = {p, p + 1, p + 2}" "span p 5 = {p, p + 1, p + 2, p + 3, p + 4}"
    unfolding n span_Suc span_0 a by (rule refl)+
qed

lemma write_bytes:
  "bytes_at (write32 (m(p := b)) (p + 1) x) p (b # le32 x)" "bytes_at (write16 (m(p := b)) (p + 1) y) p (b # le16 y)"
  "a \<notin> span p 5 \<Longrightarrow> write32 (m(p := b)) (p + 1) x a = m a" "a \<notin> span p 3 \<Longrightarrow> write16 (m(p := b)) (p + 1) y a = m a"
proof -
  have a: "p + 1 + 1 = p + 2" "p + 1 + 2 = p + 3" "p + 1 + 3 = p + 4" "p + 2 + 1 = p + 3" "p + 3 + 1 = p + 4" for p :: u32
    by (simp_all add: add.assoc)
  show "bytes_at (write32 (m(p := b)) (p + 1) x) p (b # le32 x)" "bytes_at (write16 (m(p := b)) (p + 1) y) p (b # le16 y)"
    unfolding write32_def write16_def le32_def le16_def bytes_at.simps a by simp_all
  show "a \<notin> span p 5 \<Longrightarrow> write32 (m(p := b)) (p + 1) x a = m a" "a \<notin> span p 3 \<Longrightarrow> write16 (m(p := b)) (p + 1) y a = m a"
    unfolding write32_def write16_def span_numerals a by simp_all
qed

text \<open>\<open>wrote m p r bs\<close>: the result \<open>r\<close> of a writing function at \<open>p\<close> is that exactly the bytes \<open>bs\<close> were written.\<close>

definition wrote :: "bytes \<Rightarrow> u32 \<Rightarrow> u32 \<times> bytes \<Rightarrow> u8 list \<Rightarrow> bool" where
  "wrote m p r bs \<longleftrightarrow> fst r = p + of_nat (length bs) \<and> bytes_at (snd r) p bs \<and>
     (\<forall>a. a \<notin> span p (length bs) \<longrightarrow> snd r a = m a)"

lemma wrote_cases:
  "wrote m p (p + 1, m(p := b)) [b]" "wrote m p (p + 2, m(p := b, p + 1 := c)) [b, c]"
  "wrote m p (p + 3, write16 (m(p := b)) (p + 1) y) (b # le16 y)"
  "wrote m p (p + 5, write32 (m(p := b)) (p + 1) x) (b # le32 x)"
proof -
  have l: "length (b # le32 x) = 5" "length (b # le16 y) = 3" "length [b] = 1" "length [b, c] = 2"
    by (simp_all add: le32_def le16_def)
  show "wrote m p (p + 1, m(p := b)) [b]" "wrote m p (p + 2, m(p := b, p + 1 := c)) [b, c]"
    unfolding wrote_def l span_numerals by simp_all
  show "wrote m p (p + 3, write16 (m(p := b)) (p + 1) y) (b # le16 y)"
    "wrote m p (p + 5, write32 (m(p := b)) (p + 1) x) (b # le32 x)"
    unfolding wrote_def l fst_conv snd_conv using write_bytes by simp_all
qed

lemma integerWrite_spec: "wrote m p (msgPackIntegerWrite m p x t) (intBytes x t)"
proof -
  have fm: "fmin (formatInfo FORMAT_UINT32) = 0xCE" "fmin (formatInfo FORMAT_UINT8) = 0xCC" "fmin (formatInfo FORMAT_INT8) = 0xD0"
    "fmin (formatInfo FORMAT_UINT16) = 0xCD" "fmin (formatInfo FORMAT_INT16) = 0xD1"
    by (simp_all add: mkInfo_def)
  show ?thesis
    unfolding msgPackIntegerWrite_def intBytes_def fm by (simp add: wrote_cases)
qed

text \<open>What \<open>msgPackReadInt\<close> reads from these bytes.\<close>

lemma signed_mod8:
  assumes "(n::nat) < 4294967296"
  shows "(if n mod 256 < 128 then int (n mod 256) else int (n mod 256) - 256) =
     (if n < 2147483648 then int n else int n - 4294967296) \<longleftrightarrow> n < 128 \<or> 4294967168 \<le> n"
proof -
  define q r where "q = n div 256" and "r = n mod 256"
  have n: "n = 256 * q + r" "r < 256" by (simp_all add: q_def r_def)
  have q: "q \<le> 16777215" using assms n by linarith
  have "\<not> (r < 128 \<and> 4294967168 \<le> 256 * q + r)" using q by linarith
  then show ?thesis unfolding r_def [symmetric] using assms n by (auto split: if_splits)
qed

lemma signed_mod16:
  assumes "(n::nat) < 4294967296"
  shows "(if n mod 65536 < 32768 then int (n mod 65536) else int (n mod 65536) - 65536) =
     (if n < 2147483648 then int n else int n - 4294967296) \<longleftrightarrow> n < 32768 \<or> 4294934528 \<le> n"
proof -
  define q r where "q = n div 65536" and "r = n mod 65536"
  have n: "n = 65536 * q + r" "r < 65536" by (simp_all add: q_def r_def)
  have q: "q \<le> 65535" using assms n by linarith
  have "\<not> (r < 32768 \<and> 4294934528 \<le> 65536 * q + r)" using q by linarith
  then show ?thesis unfolding r_def [symmetric] using assms n by (auto split: if_splits)
qed

lemma word_eq_sint: "(x :: u32) = y \<longleftrightarrow> sint x = sint y"
  by (metis signed_word_eqI)

lemma int8_iff: "scast (ucast (x :: u32) :: u8) = x \<longleftrightarrow> unat x < 128 \<or> 4294967168 \<le> unat x"
proof -
  have "sint (scast (ucast x :: u8) :: u32) = sint (ucast x :: u8)" by (rule sint_up_scast) (simp add: is_up)
  then have "scast (ucast x :: u8) = x \<longleftrightarrow> sint (ucast x :: u8) = sint x" unfolding word_eq_sint by simp
  also have "\<dots> \<longleftrightarrow> unat x < 128 \<or> 4294967168 \<le> unat x"
    unfolding sint_values unat_low_byte by (rule signed_mod8 [OF unat_u32_bound])
  finally show ?thesis .
qed

lemma unat_low_half: "unat (ucast (x :: u32) :: u16) = unat x mod 65536"
  by (simp add: unsigned_ucast_eq take_bit_eq_mod)

lemma int16_iff: "scast (ucast (x :: u32) :: u16) = x \<longleftrightarrow> unat x < 32768 \<or> 4294934528 \<le> unat x"
proof -
  have "sint (scast (ucast x :: u16) :: u32) = sint (ucast x :: u16)" by (rule sint_up_scast) (simp add: is_up)
  then have "scast (ucast x :: u16) = x \<longleftrightarrow> sint (ucast x :: u16) = sint x" unfolding word_eq_sint by simp
  also have "\<dots> \<longleftrightarrow> unat x < 32768 \<or> 4294934528 \<le> unat x"
    unfolding sint_values unat_low_half by (rule signed_mod16 [OF unat_u32_bound])
  finally show ?thesis .
qed

lemma uint8_iff: "ucast (ucast (x :: u32) :: u8) = x \<longleftrightarrow> unat x < 256"
proof -
  have "unat (ucast (ucast x :: u8) :: u32) = unat x mod 256"
    using unat_lt [of "ucast x :: u8"] by (simp add: unsigned_ucast_eq take_bit_nat_eq_self take_bit_eq_mod unat_mod)
  then have "ucast (ucast x :: u8) = x \<longleftrightarrow> unat x mod 256 = unat x" by (simp add: word_unat_eq_iff)
  also have "\<dots> \<longleftrightarrow> unat x < 256" by (metis mod_less mod_less_divisor zero_less_numeral)
  finally show ?thesis .
qed

lemma uint16_iff: "ucast (ucast (x :: u32) :: u16) = x \<longleftrightarrow> unat x < 65536"
proof -
  have "unat (ucast (ucast x :: u16) :: u32) = unat x mod 65536"
    using unat_lt [of "ucast x :: u16"] by (simp add: unsigned_ucast_eq take_bit_nat_eq_self take_bit_eq_mod unat_mod)
  then have "ucast (ucast x :: u16) = x \<longleftrightarrow> unat x mod 65536 = unat x" by (simp add: word_unat_eq_iff)
  also have "\<dots> \<longleftrightarrow> unat x < 65536" by (metis mod_less mod_less_divisor zero_less_numeral)
  finally show ?thesis .
qed

lemma intBytes_ranges:
  "intBytes x t =
     (if 2147483648 \<le> unat x \<and> t \<noteq> Signed then 0xCE # le32 x
      else if unat x < 128 \<or> 4294967264 \<le> unat x then [ucast x]
      else if unat x < 256 then [0xCC, ucast x]
      else if 4294967168 \<le> unat x then [0xD0, ucast x]
      else if unat x < 65536 then 0xCD # le16 (ucast x)
      else if 4294934528 \<le> unat x then 0xD1 # le16 (ucast x)
      else 0xCE # le32 x)"
  unfolding intBytes_def negative_iff and_masks(1) not_fix uint8_iff int8_iff uint16_iff int16_iff by auto

definition readBack :: "u32 \<Rightarrow> IntegerType \<Rightarrow> int" where
  "readBack x t =
     (if t = Unsigned then uint x
      else if - 128 \<le> sint x \<and> sint x < - 32 then - 48
      else if sint x < - 32768 then sint x + 2 ^ 32
      else sint x)"

lemma format_indices: "formatIndex FORMAT_POSITIVE_FIXINT < formatIndex FORMAT_INT8" "formatIndex FORMAT_UINT8 < formatIndex FORMAT_INT8"
  "formatIndex FORMAT_UINT16 < formatIndex FORMAT_INT8" "formatIndex FORMAT_UINT32 < formatIndex FORMAT_INT8"
  "\<not> formatIndex FORMAT_NEGATIVE_FIXINT < formatIndex FORMAT_INT8" "\<not> formatIndex FORMAT_INT16 < formatIndex FORMAT_INT8"
  by (simp_all add: formatIndex_def formats_def)

lemma readBack_ranges: "readBack x t = (if t = Unsigned \<or> unat x < 2147483648 then int (unat x)
    else if 4294967168 \<le> unat x \<and> unat x < 4294967264 then - 48
    else if unat x < 4294934528 then int (unat x) else int (unat x) - 4294967296)"
proof -
  define n where "n = unat x"
  have u: "uint x = int n" by (simp add: n_def)
  have "n < 4294967296" by (simp add: n_def)
  then show ?thesis unfolding readBack_def u sint_values n_def [symmetric] by auto
qed

lemma readInt_intBytes:
  assumes "bytes_at m p (intBytes x t)" shows "msgPackReadInt m p = readBack x t"
proof -
  note defs = msgPackReadInt_def Let_def mkInfo_def format_indices readBack_ranges
  consider (unsigned) "2147483648 \<le> unat x" "t \<noteq> Signed"
    | (pos) "unat x < 128" | (byte) "128 \<le> unat x" "unat x < 256" | (half) "256 \<le> unat x" "unat x < 65536"
    | (word) "65536 \<le> unat x" "unat x < 4294934528" "\<not> (2147483648 \<le> unat x \<and> t \<noteq> Signed)"
    | (int16) "4294934528 \<le> unat x" "unat x < 4294967168" "t = Signed"
    | (int8) "4294967168 \<le> unat x" "unat x < 4294967264" "t = Signed" | (neg) "4294967264 \<le> unat x" "t = Signed"
    by atomize_elim (cases "t = Signed", simp_all, linarith+)
  then show ?thesis
  proof cases
    case unsigned
    then have "m p = 0xCE" "bytes_at m (p + 1) (le32 x)" using assms by (simp_all add: intBytes_ranges)
    moreover have "t = Unsigned" using unsigned(2) by (cases t) simp_all
    ultimately show ?thesis using read32_le [of m "p + 1" x] by (simp add: defs)
  next
    case pos
    then have b: "m p = ucast x" using assms by (simp add: intBytes_ranges)
    have "uint (ucast x AND 127 :: u8) = int (unat x)"
    proof -
      have "unat (ucast x AND mask 7 :: u8) = unat (ucast x :: u8) mod 2 ^ 7"
        unfolding take_bit_eq_mask [symmetric] unsigned_take_bit_eq by (rule take_bit_eq_mod)
      then have "unat (ucast x AND 127 :: u8) = unat x" using pos by (simp add: unat_low_byte mask_eq_exp_minus_1)
      then show ?thesis by (metis uint_nat)
    qed
    then show ?thesis using pos int_formats(1) [OF pos] by (simp add: defs b push_bit_eq_mult)
  next
    case byte
    then have "m p = 0xCC" "m (p + 1) = ucast x" using assms by (simp_all add: intBytes_ranges)
    moreover have "uint (ucast x :: u8) = int (unat x)" using byte unat_low_byte [of x] by (metis mod_less uint_nat)
    ultimately show ?thesis using byte by (simp add: defs)
  next
    case half
    then have "m p = 0xCD" "bytes_at m (p + 1) (le16 (ucast x))" using assms by (simp_all add: intBytes_ranges)
    moreover have "uint (ucast x :: u16) = int (unat x)" using half unat_low_half [of x] by (metis mod_less uint_nat)
    ultimately show ?thesis using half read16_le [of m "p + 1" "ucast x"] by (simp add: defs)
  next
    case word
    then have "intBytes x t = 0xCE # le32 x" by (auto simp: intBytes_ranges)
    then have "m p = 0xCE" "bytes_at m (p + 1) (le32 x)" using assms by simp_all
    then show ?thesis using word read32_le [of m "p + 1" x] by (simp add: defs)
  next
    case int16
    then have b: "m p = 0xD1" "bytes_at m (p + 1) (le16 (ucast x))" using assms by (simp_all add: intBytes_ranges)
    have "sint (ucast x :: u16) = sint x"
      using int16_iff [of x] int16(1) sint_up_scast [of "ucast x :: u16", where 'b = 32] by (simp add: is_up)
    then have "sint (ucast x :: u16) = int (unat x) - 4294967296" using int16(1) unfolding sint_values(1) by simp
    then show ?thesis using int16 b read16_le [OF b(2)] by (simp add: defs)
  next
    case int8
    then have "m p = 0xD0" using assms by (simp add: intBytes_ranges)
    then show ?thesis using int8 by (simp add: defs sint_values)
  next
    case neg
    then have b: "m p = ucast x" using assms by (simp add: intBytes_ranges)
    have "sint (ucast x :: u8) = sint x"
      using int8_iff [of x] neg(1) sint_up_scast [of "ucast x :: u8", where 'b = 32] by (simp add: is_up)
    then have "sint (ucast x :: u8) = int (unat x) - 4294967296" using neg(1) unfolding sint_values(1) by simp
    then show ?thesis using neg int_formats(2) [OF neg(1)] by (simp add: defs b)
  qed
qed

end
