(* ===== verification/MsgPackProps.thy ===== *)
theory MsgPackProps
  imports MsgPack
begin

text \<open>
  The properties of the MessagePack library: what is written, what is read back, which announced lengths
  are too small, and how \<open>msgPackSeek\<close>, \<open>ARRAY_LOOP\<close> and the map lookups walk over encoded data.
\<close>

section \<open>Written and announced lengths\<close>

lemma ABS_unat: "unat (ABS x) = (if unat x < 2147483648 then unat x else 4294967296 - unat x)"
proof (cases "unat x < 2147483648")
  case True
  then show ?thesis using negative_iff [of x] by (simp add: ABS_def)
next
  case False
  have "- x = NOT x + 1" by (rule minus_eq_not_plus_1)
  moreover have "unat (NOT x + 1) = unat (NOT x) + 1"
    using unat_add_small [of "NOT x" 1] unat_not [of x] False by simp
  ultimately have "unat (- x) = 4294967296 - unat x" using unat_not [of x] by simp
  then show ?thesis using False negative_iff [of x] by (simp add: ABS_def)
qed

lemma integerLength_ranges:
  "unat (msgPackIntegerLength x t) =
     (if unat x < 128 \<or> 4294967264 \<le> unat x then 1
      else if unat (ABS x) < 256 then 2 else if unat (ABS x) < 65536 then 3 else 5)"
proof -
  have "ABS x AND 0xFFFFFFFF = ABS x" using and_mask_iff [of "ABS x" 32] by (simp add: mask_eq_exp_minus_1)
  then show ?thesis
    unfolding msgPackIntegerLength_def and_masks(1) not_fix Let_def and_masks(4,5) by simp
qed

lemma intBytes_length:
  "length (intBytes x t) =
     (if 2147483648 \<le> unat x \<and> t \<noteq> Signed then 5
      else if unat x < 128 \<or> 4294967264 \<le> unat x then 1
      else if unat x < 256 \<or> 4294967168 \<le> unat x then 2
      else if unat x < 65536 \<or> 4294934528 \<le> unat x then 3 else 5)"
  unfolding intBytes_ranges by (auto simp: le32_def le16_def)

lemma written_length:
  "wrote m p r bs \<Longrightarrow> length bs < 2 ^ 32 \<Longrightarrow> unat (fst r - p) = length bs"
  by (simp add: wrote_def)

text \<open>
  C19. The format table covers every first byte exactly once: \<open>initializeFlatBuffers\<close> assigns a byte to a
  format if and only if the byte lies in the range of the format.
\<close>

theorem format_table_partition:
  "FirstByteToFormat b = f \<longleftrightarrow> fmin (formatInfo f) \<le> b \<and> b \<le> fmax (formatInfo f)"
  unfolding first_byte_iff by (simp add: in_range_def word_le_nat_alt)

text \<open>
  C20. Writing an integer and reading it back. Unsigned numbers and signed numbers from -32768 on come back
  unchanged, except those from -128 to -33, which are all read as -48 (the reader looks at the format byte
  instead of the byte behind it); numbers below -32768 come back increased by \<open>2\<^sup>3\<^sup>2\<close>, since they are
  written as \<open>UINT32\<close>.
\<close>

theorem integer_write_read:
  "msgPackReadInt (snd (msgPackIntegerWrite m p x t)) p =
     (if t = Unsigned then uint x
      else if - 128 \<le> sint x \<and> sint x < - 32 then - 48
      else if sint x < - 32768 then sint x + 2 ^ 32
      else sint x)"
proof -
  have "bytes_at (snd (msgPackIntegerWrite m p x t)) p (intBytes x t)"
    using integerWrite_spec [of m p x t] by (simp add: wrote_def)
  from readInt_intBytes [OF this] show ?thesis unfolding readBack_def .
qed

text \<open>
  The length announced for an integer is enough for what is written if and only if the integer is not
  one of these: a number with the type \<open>Unsigned\<close> whose top bit is set and whose absolute value as a signed
  number is at most 65535, or a signed number from -255 to -129 or from -65535 to -32769.
\<close>

theorem integer_length_sufficient:
  "unat (fst (msgPackIntegerWrite m p x t) - p) \<le> unat (msgPackIntegerLength x t) \<longleftrightarrow>
     \<not> (if t = Unsigned then - 65535 \<le> sint x \<and> sint x < 0
        else (- 255 \<le> sint x \<and> sint x \<le> - 129) \<or> (- 65535 \<le> sint x \<and> sint x \<le> - 32769))"
proof -
  have len: "unat (fst (msgPackIntegerWrite m p x t) - p) = length (intBytes x t)"
    using written_length [OF integerWrite_spec] by (simp add: intBytes_length)
  define n where "n = unat x"
  have n: "n < 4294967296" by (simp add: n_def)
  have u: "t = Unsigned \<longleftrightarrow> t \<noteq> Signed" by (cases t) simp_all
  consider "n < 128" | "128 \<le> n" "n < 256" | "256 \<le> n" "n < 65536" | "65536 \<le> n" "n < 2147483648"
    | "2147483648 \<le> n" "n < 4294901761" | "4294901761 \<le> n" "n < 4294934528" | "4294934528 \<le> n" "n < 4294967041"
    | "4294967041 \<le> n" "n < 4294967168" | "4294967168 \<le> n" "n < 4294967264" | "4294967264 \<le> n" by linarith
  then show ?thesis
    unfolding len intBytes_length integerLength_ranges ABS_unat sint_values n_def [symmetric] u
    using n by cases (auto split: if_splits)
qed

lemma fixarray_mask: "(n :: u32) AND - 4 = n \<longleftrightarrow> unat n mod 4 = 0"
proof -
  have "n AND - 4 = n \<longleftrightarrow> take_bit 2 n = 0"
  proof -
    have m: "(- 4 :: u32) = NOT (mask 2)" by (simp add: mask_eq_exp_minus_1)
    show ?thesis unfolding m by (auto simp: bit_eq_iff bit_simps)
  qed
  also have "\<dots> \<longleftrightarrow> unat n mod 4 = 0"
    by (simp add: word_unat_eq_iff unsigned_take_bit_eq take_bit_eq_mod unat_mod)
  finally show ?thesis .
qed

lemma arrayWrite_spec:
  "wrote m p (msgPackArrayWrite m p n) (arrHead (unat n))"
proof -
  have fm: "fmin (formatInfo FORMAT_FIXARRAY) = 0x90" "fmin (formatInfo FORMAT_ARRAY16) = 0xDC" "fmin (formatInfo FORMAT_ARRAY32) = 0xDD"
    by (simp_all add: mkInfo_def)
  have c: "of_nat (unat n) = (ucast n :: u8)" "of_nat (unat n) = (ucast n :: u16)" "of_nat (unat n) = n"
    by (simp_all add: of_nat_unat)
  show ?thesis
    unfolding msgPackArrayWrite_def arrHead_def fm and_masks uint16_iff c by (simp add: wrote_cases)
qed

text \<open>
  The length announced for the head of an array is too small exactly for the element counts that are
  multiples of four from 16 on: one byte is announced, three or five are written. For counts below 16 that
  are no multiple of four, three bytes are announced and one is written.
\<close>

theorem array_length_sufficient:
  "unat (fst (msgPackArrayWrite m p n) - p) \<le> unat (msgPackArrayLength n) \<longleftrightarrow> \<not> (16 \<le> unat n \<and> unat n mod 4 = 0)"
proof -
  have len: "unat (fst (msgPackArrayWrite m p n) - p) = length (arrHead (unat n))"
    using written_length [OF arrayWrite_spec] by (simp add: arrHead_def le16_def le32_def)
  have al: "unat (msgPackArrayLength n) = (if unat n mod 4 = 0 then 1 else if unat n < 65536 then 3 else 5)"
    using fixarray_mask [of n] by (simp add: msgPackArrayLength_def mkInfo_def uint16_iff)
  show ?thesis unfolding len al by (auto simp: arrHead_def le16_def le32_def)
qed

section \<open>Strings\<close>

lemma cstr_bytes: "cstr m p s \<longleftrightarrow> bytes_at m p (s @ [0]) \<and> 0 \<notin> set s"
  by (induction s arbitrary: p) auto

lemma span_shift: "span (p + of_nat k) n \<subseteq> span p (k + n)"
proof
  fix a assume "a \<in> span (p + of_nat k) n"
  then obtain i where "i < n" "a = p + of_nat (k + i)" by (auto simp: span_def add.assoc)
  then show "a \<in> span p (k + n)" using span_in [of "k + i" "k + n" p] by simp
qed

lemma span_prefix: "k \<le> n \<Longrightarrow> span p k \<subseteq> span p n"
  by (auto simp: span_def)

lemma of_nat_sub_span:
  assumes "a \<in> span p n" and "n \<le> 2 ^ 32"
  shows "a = p + of_nat (unat (a - p)) \<and> unat (a - p) < n"
proof -
  obtain i where "i < n" "a = p + of_nat i" using assms(1) by (auto simp: span_def)
  then show ?thesis using assms(2) by simp
qed

lemma memcpy_bytes:
  assumes "bytes_at m q bs" and "length bs < 2 ^ 32" and "span q (length bs) \<inter> span p (length bs) = {}"
  shows "bytes_at (memcpy m q p (of_nat (length bs))) p bs"
    and "a \<notin> span p (length bs) \<Longrightarrow> memcpy m q p (of_nat (length bs)) a = m a"
proof -
  have c: "memcpy m q p (of_nat (length bs)) a = (if a \<in> span p (length bs) then m (q + (a - p)) else m a)" for a
  proof -
    have "unat (of_nat (length bs) :: u32) = length bs" using assms(2) by simp
    then show ?thesis unfolding memcpy_def
      using memcpy_spec [of "length bs" q p m a] assms(2,3) by (simp only:) simp
  qed
  show "a \<notin> span p (length bs) \<Longrightarrow> memcpy m q p (of_nat (length bs)) a = m a" by (simp add: c)
  show "bytes_at (memcpy m q p (of_nat (length bs))) p bs"
    using assms(1) span_in [of _ "length bs" p] by (simp add: bytes_at_iff c)
qed

lemma strHead_writes:
  assumes "n < 2 ^ 32"
  shows "wrote m p
    (if of_nat n AND 0x1F = (of_nat n :: u32) then (p + 1, m(p := fmin (formatInfo FORMAT_FIXSTR) + ucast (of_nat n :: u32)))
     else if of_nat n AND 0xFF = (of_nat n :: u32) then (p + 2, m(p := fmin (formatInfo FORMAT_STR8), p + 1 := ucast (of_nat n :: u32)))
     else if of_nat n AND 0xFFFF = (of_nat n :: u32)
     then (p + 3, write16 (m(p := fmin (formatInfo FORMAT_STR16))) (p + 1) (ucast (of_nat n :: u32)))
     else (p + 5, write32 (m(p := fmin (formatInfo FORMAT_STR32))) (p + 1) (of_nat n))) (strHead n)"
proof -
  have fm: "fmin (formatInfo FORMAT_FIXSTR) = 0xA0" "fmin (formatInfo FORMAT_STR8) = 0xD9" "fmin (formatInfo FORMAT_STR16) = 0xDA"
    "fmin (formatInfo FORMAT_STR32) = 0xDB" by (simp_all add: mkInfo_def)
  have u: "unat (of_nat n :: u32) = n" using assms by simp
  have c: "of_nat n = (ucast (of_nat n :: u32) :: u8)" "of_nat n = (ucast (of_nat n :: u32) :: u16)"
    using assms by (simp_all add: unsigned_of_nat take_bit_nat_eq_self)
  show ?thesis
    unfolding strHead_def fm and_masks u using c by (simp add: wrote_cases)
qed

lemma strHead_length: "length (strHead n) = (if n < 32 then 1 else if n < 256 then 2 else if n < 65536 then 3 else 5)"
  by (simp add: strHead_def le16_def le32_def)

lemma stringWrite_spec:
  assumes s: "cstr m q s" and q: "q \<noteq> 0" and len: "length s + 5 < 2 ^ 32"
    and dis: "span q (length s + 1) \<inter> span p (length (encode (MStr s))) = {}"
  shows "\<exists>r. msgPackStringWrite m p q = Some r \<and> wrote m p r (encode (MStr s))"
proof -
  let ?n = "length s" and ?k = "length (strHead (length s))"
  have n: "?n < 2 ^ 32" "?k \<le> 5" using len by (simp_all add: strHead_length)
  obtain b m1 where h: "wrote m p (b, m1) (strHead ?n)" and run: "msgPackStringWrite m p q = Some (b + of_nat ?n, memcpy m1 q b (of_nat ?n))"
    using strHead_writes [OF n(1), of m p] strlen_cstr [OF s q]
    by (cases "if of_nat ?n AND 0x1F = (of_nat ?n :: u32) then (p + 1, m(p := fmin (formatInfo FORMAT_FIXSTR) + ucast (of_nat ?n :: u32)))
     else if of_nat ?n AND 0xFF = (of_nat ?n :: u32) then (p + 2, m(p := fmin (formatInfo FORMAT_STR8), p + 1 := ucast (of_nat ?n :: u32)))
     else if of_nat ?n AND 0xFFFF = (of_nat ?n :: u32)
     then (p + 3, write16 (m(p := fmin (formatInfo FORMAT_STR16))) (p + 1) (ucast (of_nat ?n :: u32)))
     else (p + 5, write32 (m(p := fmin (formatInfo FORMAT_STR32))) (p + 1) (of_nat ?n))")
      (simp add: msgPackStringWrite_def Let_def)
  have b: "b = p + of_nat ?k" using h by (simp add: wrote_def)
  have sub: "span p ?k \<subseteq> span p (?k + ?n)" "span b ?n \<subseteq> span p (?k + ?n)"
    using span_prefix [of ?k "?k + ?n" p] span_shift [of p ?k ?n] b by simp_all
  have enc: "length (encode (MStr s)) = ?k + ?n" by simp
  have qs: "span q ?n \<subseteq> span q (?n + 1)" by (rule span_prefix) simp
  have "bytes_at m q s" using s by (simp add: cstr_bytes bytes_at_append)
  moreover have "bytes_at m1 q s = bytes_at m q s"
    using h dis sub(1) qs unfolding enc by (intro bytes_at_cong) (auto simp: wrote_def)
  moreover have "span q ?n \<inter> span b ?n = {}" using dis sub(2) qs unfolding enc by blast
  ultimately have cp: "bytes_at (memcpy m1 q b (of_nat ?n)) b s"
    "\<And>a. a \<notin> span b ?n \<Longrightarrow> memcpy m1 q b (of_nat ?n) a = m1 a"
    using memcpy_bytes [of m1 q s b] n(1) by simp_all
  have apart: "span p ?k \<inter> span b ?n = {}"
  proof -
    have False if xs: "x \<in> span p ?k" "x \<in> span b ?n" for x
    proof -
      obtain i where i: "i < ?k" "x = p + of_nat i" using xs(1) unfolding span_def by blast
      obtain j where j: "j < ?n" "x = b + of_nat j" using xs(2) unfolding span_def by blast
      have "p + of_nat i = p + (of_nat ?k + of_nat j)" using i(2) j(2) unfolding b by (simp only: add.assoc)
      then have "(of_nat i :: u32) = of_nat (?k + j)" by (simp only: add_left_cancel of_nat_add)
      with i(1) j(1) have "i < ?k" "j < ?n" "(of_nat i :: u32) = of_nat (?k + j)" by blast+
      then show False using of_nat32_eq [of i "?k + j"] len n(2) by auto
    qed
    then show ?thesis by blast
  qed
  have "bytes_at (memcpy m1 q b (of_nat ?n)) p (strHead ?n) = bytes_at m1 p (strHead ?n)"
    using apart cp(2) by (intro bytes_at_cong) auto
  then have "bytes_at (memcpy m1 q b (of_nat ?n)) p (encode (MStr s))"
    using h cp(1) by (simp add: bytes_at_append wrote_def b)
  moreover have "memcpy m1 q b (of_nat ?n) a = m a" if "a \<notin> span p (?k + ?n)" for a
  proof -
    have "a \<notin> span b ?n" "a \<notin> span p ?k" using that sub by blast+
    then show ?thesis using cp(2) [of a] h by (simp add: wrote_def)
  qed
  ultimately show ?thesis using run b by (simp add: wrote_def add.assoc)
qed

lemma strHead_format:
  assumes "bytes_at m p (strHead n)" and "n < 2 ^ 32"
  shows "dataType (infoAt m p) = TYPE_STRING" and "lengthAt m p = of_nat n"
    and "length (strHead n) = (if FirstByteToFormat (m p) = FORMAT_FIXSTR then 1 else if FirstByteToFormat (m p) = FORMAT_STR8 then 2
       else if FirstByteToFormat (m p) = FORMAT_STR16 then 3 else 5)"
proof -
  consider "n < 32" | "32 \<le> n" "n < 256" | "256 \<le> n" "n < 65536" | "65536 \<le> n" by linarith
  then have "dataType (infoAt m p) = TYPE_STRING \<and> lengthAt m p = of_nat n \<and>
    length (strHead n) = (if FirstByteToFormat (m p) = FORMAT_FIXSTR then 1 else if FirstByteToFormat (m p) = FORMAT_STR8 then 2
       else if FirstByteToFormat (m p) = FORMAT_STR16 then 3 else 5)"
  proof cases
    case 1
    then have "m p = 0xA0 + of_nat n" using assms(1) by (simp add: strHead_def)
    then show ?thesis using 1 fix_formats(1) [of n] low_bits(1) [of n]
      by (simp add: lengthAt_def msgPackReadLength_def mkInfo_def strHead_length onebit_def)
  next
    case 2
    then have "m p = 0xD9" "m (p + 1) = of_nat n" using assms(1) by (simp_all add: strHead_def)
    then show ?thesis using 2
      by (simp add: lengthAt_def msgPackReadLength_def mkInfo_def strHead_length unsigned_of_nat take_bit_nat_eq_self)
  next
    case 3
    then have b: "m p = 0xDA" "bytes_at m (p + 1) (le16 (of_nat n))" using assms(1) by (simp_all add: strHead_def)
    then show ?thesis using 3 read16_le [OF b(2)]
      by (simp add: lengthAt_def msgPackReadLength_def mkInfo_def strHead_length unsigned_of_nat take_bit_nat_eq_self)
  next
    case 4
    then have b: "m p = 0xDB" "bytes_at m (p + 1) (le32 (of_nat n))" using assms(1) by (simp_all add: strHead_def)
    then show ?thesis using 4 read32_le [OF b(2)]
      by (simp add: lengthAt_def msgPackReadLength_def mkInfo_def strHead_length)
  qed
  then show "dataType (infoAt m p) = TYPE_STRING" "lengthAt m p = of_nat n"
    "length (strHead n) = (if FirstByteToFormat (m p) = FORMAT_FIXSTR then 1 else if FirstByteToFormat (m p) = FORMAT_STR8 then 2
       else if FirstByteToFormat (m p) = FORMAT_STR16 then 3 else 5)"
    by blast+
qed

lemma readStr_spec:
  assumes b: "bytes_at m p (encode (MStr s))" and len: "length s + 1 < 2 ^ 32" and zero: "0 \<notin> set s"
    and al: "alloc h (of_nat (length s) + 1) = Some (r, h')"
    and dis: "span p (length (encode (MStr s))) \<inter> span r (length s + 1) = {}"
  shows "\<exists>m'. msgPackReadStr alloc h m p = Some (r, h', m') \<and> cstr m' r s \<and>
    (\<forall>a. a \<notin> span r (length s + 1) \<longrightarrow> m' a = m a)"
proof -
  let ?n = "length s" and ?k = "length (strHead (length s))"
  have bh: "bytes_at m p (strHead ?n)" "bytes_at m (p + of_nat ?k) s" using b by (simp_all add: bytes_at_append)
  note f = strHead_format [OF bh(1)]
  have n: "?n < 2 ^ 32" using len by simp
  let ?m = "memcpy m (p + of_nat ?k) r (of_nat ?n)"
  have "span (p + of_nat ?k) ?n \<inter> span r ?n = {}"
    using dis span_shift [of p ?k ?n] span_prefix [of ?n "?n + 1" r] by auto
  note cp = memcpy_bytes [OF bh(2) n this]
  let ?m' = "?m(r + of_nat ?n := 0)"
  have "of_nat ?k = (if FirstByteToFormat (m p) = FORMAT_FIXSTR then 1 else if FirstByteToFormat (m p) = FORMAT_STR8 then 2
      else if FirstByteToFormat (m p) = FORMAT_STR16 then 3 else (5 :: u32))"
    unfolding f(3) [OF n] by simp
  then have "msgPackReadStr alloc h m p = Some (r, h', ?m')"
    using f(1,2) [OF n] al by (simp add: msgPackReadStr_def Let_def)
  moreover have "r + of_nat ?n \<notin> span r ?n"
  proof
    assume "r + of_nat ?n \<in> span r ?n"
    then obtain i where "i < ?n" "(of_nat ?n :: u32) = of_nat i" by (auto simp: span_def)
    then show False using of_nat32_eq [of ?n i] n by simp
  qed
  then have "bytes_at ?m' r s = bytes_at ?m r s" by (intro bytes_at_cong) auto
  then have "cstr ?m' r s" using cp(1) zero by (simp add: cstr_bytes bytes_at_append)
  moreover have "?m' a = m a" if "a \<notin> span r (?n + 1)" for a
    using that cp(2) [of a] span_prefix [of ?n "?n + 1" r] span_in [of ?n "?n + 1" r] by auto
  ultimately show ?thesis by blast
qed

lemma stringLength_spec:
  "length s < 2 ^ 32 \<Longrightarrow> msgPackStringLength (of_nat (length s)) = of_nat (length (encode (MStr s)))"
  unfolding msgPackStringLength_def and_masks by (simp add: strHead_length)

text \<open>
  C21. A string written by \<open>msgPackStringWrite\<close> takes exactly the length announced by \<open>msgPackStringLength\<close>,
  and \<open>msgPackReadStr\<close> reads it back: the string in the freshly allocated memory is the one that was
  written, and nothing outside the allocation changes.
\<close>

theorem string_write_read:
  assumes "cstr m q s" and "q \<noteq> 0" and "length s + 5 < 2 ^ 32"
    and "span q (length s + 1) \<inter> span p (length (encode (MStr s))) = {}"
    and "alloc h (of_nat (length s) + 1) = Some (r, h')"
    and "span p (length (encode (MStr s))) \<inter> span r (length s + 1) = {}"
  shows "\<exists>e m1 m2. msgPackStringWrite m p q = Some (e, m1) \<and> e = p + msgPackStringLength (of_nat (length s)) \<and>
    msgPackReadStr alloc h m1 p = Some (r, h', m2) \<and> cstr m2 r s \<and>
    (\<forall>a. a \<notin> span r (length s + 1) \<longrightarrow> m2 a = m1 a)"
proof -
  obtain e m1 where w: "msgPackStringWrite m p q = Some (e, m1)" "wrote m p (e, m1) (encode (MStr s))"
    using stringWrite_spec [OF assms(1-4)] by (metis surj_pair)
  have l: "length s < 2 ^ 32" "length s + 1 < 2 ^ 32" using assms(3) by simp_all
  have "bytes_at m1 p (encode (MStr s))" "e = p + msgPackStringLength (of_nat (length s))"
    using w(2) unfolding stringLength_spec [OF l(1)] by (simp_all add: wrote_def)
  moreover have "0 \<notin> set s" by (rule cstr_no_zero [OF assms(1)])
  ultimately show ?thesis
    using readStr_spec [of m1 p s alloc h r h', OF _ l(2) _ assms(5,6)] w(1) by blast
qed

theorem string_write_read_witness:
  "\<exists>e m1 m2. msgPackStringWrite (\<lambda>a. if a = 16 then 104 else if a = 17 then 105 else 0) 32 16 = Some (e, m1) \<and>
    e = 32 + msgPackStringLength (of_nat (length [104, 105 :: u8])) \<and>
    msgPackReadStr (\<lambda>h n. Some (h, h + n)) 64 m1 32 = Some (64, 67, m2) \<and> cstr m2 64 [104, 105] \<and>
    (\<forall>a. a \<notin> span 64 (length [104, 105 :: u8] + 1) \<longrightarrow> m2 a = m1 a)"
proof (rule string_write_read)
  show "span 16 (length [104, 105 :: u8] + 1) \<inter> span 32 (length (encode (MStr [104, 105]))) = {}"
    "span 32 (length (encode (MStr [104, 105]))) \<inter> span 64 (length [104, 105 :: u8] + 1) = {}"
    by (simp_all add: strHead_def span_Suc)
qed simp_all

section \<open>Walking\<close>

text \<open>
  C22. \<open>msgPackSeek\<close> returns the position right behind an encoded value, for every nesting of integers,
  strings, arrays and maps whose containers have fewer than 256 elements (128 pairs).
\<close>

theorem seek_skips_one_value:
  assumes "bytes_at m p (encode v)" and "small v"
  shows "msgPackSeek m p = Some (p + of_nat (length (encode v)))"
  using seek_encode [OF assms(2), of m] assms(1) by (simp add: seeks_def)

definition messageMemory :: "u8 list \<Rightarrow> bytes" where
  "messageMemory bs a = (if unat a < length bs then bs ! unat a else 0)"

lemma messageMemory_bytes: "length bs < 2 ^ 32 \<Longrightarrow> bytes_at (messageMemory bs) 0 bs"
  by (simp add: bytes_at_iff messageMemory_def)

theorem seek_skips_one_value_witness:
  "msgPackSeek (messageMemory (encode (MArr [MInt 5 Unsigned, MMap [(MStr [97], MInt 300 Unsigned)]]))) 0 =
     Some (0 + of_nat (length (encode (MArr [MInt 5 Unsigned, MMap [(MStr [97], MInt 300 Unsigned)]]))))"
  by (rule seek_skips_one_value, rule messageMemory_bytes)
    (simp_all add: strHead_def arrHead_def mapHead_def intBytes_length)

text \<open>
  \<open>msgPackSeek\<close> never returns for an array of 256 or more elements: its counter is a \<open>uint8_t\<close> and wraps
  around before it reaches the number of elements, whatever follows the head in memory.
\<close>

theorem seek_large_array_diverges:
  assumes "bytes_at m p (arrHead n)" and "256 \<le> n" and "n < 2 ^ 32"
  shows "msgPackSeek m p = None"
proof (cases "msgPackSeek m p")
  case (Some r)
  then have "seekElements m (p + of_nat (length (arrHead n))) 0 (of_nat n) = Some r"
    using seekHead_arr [OF assms(1,3)] by (simp add: msgPackSeek_def)
  from seek_too_many [OF this] show ?thesis using assms(2,3) by simp
qed

theorem seek_large_array_diverges_witness: "msgPackSeek (messageMemory (arrHead 300)) 0 = None"
  by (rule seek_large_array_diverges, rule messageMemory_bytes) (simp_all add: arrHead_def le16_def)

end
