(* ===== verification/Messages.thy ===== *)
theory Messages
  imports MsgPackProps
begin

text \<open>
  The macros of \<open>include/msgpack.h\<close> that build and read messages: \<open>CREATE\<close> with the definitions it expands
  (\<open>LENGTH\<close>, \<open>WRITE\<close>), and the checked accessors \<open>AS_INT\<close>, \<open>AS_UINT\<close>, \<open>AS_STRING\<close>, \<open>GET_FROM_INT\<close> and
  \<open>GET_FROM_STRING\<close>. A definition is the tree the macros are given. An accessor that leaves the calling
  function with its error value is \<open>None\<close> inside \<open>Some\<close>.
\<close>

section \<open>Building messages\<close>

datatype Definition = INTEGER u32 IntegerType | STRING u32 | ARRAY "Definition list" | MAP "Definition list" | LIST "Definition list"

text \<open>The expansion of a definition with \<open>LENGTH\<close>; \<open>MSG_LENGTHs\<close> is \<open>contents(LENGTH, +)\<close>.\<close>

fun MSG_LENGTH :: "bytes \<Rightarrow> Definition \<Rightarrow> u32 option" and MSG_LENGTHs :: "bytes \<Rightarrow> Definition list \<Rightarrow> u32 option" where
  "MSG_LENGTH m (INTEGER x type) = Some (msgPackIntegerLength x type)"
| "MSG_LENGTH m (STRING x) = map_option msgPackStringLength (strlen m x)"
| "MSG_LENGTH m (ARRAY contents) = map_option (\<lambda>n. msgPackArrayLength (of_nat (length contents)) + n) (MSG_LENGTHs m contents)"
| "MSG_LENGTH m (MAP contents) = map_option (\<lambda>n. msgPackMapLength (of_nat (length contents)) + n) (MSG_LENGTHs m contents)"
| "MSG_LENGTH m (LIST contents) = map_option (\<lambda>n. msgPackArrayLength (of_nat (length contents)) + n) (MSG_LENGTHs m contents)"
| "MSG_LENGTHs m [] = Some 0"
| "MSG_LENGTHs m (d # contents) = do {
     n \<leftarrow> MSG_LENGTH m d;
     rest \<leftarrow> MSG_LENGTHs m contents;
     Some (n + rest)
   }"

text \<open>The expansion with \<open>WRITE\<close>, which moves \<open>buffer\<close> on.\<close>

fun WRITE :: "Definition \<Rightarrow> u32 \<times> bytes \<Rightarrow> (u32 \<times> bytes) option"
  and WRITEs :: "Definition list \<Rightarrow> u32 \<times> bytes \<Rightarrow> (u32 \<times> bytes) option" where
  "WRITE (INTEGER x type) (buffer, m) = Some (msgPackIntegerWrite m buffer x type)"
| "WRITE (STRING x) (buffer, m) = msgPackStringWrite m buffer x"
| "WRITE (ARRAY contents) (buffer, m) = WRITEs contents (msgPackArrayWrite m buffer (of_nat (length contents)))"
| "WRITE (MAP contents) (buffer, m) = WRITEs contents (msgPackMapWrite m buffer (of_nat (length contents)))"
| "WRITE (LIST contents) (buffer, m) = WRITEs contents (msgPackArrayWrite m buffer (of_nat (length contents)))"
| "WRITEs [] s = Some s"
| "WRITEs (d # contents) s = do {
     s \<leftarrow> WRITE d s;
     WRITEs contents s
   }"

definition CREATE ::
  "('s \<Rightarrow> u32 \<Rightarrow> (u32 \<times> 's) option) \<Rightarrow> 's \<Rightarrow> bytes \<Rightarrow> Definition \<Rightarrow> (u32 \<times> u32 \<times> 's \<times> bytes) option" where
  "CREATE alloc h m d = do {
     nameLength \<leftarrow> MSG_LENGTH m d;
     (name, h) \<leftarrow> alloc h nameLength;
     (_, m) \<leftarrow> WRITE d (name, m);
     Some (name, nameLength, h, m)
   }"

section \<open>Reading messages\<close>

definition AS_INT :: "bytes \<Rightarrow> u32 \<Rightarrow> int option" where
  "AS_INT m data = (if dataType (infoAt m data) \<noteq> TYPE_INTEGER then None else Some (msgPackReadInt m data))"

text \<open>A negative number is reported and read as zero.\<close>

definition AS_UINT :: "bytes \<Rightarrow> u32 \<Rightarrow> u32 option" where
  "AS_UINT m data =
     (if dataType (infoAt m data) \<noteq> TYPE_INTEGER then None
      else let asInt = msgPackReadInt m data; asInt = (if asInt < 0 then 0 else asInt) in Some (of_int asInt))"

definition AS_STRING ::
  "('s \<Rightarrow> u32 \<Rightarrow> (u32 \<times> 's) option) \<Rightarrow> 's \<Rightarrow> bytes \<Rightarrow> u32 \<Rightarrow> (u32 \<times> 's \<times> bytes) option option" where
  "AS_STRING alloc h m data =
     (if dataType (infoAt m data) \<noteq> TYPE_STRING then Some None else map_option Some (msgPackReadStr alloc h m data))"

definition GET_FROM_INT :: "bytes \<Rightarrow> u32 \<Rightarrow> u64 \<Rightarrow> u32 option option" where
  "GET_FROM_INT m data value =
     (if dataType (infoAt m data) \<noteq> TYPE_MAP then Some None else map_option Some (msgPackMapGetFromInt m data value))"

definition GET_FROM_STRING ::
  "('s \<Rightarrow> u32 \<Rightarrow> (u32 \<times> 's) option) \<Rightarrow> ('s \<Rightarrow> u32 \<Rightarrow> 's option) \<Rightarrow> 's \<Rightarrow> bytes \<Rightarrow> u32 \<Rightarrow> u32 \<Rightarrow> (u32 \<times> 's \<times> bytes) option option" where
  "GET_FROM_STRING alloc release h m data value =
     (if dataType (infoAt m data) \<noteq> TYPE_MAP then Some None
      else map_option Some (msgPackMapGetFromString alloc release h m data value))"

section \<open>What a definition stands for\<close>

fun pairs :: "'a list \<Rightarrow> ('a \<times> 'a) list" where
  "pairs (a # b # rest) = (a, b) # pairs rest"
| "pairs rest = []"

text \<open>The value of a definition, given the strings at the addresses it names.\<close>

fun meaning :: "(u32 \<Rightarrow> u8 list) \<Rightarrow> Definition \<Rightarrow> msg" where
  "meaning str (INTEGER x type) = MInt x type"
| "meaning str (STRING x) = MStr (str x)"
| "meaning str (ARRAY contents) = MArr (map (meaning str) contents)"
| "meaning str (MAP contents) = MMap (pairs (map (meaning str) contents))"
| "meaning str (LIST contents) = MArr (map (meaning str) contents)"

text \<open>Maps have values for all keys; lengths fit their heads; strings lie outside of \<open>R\<close>.\<close>

fun proper :: "bytes \<Rightarrow> (u32 \<Rightarrow> u8 list) \<Rightarrow> u32 set \<Rightarrow> Definition \<Rightarrow> bool" where
  "proper m str R (INTEGER x type) \<longleftrightarrow> True"
| "proper m str R (STRING x) \<longleftrightarrow> cstr m x (str x) \<and> x \<noteq> 0 \<and> length (str x) + 5 < 2 ^ 32 \<and> span x (length (str x) + 1) \<inter> R = {}"
| "proper m str R (ARRAY contents) \<longleftrightarrow> length contents < 2 ^ 32 \<and> (\<forall>d \<in> set contents. proper m str R d)"
| "proper m str R (MAP contents) \<longleftrightarrow> length contents < 2 ^ 32 \<and> even (length contents) \<and> (\<forall>d \<in> set contents. proper m str R d)"
| "proper m str R (LIST contents) \<longleftrightarrow> length contents < 2 ^ 32 \<and> (\<forall>d \<in> set contents. proper m str R d)"

lemma proper_cong: "proper m str R d \<Longrightarrow> (\<And>a. a \<notin> R \<Longrightarrow> m' a = m a) \<Longrightarrow> proper m' str R d"
proof (induction d)
  case (STRING x)
  have "cstr m' x (str x) = cstr m x (str x)" using STRING by (intro cstr_cong) auto
  then show ?case using STRING by simp
qed auto

lemma pairs_concat: "even (length xs) \<Longrightarrow> length (pairs xs) = length xs div 2 \<and>
    concat (map (\<lambda>(k, v). encode k @ encode v) (pairs xs)) = concat (map encode xs)"
  by (induction xs rule: pairs.induct) auto

section \<open>Writing\<close>

lemma wrote_append:
  assumes "wrote m p (q, m1) bs" and "wrote m1 q r cs" and "length bs + length cs \<le> 2 ^ 32"
  shows "wrote m p r (bs @ cs)"
proof -
  have q: "q = p + of_nat (length bs)" using assms(1) by (simp add: wrote_def)
  have dis: "a \<notin> span q (length cs)" if inside: "a \<in> span p (length bs)" for a
  proof
    assume "a \<in> span q (length cs)"
    then obtain j where j: "j < length cs" "a = p + of_nat (length bs + j)" by (auto simp: span_def q add_ac)
    obtain i where i: "i < length bs" "a = p + of_nat i" using inside by (auto simp: span_def)
    have "(of_nat i :: u32) = of_nat (length bs + j)" using i(2) j(2) by simp
    then show False using of_nat32_eq [of i "length bs + j"] i(1) j(1) assms(3) by simp
  qed
  have "bytes_at (snd r) p bs" using assms(1,2) dis bytes_at_cong [of p bs "snd r" m1] by (auto simp: wrote_def)
  moreover have "span p (length bs) \<subseteq> span p (length (bs @ cs))" "span q (length cs) \<subseteq> span p (length (bs @ cs))"
    using span_prefix [of "length bs" "length (bs @ cs)" p] span_shift [of p "length bs" "length cs"] by (simp_all add: q)
  then have "snd r a = m a" if "a \<notin> span p (length (bs @ cs))" for a
    using assms(1,2) that unfolding wrote_def by (metis snd_conv subsetD)
  ultimately show ?thesis using assms(1,2) by (simp add: wrote_def q bytes_at_append add_ac)
qed

lemma mapWrite_spec:
  assumes "even n" and "n < 2 ^ 32"
  shows "wrote m p (msgPackMapWrite m p (of_nat n)) (mapHead (n div 2))"
proof -
  have fm: "fmin (formatInfo FORMAT_FIXMAP) = 0x80" "fmin (formatInfo FORMAT_MAP16) = 0xDE" "fmin (formatInfo FORMAT_MAP32) = 0xDF"
    by (simp_all add: mkInfo_def)
  have u: "unat (of_nat n :: u32) = n" using assms(2) by simp
  then have ev: "(of_nat n :: u32) mod 2 = 0" using assms(1) by (simp add: word_unat_eq_iff unat_mod)
  have half: "drop_bit 1 (of_nat n :: u32) = of_nat (n div 2)" "unat (of_nat (n div 2) :: u32) = n div 2"
    using u assms(2) by (simp_all add: word_unat_eq_iff unat_drop_bit)
  have c: "of_nat (n div 2) = (ucast (of_nat (n div 2) :: u32) :: u8)" "of_nat (n div 2) = (ucast (of_nat (n div 2) :: u32) :: u16)"
    using assms(2) by (simp_all add: unsigned_of_nat take_bit_nat_eq_self)
  show ?thesis
    unfolding msgPackMapWrite_def mapHead_def fm and_masks half Let_def using ev c by (simp add: wrote_cases half)
qed

text \<open>\<open>writes str R d\<close>: inside of \<open>R\<close>, \<open>WRITE\<close> writes the encoding of \<open>d\<close> and nothing else.\<close>

definition writes :: "(u32 \<Rightarrow> u8 list) \<Rightarrow> u32 set \<Rightarrow> Definition \<Rightarrow> bool" where
  "writes str R d \<longleftrightarrow> (\<forall>p m. proper m str R d \<and> span p (length (encode (meaning str d))) \<subseteq> R \<and>
     length (encode (meaning str d)) \<le> 2 ^ 32 \<longrightarrow> (\<exists>r. WRITE d (p, m) = Some r \<and> wrote m p r (encode (meaning str d))))"

lemma span_split: "span p (j + k) \<subseteq> R \<Longrightarrow> span p j \<subseteq> R \<and> span (p + of_nat j) k \<subseteq> R"
  using span_prefix [of j "j + k" p] span_shift [of p j k] by auto

lemma wrote_keeps: "wrote m p r bs \<Longrightarrow> span p (length bs) \<subseteq> R \<Longrightarrow> a \<notin> R \<Longrightarrow> snd r a = m a"
  by (auto simp: wrote_def)

lemma WRITEs_spec:
  assumes "\<forall>d \<in> set ds. writes str R d" and "\<forall>d \<in> set ds. proper m str R d"
    and "span p (length (concat (map (\<lambda>d. encode (meaning str d)) ds))) \<subseteq> R" and "length (concat (map (\<lambda>d. encode (meaning str d)) ds)) \<le> 2 ^ 32"
  shows "\<exists>r. WRITEs ds (p, m) = Some r \<and> wrote m p r (concat (map (\<lambda>d. encode (meaning str d)) ds))"
  using assms
proof (induction ds arbitrary: p m)
  case Nil
  then show ?case by (simp add: wrote_def)
next
  case (Cons d ds)
  let ?e = "encode (meaning str d)" and ?es = "concat (map (\<lambda>d. encode (meaning str d)) ds)"
  have sub: "span p (length ?e) \<subseteq> R" "span (p + of_nat (length ?e)) (length ?es) \<subseteq> R"
    using span_split [of p "length ?e" "length ?es" R] Cons.prems(3) by simp_all
  have len: "length ?e + length ?es \<le> 2 ^ 32" using Cons.prems(4) by simp
  have "writes str R d" "proper m str R d" using Cons.prems(1,2) by simp_all
  moreover have "length ?e \<le> 2 ^ 32" "length ?es \<le> 2 ^ 32" using len by simp_all
  ultimately obtain q m1 where 1: "WRITE d (p, m) = Some (q, m1)" "wrote m p (q, m1) ?e"
    using sub(1) unfolding writes_def by (metis surj_pair)
  then have q: "q = p + of_nat (length ?e)" by (simp add: wrote_def)
  have "\<forall>d \<in> set ds. proper m1 str R d"
    using Cons.prems(2) proper_cong wrote_keeps [OF 1(2) sub(1)] by (metis list.set_intros(2) snd_conv)
  moreover have "\<forall>d \<in> set ds. writes str R d" using Cons.prems(1) by simp
  ultimately obtain r where r: "WRITEs ds (q, m1) = Some r" "wrote m1 q r ?es"
    using Cons.IH [of m1 q] sub(2) \<open>length ?es \<le> 2 ^ 32\<close> unfolding q by blast
  then have "wrote m p r (?e @ ?es)" using wrote_append [OF 1(2) r(2) len] by simp
  then show ?case using 1(1) r(1) by simp
qed

lemma container_spec:
  assumes ds: "\<forall>d \<in> set ds. writes str R d" "\<forall>d \<in> set ds. proper m str R d"
    and head: "wrote m p r front" and sub: "span p (length (front @ concat (map (\<lambda>d. encode (meaning str d)) ds))) \<subseteq> R"
    and len: "length (front @ concat (map (\<lambda>d. encode (meaning str d)) ds)) \<le> 2 ^ 32"
  shows "\<exists>r'. WRITEs ds r = Some r' \<and> wrote m p r' (front @ concat (map (\<lambda>d. encode (meaning str d)) ds))"
proof -
  let ?es = "concat (map (\<lambda>d. encode (meaning str d)) ds)"
  obtain q m1 where r: "r = (q, m1)" by fastforce
  have q: "q = p + of_nat (length front)" using head r by (simp add: wrote_def)
  have s: "span p (length front) \<subseteq> R" "span q (length ?es) \<subseteq> R" using span_split [of p "length front" "length ?es" R] sub by (simp_all add: q)
  have "\<forall>d \<in> set ds. proper m1 str R d"
    using ds(2) proper_cong wrote_keeps [OF head s(1)] r by (metis snd_conv)
  moreover have l: "length ?es \<le> 2 ^ 32" "length front + length ?es \<le> 2 ^ 32" using len by simp_all
  ultimately obtain r' where r': "WRITEs ds (q, m1) = Some r'" "wrote m1 q r' ?es"
    using WRITEs_spec [OF ds(1) _ s(2)] by blast
  then show ?thesis using wrote_append [OF head [unfolded r] r'(2) l(2)] r by blast
qed

lemma writes_array:
  assumes ds: "\<And>d. d \<in> set ds \<Longrightarrow> writes str R d"
    and d: "\<And>p m. WRITE d (p, m) = WRITEs ds (msgPackArrayWrite m p (of_nat (length ds)))"
    "meaning str d = MArr (map (meaning str) ds)" "\<And>m. proper m str R d \<longleftrightarrow> length ds < 2 ^ 32 \<and> (\<forall>d \<in> set ds. proper m str R d)"
  shows "writes str R d"
  unfolding writes_def
proof (intro allI impI, elim conjE)
  fix p m assume a: "proper m str R d" "span p (length (encode (meaning str d))) \<subseteq> R" "length (encode (meaning str d)) \<le> 2 ^ 32"
  have e: "encode (meaning str d) = arrHead (length ds) @ concat (map (\<lambda>d. encode (meaning str d)) ds)" by (simp add: d(2) comp_def)
  have "wrote m p (msgPackArrayWrite m p (of_nat (length ds))) (arrHead (length ds))"
    using arrayWrite_spec [of m p "of_nat (length ds)"] a(1) d(3) by simp
  moreover have "\<forall>d \<in> set ds. writes str R d" "\<forall>d \<in> set ds. proper m str R d" using ds a(1) d(3) by blast+
  ultimately show "\<exists>r. WRITE d (p, m) = Some r \<and> wrote m p r (encode (meaning str d))"
    using container_spec a(2,3) unfolding d(1) e by blast
qed

lemma WRITE_spec: "writes str R d"
proof (induction d)
  case (INTEGER x t)
  then show ?case using integerWrite_spec by (simp add: writes_def)
next
  case (STRING x)
  then show ?case unfolding writes_def using stringWrite_spec by fastforce
next
  case (ARRAY ds)
  then show ?case by (rule writes_array) simp_all
next
  case (MAP ds)
  have e: "encode (meaning str (MAP ds)) = mapHead (length ds div 2) @ concat (map (\<lambda>d. encode (meaning str d)) ds)" if "even (length ds)"
    using pairs_concat [of "map (meaning str) ds"] that by (simp add: comp_def)
  show ?case unfolding writes_def
  proof (intro allI impI, elim conjE)
    fix p m assume a: "proper m str R (MAP ds)" "span p (length (encode (meaning str (MAP ds)))) \<subseteq> R"
      "length (encode (meaning str (MAP ds))) \<le> 2 ^ 32"
    have n: "even (length ds)" "length ds < 2 ^ 32" "\<forall>d \<in> set ds. proper m str R d" using a(1) by simp_all
    have "\<forall>d \<in> set ds. writes str R d" using MAP by blast
    then show "\<exists>r. WRITE (MAP ds) (p, m) = Some r \<and> wrote m p r (encode (meaning str (MAP ds)))"
      using container_spec [OF _ n(3) mapWrite_spec [OF n(1,2)]] a(2,3) unfolding e [OF n(1)] WRITE.simps by blast
  qed
next
  case (LIST ds)
  then show ?case by (rule writes_array) simp_all
qed

section \<open>Properties\<close>



end
