(* ===== verification/PageBitmap.thy ===== *)
theory PageBitmap
  imports Prelude
begin

text \<open>
  The page bitmaps of \<open>kernel/memory/paging.c\<close> over the structures of
  \<open>kernel/include/memory.h\<close> and \<open>kernel/memory/paging.h\<close>: a \<open>PagingInfo\<close> keeps one bit per page
  of a 4 GiB space (\<open>isPageAllocated\<close>) and one bit per group of 32 pages that is set when the
  whole group is taken (\<open>isPageAllocatedCoarse\<close>). The operations here only touch the bitmaps;
  page tables are in \<open>PageTables\<close>.

  The abstract view is \<open>used_pages\<close>, the set of allocated page numbers; \<open>bitmap_ok\<close> says that the
  coarse bits agree with the fine ones. Every operation is shown to refine its set operation and
  to keep \<open>bitmap_ok\<close>, and the search loop to return the first free run of pages.
\<close>

section \<open>Structures\<close>

record PageDirectoryEntry =
  pde_present :: bool
  pde_writable :: bool
  pde_belongsToUserProcess :: bool
  pde_reserved :: "2 word"
  pde_accessed :: bool
  pde_dirty :: bool
  pde_reserved2 :: "2 word"
  pde_available :: "3 word"
  pageTableID :: u20

record PagingInfo =
  pageDirectory :: "nat \<Rightarrow> PageDirectoryEntry"
  isPageTableInUse :: "nat \<Rightarrow> u32"
  isPageAllocated :: "nat \<Rightarrow> u32"
  isPageConnectedToNext :: "nat \<Rightarrow> u32"
  isPageAllocatedCoarse :: "nat \<Rightarrow> u32"
  pageSearchStart :: u32

text \<open>The macros \<open>ADDRESS\<close>, \<open>PAGE_ID\<close> and \<open>PAGE_OFFSET\<close>.\<close>

definition ADDRESS :: "u32 \<Rightarrow> u32" where
  "ADDRESS pageId = push_bit 12 pageId"

definition PAGE_ID :: "u32 \<Rightarrow> u32" where
  "PAGE_ID address = drop_bit 12 address"

definition PAGE_OFFSET :: "u32 \<Rightarrow> u32" where
  "PAGE_OFFSET address = address AND 0xFFF"

abbreviation FINE_WORDS :: nat where "FINE_WORDS \<equiv> 0x8000"
abbreviation COARSE_WORDS :: nat where "COARSE_WORDS \<equiv> 0x400"
abbreviation PAGES :: nat where "PAGES \<equiv> 0x100000"

section \<open>Operations\<close>

definition reservePage :: "PagingInfo \<Rightarrow> u32 \<Rightarrow> PagingInfo option" where
  "reservePage info pageId = do {
     let coarsePosition = unat (pageId div 32);
     fineWord \<leftarrow> aget FINE_WORDS (isPageAllocated info) coarsePosition;
     let fineWord = fineWord OR onebit (unat (pageId mod 32));
     let info = info\<lparr>isPageAllocated := (isPageAllocated info)(coarsePosition := fineWord)\<rparr>;
     if fineWord = - 1 then do {
       coarseWord \<leftarrow> aget COARSE_WORDS (isPageAllocatedCoarse info) (coarsePosition div 32);
       Some (info\<lparr>isPageAllocatedCoarse := (isPageAllocatedCoarse info)
         (coarsePosition div 32 := coarseWord OR onebit (coarsePosition mod 32))\<rparr>)
     } else Some info
   }"

definition reservePagesCount :: "PagingInfo \<Rightarrow> u32 \<Rightarrow> u32 \<Rightarrow> PagingInfo option" where
  "reservePagesCount info startPageId count =
     ofold (\<lambda>i info. reservePage info (startPageId + of_nat i)) [0..<unat count] info"

text \<open>
  \<open>findMultiplePages\<close> nests four loops. \<open>runOccupied\<close> is the innermost one, over \<open>check\<close>; it
  answers whether one of the pages is taken (the flag \<open>fail\<close>). The outermost loop has no end
  condition in the source; after the last coarse word it reads outside the array, which is the
  fault at the end of \<open>findMultiplePages\<close>.
\<close>

fun runOccupied :: "PagingInfo \<Rightarrow> nat \<Rightarrow> nat \<Rightarrow> nat list \<Rightarrow> bool option" where
  "runOccupied info coarsePageId fine [] = Some False"
| "runOccupied info coarsePageId fine (check # checks) = do {
     let currentFine = fine + check;
     fineWord \<leftarrow> aget FINE_WORDS (isPageAllocated info) (coarsePageId + currentFine div 32);
     if fineWord AND onebit (currentFine mod 32) \<noteq> 0 then Some True
     else runOccupied info coarsePageId fine checks
   }"

definition findFine :: "PagingInfo \<Rightarrow> u32 \<Rightarrow> nat \<Rightarrow> nat \<Rightarrow> nat option option" where
  "findFine info count coarsePageId fine = do {
     fail \<leftarrow> runOccupied info coarsePageId fine [0..<unat count];
     if fail then Some None else Some (Some (coarsePageId * 32 + fine))
   }"

definition findCoarse :: "PagingInfo \<Rightarrow> u32 \<Rightarrow> nat \<Rightarrow> nat \<Rightarrow> nat option option" where
  "findCoarse info count veryCoarse coarse =
     (if isPageAllocatedCoarse info veryCoarse AND onebit coarse \<noteq> 0 then Some None
      else findM (findFine info count (veryCoarse * 32 + coarse)) [0..<32])"

definition findVeryCoarse :: "PagingInfo \<Rightarrow> u32 \<Rightarrow> nat \<Rightarrow> nat option option" where
  "findVeryCoarse info count veryCoarse =
     (if isPageAllocatedCoarse info veryCoarse = - 1 then Some None
      else findM (findCoarse info count veryCoarse) [0..<32])"

definition findMultiplePages :: "PagingInfo \<Rightarrow> u32 \<Rightarrow> u32 option" where
  "findMultiplePages info count =
     (case findM (findVeryCoarse info count) [unat (pageSearchStart info div 1024)..<COARSE_WORDS] of
        Some (Some page) \<Rightarrow> Some (of_nat page)
      | _ \<Rightarrow> None)"

definition findPage :: "PagingInfo \<Rightarrow> u32 option" where
  "findPage info = findMultiplePages info 1"

text \<open>The parameter \<open>fine\<close> is not used by the source either.\<close>

definition markPageFree :: "PagingInfo \<Rightarrow> u32 \<Rightarrow> u32 \<Rightarrow> u32 \<Rightarrow> PagingInfo option" where
  "markPageFree info coarse fine fineBit = do {
     allocated \<leftarrow> aget FINE_WORDS (isPageAllocated info) (unat coarse);
     connected \<leftarrow> aget FINE_WORDS (isPageConnectedToNext info) (unat coarse);
     coarseWord \<leftarrow> aget COARSE_WORDS (isPageAllocatedCoarse info) (unat coarse div 32);
     Some (info\<lparr>
       isPageAllocated := (isPageAllocated info)(unat coarse := allocated AND NOT fineBit),
       isPageConnectedToNext := (isPageConnectedToNext info)(unat coarse := connected AND NOT fineBit),
       isPageAllocatedCoarse := (isPageAllocatedCoarse info)
         (unat coarse div 32 := coarseWord AND NOT (onebit (unat coarse mod 32)))\<rparr>)
   }"

definition freePhysicalPage :: "PagingInfo \<Rightarrow> u32 \<Rightarrow> PagingInfo option" where
  "freePhysicalPage info pageId =
     markPageFree info (pageId div 32) (pageId mod 32) (onebit (unat (pageId mod 32)))"

section \<open>The abstract view\<close>

definition page_used :: "PagingInfo \<Rightarrow> nat \<Rightarrow> bool" where
  "page_used info p \<longleftrightarrow> bit (isPageAllocated info (p div 32)) (p mod 32)"

definition used_pages :: "PagingInfo \<Rightarrow> nat set" where
  "used_pages info = {p. p < PAGES \<and> page_used info p}"

definition bitmap_ok :: "PagingInfo \<Rightarrow> bool" where
  "bitmap_ok info \<longleftrightarrow>
     (\<forall>c < FINE_WORDS. bit (isPageAllocatedCoarse info (c div 32)) (c mod 32) \<longleftrightarrow>
        isPageAllocated info c = - 1)"

section \<open>Reserving and freeing refine set insertion and removal\<close>

lemma div_mod_32_eq: "(p :: nat) div 32 = q div 32 \<Longrightarrow> p mod 32 = q mod 32 \<Longrightarrow> p = q"
  by (metis div_mult_mod_eq)

lemma unat_div32 [word_facts]: "unat ((p :: u32) div 32) = unat p div 32"
  and unat_mod32 [word_facts]: "unat ((p :: u32) mod 32) = unat p mod 32"
  by (simp_all add: unat_div unat_mod)

lemma reservePage_eq:
  assumes "unat pageId < PAGES"
  shows "reservePage info pageId = Some
    (let p = unat pageId; w = isPageAllocated info (p div 32) OR onebit (p mod 32);
         info' = info\<lparr>isPageAllocated := (isPageAllocated info)(p div 32 := w)\<rparr>
     in if w = - 1
        then info'\<lparr>isPageAllocatedCoarse := (isPageAllocatedCoarse info)
          (p div 32 div 32 := isPageAllocatedCoarse info (p div 32 div 32) OR onebit (p div 32 mod 32))\<rparr>
        else info')"
proof -
  have "unat pageId div 32 < FINE_WORDS" and "unat pageId div 32 div 32 < COARSE_WORDS"
    using assms by auto
  then show ?thesis
    by (simp add: reservePage_def word_facts Let_def)
qed

lemma reservePage_frame:
  assumes "reservePage info pageId = Some info'"
  shows "pageDirectory info' = pageDirectory info"
    and "isPageConnectedToNext info' = isPageConnectedToNext info"
    and "pageSearchStart info' = pageSearchStart info"
    and "isPageTableInUse info' = isPageTableInUse info"
  using assms by (auto simp: reservePage_def Let_def split: bind_splits if_splits)

lemma reservePage_page_used:
  assumes "reservePage info pageId = Some info'" and "unat pageId < PAGES"
  shows "page_used info' q \<longleftrightarrow> page_used info q \<or> q = unat pageId"
proof -
  have "page_used info' q \<longleftrightarrow>
      bit (((isPageAllocated info)(unat pageId div 32 :=
        isPageAllocated info (unat pageId div 32) OR onebit (unat pageId mod 32))) (q div 32)) (q mod 32)"
    using assms(1) unfolding reservePage_eq [OF assms(2)]
    by (auto simp: page_used_def Let_def split: if_splits)
  also have "\<dots> \<longleftrightarrow> page_used info q \<or> q = unat pageId"
    by (auto simp: page_used_def bit_facts dest: div_mod_32_eq)
  finally show ?thesis .
qed

lemma reservePage_bitmap_ok:
  assumes "reservePage info pageId = Some info'" and "unat pageId < PAGES" and "bitmap_ok info"
  shows "bitmap_ok info'"
proof -
  define p where "p = unat pageId"
  define w where "w = isPageAllocated info (p div 32) OR onebit (p mod 32)"
  have ok: "bit (isPageAllocatedCoarse info (c div 32)) (c mod 32) \<longleftrightarrow> isPageAllocated info c = - 1"
    if "c < FINE_WORDS" for c
    using assms(3) that by (simp add: bitmap_ok_def)
  have stay: "isPageAllocated info (p div 32) = - 1 \<Longrightarrow> w = - 1"
    by (simp add: w_def)
  have info': "info' = (let i = info\<lparr>isPageAllocated := (isPageAllocated info)(p div 32 := w)\<rparr>
      in if w = - 1
         then i\<lparr>isPageAllocatedCoarse := (isPageAllocatedCoarse info)(p div 32 div 32 :=
           isPageAllocatedCoarse info (p div 32 div 32) OR onebit (p div 32 mod 32))\<rparr>
         else i)"
    using assms(1) unfolding reservePage_eq [OF assms(2)] p_def [symmetric] Let_def
      w_def [symmetric] by simp
  show ?thesis
    unfolding bitmap_ok_def
  proof (intro allI impI)
    fix c :: nat assume c: "c < FINE_WORDS"
    show "bit (isPageAllocatedCoarse info' (c div 32)) (c mod 32) \<longleftrightarrow> isPageAllocated info' c = - 1"
    proof (cases "w = - 1")
      case True
      then show ?thesis
        using ok [OF c] by (auto simp: info' Let_def bit_facts dest: div_mod_32_eq)
    next
      case False
      then show ?thesis
        using ok [OF c] stay by (auto simp: info' Let_def)
    qed
  qed
qed

lemma reservePage_returns: "unat pageId < PAGES \<Longrightarrow> \<exists>info'. reservePage info pageId = Some info'"
  by (simp add: reservePage_eq)

lemma reservePage_used:
  assumes "reservePage info pageId = Some info'" and "unat pageId < PAGES"
  shows "used_pages info' = insert (unat pageId) (used_pages info)"
  using assms(2) by (auto simp: used_pages_def reservePage_page_used [OF assms])

lemma reservePage_fault: "reservePage info pageId = None \<longleftrightarrow> PAGES \<le> unat pageId"
proof (cases "unat pageId < PAGES")
  case True
  then show ?thesis by (simp add: reservePage_eq)
next
  case False
  then have "FINE_WORDS \<le> unat pageId div 32" by simp
  then show ?thesis
    using False by (simp add: reservePage_def word_facts Let_def aget_def)
qed

text \<open>The shape every bitmap operation keeps: only the three bitmaps change.\<close>

definition same_space :: "PagingInfo \<Rightarrow> PagingInfo \<Rightarrow> bool" where
  "same_space info info' \<longleftrightarrow> pageDirectory info' = pageDirectory info \<and>
     pageSearchStart info' = pageSearchStart info \<and> isPageTableInUse info' = isPageTableInUse info"

lemma same_space_refl [simp]: "same_space info info"
  by (simp add: same_space_def)

lemma same_space_trans [trans]: "same_space a b \<Longrightarrow> same_space b c \<Longrightarrow> same_space a c"
  by (simp add: same_space_def)

lemma reservePage_same_space: "reservePage info p = Some info' \<Longrightarrow> same_space info info'"
  by (simp add: same_space_def reservePage_frame)

lemma reservePagesCount_spec:
  assumes "bitmap_ok info" and "unat start + unat count \<le> PAGES"
  shows "\<exists>info'. reservePagesCount info start count = Some info' \<and> bitmap_ok info' \<and>
    used_pages info' = used_pages info \<union> {unat start..<unat start + unat count} \<and>
    same_space info info' \<and> isPageConnectedToNext info' = isPageConnectedToNext info"
proof -
  have "\<exists>info'. ofold (\<lambda>i info. reservePage info (start + of_nat i)) [0..<n] info = Some info' \<and>
      bitmap_ok info' \<and> used_pages info' = used_pages info \<union> {unat start..<unat start + n} \<and>
      same_space info info' \<and> isPageConnectedToNext info' = isPageConnectedToNext info"
    if "n \<le> unat count" for n
    using that
  proof (induction n)
    case 0
    then show ?case using assms(1) by simp
  next
    case (Suc n)
    then obtain i1 where i1: "ofold (\<lambda>i info. reservePage info (start + of_nat i)) [0..<n] info = Some i1"
      "bitmap_ok i1" "used_pages i1 = used_pages info \<union> {unat start..<unat start + n}"
      "same_space info i1" "isPageConnectedToNext i1 = isPageConnectedToNext info"
      by auto
    have un: "unat (start + of_nat n) = unat start + n" and lt: "unat (start + of_nat n) < PAGES"
      using Suc.prems assms(2) by (simp_all add: unat_add_small)
    obtain i2 where i2: "reservePage i1 (start + of_nat n) = Some i2"
      using reservePage_returns [OF lt] by blast
    have "same_space info i2"
      using same_space_trans [OF i1(4) reservePage_same_space [OF i2]] .
    then show ?case
      using i1 i2 reservePage_used [OF i2 lt] reservePage_bitmap_ok [OF i2 lt i1(2)]
        reservePage_frame(2) [OF i2]
      by (auto simp: ofold_append un)
  qed
  from this [of "unat count"] show ?thesis
    by (simp add: reservePagesCount_def)
qed

lemma markPageFree_spec:
  assumes "bitmap_ok info" and "unat p < PAGES"
  shows "\<exists>info'. markPageFree info (p div 32) (p mod 32) (onebit (unat (p mod 32))) = Some info' \<and>
    bitmap_ok info' \<and> used_pages info' = used_pages info - {unat p} \<and> same_space info info' \<and>
    (\<forall>q. bit (isPageConnectedToNext info' (q div 32)) (q mod 32) \<longleftrightarrow>
       bit (isPageConnectedToNext info (q div 32)) (q mod 32) \<and> q \<noteq> unat p)"
proof -
  define n where "n = unat p"
  have n: "n div 32 < FINE_WORDS" "n div 32 div 32 < COARSE_WORDS" "n < PAGES"
    using assms(2) by (auto simp: n_def)
  define info' where "info' = info\<lparr>
     isPageAllocated := (isPageAllocated info)
       (n div 32 := isPageAllocated info (n div 32) AND NOT (onebit (n mod 32))),
     isPageConnectedToNext := (isPageConnectedToNext info)
       (n div 32 := isPageConnectedToNext info (n div 32) AND NOT (onebit (n mod 32))),
     isPageAllocatedCoarse := (isPageAllocatedCoarse info)(n div 32 div 32 :=
       isPageAllocatedCoarse info (n div 32 div 32) AND NOT (onebit (n div 32 mod 32)))\<rparr>"
  have run: "markPageFree info (p div 32) (p mod 32) (onebit (unat (p mod 32))) = Some info'"
    using n by (simp add: markPageFree_def word_facts n_def [symmetric] info'_def)
  have ok: "bit (isPageAllocatedCoarse info (c div 32)) (c mod 32) \<longleftrightarrow> isPageAllocated info c = - 1"
    if "c < FINE_WORDS" for c
    using assms(1) that by (simp add: bitmap_ok_def)
  have cleared: "isPageAllocated info' (n div 32) \<noteq> - 1"
    unfolding word_neq_minus1_bit
    by (rule exI [of _ "n mod 32"]) (simp add: info'_def bit_facts)
  have "bitmap_ok info'"
    unfolding bitmap_ok_def
  proof (intro allI impI)
    fix c :: nat assume c: "c < FINE_WORDS"
    show "bit (isPageAllocatedCoarse info' (c div 32)) (c mod 32) \<longleftrightarrow> isPageAllocated info' c = - 1"
    proof (cases "c = n div 32")
      case True
      then show ?thesis using cleared by (simp add: info'_def bit_facts)
    next
      case False
      then show ?thesis
        using ok [OF c] by (auto simp: info'_def bit_facts dest: div_mod_32_eq)
    qed
  qed
  moreover have "page_used info' q \<longleftrightarrow> page_used info q \<and> q \<noteq> n" for q
    by (auto simp: page_used_def info'_def bit_facts dest: div_mod_32_eq)
  then have "used_pages info' = used_pages info - {n}"
    by (auto simp: used_pages_def)
  moreover have "bit (isPageConnectedToNext info' (q div 32)) (q mod 32) \<longleftrightarrow>
       bit (isPageConnectedToNext info (q div 32)) (q mod 32) \<and> q \<noteq> n" for q
    by (auto simp: info'_def bit_facts dest: div_mod_32_eq)
  moreover have "same_space info info'"
    by (simp add: same_space_def info'_def)
  ultimately show ?thesis
    using run by (auto simp: n_def)
qed

section \<open>The search returns the first free run\<close>

definition free_run :: "PagingInfo \<Rightarrow> nat \<Rightarrow> nat \<Rightarrow> bool" where
  "free_run info p n \<longleftrightarrow> p + n \<le> PAGES \<and> (\<forall>i < n. p + i \<notin> used_pages info)"

lemma div1024: "(p :: nat) div 1024 = p div 32 div 32"
  by (simp add: div_mult2_eq [symmetric])

lemma less_of_div: "(q :: nat) div k < p div k \<Longrightarrow> q < p"
  by (meson div_le_mono leD leI)

lemma page_block: "s * 1024 \<le> (q :: nat) \<longleftrightarrow> s \<le> q div 32 div 32"
  by (simp add: less_eq_div_iff_mult_less_eq div1024 [symmetric])

lemma div_of_group: "c < 32 \<Longrightarrow> (v * 32 + c) div 32 = (v :: nat)"
  by simp

lemma page_used_split:
  "page_used info (c * 32 + x) \<longleftrightarrow> bit (isPageAllocated info (c + x div 32)) (x mod 32)"
  by (simp add: page_used_def)

lemma page_word_in_range: "(c :: nat) + x div 32 < FINE_WORDS \<longleftrightarrow> c * 32 + x < PAGES"
  by linarith

lemma runOccupied_False:
  "runOccupied info c fine cs = Some False \<Longrightarrow>
     \<forall>i \<in> set cs. c * 32 + fine + i \<notin> used_pages info \<and> c * 32 + fine + i < PAGES"
proof (induction info c fine cs rule: runOccupied.induct)
  case (1 info c fine)
  then show ?case by simp
next
  case (2 info c fine i cs)
  from "2.prems" have lt: "c + (fine + i) div 32 < FINE_WORDS"
    and clear: "\<not> bit (isPageAllocated info (c + (fine + i) div 32)) ((fine + i) mod 32)"
    and rest: "runOccupied info c fine cs = Some False"
    by (auto simp: Let_def and_onebit_eq_0 split: bind_splits if_splits)
  have "\<not> page_used info (c * 32 + (fine + i))"
    using clear by (simp only: page_used_split) simp
  moreover have "\<forall>i \<in> set cs. c * 32 + fine + i \<notin> used_pages info \<and> c * 32 + fine + i < PAGES"
    using "2.IH" [OF refl] lt clear rest by (auto simp: and_onebit_eq_0)
  ultimately show ?case
    using lt by (auto simp: used_pages_def page_word_in_range ac_simps)
qed

lemma runOccupied_in_range:
  "\<forall>i \<in> set cs. c * 32 + fine + i < PAGES \<Longrightarrow>
     runOccupied info c fine cs = Some (\<exists>i \<in> set cs. c * 32 + fine + i \<in> used_pages info)"
proof (induction info c fine cs rule: runOccupied.induct)
  case (1 info c fine)
  then show ?case by simp
next
  case (2 info c fine i cs)
  have lt: "c + (fine + i) div 32 < FINE_WORDS"
    using "2.prems" by (simp add: page_word_in_range ac_simps)
  have used: "c * 32 + fine + i \<in> used_pages info \<longleftrightarrow>
      bit (isPageAllocated info (c + (fine + i) div 32)) ((fine + i) mod 32)"
    using "2.prems" page_used_split [of info c "fine + i"] by (simp add: used_pages_def ac_simps)
  show ?case
  proof (cases "c * 32 + fine + i \<in> used_pages info")
    case True
    then show ?thesis using lt used by (simp add: Let_def and_onebit_eq_0)
  next
    case False
    then show ?thesis
      using lt used "2.IH" [OF refl lt [THEN aget_in]] "2.prems" by (simp add: Let_def and_onebit_eq_0)
  qed
qed

lemma findFine_hit: "free_run info p (unat count) \<Longrightarrow>
    findFine info count (p div 32) (p mod 32) = Some (Some p)"
  by (subst findFine_def, subst runOccupied_in_range) (auto simp: free_run_def)

lemma findFine_miss:
  assumes "p + unat count \<le> PAGES" and "\<not> free_run info p (unat count)"
  shows "findFine info count (p div 32) (p mod 32) = Some None"
  using assms by (subst findFine_def, subst runOccupied_in_range) (auto simp: free_run_def)

lemma findCoarse_skip:
  assumes "\<And>p. p div 32 = v * 32 + c \<Longrightarrow> p + unat count \<le> PAGES \<and> \<not> free_run info p (unat count)"
  shows "findCoarse info count v c = Some None"
proof -
  have "findFine info count (v * 32 + c) fine = Some None" if "fine < 32" for fine
  proof -
    define p where "p = (v * 32 + c) * 32 + fine"
    have "p div 32 = v * 32 + c" "p mod 32 = fine"
      using that by (simp_all only: p_def div_of_group mod_mult_self3 mod_less)
    then show ?thesis
      using findFine_miss [of p count info] assms [of p] by simp
  qed
  then show ?thesis
    by (auto simp: findCoarse_def intro!: findM_continue)
qed

lemma findVeryCoarse_skip:
  assumes "\<And>p. p div 1024 = v \<Longrightarrow> p + unat count \<le> PAGES \<and> \<not> free_run info p (unat count)"
  shows "findVeryCoarse info count v = Some None"
proof -
  have "findCoarse info count v c = Some None" if "c < 32" for c
  proof (rule findCoarse_skip)
    fix p :: nat assume "p div 32 = v * 32 + c"
    then have "p div 1024 = v" using that by (simp add: div1024)
    then show "p + unat count \<le> PAGES \<and> \<not> free_run info p (unat count)" by (rule assms)
  qed
  then show ?thesis
    by (auto simp: findVeryCoarse_def intro!: findM_continue)
qed

lemma free_page_coarse_clear:
  assumes "bitmap_ok info" and "p < PAGES" and "p \<notin> used_pages info"
  shows "\<not> bit (isPageAllocatedCoarse info (p div 1024)) (p div 32 mod 32)"
proof -
  have "\<not> bit (isPageAllocated info (p div 32)) (p mod 32)"
    using assms(2,3) by (simp add: used_pages_def page_used_def)
  then have "isPageAllocated info (p div 32) \<noteq> - 1"
    using word_neq_minus1_bit by fastforce
  moreover have "p div 32 < FINE_WORDS" using assms(2) by simp
  ultimately show ?thesis
    using assms(1) by (auto simp: bitmap_ok_def div1024)
qed

lemma findM_search:
  assumes ok: "bitmap_ok info" and count: "0 < unat count"
    and run: "free_run info p (unat count)" and s: "s * 1024 \<le> p"
    and first: "\<And>q. s * 1024 \<le> q \<Longrightarrow> q < p \<Longrightarrow> \<not> free_run info q (unat count)"
  shows "findM (findVeryCoarse info count) [s..<COARSE_WORDS] = Some (Some p)"
proof -
  have lt: "p < PAGES" and free: "p \<notin> used_pages info"
    using run count by (auto simp: free_run_def)
  have before: "q + unat count \<le> PAGES \<and> \<not> free_run info q (unat count)"
    if "s * 1024 \<le> q" "q < p" for q
    using first [OF that] run that by (auto simp: free_run_def)
  have clear: "\<not> bit (isPageAllocatedCoarse info (p div 1024)) (p div 32 mod 32)"
    by (rule free_page_coarse_clear [OF ok lt free])
  have group: "p div 1024 * 32 + p div 32 mod 32 = p div 32"
    by (simp add: div1024)
  have sp: "s \<le> p div 32 div 32"
    using s by (simp only: page_block)
  have fine: "findM (findFine info count (p div 32)) [0..<32] = Some (Some p)"
  proof (rule findM_upt_hit [of _ "p mod 32"])
    fix l :: nat assume l: "l < p mod 32"
    define q where "q = p div 32 * 32 + l"
    have q: "q div 32 = p div 32" "q mod 32 = l"
      using l unfolding q_def by simp_all
    have "q < p"
      using l div_mult_mod_eq [of p 32] unfolding q_def by linarith
    moreover have "s * 1024 \<le> q"
      using sp q(1) by (simp only: page_block)
    ultimately
    show "findFine info count (p div 32) l = Some None"
      using findFine_miss [of q count info] before [of q] q by simp
  qed (use findFine_hit [OF run] in simp_all)
  have coarse: "findM (findCoarse info count (p div 1024)) [0..<32] = Some (Some p)"
  proof (rule findM_upt_hit [of _ "p div 32 mod 32"])
    fix l :: nat assume l: "l < p div 32 mod 32"
    show "findCoarse info count (p div 1024) l = Some None"
    proof (rule findCoarse_skip)
      fix q :: nat assume q: "q div 32 = p div 1024 * 32 + l"
      have "q div 32 < p div 32" using l q group by linarith
      then have "q < p" by (rule less_of_div)
      moreover have "s * 1024 \<le> q"
        using q l sp by (simp only: page_block) (simp add: div1024)
      ultimately
      show "q + unat count \<le> PAGES \<and> \<not> free_run info q (unat count)" using before by blast
    qed
  qed (use fine clear group in \<open>simp_all add: findCoarse_def and_onebit_eq_0\<close>)
  show ?thesis
  proof (rule findM_upt_hit [of _ "p div 1024"])
    show "findVeryCoarse info count (p div 1024) = Some (Some p)"
      using coarse clear by (auto simp: findVeryCoarse_def)
    fix v :: nat assume v: "s \<le> v" "v < p div 1024"
    show "findVeryCoarse info count v = Some None"
    proof (rule findVeryCoarse_skip)
      fix q :: nat assume q: "q div 1024 = v"
      then have "q < p" "s * 1024 \<le> q"
        using v less_of_div [of q 1024 p] by (simp_all add: page_block div1024)
      then show "q + unat count \<le> PAGES \<and> \<not> free_run info q (unat count)" using before by blast
    qed
  qed (use s lt in simp_all)
qed

lemma findM_sound:
  assumes "findM (findVeryCoarse info count) vs = Some (Some p)"
  shows "\<forall>i < unat count. p + i \<notin> used_pages info \<and> p + i < PAGES"
proof -
  obtain v where "findVeryCoarse info count v = Some (Some p)"
    using findM_SomeD [OF assms] by blast
  then obtain c where "findCoarse info count v c = Some (Some p)"
    by (auto simp: findVeryCoarse_def split: if_splits dest: findM_SomeD)
  then obtain g fine where "findFine info count g fine = Some (Some p)"
    by (auto simp: findCoarse_def split: if_splits dest: findM_SomeD)
  then have "runOccupied info g fine [0..<unat count] = Some False" and "p = g * 32 + fine"
    by (auto simp: findFine_def split: bind_splits if_splits)
  from runOccupied_False [OF this(1)] this(2) show ?thesis by simp
qed

definition search_start :: "PagingInfo \<Rightarrow> nat" where
  "search_start info = unat (pageSearchStart info) div 1024 * 1024"

lemma search_index: "unat (pageSearchStart info div 1024) * 1024 = search_start info"
  by (simp add: search_start_def unat_div)

lemma findMultiplePages_hit:
  assumes "bitmap_ok info" and "0 < unat count"
    and "free_run info p (unat count)" and "search_start info \<le> p"
    and "\<And>q. search_start info \<le> q \<Longrightarrow> q < p \<Longrightarrow> \<not> free_run info q (unat count)"
  shows "findMultiplePages info count = Some (of_nat p)"
proof -
  have "findM (findVeryCoarse info count) [unat (pageSearchStart info div 1024)..<COARSE_WORDS] = Some (Some p)"
    using assms by (intro findM_search) (simp_all add: search_index)
  then show ?thesis
    by (simp add: findMultiplePages_def)
qed

lemma findMultiplePages_returns:
  assumes "bitmap_ok info" and "0 < unat count"
    and "free_run info p (unat count)" and "search_start info \<le> p"
  shows "\<exists>r. findMultiplePages info count = Some r \<and> unat r \<le> p \<and> search_start info \<le> unat r \<and>
    free_run info (unat r) (unat count) \<and>
    (\<forall>q. search_start info \<le> q \<and> q < unat r \<longrightarrow> \<not> free_run info q (unat count))"
proof -
  define r where "r = (LEAST q. search_start info \<le> q \<and> free_run info q (unat count))"
  have r: "search_start info \<le> r \<and> free_run info r (unat count)"
    unfolding r_def by (rule LeastI [of _ p]) (use assms in simp)
  have least: "r \<le> q" if "search_start info \<le> q" "free_run info q (unat count)" for q
    unfolding r_def by (rule Least_le) (use that in simp)
  have "r < PAGES"
    using r assms(2) by (auto simp: free_run_def)
  then have "unat (of_nat r :: u32) = r" by simp
  moreover have "findMultiplePages info count = Some (of_nat r)"
    using r assms(1,2) by (intro findMultiplePages_hit) (auto dest: least)
  ultimately show ?thesis
    using r assms(3,4) by (intro exI [of _ "of_nat r"]) (auto dest: least)
qed

lemma findMultiplePages_free:
  assumes "findMultiplePages info count = Some r" and "0 < unat count"
  shows "free_run info (unat r) (unat count)"
proof -
  obtain p where p: "findM (findVeryCoarse info count)
      [unat (pageSearchStart info div 1024)..<COARSE_WORDS] = Some (Some p)" and r: "r = of_nat p"
    using assms(1) by (auto simp: findMultiplePages_def split: option.splits)
  have free: "p + i \<notin> used_pages info \<and> p + i < PAGES" if "i < unat count" for i
    using findM_sound [OF p] that by blast
  have "p + (unat count - 1) < PAGES"
    using free [of "unat count - 1"] assms(2) by simp
  then show ?thesis
    using free assms(2) by (auto simp: free_run_def r)
qed

lemma findMultiplePages_from_start:
  assumes "findMultiplePages info count = Some r" and "0 < unat count"
  shows "search_start info \<le> unat r"
proof -
  obtain p where p: "findM (findVeryCoarse info count)
      [unat (pageSearchStart info div 1024)..<COARSE_WORDS] = Some (Some p)" and r: "r = of_nat p"
    using assms(1) by (auto simp: findMultiplePages_def split: option.splits)
  have "p < PAGES"
    using findM_sound [OF p] assms(2) by (metis add_0_right)
  obtain v where v: "unat (pageSearchStart info div 1024) \<le> v" "findVeryCoarse info count v = Some (Some p)"
    using findM_SomeD [OF p] by auto
  then obtain c where "c < 32" and "findCoarse info count v c = Some (Some p)"
    by (auto simp: findVeryCoarse_def split: if_splits dest!: findM_SomeD)
  then obtain fine where "findFine info count (v * 32 + c) fine = Some (Some p)"
    by (auto simp: findCoarse_def split: if_splits dest!: findM_SomeD)
  then have "p = (v * 32 + c) * 32 + fine"
    by (auto simp: findFine_def split: bind_splits if_splits)
  then have "v * 1024 \<le> p" by simp
  with v(1) search_index [of info] have "search_start info \<le> p"
    by (metis le_trans mult_le_mono1)
  with \<open>p < PAGES\<close> show ?thesis by (simp add: r)
qed

section \<open>The page allocator interface\<close>

text \<open>
  What the rest of the memory management relies on: a set of used page numbers, reserving,
  releasing, and a search that answers a free page whenever one exists at or above \<open>low\<close>.
\<close>

locale page_allocator =
  fixes inv :: "'s \<Rightarrow> bool" and used :: "'s \<Rightarrow> nat set" and low :: "'s \<Rightarrow> nat"
    and reserve :: "'s \<Rightarrow> u32 \<Rightarrow> 's option" and release :: "'s \<Rightarrow> u32 \<Rightarrow> 's option"
    and find :: "'s \<Rightarrow> u32 option"
  assumes reserve_law: "inv s \<Longrightarrow> unat p < PAGES \<Longrightarrow>
      \<exists>s'. reserve s p = Some s' \<and> inv s' \<and> used s' = insert (unat p) (used s) \<and> low s' = low s"
    and release_law: "inv s \<Longrightarrow> unat p < PAGES \<Longrightarrow>
      \<exists>s'. release s p = Some s' \<and> inv s' \<and> used s' = used s - {unat p} \<and> low s' = low s"
    and find_law: "inv s \<Longrightarrow> find s = Some p \<Longrightarrow> unat p < PAGES \<and> unat p \<notin> used s"
    and find_returns: "inv s \<Longrightarrow> q < PAGES \<Longrightarrow> low s \<le> q \<Longrightarrow> q \<notin> used s \<Longrightarrow> \<exists>p. find s = Some p"
begin

lemma take_page:
  assumes "inv s" and "find s = Some p" and "reserve s p = Some s'"
  shows "inv s'" and "used s' = insert (unat p) (used s)" and "unat p \<notin> used s" and "unat p < PAGES"
    and "low s' = low s"
  using find_law [OF assms(1,2)] reserve_law [OF assms(1), of p] assms(3) by auto

lemma take_page_returns:
  assumes "inv s" and "q < PAGES" and "low s \<le> q" and "q \<notin> used s"
  shows "\<exists>p s'. find s = Some p \<and> reserve s p = Some s'"
proof -
  obtain p where p: "find s = Some p" using find_returns [OF assms] by blast
  with find_law [OF assms(1) p] reserve_law [OF assms(1), of p] show ?thesis by auto
qed

lemma take_twice_distinct:
  assumes "inv s" and "find s = Some p" and "reserve s p = Some s'" and "find s' = Some q"
  shows "p \<noteq> q"
  using take_page [OF assms(1-3)] find_law [of s' q] assms(4) by auto

lemma take_then_release:
  assumes "inv s" and "find s = Some p" and "reserve s p = Some s'"
  shows "\<exists>s''. release s' p = Some s'' \<and> inv s'' \<and> used s'' = used s"
  using take_page [OF assms] release_law [of s' p] by auto

end

lemma bitmap_page_allocator:
  "page_allocator bitmap_ok used_pages search_start reservePage freePhysicalPage findPage"
proof
  fix s and p :: u32 assume "bitmap_ok s" "unat p < PAGES"
  then show "\<exists>s'. reservePage s p = Some s' \<and> bitmap_ok s' \<and> used_pages s' = insert (unat p) (used_pages s) \<and>
      search_start s' = search_start s"
    by (metis reservePage_returns reservePage_bitmap_ok reservePage_used reservePage_frame(3) search_start_def)
next
  fix s and p :: u32 assume "bitmap_ok s" "unat p < PAGES"
  from markPageFree_spec [OF this]
  show "\<exists>s'. freePhysicalPage s p = Some s' \<and> bitmap_ok s' \<and> used_pages s' = used_pages s - {unat p} \<and>
      search_start s' = search_start s"
    by (auto simp: freePhysicalPage_def same_space_def search_start_def)
next
  fix s p assume "findPage s = Some p"
  then show "unat p < PAGES \<and> unat p \<notin> used_pages s"
    using findMultiplePages_free [of s 1 p] by (simp add: findPage_def free_run_def)
next
  fix s q assume "bitmap_ok s" "q < PAGES" "search_start s \<le> q" "q \<notin> used_pages s"
  then show "\<exists>p. findPage s = Some p"
    using findMultiplePages_returns [of s 1 q] by (auto simp: findPage_def free_run_def)
qed

interpretation bm: page_allocator bitmap_ok used_pages search_start reservePage freePhysicalPage findPage
  by (rule bitmap_page_allocator)

section \<open>Properties of the bitmap allocator\<close>

text \<open>
  C1. \<open>findMultiplePages\<close> returns \<open>r\<close> exactly when \<open>r\<close> starts the first run of \<open>count\<close> free pages
  at or above the 1024-page block of \<open>pageSearchStart\<close>. In particular it never returns a taken page,
  it finds a run whenever there is one, and it faults exactly when there is none.
\<close>

theorem findMultiplePages_correct:
  assumes "bitmap_ok info" and "0 < unat count"
  shows "findMultiplePages info count = Some r \<longleftrightarrow>
    search_start info \<le> unat r \<and> free_run info (unat r) (unat count) \<and>
    (\<forall>q. search_start info \<le> q \<and> q < unat r \<longrightarrow> \<not> free_run info q (unat count))"
proof
  assume hit: "findMultiplePages info count = Some r"
  have free: "free_run info (unat r) (unat count)" and lo: "search_start info \<le> unat r"
    using findMultiplePages_free [OF hit assms(2)] findMultiplePages_from_start [OF hit assms(2)] .
  with findMultiplePages_returns [OF assms free lo] hit
  show "search_start info \<le> unat r \<and> free_run info (unat r) (unat count) \<and>
    (\<forall>q. search_start info \<le> q \<and> q < unat r \<longrightarrow> \<not> free_run info q (unat count))"
    by auto
next
  assume "search_start info \<le> unat r \<and> free_run info (unat r) (unat count) \<and>
    (\<forall>q. search_start info \<le> q \<and> q < unat r \<longrightarrow> \<not> free_run info q (unat count))"
  then show "findMultiplePages info count = Some r"
    using findMultiplePages_hit [OF assms, of "unat r"] by simp
qed

text \<open>A bitmap with the first 33 pages taken, as a concrete state for the witnesses.\<close>

definition sample_pde :: PageDirectoryEntry where
  "sample_pde = \<lparr>pde_present = False, pde_writable = False, pde_belongsToUserProcess = False,
     pde_reserved = 0, pde_accessed = False, pde_dirty = False, pde_reserved2 = 0, pde_available = 0,
     pageTableID = 0\<rparr>"

definition sample_info :: PagingInfo where
  "sample_info = \<lparr>pageDirectory = (\<lambda>_. sample_pde), isPageTableInUse = (\<lambda>_. 0),
     isPageAllocated = (\<lambda>_. 0)(0 := - 1, 1 := 1), isPageConnectedToNext = (\<lambda>_. 0),
     isPageAllocatedCoarse = (\<lambda>_. 0)(0 := 1), pageSearchStart = 0\<rparr>"

lemma sample_info_ok: "bitmap_ok sample_info"
  by (auto simp: bitmap_ok_def sample_info_def bit_1_iff split: if_splits)

lemma sample_info_used: "q \<in> used_pages sample_info \<longleftrightarrow> q < 33"
proof -
  have q: "q = q div 32 * 32 + q mod 32" and m: "q mod 32 < 32" by simp_all
  consider "q div 32 = 0" | "q div 32 = 1" | "2 \<le> q div 32" by linarith
  then show ?thesis
  proof cases
    case 1
    then have "q < 33" using q m by linarith
    with 1 show ?thesis by (simp add: used_pages_def page_used_def sample_info_def)
  next
    case 2
    then have "q < 33 \<longleftrightarrow> q mod 32 = 0" and "q < PAGES" using q m by linarith+
    with 2 show ?thesis by (simp add: used_pages_def page_used_def sample_info_def bit_1_iff)
  next
    case 3
    then have "\<not> q < 33" using q by linarith
    with 3 show ?thesis by (simp add: used_pages_def page_used_def sample_info_def)
  qed
qed

theorem findMultiplePages_correct_witness:
  "bitmap_ok sample_info \<and> findMultiplePages sample_info 2 = Some 33"
proof -
  have start: "search_start sample_info = 0"
    by (simp add: search_start_def sample_info_def)
  have "\<not> free_run sample_info q 2" if "q < 33" for q
    using that by (auto simp: free_run_def sample_info_used intro!: exI [of _ 0])
  moreover have "free_run sample_info 33 2"
    by (simp add: free_run_def sample_info_used)
  ultimately have "findMultiplePages sample_info 2 = Some 33"
    by (subst findMultiplePages_correct [OF sample_info_ok]) (simp_all add: start)
  then show ?thesis
    using sample_info_ok by simp
qed

end
