(* ===== verification/PageTables.thy ===== *)
theory PageTables
  imports PageBitmap
begin

text \<open>
  Page tables and address translation of \<open>kernel/memory/paging.c\<close>. \<open>KernelMemory\<close> holds the
  globals of that file: the bitmap of physical frames, the kernel's own address space, the page
  table through which the temporary window is mapped, and the contents of the physical frames read
  as page tables. A page directory is part of its \<open>PagingInfo\<close> (each address space owns one), so an
  operation on an address space takes the \<open>PagingInfo\<close> and returns it updated, next to the memory;
  \<open>onKernel\<close> is the call with the kernel's own address space. The TLB flush
  \<open>invalidatePage\<close> has no state here.
\<close>

section \<open>State\<close>

record PageTableEntry =
  pte_present :: bool
  pte_writable :: bool
  pte_belongsToUserProcess :: bool
  pte_writeThrough :: bool
  pte_isVolatile :: bool
  pte_accessed :: bool
  pte_reserved :: bool
  pte_is4MBPage :: bool
  pte_global :: bool
  pte_available :: "3 word"
  targetAddress :: u20

record KernelMemory =
  kernelPhysicalPages :: PagingInfo
  kernelVirtualPages :: PagingInfo
  kernelDataPageTable :: "nat \<Rightarrow> PageTableEntry"
  frames :: "u20 \<Rightarrow> nat \<Rightarrow> PageTableEntry"

text \<open>The bit fields of \<open>VirtualAddress\<close>.\<close>

definition pageTableIndex :: "u32 \<Rightarrow> nat" where
  "pageTableIndex address = unat (drop_bit 12 address AND 0x3FF)"

definition pageDirectoryIndex :: "u32 \<Rightarrow> nat" where
  "pageDirectoryIndex address = unat (drop_bit 22 address)"

definition zeroPageTableEntry :: PageTableEntry where
  "zeroPageTableEntry = \<lparr>pte_present = False, pte_writable = False, pte_belongsToUserProcess = False,
     pte_writeThrough = False, pte_isVolatile = False, pte_accessed = False, pte_reserved = False,
     pte_is4MBPage = False, pte_global = False, pte_available = 0, targetAddress = 0\<rparr>"

definition zeroPageDirectoryEntry :: PageDirectoryEntry where
  "zeroPageDirectoryEntry = \<lparr>pde_present = False, pde_writable = False,
     pde_belongsToUserProcess = False, pde_reserved = 0, pde_accessed = False, pde_dirty = False,
     pde_reserved2 = 0, pde_available = 0, pageTableID = 0\<rparr>"

definition zeroPagingInfo :: PagingInfo where
  "zeroPagingInfo = \<lparr>pageDirectory = (\<lambda>_. zeroPageDirectoryEntry), isPageTableInUse = (\<lambda>_. 0),
     isPageAllocated = (\<lambda>_. 0), isPageConnectedToNext = (\<lambda>_. 0), isPageAllocatedCoarse = (\<lambda>_. 0),
     pageSearchStart = 0\<rparr>"

section \<open>The temporary window\<close>

text \<open>\<open>temporaryPage\<close>, the fourth page of the area at \<open>0xFF800000\<close>.\<close>

definition temporaryPage :: u32 where
  "temporaryPage = 0xFF803000"

definition mapTemporary :: "KernelMemory \<Rightarrow> u32 \<Rightarrow> u32 \<times> KernelMemory" where
  "mapTemporary m physical =
     (temporaryPage + PAGE_OFFSET physical,
      m\<lparr>kernelDataPageTable := (kernelDataPageTable m)
        (3 := (kernelDataPageTable m 3)
          \<lparr>targetAddress := ucast (PAGE_ID physical), pte_writable := True, pte_present := True\<rparr>)\<rparr>)"

text \<open>The frame the window shows, and the page table read and written through the window.\<close>

definition windowFrame :: "KernelMemory \<Rightarrow> u20" where
  "windowFrame m = targetAddress (kernelDataPageTable m 3)"

definition windowTable :: "KernelMemory \<Rightarrow> nat \<Rightarrow> PageTableEntry" where
  "windowTable m = frames m (windowFrame m)"

definition setWindowTable :: "KernelMemory \<Rightarrow> (nat \<Rightarrow> PageTableEntry) \<Rightarrow> KernelMemory" where
  "setWindowTable m table = m\<lparr>frames := (frames m)(windowFrame m := table)\<rparr>"

section \<open>Operations\<close>

definition kernelGetVirtualAddress :: "u32 \<Rightarrow> u32" where
  "kernelGetVirtualAddress address =
     (if address < 0x100000 then 0
      else if address \<le> 0x500000 then address + 0xFFC00000 - 0x100000
      else if address \<le> 0x900000 then address + 0xFF800000 - 0x500000
      else 0)"

definition getPhysicalAddress ::
  "KernelMemory \<Rightarrow> (nat \<Rightarrow> PageDirectoryEntry) \<Rightarrow> u32 \<Rightarrow> u32 \<times> KernelMemory" where
  "getPhysicalAddress m directory address =
     (let tableId = pageTableID (directory (pageDirectoryIndex address));
          (_, m) = mapTemporary m (ADDRESS (ucast tableId));
          pageBase = targetAddress (windowTable m (pageTableIndex address))
      in (ADDRESS (ucast pageBase) + PAGE_OFFSET address, m))"

definition getPhysicalAddressKernel :: "KernelMemory \<Rightarrow> u32 \<Rightarrow> u32 \<times> KernelMemory" where
  "getPhysicalAddressKernel m address =
     getPhysicalAddress m (pageDirectory (kernelVirtualPages m)) address"

text \<open>The first half of \<open>mapPage\<close>: the page table of the directory slot, created when missing.\<close>

definition ensurePageTable ::
  "PagingInfo \<Rightarrow> KernelMemory \<Rightarrow> nat \<Rightarrow> bool \<Rightarrow> (PagingInfo \<times> KernelMemory) option" where
  "ensurePageTable info m index userPage =
     (let entry = pageDirectory info index in
      if \<not> pde_present entry then do {
        newPageTable \<leftarrow> findPage (kernelPhysicalPages m);
        physicalPages \<leftarrow> reservePage (kernelPhysicalPages m) newPageTable;
        let (_, m) = mapTemporary (m\<lparr>kernelPhysicalPages := physicalPages\<rparr>) (ADDRESS newPageTable);
        Some (info\<lparr>pageDirectory := (pageDirectory info)(index := entry
                \<lparr>pageTableID := ucast newPageTable, pde_present := True, pde_writable := True,
                 pde_belongsToUserProcess := pde_belongsToUserProcess entry \<or> userPage\<rparr>)\<rparr>,
              setWindowTable m (\<lambda>_. zeroPageTableEntry))
      } else Some (info, m))"

definition mapPage ::
  "PagingInfo \<Rightarrow> KernelMemory \<Rightarrow> u32 \<Rightarrow> u32 \<Rightarrow> bool \<Rightarrow> bool \<Rightarrow> (PagingInfo \<times> KernelMemory) option" where
  "mapPage info m physical virtual userPage isVolatile = do {
     (info, m) \<leftarrow> ensurePageTable info m (pageDirectoryIndex virtual) userPage;
     let (_, m) = mapTemporary m
       (ADDRESS (ucast (pageTableID (pageDirectory info (pageDirectoryIndex virtual)))));
     let table = windowTable m;
     let entry = (table (pageTableIndex virtual))
       \<lparr>targetAddress := ucast (PAGE_ID physical), pte_present := True, pte_writable := True,
        pte_isVolatile := isVolatile, pte_belongsToUserProcess := userPage\<rparr>;
     Some (info, setWindowTable m (table(pageTableIndex virtual := entry)))
   }"

definition onKernel ::
  "(PagingInfo \<Rightarrow> KernelMemory \<Rightarrow> (PagingInfo \<times> KernelMemory) option) \<Rightarrow> KernelMemory \<Rightarrow> KernelMemory option" where
  "onKernel f m = do {
     (info, m) \<leftarrow> f (kernelVirtualPages m) m;
     Some (m\<lparr>kernelVirtualPages := info\<rparr>)
   }"

definition mapPageKernel :: "KernelMemory \<Rightarrow> u32 \<Rightarrow> u32 \<Rightarrow> KernelMemory option" where
  "mapPageKernel m physical virtual =
     onKernel (\<lambda>info m. mapPage info m physical virtual False False) m"

text \<open>A frame and a kernel page taken from the two bitmaps, as the callers do it.\<close>

definition reservePhysical :: "KernelMemory \<Rightarrow> u32 \<Rightarrow> KernelMemory option" where
  "reservePhysical m pageId = do {
     info \<leftarrow> reservePage (kernelPhysicalPages m) pageId;
     Some (m\<lparr>kernelPhysicalPages := info\<rparr>)
   }"

definition reserveVirtual :: "KernelMemory \<Rightarrow> u32 \<Rightarrow> KernelMemory option" where
  "reserveVirtual m pageId = do {
     info \<leftarrow> reservePage (kernelVirtualPages m) pageId;
     Some (m\<lparr>kernelVirtualPages := info\<rparr>)
   }"

definition getPage :: "KernelMemory \<Rightarrow> (u32 \<times> KernelMemory) option" where
  "getPage m = do {
     physical \<leftarrow> findPage (kernelPhysicalPages m);
     m \<leftarrow> reservePhysical m physical;
     virtual \<leftarrow> findPage (kernelVirtualPages m);
     m \<leftarrow> reserveVirtual m virtual;
     m \<leftarrow> mapPageKernel m (ADDRESS physical) (ADDRESS virtual);
     Some (ADDRESS virtual, m)
   }"

text \<open>One iteration of the loop of \<open>getPagesCount\<close>.\<close>

definition pagesCountStep :: "u32 \<Rightarrow> nat \<Rightarrow> KernelMemory \<Rightarrow> KernelMemory option" where
  "pagesCountStep virtualPageId i m = do {
     physical \<leftarrow> findPage (kernelPhysicalPages m);
     m \<leftarrow> reservePhysical m physical;
     mapPageKernel m (ADDRESS physical) (ADDRESS (virtualPageId + of_nat i))
   }"

definition getPagesCount :: "KernelMemory \<Rightarrow> u32 \<Rightarrow> (u32 \<times> KernelMemory) option" where
  "getPagesCount m count = do {
     virtualPageId \<leftarrow> findMultiplePages (kernelVirtualPages m) count;
     virtualPages \<leftarrow> reservePagesCount (kernelVirtualPages m) virtualPageId count;
     m \<leftarrow> ofold (pagesCountStep virtualPageId) [0..<unat count] (m\<lparr>kernelVirtualPages := virtualPages\<rparr>);
     Some (ADDRESS virtualPageId, m)
   }"

definition kernelMapPhysical :: "KernelMemory \<Rightarrow> u32 \<Rightarrow> (u32 \<times> KernelMemory) option" where
  "kernelMapPhysical m address = do {
     m \<leftarrow> reservePhysical m (PAGE_ID address);
     virtualPageId \<leftarrow> findPage (kernelVirtualPages m);
     m \<leftarrow> reserveVirtual m virtualPageId;
     m \<leftarrow> mapPageKernel m (ADDRESS (PAGE_ID address)) (ADDRESS virtualPageId);
     Some (ADDRESS virtualPageId + PAGE_OFFSET address, m)
   }"

definition setConnected :: "PagingInfo \<Rightarrow> u32 \<Rightarrow> PagingInfo option" where
  "setConnected info pageId = do {
     word \<leftarrow> aget FINE_WORDS (isPageConnectedToNext info) (unat (pageId div 32));
     Some (info\<lparr>isPageConnectedToNext := (isPageConnectedToNext info)
       (unat (pageId div 32) := word OR onebit (unat (pageId mod 32)))\<rparr>)
   }"

definition kernelMapPhysicalCount :: "KernelMemory \<Rightarrow> u32 \<Rightarrow> u32 \<Rightarrow> (u32 \<times> KernelMemory) option" where
  "kernelMapPhysicalCount m address count = do {
     let physicalPageStart = PAGE_ID address;
     physicalPages \<leftarrow> reservePagesCount (kernelPhysicalPages m) physicalPageStart count;
     let m = m\<lparr>kernelPhysicalPages := physicalPages\<rparr>;
     virtualPageStart \<leftarrow> findMultiplePages (kernelVirtualPages m) count;
     virtualPages \<leftarrow> reservePagesCount (kernelVirtualPages m) virtualPageStart count;
     m \<leftarrow> ofold (\<lambda>i m. do {
            m \<leftarrow> mapPageKernel m (ADDRESS (physicalPageStart + of_nat i))
                   (ADDRESS (virtualPageStart + of_nat i));
            info \<leftarrow> setConnected (kernelVirtualPages m) (virtualPageStart + of_nat i);
            Some (m\<lparr>kernelVirtualPages := info\<rparr>)
          }) [0..<unat count] (m\<lparr>kernelVirtualPages := virtualPages\<rparr>);
     Some (ADDRESS virtualPageStart + PAGE_OFFSET address, m)
   }"

definition sharePage ::
  "KernelMemory \<Rightarrow> PagingInfo \<Rightarrow> u32 \<Rightarrow> u32 \<Rightarrow> (u32 \<times> PagingInfo \<times> KernelMemory) option" where
  "sharePage m destination sourceAddress destinationAddress =
     (let (physicalSource, m) = getPhysicalAddressKernel m sourceAddress in
      if destinationAddress = 0 then do {
        page \<leftarrow> findPage destination;
        (destination, m) \<leftarrow> mapPage destination m physicalSource (ADDRESS page) True False;
        Some (ADDRESS page + PAGE_OFFSET sourceAddress, destination, m)
      } else do {
        (destination, m) \<leftarrow> mapPage destination m physicalSource destinationAddress True False;
        Some (destinationAddress, destination, m)
      })"

definition unmapSinglePageFrom :: "PagingInfo \<Rightarrow> KernelMemory \<Rightarrow> u32 \<Rightarrow> KernelMemory" where
  "unmapSinglePageFrom info m pageAddress =
     (let (_, m) = mapTemporary m
            (ADDRESS (ucast (pageTableID (pageDirectory info (pageDirectoryIndex pageAddress)))));
          table = windowTable m;
          entry = (table (pageTableIndex pageAddress))\<lparr>targetAddress := 0, pte_present := False\<rparr>
      in setWindowTable m (table(pageTableIndex pageAddress := entry)))"

text \<open>
  The three \<open>do ... while\<close> loops that give pages back. Each iteration frees one page and then asks
  whether \<open>isPageConnectedToNext\<close> has the bit of that page, to go on with the next one.
\<close>

partial_function (option) unmapPageFromLoop ::
  "PagingInfo \<Rightarrow> KernelMemory \<Rightarrow> u32 \<Rightarrow> (PagingInfo \<times> KernelMemory) option" where
  "unmapPageFromLoop info m pageId = do {
     let coarse = pageId div 32;
     let fine = pageId mod 32;
     let fineBit = onebit (unat fine);
     info \<leftarrow> markPageFree info coarse fine fineBit;
     let m = unmapSinglePageFrom info m (ADDRESS pageId);
     connected \<leftarrow> aget FINE_WORDS (isPageConnectedToNext info) (unat coarse);
     if connected AND fineBit \<noteq> 0 then unmapPageFromLoop info m (pageId + 1)
     else Some (info, m)
   }"

definition unmapPageFrom ::
  "PagingInfo \<Rightarrow> KernelMemory \<Rightarrow> u32 \<Rightarrow> (PagingInfo \<times> KernelMemory) option" where
  "unmapPageFrom info m address = unmapPageFromLoop info m (PAGE_ID address)"

definition unmapPage :: "KernelMemory \<Rightarrow> u32 \<Rightarrow> KernelMemory option" where
  "unmapPage m pageAddress = onKernel (\<lambda>info m. unmapPageFrom info m pageAddress) m"

partial_function (option) giveUpPage ::
  "PagingInfo \<Rightarrow> KernelMemory \<Rightarrow> u32 \<Rightarrow> (PagingInfo \<times> KernelMemory) option" where
  "giveUpPage info m pageId = do {
     let (physical, m) = getPhysicalAddress m (pageDirectory info) (ADDRESS pageId);
     let physicalId = PAGE_ID physical;
     physicalPages \<leftarrow> markPageFree (kernelPhysicalPages m) (physicalId div 32) (physicalId mod 32)
       (onebit (unat (physicalId mod 32)));
     let m = m\<lparr>kernelPhysicalPages := physicalPages\<rparr>;
     let coarse = pageId div 32;
     let fine = pageId mod 32;
     let fineBit = onebit (unat fine);
     info \<leftarrow> markPageFree info coarse fine fineBit;
     let m = unmapSinglePageFrom info m (ADDRESS pageId);
     connected \<leftarrow> aget FINE_WORDS (isPageConnectedToNext info) (unat coarse);
     if connected AND fineBit \<noteq> 0 then giveUpPage info m (pageId + 1)
     else Some (info, m)
   }"

text \<open>
  \<open>freePageFrom\<close> indexes the directory with \<open>PAGE_ID(pageId)\<close> and the table with
  \<open>PAGE_OFFSET(pageId)\<close>, the macros for addresses applied to a page number. The table index can
  reach 4095 although the window shows 1024 entries: a larger index reads behind the window.
\<close>

partial_function (option) freePageFromLoop ::
  "PagingInfo \<Rightarrow> KernelMemory \<Rightarrow> u32 \<Rightarrow> (PagingInfo \<times> KernelMemory) option" where
  "freePageFromLoop info m pageId = do {
     let coarse = pageId div 32;
     let fine = pageId mod 32;
     let fineBit = onebit (unat fine);
     info \<leftarrow> markPageFree info coarse fine fineBit;
     directoryEntry \<leftarrow> aget 1024 (pageDirectory info) (unat (PAGE_ID pageId));
     let (_, m) = mapTemporary m (ADDRESS (ucast (pageTableID directoryEntry)));
     entry \<leftarrow> aget 1024 (windowTable m) (unat (PAGE_OFFSET pageId));
     let physicalPageId = (ucast (targetAddress entry) :: u32);
     let physicalFine = physicalPageId mod 32;
     physicalPages \<leftarrow> markPageFree (kernelPhysicalPages m) (physicalPageId div 32) physicalFine
       (onebit (unat physicalFine));
     let m = unmapSinglePageFrom info (m\<lparr>kernelPhysicalPages := physicalPages\<rparr>) (ADDRESS pageId);
     connected \<leftarrow> aget FINE_WORDS (isPageConnectedToNext info) (unat coarse);
     if connected AND fineBit \<noteq> 0 then freePageFromLoop info m (pageId + 1)
     else Some (info, m)
   }"

definition freePageFrom ::
  "PagingInfo \<Rightarrow> KernelMemory \<Rightarrow> u32 \<Rightarrow> (PagingInfo \<times> KernelMemory) option" where
  "freePageFrom info m address = freePageFromLoop info m (PAGE_ID address)"

definition freePage :: "KernelMemory \<Rightarrow> u32 \<Rightarrow> KernelMemory option" where
  "freePage m address = onKernel (\<lambda>info m. freePageFrom info m address) m"

text \<open>
  The start-up of the memory management. The boot code has filled the page directory at
  \<open>0xFF800000\<close>; the first \<open>0xFF8\<close> bytes of it (1022 entries) are cleared, which keeps the two
  kernel tables at its end. Both \<open>PagingInfo\<close> structures are cleared before use.
\<close>

definition reservePagesUntilPhysical :: "KernelMemory \<Rightarrow> u32 \<Rightarrow> KernelMemory option" where
  "reservePagesUntilPhysical m endPageId = do {
     let directory = (\<lambda>i. if i < 0xFF8 div 4 then zeroPageDirectoryEntry
                          else pageDirectory (kernelVirtualPages m) i);
     virtualPages \<leftarrow> reservePagesCount zeroPagingInfo 0 1;
     physicalPages \<leftarrow> reservePagesCount zeroPagingInfo 0 endPageId;
     virtualPages \<leftarrow> reservePagesCount virtualPages 0xFF800 0x800;
     Some (m\<lparr>kernelPhysicalPages := physicalPages\<lparr>pageSearchStart := endPageId\<rparr>,
            kernelVirtualPages := virtualPages\<lparr>pageSearchStart := 0, pageDirectory := directory\<rparr>\<rparr>)
   }"

section \<open>Addresses\<close>

lemma unat_PAGE_ID: "unat (PAGE_ID a) = unat a div 4096"
  by (simp add: PAGE_ID_def unat_drop_bit)

lemma PAGE_ID_lt [simp]: "unat (PAGE_ID a) < PAGES"
  using unat_u32_bound [of a] by (simp add: unat_PAGE_ID less_mult_imp_div_less)

lemma PAGE_ID_ADDRESS [simp]: "unat p < PAGES \<Longrightarrow> PAGE_ID (ADDRESS p) = p"
  using bit_above_unat [of p 20]
  by (auto simp: PAGE_ID_def ADDRESS_def bit_eq_iff bit_simps not_le [symmetric])

lemma unat_u20_lt [simp]: "unat (f :: u20) < PAGES"
  using unsigned_less [of f] by simp

lemma unat_ucast20 [simp]: "unat (ucast (f :: u20) :: u32) = unat f"
  using less_trans [OF unat_u20_lt [of f], of "2 ^ 32"]
  by (simp add: unsigned_ucast_eq take_bit_nat_eq_self)

lemma ucast20_ucast [simp]: "ucast (ucast (f :: u20) :: u32) = f"
  by (auto simp: bit_eq_iff bit_simps)

lemma unat_ucast_to20: "unat (p :: u32) < PAGES \<Longrightarrow> unat (ucast p :: u20) = unat p"
  by (simp add: unsigned_ucast_eq take_bit_nat_eq_self)

lemma pageTableIndex_lt [simp]: "pageTableIndex a < 1024"
proof -
  have "unat (drop_bit 12 a AND 0x3FF) \<le> unat (0x3FF :: u32)"
    by (rule word_and_le1 [THEN word_le_nat_alt [THEN iffD1]])
  then show ?thesis by (simp add: pageTableIndex_def)
qed

lemma pageDirectoryIndex_eq: "pageDirectoryIndex a = unat (PAGE_ID a) div 1024"
  by (simp add: pageDirectoryIndex_def unat_PAGE_ID unat_drop_bit div_mult2_eq [symmetric])

lemma pageTableIndex_eq: "pageTableIndex a = unat (PAGE_ID a) mod 1024"
proof -
  have "drop_bit 12 a AND 0x3FF = take_bit 10 (PAGE_ID a)"
    by (simp add: PAGE_ID_def take_bit_eq_mask mask_eq_exp_minus_1)
  then show ?thesis
    by (simp add: pageTableIndex_def take_bit_eq_mod unat_mod)
qed

lemma pageDirectoryIndex_lt [simp]: "pageDirectoryIndex a < 1024"
  using PAGE_ID_lt [of a] by (simp add: pageDirectoryIndex_eq less_mult_imp_div_less)

text \<open>Two addresses are on the same page exactly when both indices agree.\<close>

lemma same_page_iff:
  "PAGE_ID a = PAGE_ID b \<longleftrightarrow>
     pageDirectoryIndex a = pageDirectoryIndex b \<and> pageTableIndex a = pageTableIndex b"
  by (metis div_mult_mod_eq pageDirectoryIndex_eq pageTableIndex_eq word_unat_eq_iff)

section \<open>Translation and well-formed address spaces\<close>

definition translate :: "KernelMemory \<Rightarrow> PagingInfo \<Rightarrow> u32 \<Rightarrow> u32" where
  "translate m info a = fst (getPhysicalAddress m (pageDirectory info) a)"

definition page_entry :: "KernelMemory \<Rightarrow> PagingInfo \<Rightarrow> u32 \<Rightarrow> PageTableEntry" where
  "page_entry m info a =
     frames m (pageTableID (pageDirectory info (pageDirectoryIndex a))) (pageTableIndex a)"

definition table_present :: "PagingInfo \<Rightarrow> u32 \<Rightarrow> bool" where
  "table_present info a \<longleftrightarrow> pde_present (pageDirectory info (pageDirectoryIndex a))"

definition table_frames :: "PagingInfo \<Rightarrow> u20 set" where
  "table_frames info = {pageTableID (pageDirectory info d) | d. d < 1024 \<and> pde_present (pageDirectory info d)}"

text \<open>
  An address space is well-formed when no two directory slots share a page table and every page
  table is a used frame, so that a new page table never is one already in use.
\<close>

definition space_ok :: "KernelMemory \<Rightarrow> PagingInfo \<Rightarrow> bool" where
  "space_ok m info \<longleftrightarrow>
     (\<forall>f \<in> table_frames info. unat f \<in> used_pages (kernelPhysicalPages m)) \<and>
     (\<forall>d < 1024. \<forall>e < 1024. pde_present (pageDirectory info d) \<and> pde_present (pageDirectory info e) \<and>
        pageTableID (pageDirectory info d) = pageTableID (pageDirectory info e) \<longrightarrow> d = e)"

lemma mapTemporary_simps [simp]:
  "windowFrame (snd (mapTemporary m a)) = ucast (PAGE_ID a)"
  "frames (snd (mapTemporary m a)) = frames m"
  "kernelPhysicalPages (snd (mapTemporary m a)) = kernelPhysicalPages m"
  "kernelVirtualPages (snd (mapTemporary m a)) = kernelVirtualPages m"
  by (simp_all add: mapTemporary_def windowFrame_def)

lemma setWindowTable_simps [simp]:
  "frames (setWindowTable m t) = (frames m)(windowFrame m := t)"
  "kernelPhysicalPages (setWindowTable m t) = kernelPhysicalPages m"
  "kernelVirtualPages (setWindowTable m t) = kernelVirtualPages m"
  "windowFrame (setWindowTable m t) = windowFrame m"
  by (simp_all add: setWindowTable_def windowFrame_def)

lemma translate_eq: "translate m info a = ADDRESS (ucast (targetAddress (page_entry m info a))) + PAGE_OFFSET a"
  by (simp add: translate_def getPhysicalAddress_def page_entry_def windowTable_def split_def Let_def)

lemma getPhysicalAddress_memory [simp]:
  "frames (snd (getPhysicalAddress m d a)) = frames m"
  "kernelPhysicalPages (snd (getPhysicalAddress m d a)) = kernelPhysicalPages m"
  "kernelVirtualPages (snd (getPhysicalAddress m d a)) = kernelVirtualPages m"
  by (simp_all add: getPhysicalAddress_def split_def Let_def)

lemma page_entry_same_page: "PAGE_ID a = PAGE_ID b \<Longrightarrow> page_entry m info a = page_entry m info b"
  by (simp add: page_entry_def same_page_iff)

lemma table_frames_I: "table_present info a \<Longrightarrow>
    pageTableID (pageDirectory info (pageDirectoryIndex a)) \<in> table_frames info"
  by (auto simp: table_frames_def table_present_def)

text \<open>What \<open>ensurePageTable\<close> does when it has to create a table, and when it has not.\<close>

lemma ensurePageTable_present:
  "pde_present (pageDirectory info d) \<Longrightarrow> ensurePageTable info m d userPage = Some (info, m)"
  by (simp add: ensurePageTable_def)

lemma ensurePageTable_new:
  assumes "\<not> pde_present (pageDirectory info d)" and "bitmap_ok (kernelPhysicalPages m)"
    and "ensurePageTable info m d userPage = Some (info', m')"
  shows "\<exists>f. unat f \<notin> used_pages (kernelPhysicalPages m) \<and>
    pageDirectory info' = (pageDirectory info)(d := (pageDirectory info d)
      \<lparr>pageTableID := f, pde_present := True, pde_writable := True,
       pde_belongsToUserProcess := pde_belongsToUserProcess (pageDirectory info d) \<or> userPage\<rparr>) \<and>
    frames m' = (frames m)(f := \<lambda>_. zeroPageTableEntry) \<and>
    kernelVirtualPages m' = kernelVirtualPages m \<and> bitmap_ok (kernelPhysicalPages m') \<and>
    used_pages (kernelPhysicalPages m') = insert (unat f) (used_pages (kernelPhysicalPages m)) \<and>
    search_start (kernelPhysicalPages m') = search_start (kernelPhysicalPages m) \<and>
    info' = info\<lparr>pageDirectory := pageDirectory info'\<rparr>"
proof -
  obtain p pages where p: "findPage (kernelPhysicalPages m) = Some p"
    and pages: "reservePage (kernelPhysicalPages m) p = Some pages"
    and info': "info' = info\<lparr>pageDirectory := (pageDirectory info)(d := (pageDirectory info d)
        \<lparr>pageTableID := ucast p, pde_present := True, pde_writable := True,
         pde_belongsToUserProcess := pde_belongsToUserProcess (pageDirectory info d) \<or> userPage\<rparr>)\<rparr>"
    and m': "m' = setWindowTable (snd (mapTemporary (m\<lparr>kernelPhysicalPages := pages\<rparr>) (ADDRESS p)))
        (\<lambda>_. zeroPageTableEntry)"
    using assms(1,3) by (auto simp: ensurePageTable_def split_def Let_def split: bind_splits)
  note taken = bm.take_page [OF assms(2) p pages]
  show ?thesis
    using taken by (intro exI [of _ "ucast p :: u20"]) (simp add: info' m' unat_ucast_to20)
qed

text \<open>
  The state between the two halves of \<open>mapPage\<close>: well-formed again, the table of the slot present,
  every page entry and every foreign frame as before.
\<close>

lemma ensurePageTable_spec:
  assumes ok: "bitmap_ok (kernelPhysicalPages m)" and sp: "space_ok m info"
    and run: "ensurePageTable info m (pageDirectoryIndex virtual) userPage = Some (info', m')"
  shows "space_ok m' info'" and "bitmap_ok (kernelPhysicalPages m')" and "table_present info' virtual"
    and "kernelVirtualPages m' = kernelVirtualPages m"
    and "used_pages (kernelPhysicalPages m) \<subseteq> used_pages (kernelPhysicalPages m')"
    and "search_start (kernelPhysicalPages m') = search_start (kernelPhysicalPages m)"
    and "table_present info a \<Longrightarrow> table_present info' a \<and> page_entry m' info' a = page_entry m info a"
    and "unat f \<in> used_pages (kernelPhysicalPages m) \<Longrightarrow> frames m' f = frames m f"
    and "info' = info\<lparr>pageDirectory := pageDirectory info'\<rparr>"
    and "unat g \<in> used_pages (kernelPhysicalPages m) \<Longrightarrow> g \<in> table_frames info' \<Longrightarrow> g \<in> table_frames info"
proof -
  let ?d = "pageDirectoryIndex virtual"
  have all: "space_ok m' info' \<and> bitmap_ok (kernelPhysicalPages m') \<and> table_present info' virtual \<and>
     kernelVirtualPages m' = kernelVirtualPages m \<and>
     used_pages (kernelPhysicalPages m) \<subseteq> used_pages (kernelPhysicalPages m') \<and>
     search_start (kernelPhysicalPages m') = search_start (kernelPhysicalPages m) \<and>
     (\<forall>a. table_present info a \<longrightarrow> table_present info' a \<and> page_entry m' info' a = page_entry m info a) \<and>
     (\<forall>f. unat f \<in> used_pages (kernelPhysicalPages m) \<longrightarrow> frames m' f = frames m f) \<and>
     info' = info\<lparr>pageDirectory := pageDirectory info'\<rparr> \<and>
     (\<forall>g. unat g \<in> used_pages (kernelPhysicalPages m) \<and> g \<in> table_frames info' \<longrightarrow> g \<in> table_frames info)"
  proof (cases "table_present info virtual")
    case True
    then show ?thesis
      using run ok sp by (auto simp: ensurePageTable_present table_present_def)
  next
    case False
    then obtain f where f: "unat f \<notin> used_pages (kernelPhysicalPages m)"
      and dir: "pageDirectory info' = (pageDirectory info)(?d := (pageDirectory info ?d)
        \<lparr>pageTableID := f, pde_present := True, pde_writable := True,
         pde_belongsToUserProcess := pde_belongsToUserProcess (pageDirectory info ?d) \<or> userPage\<rparr>)"
      and fr: "frames m' = (frames m)(f := \<lambda>_. zeroPageTableEntry)"
      and rest: "kernelVirtualPages m' = kernelVirtualPages m" "bitmap_ok (kernelPhysicalPages m')"
        "used_pages (kernelPhysicalPages m') = insert (unat f) (used_pages (kernelPhysicalPages m))"
        "search_start (kernelPhysicalPages m') = search_start (kernelPhysicalPages m)"
        "info' = info\<lparr>pageDirectory := pageDirectory info'\<rparr>"
      using ensurePageTable_new [OF _ ok run] by (auto simp: table_present_def)
    have old: "f \<noteq> pageTableID (pageDirectory info d)" if "d < 1024" "pde_present (pageDirectory info d)" for d
      using sp f that by (auto simp: space_ok_def table_frames_def)
    have tables: "table_frames info' \<subseteq> insert f (table_frames info)"
      by (auto simp: table_frames_def dir)
    have "space_ok m' info'"
      using sp tables old rest(3) by (auto simp: space_ok_def dir)
    moreover have "table_present info' a \<and> page_entry m' info' a = page_entry m info a"
      if "table_present info a" for a
      using that False old [of "pageDirectoryIndex a"]
      by (auto simp: table_present_def page_entry_def dir fr)
    ultimately show ?thesis
      using rest f tables by (auto simp: table_present_def dir fr)
  qed
  then show "space_ok m' info'" and "bitmap_ok (kernelPhysicalPages m')" and "table_present info' virtual"
    and "kernelVirtualPages m' = kernelVirtualPages m"
    and "used_pages (kernelPhysicalPages m) \<subseteq> used_pages (kernelPhysicalPages m')"
    and "search_start (kernelPhysicalPages m') = search_start (kernelPhysicalPages m)"
    and "table_present info a \<Longrightarrow> table_present info' a \<and> page_entry m' info' a = page_entry m info a"
    and "unat f \<in> used_pages (kernelPhysicalPages m) \<Longrightarrow> frames m' f = frames m f"
    and "info' = info\<lparr>pageDirectory := pageDirectory info'\<rparr>"
    and "unat g \<in> used_pages (kernelPhysicalPages m) \<Longrightarrow> g \<in> table_frames info' \<Longrightarrow> g \<in> table_frames info"
    by blast+
qed

lemma mapPage_decompose:
  assumes "mapPage info m physical virtual userPage isVolatile = Some (info', m')"
  shows "\<exists>m1. ensurePageTable info m (pageDirectoryIndex virtual) userPage = Some (info', m1) \<and>
    kernelPhysicalPages m' = kernelPhysicalPages m1 \<and> kernelVirtualPages m' = kernelVirtualPages m1 \<and>
    frames m' = (let f = pageTableID (pageDirectory info' (pageDirectoryIndex virtual)) in (frames m1)
      (f := (frames m1 f)(pageTableIndex virtual := (frames m1 f (pageTableIndex virtual))
        \<lparr>targetAddress := ucast (PAGE_ID physical), pte_present := True, pte_writable := True,
         pte_isVolatile := isVolatile, pte_belongsToUserProcess := userPage\<rparr>)))"
  using assms by (auto simp: mapPage_def split_def Let_def windowTable_def split: bind_splits)

lemma mapPage_spec:
  assumes ok: "bitmap_ok (kernelPhysicalPages m)" and sp: "space_ok m info"
    and run: "mapPage info m physical virtual userPage isVolatile = Some (info', m')"
  shows "space_ok m' info'" and "bitmap_ok (kernelPhysicalPages m')"
    and "kernelVirtualPages m' = kernelVirtualPages m"
    and "used_pages (kernelPhysicalPages m) \<subseteq> used_pages (kernelPhysicalPages m')"
    and "search_start (kernelPhysicalPages m') = search_start (kernelPhysicalPages m)"
    and "PAGE_ID a = PAGE_ID virtual \<Longrightarrow> table_present info' a \<and> translate m' info' a =
      ADDRESS (PAGE_ID physical) + PAGE_OFFSET a \<and>
      pte_present (page_entry m' info' a) \<and> pte_writable (page_entry m' info' a) \<and>
      pte_isVolatile (page_entry m' info' a) = isVolatile \<and>
      pte_belongsToUserProcess (page_entry m' info' a) = userPage"
    and "PAGE_ID b \<noteq> PAGE_ID virtual \<Longrightarrow> table_present info b \<Longrightarrow>
      table_present info' b \<and> page_entry m' info' b = page_entry m info b"
    and "unat f \<in> used_pages (kernelPhysicalPages m) \<Longrightarrow> f \<notin> table_frames info \<Longrightarrow> frames m' f = frames m f"
    and "info' = info\<lparr>pageDirectory := pageDirectory info'\<rparr>"
proof -
  obtain m1 where ens: "ensurePageTable info m (pageDirectoryIndex virtual) userPage = Some (info', m1)"
    and kp: "kernelPhysicalPages m' = kernelPhysicalPages m1"
    and kv: "kernelVirtualPages m' = kernelVirtualPages m1"
    and fr: "frames m' = (let f = pageTableID (pageDirectory info' (pageDirectoryIndex virtual)) in (frames m1)
      (f := (frames m1 f)(pageTableIndex virtual := (frames m1 f (pageTableIndex virtual))
        \<lparr>targetAddress := ucast (PAGE_ID physical), pte_present := True, pte_writable := True,
         pte_isVolatile := isVolatile, pte_belongsToUserProcess := userPage\<rparr>)))"
    using mapPage_decompose [OF run] by blast
  note e = ensurePageTable_spec [OF ok sp ens]
  let ?d = "pageDirectoryIndex virtual" and ?t = "pageTableIndex virtual"
  let ?f = "pageTableID (pageDirectory info' ?d)"
  show "space_ok m' info'" and "bitmap_ok (kernelPhysicalPages m')"
    and "kernelVirtualPages m' = kernelVirtualPages m"
    and "used_pages (kernelPhysicalPages m) \<subseteq> used_pages (kernelPhysicalPages m')"
    and "search_start (kernelPhysicalPages m') = search_start (kernelPhysicalPages m)"
    and "info' = info\<lparr>pageDirectory := pageDirectory info'\<rparr>"
    using e(1,2,4,5,6,9) by (simp_all add: space_ok_def kp kv)
  have in_tables: "?f \<in> table_frames info'"
    by (rule table_frames_I [OF e(3)])
  show "table_present info' a \<and> translate m' info' a = ADDRESS (PAGE_ID physical) + PAGE_OFFSET a \<and>
      pte_present (page_entry m' info' a) \<and> pte_writable (page_entry m' info' a) \<and>
      pte_isVolatile (page_entry m' info' a) = isVolatile \<and>
      pte_belongsToUserProcess (page_entry m' info' a) = userPage" if "PAGE_ID a = PAGE_ID virtual"
  proof -
    have "page_entry m' info' a = page_entry m' info' virtual"
      by (rule page_entry_same_page [OF that])
    moreover have "table_present info' a"
      using e(3) that by (simp add: table_present_def same_page_iff)
    moreover have "ucast (ucast (PAGE_ID physical) :: u20) = PAGE_ID physical"
      by (simp add: word_unat_eq_iff unat_ucast_to20)
    ultimately show ?thesis
      by (simp add: translate_eq page_entry_def fr Let_def)
  qed
  show "table_present info' b \<and> page_entry m' info' b = page_entry m info b"
    if "PAGE_ID b \<noteq> PAGE_ID virtual" "table_present info b"
  proof -
    have tb: "table_present info' b" and eb: "page_entry m1 info' b = page_entry m info b"
      using e(7) [OF that(2)] by simp_all
    have "page_entry m' info' b = page_entry m1 info' b"
    proof (cases "pageDirectoryIndex b = ?d")
      case True
      then show ?thesis using that(1) by (simp add: page_entry_def fr Let_def same_page_iff)
    next
      case False
      then have "pageTableID (pageDirectory info' (pageDirectoryIndex b)) \<noteq> ?f"
        using e(1,3) tb by (auto simp: space_ok_def table_present_def)
      then show ?thesis by (simp add: page_entry_def fr Let_def)
    qed
    with tb eb show ?thesis by simp
  qed
  show "frames m' f = frames m f" if "unat f \<in> used_pages (kernelPhysicalPages m)" "f \<notin> table_frames info"
  proof -
    have "f \<noteq> ?f" using e(10) [OF that(1)] that(2) in_tables by blast
    then show ?thesis using e(8) [OF that(1)] by (simp add: fr Let_def)
  qed
qed

lemma mapPage_returns:
  assumes "bitmap_ok (kernelPhysicalPages m)"
    and "table_present info virtual \<or>
      (\<exists>q < PAGES. search_start (kernelPhysicalPages m) \<le> q \<and> q \<notin> used_pages (kernelPhysicalPages m))"
  shows "\<exists>info' m'. mapPage info m physical virtual userPage isVolatile = Some (info', m')"
proof -
  have "\<exists>info' m'. ensurePageTable info m (pageDirectoryIndex virtual) userPage = Some (info', m')"
  proof (cases "table_present info virtual")
    case True
    then show ?thesis by (simp add: table_present_def ensurePageTable_present)
  next
    case False
    then obtain p pages where "findPage (kernelPhysicalPages m) = Some p"
      "reservePage (kernelPhysicalPages m) p = Some pages"
      using bm.take_page_returns [OF assms(1)] assms(2) by blast
    then show ?thesis by (simp add: ensurePageTable_def split_def Let_def)
  qed
  then show ?thesis by (auto simp: mapPage_def split_def Let_def)
qed

section \<open>The kernel's address space\<close>

definition kernel_ok :: "KernelMemory \<Rightarrow> bool" where
  "kernel_ok m \<longleftrightarrow> bitmap_ok (kernelPhysicalPages m) \<and> bitmap_ok (kernelVirtualPages m) \<and>
     space_ok m (kernelVirtualPages m)"

abbreviation used_frames :: "KernelMemory \<Rightarrow> nat set" where
  "used_frames m \<equiv> used_pages (kernelPhysicalPages m)"

abbreviation used_virtual :: "KernelMemory \<Rightarrow> nat set" where
  "used_virtual m \<equiv> used_pages (kernelVirtualPages m)"

abbreviation ktranslate :: "KernelMemory \<Rightarrow> u32 \<Rightarrow> u32" where
  "ktranslate m \<equiv> translate m (kernelVirtualPages m)"

abbreviation kpresent :: "KernelMemory \<Rightarrow> u32 \<Rightarrow> bool" where
  "kpresent m \<equiv> table_present (kernelVirtualPages m)"

lemma directory_update_bitmaps:
  assumes "info' = info\<lparr>pageDirectory := D\<rparr>"
  shows "used_pages info' = used_pages info" and "bitmap_ok info' = bitmap_ok info"
    and "search_start info' = search_start info"
    and "isPageConnectedToNext info' = isPageConnectedToNext info"
  by (simp_all add: assms used_pages_def page_used_def bitmap_ok_def search_start_def)

lemma translate_bitmap_update:
  "pageDirectory info' = pageDirectory info \<Longrightarrow> frames m' = frames m \<Longrightarrow>
     translate m' info' a = translate m info a \<and> table_present info' a = table_present info a"
  by (simp add: translate_eq page_entry_def table_present_def)

lemma space_ok_mono:
  assumes "space_ok m info" and "pageDirectory info' = pageDirectory info"
    and "used_frames m \<subseteq> used_frames m'"
  shows "space_ok m' info'"
proof -
  have "table_frames info' = table_frames info"
    by (simp add: table_frames_def assms(2))
  then show ?thesis
    using assms by (auto simp: space_ok_def)
qed

lemma mapPageKernel_spec:
  assumes ok: "kernel_ok m" and run: "mapPageKernel m physical virtual = Some m'"
  shows "kernel_ok m'" and "used_virtual m' = used_virtual m" and "used_frames m \<subseteq> used_frames m'"
    and "search_start (kernelPhysicalPages m') = search_start (kernelPhysicalPages m)"
    and "search_start (kernelVirtualPages m') = search_start (kernelVirtualPages m)"
    and "PAGE_ID a = PAGE_ID virtual \<Longrightarrow>
      kpresent m' a \<and> ktranslate m' a = ADDRESS (PAGE_ID physical) + PAGE_OFFSET a"
    and "PAGE_ID b \<noteq> PAGE_ID virtual \<Longrightarrow> kpresent m b \<Longrightarrow> kpresent m' b \<and> ktranslate m' b = ktranslate m b"
proof -
  obtain info m1 where map: "mapPage (kernelVirtualPages m) m physical virtual False False = Some (info, m1)"
    and m': "m' = m1\<lparr>kernelVirtualPages := info\<rparr>"
    using run by (auto simp: mapPageKernel_def onKernel_def split: bind_splits)
  have p: "bitmap_ok (kernelPhysicalPages m)" and s: "space_ok m (kernelVirtualPages m)"
    using ok by (simp_all add: kernel_ok_def)
  note spec = mapPage_spec [OF p s map]
  note dir = directory_update_bitmaps [OF spec(9)]
  have tr: "translate m' info c = translate m1 info c" for c
    by (simp add: translate_eq page_entry_def m')
  show "kernel_ok m'"
    using spec(1,2) ok dir(2) by (simp add: kernel_ok_def m' space_ok_def)
  show "used_virtual m' = used_virtual m" "used_frames m \<subseteq> used_frames m'"
    "search_start (kernelPhysicalPages m') = search_start (kernelPhysicalPages m)"
    "search_start (kernelVirtualPages m') = search_start (kernelVirtualPages m)"
    using spec(4,5) dir(1,3) by (simp_all add: m')
  show "kpresent m' a \<and> ktranslate m' a = ADDRESS (PAGE_ID physical) + PAGE_OFFSET a"
    if "PAGE_ID a = PAGE_ID virtual"
    using spec(6) [OF that] tr by (simp add: m')
  show "kpresent m' b \<and> ktranslate m' b = ktranslate m b" if "PAGE_ID b \<noteq> PAGE_ID virtual" "kpresent m b"
    using spec(7) [OF that] tr by (simp add: m' translate_eq)
qed

lemma mapPageKernel_returns:
  assumes "kernel_ok m" and "kpresent m virtual \<or>
      (\<exists>q < PAGES. search_start (kernelPhysicalPages m) \<le> q \<and> q \<notin> used_frames m)"
  shows "\<exists>m'. mapPageKernel m physical virtual = Some m'"
  using mapPage_returns [of m "kernelVirtualPages m" virtual physical False False] assms
  by (auto simp: kernel_ok_def mapPageKernel_def onKernel_def)

lemma reservePhysical_spec:
  assumes "kernel_ok m" and "reservePhysical m p = Some m'" and "unat p < PAGES"
  shows "kernel_ok m'" and "used_frames m' = insert (unat p) (used_frames m)"
    and "kernelVirtualPages m' = kernelVirtualPages m" and "frames m' = frames m"
    and "search_start (kernelPhysicalPages m') = search_start (kernelPhysicalPages m)"
proof -
  obtain info where info: "reservePage (kernelPhysicalPages m) p = Some info"
    and m': "m' = m\<lparr>kernelPhysicalPages := info\<rparr>"
    using assms(2) by (auto simp: reservePhysical_def split: bind_splits)
  obtain "bitmap_ok info" "used_pages info = insert (unat p) (used_frames m)"
    "search_start info = search_start (kernelPhysicalPages m)"
    using bm.reserve_law [of "kernelPhysicalPages m" p] assms(1,3) info by (auto simp: kernel_ok_def)
  then show "kernel_ok m'" and "used_frames m' = insert (unat p) (used_frames m)"
    and "kernelVirtualPages m' = kernelVirtualPages m" and "frames m' = frames m"
    and "search_start (kernelPhysicalPages m') = search_start (kernelPhysicalPages m)"
    using assms(1) space_ok_mono [of m "kernelVirtualPages m" "kernelVirtualPages m" m']
    by (auto simp: kernel_ok_def m')
qed

lemma virtual_bitmap_update:
  assumes "kernel_ok m" and "bitmap_ok info" and "same_space (kernelVirtualPages m) info"
  shows "kernel_ok (m\<lparr>kernelVirtualPages := info\<rparr>)"
    and "ktranslate (m\<lparr>kernelVirtualPages := info\<rparr>) a = ktranslate m a"
    and "kpresent (m\<lparr>kernelVirtualPages := info\<rparr>) a = kpresent m a"
    and "search_start info = search_start (kernelVirtualPages m)"
  using assms space_ok_mono [of m "kernelVirtualPages m" info "m\<lparr>kernelVirtualPages := info\<rparr>"]
    translate_bitmap_update [of info "kernelVirtualPages m" "m\<lparr>kernelVirtualPages := info\<rparr>" m a]
  by (simp_all add: kernel_ok_def same_space_def search_start_def)

lemma reserveVirtual_spec:
  assumes "kernel_ok m" and "reserveVirtual m p = Some m'" and "unat p < PAGES"
  shows "kernel_ok m'" and "used_virtual m' = insert (unat p) (used_virtual m)"
    and "kernelPhysicalPages m' = kernelPhysicalPages m"
    and "ktranslate m' a = ktranslate m a" and "kpresent m' a = kpresent m a"
    and "search_start (kernelVirtualPages m') = search_start (kernelVirtualPages m)"
proof -
  obtain info where info: "reservePage (kernelVirtualPages m) p = Some info"
    and m': "m' = m\<lparr>kernelVirtualPages := info\<rparr>"
    using assms(2) by (auto simp: reserveVirtual_def split: bind_splits)
  have "bitmap_ok info" "used_pages info = insert (unat p) (used_virtual m)"
    using bm.reserve_law [of "kernelVirtualPages m" p] assms(1,3) info by (auto simp: kernel_ok_def)
  then show "kernel_ok m'" and "used_virtual m' = insert (unat p) (used_virtual m)"
    and "kernelPhysicalPages m' = kernelPhysicalPages m"
    and "ktranslate m' a = ktranslate m a" and "kpresent m' a = kpresent m a"
    and "search_start (kernelVirtualPages m') = search_start (kernelVirtualPages m)"
    using virtual_bitmap_update [OF assms(1), of info] reservePage_same_space [OF info] by (simp_all add: m')
qed

end
