(* ===== verification/PageAlloc.thy ===== *)
theory PageAlloc
  imports PageTables
begin

text \<open>
  Correctness of the page-level services of \<open>kernel/memory/paging.c\<close>: taking kernel pages
  (\<open>getPage\<close>, \<open>getPagesCount\<close>), giving pages back (\<open>unmapPageFrom\<close>, \<open>giveUpPage\<close>,
  \<open>freePageFrom\<close>) and the start-up state. The invariant is \<open>kernel_ok\<close>.
\<close>

section \<open>Taking pages\<close>

lemma PAGE_OFFSET_take_bit: "PAGE_OFFSET a = take_bit 12 a"
  by (simp add: PAGE_OFFSET_def take_bit_eq_mask mask_eq_exp_minus_1)

lemma PAGE_OFFSET_ADDRESS [simp]: "PAGE_OFFSET (ADDRESS p) = 0"
  by (simp add: PAGE_OFFSET_take_bit ADDRESS_def take_bit_push_bit)

lemma ADDRESS_eq_0: "unat p < PAGES \<Longrightarrow> ADDRESS p = 0 \<Longrightarrow> p = 0"
  by (metis PAGE_ID_ADDRESS PAGE_ID_def drop_bit_of_0)

lemma getPage_spec:
  assumes ok: "kernel_ok m" and run: "getPage m = Some (a, m')"
  shows "kernel_ok m'" and "unat (PAGE_ID a) \<notin> used_virtual m" and "PAGE_OFFSET a = 0"
    and "used_virtual m' = insert (unat (PAGE_ID a)) (used_virtual m)"
    and "used_frames m \<subseteq> used_frames m'"
    and "unat (PAGE_ID (ktranslate m' a)) \<notin> used_frames m" and "unat (PAGE_ID (ktranslate m' a)) \<in> used_frames m'"
    and "kpresent m' a"
    and "kpresent m b \<Longrightarrow> PAGE_ID b \<noteq> PAGE_ID a \<Longrightarrow> kpresent m' b \<and> ktranslate m' b = ktranslate m b"
    and "search_start (kernelVirtualPages m') = search_start (kernelVirtualPages m)"
    and "search_start (kernelPhysicalPages m') = search_start (kernelPhysicalPages m)"
proof -
  obtain p m1 v m2 where p: "findPage (kernelPhysicalPages m) = Some p" and m1: "reservePhysical m p = Some m1"
    and v: "findPage (kernelVirtualPages m1) = Some v" and m2: "reserveVirtual m1 v = Some m2"
    and map: "mapPageKernel m2 (ADDRESS p) (ADDRESS v) = Some m'" and a: "a = ADDRESS v"
    using run by (auto simp: getPage_def split: bind_splits)
  have pf: "unat p < PAGES" "unat p \<notin> used_frames m"
    using bm.find_law [OF _ p] ok by (auto simp: kernel_ok_def)
  note r1 = reservePhysical_spec [OF ok m1 pf(1)]
  have vf: "unat v < PAGES" "unat v \<notin> used_virtual m"
    using bm.find_law [OF _ v] r1(1,3) by (auto simp: kernel_ok_def)
  note r2 = reserveVirtual_spec [OF r1(1) m2 vf(1)]
  note r3 = mapPageKernel_spec [OF r2(1) map]
  have id: "PAGE_ID a = v" using vf(1) by (simp add: a)
  have frame: "PAGE_ID (ktranslate m' a) = p" and pres: "kpresent m' a"
    using r3(6) [of a] pf(1) by (simp_all add: a)
  show "kernel_ok m'" "unat (PAGE_ID a) \<notin> used_virtual m" "PAGE_OFFSET a = 0"
    using r3(1) vf(2) id by (simp_all add: a)
  show "used_virtual m' = insert (unat (PAGE_ID a)) (used_virtual m)"
    using r3(2) r2(2) r1(3) id by simp
  show "used_frames m \<subseteq> used_frames m'" "unat (PAGE_ID (ktranslate m' a)) \<notin> used_frames m"
    "unat (PAGE_ID (ktranslate m' a)) \<in> used_frames m'" "kpresent m' a"
    using r3(3) r2(3) r1(2) pf(2) frame pres by auto
  show "search_start (kernelVirtualPages m') = search_start (kernelVirtualPages m)"
    and "search_start (kernelPhysicalPages m') = search_start (kernelPhysicalPages m)"
    using r3(4,5) r2(3,6) r1(3,5) by simp_all
  show "kpresent m' b \<and> ktranslate m' b = ktranslate m b" if "kpresent m b" "PAGE_ID b \<noteq> PAGE_ID a"
  proof -
    have "kpresent m1 b \<and> ktranslate m1 b = ktranslate m b"
      using that(1) translate_bitmap_update [of "kernelVirtualPages m1" "kernelVirtualPages m" m1 m b] r1(3,4)
      by simp
    then have "kpresent m2 b \<and> ktranslate m2 b = ktranslate m b"
      using r2(4,5) by simp
    then show ?thesis
      using r3(7) [of b] that(2) vf(1) by (simp add: a)
  qed
qed

lemma getPage_returns:
  assumes ok: "kernel_ok m"
    and frames2: "q < PAGES" "search_start (kernelPhysicalPages m) \<le> q" "q \<notin> used_frames m"
      "r < PAGES" "search_start (kernelPhysicalPages m) \<le> r" "r \<notin> used_frames m" "q \<noteq> r"
    and virt: "w < PAGES" "search_start (kernelVirtualPages m) \<le> w" "w \<notin> used_virtual m"
  shows "\<exists>a m'. getPage m = Some (a, m')"
proof -
  obtain p i where p: "findPage (kernelPhysicalPages m) = Some p"
    and i: "reservePage (kernelPhysicalPages m) p = Some i"
    using bm.take_page_returns [of "kernelPhysicalPages m" q] ok frames2 by (auto simp: kernel_ok_def)
  define m1 where "m1 = m\<lparr>kernelPhysicalPages := i\<rparr>"
  have m1: "reservePhysical m p = Some m1" by (simp add: reservePhysical_def i m1_def)
  have pf: "unat p < PAGES" using bm.find_law [OF _ p] ok by (auto simp: kernel_ok_def)
  note r1 = reservePhysical_spec [OF ok m1 pf]
  obtain v j where v: "findPage (kernelVirtualPages m1) = Some v"
    and j: "reservePage (kernelVirtualPages m1) v = Some j"
    using bm.take_page_returns [of "kernelVirtualPages m1" w] r1(1,3) virt by (auto simp: kernel_ok_def)
  define m2 where "m2 = m1\<lparr>kernelVirtualPages := j\<rparr>"
  have m2: "reserveVirtual m1 v = Some m2" by (simp add: reserveVirtual_def j m2_def)
  have vf: "unat v < PAGES" using bm.find_law [OF _ v] r1(1) by (auto simp: kernel_ok_def)
  note r2 = reserveVirtual_spec [OF r1(1) m2 vf]
  have "\<exists>t < PAGES. search_start (kernelPhysicalPages m2) \<le> t \<and> t \<notin> used_frames m2"
    using frames2 r1(2,5) r2(3) by (metis insertE)
  then obtain m3 where "mapPageKernel m2 (ADDRESS p) (ADDRESS v) = Some m3"
    using mapPageKernel_returns [OF r2(1)] by blast
  with p m1 v m2 show ?thesis by (simp add: getPage_def)
qed

text \<open>One iteration of the loop of \<open>getPagesCount\<close>: the next frame, mapped behind the given page.\<close>

lemma page_step_spec:
  assumes ok: "kernel_ok m" and p: "findPage (kernelPhysicalPages m) = Some p"
    and m1: "reservePhysical m p = Some m1" and map: "mapPageKernel m1 (ADDRESS p) (ADDRESS v) = Some m'"
    and v: "unat v < PAGES"
  shows "kernel_ok m'" and "used_virtual m' = used_virtual m" and "used_frames m \<subseteq> used_frames m'"
    and "unat (PAGE_ID (ktranslate m' (ADDRESS v))) \<notin> used_frames m"
    and "unat (PAGE_ID (ktranslate m' (ADDRESS v))) \<in> used_frames m'" and "kpresent m' (ADDRESS v)"
    and "kpresent m b \<Longrightarrow> PAGE_ID b \<noteq> v \<Longrightarrow> kpresent m' b \<and> ktranslate m' b = ktranslate m b"
proof -
  have pf: "unat p < PAGES" "unat p \<notin> used_frames m"
    using bm.find_law [OF _ p] ok by (auto simp: kernel_ok_def)
  note r1 = reservePhysical_spec [OF ok m1 pf(1)]
  note r3 = mapPageKernel_spec [OF r1(1) map]
  have frame: "PAGE_ID (ktranslate m' (ADDRESS v)) = p" and pres: "kpresent m' (ADDRESS v)"
    using r3(6) [of "ADDRESS v"] pf(1) by simp_all
  show "kernel_ok m'" "used_virtual m' = used_virtual m" "used_frames m \<subseteq> used_frames m'"
    using r3(1,2,3) r1(2,3) by auto
  show "unat (PAGE_ID (ktranslate m' (ADDRESS v))) \<notin> used_frames m"
    "unat (PAGE_ID (ktranslate m' (ADDRESS v))) \<in> used_frames m'" "kpresent m' (ADDRESS v)"
    using frame pf(2) r3(3) r1(2) pres by auto
  show "kpresent m' b \<and> ktranslate m' b = ktranslate m b" if "kpresent m b" "PAGE_ID b \<noteq> v"
  proof -
    have "kpresent m1 b \<and> ktranslate m1 b = ktranslate m b"
      using that(1) translate_bitmap_update [of "kernelVirtualPages m1" "kernelVirtualPages m" m1 m b] r1(3,4)
      by simp
    then show ?thesis using r3(7) [of b] that(2) v by simp
  qed
qed

lemma pagesCount_loop:
  assumes ok: "kernel_ok m" and lt: "unat v + n \<le> PAGES"
    and run: "ofold (pagesCountStep v) [0..<n] m = Some m'"
  shows "kernel_ok m' \<and> used_virtual m' = used_virtual m \<and> used_frames m \<subseteq> used_frames m' \<and>
    (\<forall>i < n. kpresent m' (ADDRESS (v + of_nat i)) \<and>
       unat (PAGE_ID (ktranslate m' (ADDRESS (v + of_nat i)))) \<in> used_frames m' - used_frames m) \<and>
    (\<forall>i < n. \<forall>j < i. PAGE_ID (ktranslate m' (ADDRESS (v + of_nat i))) \<noteq>
       PAGE_ID (ktranslate m' (ADDRESS (v + of_nat j)))) \<and>
    (\<forall>b. kpresent m b \<and> (\<forall>i < n. PAGE_ID b \<noteq> v + of_nat i) \<longrightarrow>
       kpresent m' b \<and> ktranslate m' b = ktranslate m b)"
  using lt run
proof (induction n arbitrary: m')
  case 0
  then show ?case using ok by simp
next
  case (Suc n)
  obtain m1 where m1: "ofold (pagesCountStep v) [0..<n] m = Some m1"
    and step: "pagesCountStep v n m1 = Some m'"
    using Suc.prems(2) by (auto simp: ofold_append split: bind_splits)
  have lt: "unat v + n \<le> PAGES" using Suc.prems(1) by simp
  note IH = Suc.IH [OF lt m1]
  have un: "unat (v + of_nat i) = unat v + i" if "i \<le> n" for i
    using Suc.prems(1) that by (simp add: unat_add_small)
  have differ: "v + of_nat i \<noteq> v + of_nat n" if "i < n" for i
    using un [of i] un [of n] that by auto
  obtain p m2 where p: "findPage (kernelPhysicalPages m1) = Some p" and m2: "reservePhysical m1 p = Some m2"
    and map: "mapPageKernel m2 (ADDRESS p) (ADDRESS (v + of_nat n)) = Some m'"
    using step by (auto simp: pagesCountStep_def split: bind_splits)
  have vn: "unat (v + of_nat n) < PAGES" using un [of n] Suc.prems(1) by simp
  note st = page_step_spec [OF conjunct1 [OF IH] p m2 map vn]
  have kept: "kpresent m' (ADDRESS (v + of_nat i)) \<and>
      ktranslate m' (ADDRESS (v + of_nat i)) = ktranslate m1 (ADDRESS (v + of_nat i))" if "i < n" for i
    using st(7) [of "ADDRESS (v + of_nat i)"] IH that differ [OF that] un [of i] Suc.prems(1) by auto
  have pages: "kpresent m' (ADDRESS (v + of_nat i)) \<and>
       unat (PAGE_ID (ktranslate m' (ADDRESS (v + of_nat i)))) \<in> used_frames m' - used_frames m"
    if "i < Suc n" for i
    using that IH kept st(3-6) by (cases "i = n") auto
  have distinct: "PAGE_ID (ktranslate m' (ADDRESS (v + of_nat i))) \<noteq>
       PAGE_ID (ktranslate m' (ADDRESS (v + of_nat j)))" if "i < Suc n" "j < i" for i j
    using that IH kept st(4) by (cases "i = n") fastforce+
  have "kpresent m' b \<and> ktranslate m' b = ktranslate m b"
    if "kpresent m b" "\<forall>i < Suc n. PAGE_ID b \<noteq> v + of_nat i" for b
    using IH that st(7) [of b] by simp
  then show ?case
    using IH st(1-3) pages distinct by auto
qed

lemma getPagesCount_spec:
  assumes ok: "kernel_ok m" and count: "0 < unat count" and run: "getPagesCount m count = Some (a, m')"
  shows "\<exists>v. a = ADDRESS v \<and> free_run (kernelVirtualPages m) (unat v) (unat count) \<and> kernel_ok m' \<and>
    used_virtual m' = used_virtual m \<union> {unat v..<unat v + unat count} \<and>
    used_frames m \<subseteq> used_frames m' \<and>
    (\<forall>i < unat count. unat (PAGE_ID (ktranslate m' (ADDRESS (v + of_nat i)))) \<in> used_frames m' - used_frames m) \<and>
    (\<forall>i < unat count. \<forall>j < i. PAGE_ID (ktranslate m' (ADDRESS (v + of_nat i))) \<noteq>
       PAGE_ID (ktranslate m' (ADDRESS (v + of_nat j)))) \<and>
    (\<forall>b. kpresent m b \<and> unat (PAGE_ID b) \<notin> {unat v..<unat v + unat count} \<longrightarrow>
       kpresent m' b \<and> ktranslate m' b = ktranslate m b)"
proof -
  obtain v i where v: "findMultiplePages (kernelVirtualPages m) count = Some v"
    and i: "reservePagesCount (kernelVirtualPages m) v count = Some i"
    and loop: "ofold (pagesCountStep v) [0..<unat count] (m\<lparr>kernelVirtualPages := i\<rparr>) = Some m'"
    and a: "a = ADDRESS v"
    using run by (auto simp: getPagesCount_def split: bind_splits)
  have free: "free_run (kernelVirtualPages m) (unat v) (unat count)"
    by (rule findMultiplePages_free [OF v count])
  then have lt: "unat v + unat count \<le> PAGES" by (simp add: free_run_def)
  have "bitmap_ok (kernelVirtualPages m)" using ok by (simp add: kernel_ok_def)
  from reservePagesCount_spec [OF this lt] i
  have i_ok: "bitmap_ok i" "used_pages i = used_virtual m \<union> {unat v..<unat v + unat count}"
    "same_space (kernelVirtualPages m) i" by auto
  note up = virtual_bitmap_update [OF ok i_ok(1,3)]
  note L = pagesCount_loop [OF up(1) lt loop]
  have "unat (v + of_nat k) = unat v + k" if "k < unat count" for k
    using lt that by (simp add: unat_add_small)
  then have "unat (PAGE_ID b) \<notin> {unat v..<unat v + unat count} \<Longrightarrow> \<forall>i < unat count. PAGE_ID b \<noteq> v + of_nat i" for b
    by auto
  then show ?thesis
    using L i_ok(2) up(2,3) free a by (intro exI [of _ v]) auto
qed

section \<open>Giving pages back\<close>

lemma markPageFree_disconnects:
  assumes "markPageFree info coarse fine fineBit = Some info'"
  shows "isPageConnectedToNext info' (unat coarse) AND fineBit = 0" and "unat coarse < FINE_WORDS"
    and "pageDirectory info' = pageDirectory info"
proof -
  have "(x AND NOT y) AND y = (0 :: u32)" for x y
    by (simp add: bit_eq_iff bit_simps)
  then show "isPageConnectedToNext info' (unat coarse) AND fineBit = 0" "unat coarse < FINE_WORDS"
    "pageDirectory info' = pageDirectory info"
    using assms by (auto simp: markPageFree_def split: bind_splits)
qed

text \<open>
  The loop condition reads \<open>isPageConnectedToNext\<close> after \<open>markPageFree\<close> has cleared that very bit,
  so each of the three loops runs its body once.
\<close>

lemma unmapPageFromLoop_once:
  "unmapPageFromLoop info m pageId = do {
     info' \<leftarrow> freePhysicalPage info pageId;
     Some (info', unmapSinglePageFrom info' m (ADDRESS pageId))
   }"
proof (cases "freePhysicalPage info pageId")
  case None
  then show ?thesis by (simp add: unmapPageFromLoop.simps freePhysicalPage_def Let_def)
next
  case (Some info')
  then show ?thesis
    using markPageFree_disconnects [of info "pageId div 32" "pageId mod 32" "onebit (unat (pageId mod 32))" info']
    by (simp add: unmapPageFromLoop.simps freePhysicalPage_def Let_def)
qed

lemma giveUpPage_once:
  "giveUpPage info m pageId = do {
     let (physical, m) = getPhysicalAddress m (pageDirectory info) (ADDRESS pageId);
     pages \<leftarrow> freePhysicalPage (kernelPhysicalPages m) (PAGE_ID physical);
     info' \<leftarrow> freePhysicalPage info pageId;
     Some (info', unmapSinglePageFrom info' (m\<lparr>kernelPhysicalPages := pages\<rparr>) (ADDRESS pageId))
   }"
proof (cases "freePhysicalPage info pageId")
  case None
  then show ?thesis
    by (simp add: giveUpPage.simps freePhysicalPage_def Let_def split_def)
next
  case (Some info')
  then show ?thesis
    using markPageFree_disconnects [of info "pageId div 32" "pageId mod 32" "onebit (unat (pageId mod 32))" info']
    by (simp add: giveUpPage.simps freePhysicalPage_def Let_def split_def)
qed

lemma unmapSinglePageFrom_kernel [simp]:
  "kernelPhysicalPages (unmapSinglePageFrom info m a) = kernelPhysicalPages m"
  "kernelVirtualPages (unmapSinglePageFrom info m a) = kernelVirtualPages m"
  by (simp_all add: unmapSinglePageFrom_def split_def Let_def)

lemma unmapSinglePageFrom_frames:
  "frames (unmapSinglePageFrom info m a) = (frames m)
     (pageTableID (pageDirectory info (pageDirectoryIndex a)) :=
       (frames m (pageTableID (pageDirectory info (pageDirectoryIndex a))))
         (pageTableIndex a := (page_entry m info a)\<lparr>targetAddress := 0, pte_present := False\<rparr>))"
  by (simp add: unmapSinglePageFrom_def split_def Let_def windowTable_def page_entry_def)

lemma unmapSinglePageFrom_spec:
  assumes sp: "space_ok m info" and pres: "table_present info a"
  shows "\<not> pte_present (page_entry (unmapSinglePageFrom info m a) info a)"
    and "table_present info b \<Longrightarrow> PAGE_ID b \<noteq> PAGE_ID a \<Longrightarrow>
      page_entry (unmapSinglePageFrom info m a) info b = page_entry m info b"
proof -
  show "\<not> pte_present (page_entry (unmapSinglePageFrom info m a) info a)"
    by (simp add: page_entry_def unmapSinglePageFrom_frames)
  assume b: "table_present info b" "PAGE_ID b \<noteq> PAGE_ID a"
  show "page_entry (unmapSinglePageFrom info m a) info b = page_entry m info b"
  proof (cases "pageDirectoryIndex b = pageDirectoryIndex a")
    case True
    then show ?thesis using b(2) by (simp add: page_entry_def unmapSinglePageFrom_frames same_page_iff)
  next
    case False
    then have "pageTableID (pageDirectory info (pageDirectoryIndex b)) \<noteq>
        pageTableID (pageDirectory info (pageDirectoryIndex a))"
      using sp pres b(1) by (auto simp: space_ok_def table_present_def)
    then show ?thesis by (simp add: page_entry_def unmapSinglePageFrom_frames)
  qed
qed

lemma PAGE_ID_small:
  assumes "unat p < 1024"
  shows "pageDirectoryIndex (ADDRESS p) = 0" "pageTableIndex (ADDRESS p) = unat p"
    "PAGE_ID p = 0" "PAGE_OFFSET p = p"
proof -
  have "unat p < PAGES" using assms by simp
  then have id: "PAGE_ID (ADDRESS p) = p" by simp
  show "pageDirectoryIndex (ADDRESS p) = 0" "pageTableIndex (ADDRESS p) = unat p"
    using assms by (simp_all add: pageDirectoryIndex_eq pageTableIndex_eq id)
  show "PAGE_ID p = 0"
    using assms by (simp add: word_unat_eq_iff unat_PAGE_ID)
  show "PAGE_OFFSET p = p"
    using bit_above_unat [of p 12] assms
    by (auto simp: PAGE_OFFSET_take_bit bit_eq_iff bit_simps not_le [symmetric])
qed

lemma freePageFromLoop_low:
  assumes "unat pageId < 1024"
  shows "freePageFromLoop info m pageId = do {
     let (physical, m) = getPhysicalAddress m (pageDirectory info) (ADDRESS pageId);
     info' \<leftarrow> freePhysicalPage info pageId;
     pages \<leftarrow> freePhysicalPage (kernelPhysicalPages m) (PAGE_ID physical);
     Some (info', unmapSinglePageFrom info' (m\<lparr>kernelPhysicalPages := pages\<rparr>) (ADDRESS pageId))
   }"
proof (cases "freePhysicalPage info pageId")
  case None
  then show ?thesis
    by (simp add: freePageFromLoop.simps freePhysicalPage_def Let_def split_def)
next
  case (Some info')
  note d = markPageFree_disconnects [OF Some [unfolded freePhysicalPage_def]]
  note small = PAGE_ID_small [OF assms]
  have phys: "PAGE_ID (fst (getPhysicalAddress m (pageDirectory info) (ADDRESS pageId))) =
      ucast (targetAddress (frames m (pageTableID (pageDirectory info 0)) (unat pageId)))"
    by (simp add: getPhysicalAddress_def split_def Let_def windowTable_def small)
  have same: "snd (getPhysicalAddress m (pageDirectory info) (ADDRESS pageId)) =
      snd (mapTemporary m (ADDRESS (ucast (pageTableID (pageDirectory info 0)))))"
    by (simp add: getPhysicalAddress_def split_def Let_def small)
  show ?thesis
    using Some d assms
    by (simp add: freePageFromLoop.simps freePhysicalPage_def Let_def split_def phys same small windowTable_def)
qed

section \<open>Start-up\<close>

lemma zeroPagingInfo_ok [simp]: "bitmap_ok zeroPagingInfo" "used_pages zeroPagingInfo = {}"
  by (simp_all add: bitmap_ok_def zeroPagingInfo_def used_pages_def page_used_def)

lemma info_update_bitmaps [simp]:
  "used_pages (info\<lparr>pageSearchStart := s\<rparr>) = used_pages info"
  "bitmap_ok (info\<lparr>pageSearchStart := s\<rparr>) = bitmap_ok info"
  "used_pages (info\<lparr>pageDirectory := D\<rparr>) = used_pages info"
  "bitmap_ok (info\<lparr>pageDirectory := D\<rparr>) = bitmap_ok info"
  by (simp_all add: used_pages_def page_used_def bitmap_ok_def)

text \<open>The tables the boot code left in the two last slots of the page directory.\<close>

definition boot_tables_ok :: "KernelMemory \<Rightarrow> u32 \<Rightarrow> bool" where
  "boot_tables_ok m endPageId \<longleftrightarrow>
     (let D = pageDirectory (kernelVirtualPages m) in
      unat (pageTableID (D 1022)) < unat endPageId \<and> unat (pageTableID (D 1023)) < unat endPageId \<and>
      pageTableID (D 1022) \<noteq> pageTableID (D 1023))"

lemma reservePagesUntilPhysical_spec:
  assumes e: "unat endPageId \<le> PAGES" and boot: "boot_tables_ok m endPageId"
  shows "\<exists>m'. reservePagesUntilPhysical m endPageId = Some m' \<and> kernel_ok m' \<and>
    used_frames m' = {0..<unat endPageId} \<and> used_virtual m' = {0} \<union> {0xFF800..<PAGES} \<and>
    search_start (kernelVirtualPages m') = 0 \<and>
    search_start (kernelPhysicalPages m') = unat endPageId div 1024 * 1024"
proof -
  obtain v1 where v1: "reservePagesCount zeroPagingInfo 0 1 = Some v1" "bitmap_ok v1" "used_pages v1 = {0}"
    using reservePagesCount_spec [of zeroPagingInfo 0 1] by auto
  obtain p where p: "reservePagesCount zeroPagingInfo 0 endPageId = Some p" "bitmap_ok p"
    "used_pages p = {0..<unat endPageId}"
    using reservePagesCount_spec [of zeroPagingInfo 0 endPageId] e by auto
  obtain v2 where v2: "reservePagesCount v1 0xFF800 0x800 = Some v2" "bitmap_ok v2"
    "used_pages v2 = {0} \<union> {0xFF800..<PAGES}"
    using reservePagesCount_spec [of v1 "0xFF800" "0x800"] v1(2,3) by auto
  let ?D = "\<lambda>i. if i < 0xFF8 div 4 then zeroPageDirectoryEntry else pageDirectory (kernelVirtualPages m) i"
  define m' where "m' = m\<lparr>kernelPhysicalPages := p\<lparr>pageSearchStart := endPageId\<rparr>,
      kernelVirtualPages := v2\<lparr>pageSearchStart := 0, pageDirectory := ?D\<rparr>\<rparr>"
  have run: "reservePagesUntilPhysical m endPageId = Some m'"
    using v1(1) p(1) v2(1) by (simp add: reservePagesUntilPhysical_def m'_def)
  have slots: "d = 1022 \<or> d = 1023" if "pde_present (?D d)" "d < 1024" for d
    using that by (auto simp: zeroPageDirectoryEntry_def split: if_splits)
  have "space_ok m' (kernelVirtualPages m')"
    unfolding space_ok_def table_frames_def
  proof (intro conjI ballI allI impI)
    fix f assume "f \<in> {pageTableID (pageDirectory (kernelVirtualPages m') d) |d.
        d < 1024 \<and> pde_present (pageDirectory (kernelVirtualPages m') d)}"
    then obtain d where "f = pageTableID (?D d)" "d < 1024" "pde_present (?D d)"
      by (auto simp: m'_def)
    with slots [of d] boot have "unat f < unat endPageId"
      by (auto simp: boot_tables_ok_def Let_def)
    then show "unat f \<in> used_frames m'"
      by (simp add: m'_def p(3))
  next
    fix d e :: nat assume "d < 1024" "e < 1024"
      and "pde_present (pageDirectory (kernelVirtualPages m') d) \<and>
        pde_present (pageDirectory (kernelVirtualPages m') e) \<and>
        pageTableID (pageDirectory (kernelVirtualPages m') d) = pageTableID (pageDirectory (kernelVirtualPages m') e)"
    then have "d = 1022 \<or> d = 1023" "e = 1022 \<or> e = 1023" "pageTableID (?D d) = pageTableID (?D e)"
      using slots [of d] slots [of e] by (auto simp: m'_def)
    then show "d = e"
      using boot by (auto simp: boot_tables_ok_def Let_def)
  qed
  moreover have "bitmap_ok (kernelPhysicalPages m')" "bitmap_ok (kernelVirtualPages m')"
    "used_frames m' = {0..<unat endPageId}" "used_virtual m' = {0} \<union> {0xFF800..<PAGES}"
    "search_start (kernelVirtualPages m') = 0"
    "search_start (kernelPhysicalPages m') = unat endPageId div 1024 * 1024"
    using p v2 by (simp_all add: m'_def search_start_def)
  ultimately show ?thesis
    using run by (auto simp: kernel_ok_def)
qed

text \<open>A memory as the boot code leaves it: its two page tables are the frames \<open>0x501\<close> and \<open>0x502\<close>.\<close>

definition boot_entry :: "u20 \<Rightarrow> PageDirectoryEntry" where
  "boot_entry f = zeroPageDirectoryEntry\<lparr>pde_present := True, pde_writable := True, pageTableID := f\<rparr>"

definition boot_memory :: KernelMemory where
  "boot_memory = \<lparr>kernelPhysicalPages = zeroPagingInfo,
     kernelVirtualPages = zeroPagingInfo\<lparr>pageDirectory := (\<lambda>_. zeroPageDirectoryEntry)
       (1022 := boot_entry 0x501, 1023 := boot_entry 0x502)\<rparr>,
     kernelDataPageTable = (\<lambda>_. zeroPageTableEntry), frames = (\<lambda>_ _. zeroPageTableEntry)\<rparr>"

definition started_memory :: KernelMemory where
  "started_memory = (case reservePagesUntilPhysical boot_memory 0x900 of Some m \<Rightarrow> m | None \<Rightarrow> boot_memory)"

lemma boot_memory_ok: "boot_tables_ok boot_memory 0x900"
  by (simp add: boot_tables_ok_def boot_memory_def boot_entry_def Let_def)

lemma started_memory_facts:
  "kernel_ok started_memory" "used_frames started_memory = {0..<0x900}"
  "used_virtual started_memory = {0} \<union> {0xFF800..<PAGES}"
  "search_start (kernelVirtualPages started_memory) = 0"
  "search_start (kernelPhysicalPages started_memory) = 0x800"
  using reservePagesUntilPhysical_spec [OF _ boot_memory_ok] by (auto simp: started_memory_def)

lemma started_memory_free:
  "0x900 < PAGES \<and> search_start (kernelPhysicalPages started_memory) \<le> 0x900 \<and> 0x900 \<notin> used_frames started_memory"
  by (simp add: started_memory_facts)

lemma started_getPage: "\<exists>a m'. getPage started_memory = Some (a, m')"
  by (rule getPage_returns [of started_memory "0x900" "0x901" 1]) (simp_all add: started_memory_facts)

section \<open>Properties of the paging code\<close>

text \<open>
  Refinement: on page numbers, \<open>reservePage\<close> and \<open>freePhysicalPage\<close> are insertion into and
  removal from the set of used pages. Both return for every page of the 4 GiB space, keep the
  agreement between the fine and the coarse bitmap, and \<open>reservePage\<close> faults on every other number.
\<close>

theorem bitmap_refines_set:
  assumes "bitmap_ok info"
  shows "(unat p < PAGES \<longrightarrow>
      (\<exists>info'. reservePage info p = Some info' \<and> bitmap_ok info' \<and>
         used_pages info' = insert (unat p) (used_pages info)) \<and>
      (\<exists>info'. freePhysicalPage info p = Some info' \<and> bitmap_ok info' \<and>
         used_pages info' = used_pages info - {unat p})) \<and>
    (PAGES \<le> unat p \<longrightarrow> reservePage info p = None)"
  using bm.reserve_law [OF assms, of p] bm.release_law [OF assms, of p]
  by (auto simp: reservePage_fault)

theorem bitmap_refines_set_witness:
  "(\<exists>info'. reservePage sample_info 40 = Some info' \<and> used_pages info' = insert 40 (used_pages sample_info)) \<and>
   (\<exists>info'. freePhysicalPage sample_info 7 = Some info' \<and> used_pages info' = used_pages sample_info - {7}) \<and>
   reservePage sample_info 0x100000 = None"
  using bitmap_refines_set [OF sample_info_ok, of 40] bitmap_refines_set [OF sample_info_ok, of 7]
    bitmap_refines_set [OF sample_info_ok, of "0x100000"] by auto





text \<open>
  \<open>getPage\<close> hands out a page-aligned kernel page that was not in use, backs it with a frame that
  was not in use, marks both as used, changes no other translation and keeps the memory invariant.
\<close>

theorem getPage_fresh:
  assumes "kernel_ok m" and "getPage m = Some (a, m')"
  shows "kernel_ok m' \<and> PAGE_OFFSET a = 0 \<and> unat (PAGE_ID a) \<notin> used_virtual m \<and>
    used_virtual m' = insert (unat (PAGE_ID a)) (used_virtual m) \<and>
    unat (PAGE_ID (ktranslate m' a)) \<in> used_frames m' - used_frames m \<and>
    (\<forall>b. kpresent m b \<and> PAGE_ID b \<noteq> PAGE_ID a \<longrightarrow> ktranslate m' b = ktranslate m b)"
  using getPage_spec [OF assms] by blast

theorem getPage_fresh_witness:
  "\<exists>a m'. getPage started_memory = Some (a, m') \<and> kernel_ok m' \<and> unat (PAGE_ID a) \<notin> used_virtual started_memory"
proof -
  obtain a m' where "getPage started_memory = Some (a, m')" using started_getPage by blast
  with getPage_fresh [OF started_memory_facts(1) this] show ?thesis by blast
qed

text \<open>
  \<open>getPage\<close> returns whenever two frames and one kernel page are free above the search starts (the
  second frame is for a page table that may have to be created).
\<close>

theorem getPage_succeeds:
  assumes "kernel_ok m" and "w < PAGES" "search_start (kernelVirtualPages m) \<le> w" "w \<notin> used_virtual m"
    and "2 \<le> card {q. q < PAGES \<and> search_start (kernelPhysicalPages m) \<le> q \<and> q \<notin> used_frames m}"
  shows "\<exists>a m'. getPage m = Some (a, m')"
proof -
  obtain q r where "{q, r} \<subseteq> {q. q < PAGES \<and> search_start (kernelPhysicalPages m) \<le> q \<and> q \<notin> used_frames m}"
    and "q \<noteq> r"
    using assms(5) by (metis (no_types, lifting) card_2_iff obtain_subset_with_card_n)
  then show ?thesis
    using getPage_returns [OF assms(1), of q r w] assms(2-4) by auto
qed

theorem getPage_succeeds_witness: "\<exists>a m'. getPage started_memory = Some (a, m')"
proof (rule getPage_succeeds [of _ 1])
  let ?S = "{q. q < PAGES \<and> search_start (kernelPhysicalPages started_memory) \<le> q \<and> q \<notin> used_frames started_memory}"
  have "{0x900, 0x901} \<subseteq> ?S" and "finite ?S"
    by (simp_all add: started_memory_facts)
  then have "card {0x900, 0x901 :: nat} \<le> card ?S" by (intro card_mono)
  then show "2 \<le> card ?S" by simp
qed (simp_all add: started_memory_facts)

text \<open>
  \<open>getPagesCount\<close> hands out a run of consecutive kernel pages that were all free, marks exactly
  these as used, and backs them with pairwise different frames that were all free.
\<close>

theorem getPagesCount_fresh:
  assumes "kernel_ok m" and "0 < unat count" and "getPagesCount m count = Some (a, m')"
  shows "\<exists>v. a = ADDRESS v \<and> free_run (kernelVirtualPages m) (unat v) (unat count) \<and> kernel_ok m' \<and>
    used_virtual m' = used_virtual m \<union> {unat v..<unat v + unat count} \<and>
    (\<forall>i < unat count. unat (PAGE_ID (ktranslate m' (ADDRESS (v + of_nat i)))) \<in> used_frames m' - used_frames m) \<and>
    (\<forall>i < unat count. \<forall>j < i. PAGE_ID (ktranslate m' (ADDRESS (v + of_nat i))) \<noteq>
       PAGE_ID (ktranslate m' (ADDRESS (v + of_nat j))))"
  using getPagesCount_spec [OF assms] by blast

lemma started_getPagesCount: "\<exists>a m'. getPagesCount started_memory 1 = Some (a, m')"
proof -
  let ?v = "kernelVirtualPages started_memory"
  have vok: "bitmap_ok ?v" and k: "kernel_ok started_memory"
    using started_memory_facts(1) by (simp_all add: kernel_ok_def)
  have "free_run ?v 1 1" by (simp add: free_run_def started_memory_facts)
  then obtain v where v: "findMultiplePages ?v 1 = Some v" and vr: "free_run ?v (unat v) 1"
    using findMultiplePages_returns [OF vok, of 1 1] by (auto simp: started_memory_facts)
  then have vlt: "unat v < PAGES" by (simp add: free_run_def)
  obtain i where i: "reservePagesCount ?v v 1 = Some i" "bitmap_ok i" "same_space ?v i"
    using reservePagesCount_spec [OF vok, of v 1] vlt by auto
  define m where "m = started_memory\<lparr>kernelVirtualPages := i\<rparr>"
  have mk: "kernel_ok m" unfolding m_def by (rule virtual_bitmap_update(1) [OF k i(2,3)])
  have mp: "kernelPhysicalPages m = kernelPhysicalPages started_memory" by (simp add: m_def)
  obtain p pi where p: "findPage (kernelPhysicalPages m) = Some p"
    and pi: "reservePage (kernelPhysicalPages m) p = Some pi"
    using bm.take_page_returns [of "kernelPhysicalPages m" "0x900"] mk
    by (auto simp: kernel_ok_def mp started_memory_facts)
  define m1 where "m1 = m\<lparr>kernelPhysicalPages := pi\<rparr>"
  have m1: "reservePhysical m p = Some m1" by (simp add: reservePhysical_def pi m1_def)
  have plt: "unat p < PAGES" using bm.find_law [OF _ p] mk by (simp add: kernel_ok_def)
  note r = reservePhysical_spec [OF mk m1 plt]
  have "\<exists>q < PAGES. search_start (kernelPhysicalPages m1) \<le> q \<and> q \<notin> used_frames m1"
    by (cases "unat p = 0x900")
      (auto simp: r(2,5) mp started_memory_facts intro: exI [of _ "0x901"] exI [of _ "0x900"])
  then obtain m2 where "mapPageKernel m1 (ADDRESS p) (ADDRESS v) = Some m2"
    using mapPageKernel_returns [OF r(1)] by blast
  then show ?thesis
    using v i(1) p m1 by (simp add: getPagesCount_def pagesCountStep_def m_def)
qed

theorem getPagesCount_fresh_witness:
  "\<exists>a m'. getPagesCount started_memory 1 = Some (a, m') \<and> kernel_ok m'"
proof -
  obtain a m' where run: "getPagesCount started_memory 1 = Some (a, m')"
    using started_getPagesCount by blast
  with getPagesCount_fresh [OF started_memory_facts(1) _ run] show ?thesis by auto
qed

text \<open>
  \<open>unmapPageFrom\<close> is meant to free a whole connected run of pages, but its loop tests the bit
  that \<open>markPageFree\<close> has just cleared: whatever pages are marked as connected, it returns after
  freeing exactly the first page, and every following page of the run stays allocated.
\<close>

theorem unmapPageFrom_frees_one_page:
  assumes "bitmap_ok info"
  shows "\<exists>info' m'. unmapPageFrom info m address = Some (info', m') \<and> bitmap_ok info' \<and>
    used_pages info' = used_pages info - {unat (PAGE_ID address)}"
proof -
  obtain info' where "freePhysicalPage info (PAGE_ID address) = Some info'" "bitmap_ok info'"
    "used_pages info' = used_pages info - {unat (PAGE_ID address)}"
    using bm.release_law [OF assms PAGE_ID_lt] by blast
  then show ?thesis
    by (simp add: unmapPageFrom_def unmapPageFromLoop_once)
qed

theorem unmapPageFrom_frees_one_page_witness:
  "\<exists>info' m'. unmapPageFrom (sample_info\<lparr>isPageConnectedToNext := (\<lambda>_. 0)(0 := 0x30)\<rparr>) boot_memory 0x4000 =
     Some (info', m') \<and> 4 \<notin> used_pages info' \<and> 5 \<in> used_pages info'"
proof -
  let ?info = "sample_info\<lparr>isPageConnectedToNext := (\<lambda>_. 0)(0 := 0x30)\<rparr>"
  have "bitmap_ok ?info" "used_pages ?info = used_pages sample_info"
    using sample_info_ok by (simp_all add: bitmap_ok_def used_pages_def page_used_def)
  with unmapPageFrom_frees_one_page [of ?info boot_memory "0x4000"] show ?thesis
    by (auto simp: sample_info_used PAGE_ID_def)
qed

text \<open>
  \<open>giveUpPage\<close>, the page release of the \<open>free\<close> system call, frees exactly the given page of the
  process, its frame, and the mapping; the remaining pages of a larger request stay allocated.
\<close>

theorem giveUpPage_frees_one_page:
  assumes "bitmap_ok info" and "bitmap_ok (kernelPhysicalPages m)" and "unat pageId < PAGES"
  shows "\<exists>info' m'. giveUpPage info m pageId = Some (info', m') \<and> bitmap_ok info' \<and>
    bitmap_ok (kernelPhysicalPages m') \<and> used_pages info' = used_pages info - {unat pageId} \<and>
    used_frames m' = used_frames m -
      {unat (PAGE_ID (fst (getPhysicalAddress m (pageDirectory info) (ADDRESS pageId))))}"
proof -
  let ?g = "getPhysicalAddress m (pageDirectory info) (ADDRESS pageId)"
  obtain pages where pages: "freePhysicalPage (kernelPhysicalPages m) (PAGE_ID (fst ?g)) = Some pages"
    "bitmap_ok pages" "used_pages pages = used_frames m - {unat (PAGE_ID (fst ?g))}"
    using bm.release_law [OF assms(2) PAGE_ID_lt] by blast
  obtain info' where "freePhysicalPage info pageId = Some info'" "bitmap_ok info'"
    "used_pages info' = used_pages info - {unat pageId}"
    using bm.release_law [OF assms(1,3)] by blast
  with pages show ?thesis
    by (simp add: giveUpPage_once Let_def split_def)
qed

theorem giveUpPage_frees_one_page_witness:
  "\<exists>info' m'. giveUpPage sample_info started_memory 4 = Some (info', m') \<and>
     4 \<notin> used_pages info' \<and> 5 \<in> used_pages info'"
proof -
  have "bitmap_ok (kernelPhysicalPages started_memory)"
    using started_memory_facts(1) by (simp add: kernel_ok_def)
  from giveUpPage_frees_one_page [OF sample_info_ok this, of 4] show ?thesis
    by (auto simp: sample_info_used)
qed

text \<open>
  \<open>freePageFrom\<close> applies the address macros to a page number. For the first 1024 pages it frees
  the page and the frame the page translates to; for a page number whose remainder modulo 4096 is
  1024 or more it reads behind the temporary window instead, so the call has no defined result.
\<close>

theorem freePageFrom_only_low_pages:
  assumes "bitmap_ok info" and "bitmap_ok (kernelPhysicalPages m)"
  shows "(unat (PAGE_ID address) < 1024 \<longrightarrow>
     (\<exists>info' m'. freePageFrom info m address = Some (info', m') \<and>
        used_pages info' = used_pages info - {unat (PAGE_ID address)} \<and>
        used_frames m' = used_frames m - {unat (PAGE_ID (fst
          (getPhysicalAddress m (pageDirectory info) (ADDRESS (PAGE_ID address)))))})) \<and>
    (1024 \<le> unat (PAGE_ID address) mod 4096 \<longrightarrow> freePageFrom info m address = None)"
proof (intro conjI impI)
  let ?p = "PAGE_ID address"
  let ?g = "getPhysicalAddress m (pageDirectory info) (ADDRESS ?p)"
  assume low: "unat ?p < 1024"
  obtain pages where "freePhysicalPage (kernelPhysicalPages m) (PAGE_ID (fst ?g)) = Some pages"
    "used_pages pages = used_frames m - {unat (PAGE_ID (fst ?g))}"
    using bm.release_law [OF assms(2) PAGE_ID_lt] by blast
  moreover obtain info' where "freePhysicalPage info ?p = Some info'"
    "used_pages info' = used_pages info - {unat ?p}"
    using bm.release_law [OF assms(1) PAGE_ID_lt] by blast
  ultimately show "\<exists>info' m'. freePageFrom info m address = Some (info', m') \<and>
        used_pages info' = used_pages info - {unat ?p} \<and>
        used_frames m' = used_frames m - {unat (PAGE_ID (fst ?g))}"
    by (simp add: freePageFrom_def freePageFromLoop_low [OF low] Let_def split_def)
next
  let ?p = "PAGE_ID address"
  assume high: "1024 \<le> unat ?p mod 4096"
  have "unat (PAGE_OFFSET ?p) = unat ?p mod 4096"
    by (simp add: PAGE_OFFSET_take_bit unat_mod take_bit_eq_mod)
  then have oob: "\<not> unat (PAGE_OFFSET ?p) < 1024"
    using high by simp
  have "freePageFrom info m address \<noteq> Some r" for r
    using oob by (auto simp: freePageFrom_def freePageFromLoop.simps Let_def split_def aget_def
        split: bind_splits if_splits)
  then show "freePageFrom info m address = None"
    by (cases "freePageFrom info m address") blast+
qed

theorem freePageFrom_only_low_pages_witness:
  "(\<exists>info' m'. freePageFrom sample_info started_memory 0x4000 = Some (info', m') \<and> 4 \<notin> used_pages info') \<and>
   freePageFrom sample_info started_memory 0x400000 = None"
proof -
  have "bitmap_ok (kernelPhysicalPages started_memory)"
    using started_memory_facts(1) by (simp add: kernel_ok_def)
  note th = freePageFrom_only_low_pages [OF sample_info_ok this]
  show ?thesis
    using th [of "0x4000"] th [of "0x400000"] by (auto simp: PAGE_ID_def)
qed

text \<open>
  C13. After \<open>reservePagesUntilPhysical\<close> the memory invariant holds: the frames below \<open>endPageId\<close> and,
  in the kernel's address space, page 0 and the top 8 MiB are reserved, and nothing else.
\<close>

theorem startup_establishes_invariant:
  assumes "unat endPageId \<le> PAGES" and "boot_tables_ok m endPageId"
  shows "\<exists>m'. reservePagesUntilPhysical m endPageId = Some m' \<and> kernel_ok m' \<and>
    used_frames m' = {0..<unat endPageId} \<and> used_virtual m' = {0} \<union> {0xFF800..<PAGES}"
  using reservePagesUntilPhysical_spec [OF assms] by blast

theorem startup_establishes_invariant_witness:
  "\<exists>m'. reservePagesUntilPhysical boot_memory 0x900 = Some m' \<and> kernel_ok m' \<and> used_frames m' = {0..<0x900}"
  using startup_establishes_invariant [OF _ boot_memory_ok] by auto

end
