(* ===== verification/Allocator.thy ===== *)
theory Allocator
  imports Prelude
begin

text \<open>
  The contract between \<open>malloc\<close>/\<open>free\<close> and the code that uses them: a request below 1024 bytes
  gives an address that is not in use, releasing an address in use gives back that address only, and
  releasing the null pointer does nothing. \<open>ready\<close> is the condition under which requests return.
\<close>

locale allocator =
  fixes good :: "'s \<Rightarrow> bool" and live_at :: "'s \<Rightarrow> u32 set" and ready :: "'s \<Rightarrow> bool"
    and alloc :: "'s \<Rightarrow> u32 \<Rightarrow> (u32 \<times> 's) option" and release :: "'s \<Rightarrow> u32 \<Rightarrow> 's option"
  assumes alloc_law: "good s \<Longrightarrow> 0 < unat n \<Longrightarrow> unat n < 1024 \<Longrightarrow> alloc s n = Some (a, s') \<Longrightarrow>
      good s' \<and> a \<noteq> 0 \<and> a \<notin> live_at s \<and> live_at s' = insert a (live_at s)"
    and alloc_returns: "good s \<Longrightarrow> 0 < unat n \<Longrightarrow> unat n < 1024 \<Longrightarrow> ready s \<Longrightarrow> \<exists>a s'. alloc s n = Some (a, s')"
    and release_law: "good s \<Longrightarrow> a \<in> live_at s \<Longrightarrow>
      \<exists>s'. release s a = Some s' \<and> good s' \<and> live_at s' = live_at s - {a}"
    and release_null: "release s 0 = Some s"
begin

lemma alloc_release:
  assumes "good s" and "0 < unat n" and "unat n < 1024" and "alloc s n = Some (a, s')"
  shows "\<exists>t. release s' a = Some t \<and> good t \<and> live_at t = live_at s"
  using alloc_law [OF assms] release_law [of s' a] by (metis Diff_insert_absorb insertI1)

lemma alloc_alloc:
  assumes "good s" and "0 < unat n" "unat n < 1024" and "alloc s n = Some (a, s')"
    and "0 < unat k" "unat k < 1024" and "alloc s' k = Some (b, t)"
  shows "a \<noteq> b \<and> live_at t = insert b (insert a (live_at s))"
  using alloc_law [OF assms(1-4)] alloc_law [of s' k b t] assms(5-) by auto

end

end
