(* ===== verification/Malloc.thy ===== *)
theory Malloc
  imports PageAlloc Allocator
begin

text \<open>
  The small-object allocator \<open>malloc.c\<close>, which the kernel and \<open>hlib\<close> both compile in. Requests below
  1024 bytes are served from 4096-byte blocks of equal slots, one chain of blocks per power of two;
  larger ones go to the page allocator, which the source only declares here (\<open>getPage\<close>,
  \<open>getPagesCount\<close>, \<open>freePage\<close>) and which is an argument of the definitions (\<open>pageSource\<close>,
  \<open>pagesSource\<close>, \<open>pageSink\<close>). \<open>page_provider\<close> is the
  contract it has to fulfil; the kernel's paging code is shown to fulfil it, and the result fulfils
  the contract \<open>allocator\<close> that the clients rely on.
\<close>

section \<open>Data\<close>

text \<open>A page seen as an \<open>AllocationBlock\<close>; addresses of blocks are page addresses.\<close>

record AllocationBlock =
  blockData :: "nat \<Rightarrow> u8"
  allocatedFine :: "nat \<Rightarrow> u32"
  allocatedCoarse :: u32
  blockSize :: u32
  nextBlock :: u32
  previousBlock :: u32
  magic :: u32

text \<open>
  The state of the allocator: the page allocator's state, the array \<open>allocationData\<close> of chain heads
  and the contents of every page of the address space, read as a block.
\<close>

record 'm Heap =
  pages :: 'm
  allocationData :: "nat \<Rightarrow> u32"
  blocks :: "u32 \<Rightarrow> AllocationBlock"

definition ALLOCATION_MAGIC :: u32 where
  "ALLOCATION_MAGIC = 0xB105F00D"

abbreviation DATA_SIZE :: nat where "DATA_SIZE \<equiv> 3948"

definition zeroBlock :: AllocationBlock where
  "zeroBlock = \<lparr>blockData = (\<lambda>_. 0), allocatedFine = (\<lambda>_. 0), allocatedCoarse = 0, blockSize = 0,
     nextBlock = 0, previousBlock = 0, magic = 0\<rparr>"

definition setBlock :: "'m Heap \<Rightarrow> u32 \<Rightarrow> AllocationBlock \<Rightarrow> 'm Heap" where
  "setBlock h address b = h\<lparr>blocks := (blocks h)(address := b)\<rparr>"

section \<open>Operations\<close>

text \<open>
  The macro \<open>LOG2\<close>: 63 minus the number of leading zeros of the 64-bit value, which
  \<open>__builtin_clzll\<close> does not define for zero.
\<close>

fun floorLog :: "nat \<Rightarrow> nat" where
  "floorLog n = (if n < 2 then 0 else Suc (floorLog (n div 2)))"

declare floorLog.simps [simp del]

definition LOG2 :: "u32 \<Rightarrow> nat option" where
  "LOG2 x = (if x = 0 then None else Some (floorLog (unat x)))"

text \<open>
  \<open>memset\<close> inside the data area of a block. Bytes behind the area would be the block's own
  bookkeeping, so a larger range has no defined result.
\<close>

definition clearData :: "AllocationBlock \<Rightarrow> nat \<Rightarrow> nat \<Rightarrow> AllocationBlock option" where
  "clearData b offset count =
     (if offset + count \<le> DATA_SIZE
      then Some (b\<lparr>blockData := (\<lambda>i. if offset \<le> i \<and> i < offset + count then 0 else blockData b i)\<rparr>)
      else None)"

text \<open>
  \<open>reserveBlock\<close>: sets the slot's bit, sets the bit of its group of 32 and clears that again when
  some slot of the group is free. The loop stops at the first free slot.
\<close>

definition reserveBlock :: "'m Heap \<Rightarrow> u32 \<Rightarrow> nat \<Rightarrow> nat \<Rightarrow> (u32 \<times> 'm Heap) option" where
  "reserveBlock h block coarse fine = do {
     let b = blocks h block;
     word \<leftarrow> aget 32 (allocatedFine b) coarse;
     fineWords \<leftarrow> aset 32 (allocatedFine b) coarse (word OR onebit fine);
     let b = b\<lparr>allocatedFine := fineWords, allocatedCoarse := allocatedCoarse b OR onebit coarse\<rparr>;
     let b = (if list_ex (\<lambda>i. fineWords coarse AND onebit i = 0) [0..<32]
              then b\<lparr>allocatedCoarse := allocatedCoarse b AND NOT (onebit coarse)\<rparr> else b);
     let offset = blockSize b * of_nat (32 * coarse + fine);
     b \<leftarrow> clearData b (unat offset) (unat (blockSize b));
     Some (block + offset, setBlock h block b)
   }"

text \<open>
  The two search loops of \<open>_malloc\<close> over the slots of one block. \<open>Some (Some fine)\<close> of the inner
  search is the slot found, \<open>Some None\<close> is \<open>abort\<close>, and \<open>None\<close> that the 32 slots are all taken.
\<close>

fun findFineSlot :: "AllocationBlock \<Rightarrow> nat \<Rightarrow> nat list \<Rightarrow> nat option option" where
  "findFineSlot b coarse [] = None"
| "findFineSlot b coarse (fine # rest) =
     (if blockSize b * of_nat (32 * coarse + fine + 1) > 3948 then Some None
      else if allocatedFine b coarse AND onebit fine \<noteq> 0 then findFineSlot b coarse rest
      else Some (Some fine))"

fun findSlot :: "AllocationBlock \<Rightarrow> nat list \<Rightarrow> (nat \<times> nat) option" where
  "findSlot b [] = None"
| "findSlot b (coarse # rest) =
     (case findFineSlot b coarse [0..<32] of
        None \<Rightarrow> findSlot b rest
      | Some None \<Rightarrow> None
      | Some (Some fine) \<Rightarrow> Some (coarse, fine))"

text \<open>The part of \<open>_malloc\<close> that starts a new block when the chain is at its end.\<close>

definition newBlock ::
  "('m \<Rightarrow> (u32 \<times> 'm) option) \<Rightarrow> 'm Heap \<Rightarrow> nat \<Rightarrow> u32 \<Rightarrow> (u32 \<times> 'm Heap) option" where
  "newBlock pageSource h sizeBit lastBlock = do {
     (block, m) \<leftarrow> pageSource (pages h);
     let h = h\<lparr>pages := m\<rparr>;
     let b = zeroBlock\<lparr>blockSize := onebit sizeBit\<rparr>;
     h \<leftarrow> (if lastBlock \<noteq> 0 then do {
              let h = setBlock h block (b\<lparr>previousBlock := lastBlock\<rparr>);
              Some (setBlock h lastBlock ((blocks h lastBlock)\<lparr>nextBlock := block\<rparr>))
            } else do {
              heads \<leftarrow> aset 12 (allocationData h) sizeBit block;
              Some (setBlock (h\<lparr>allocationData := heads\<rparr>) block (b\<lparr>previousBlock := 0\<rparr>))
            });
     Some (block, setBlock h block ((blocks h block)\<lparr>magic := ALLOCATION_MAGIC\<rparr>))
   }"

text \<open>The loop over the chain of one slot size; it only ends by returning a slot.\<close>

partial_function (option) mallocLoop ::
  "('m \<Rightarrow> (u32 \<times> 'm) option) \<Rightarrow> 'm Heap \<Rightarrow> nat \<Rightarrow> u32 \<Rightarrow> u32 \<Rightarrow> (u32 \<times> 'm Heap) option" where
  "mallocLoop pageSource h sizeBit block lastBlock = do {
     (block, h) \<leftarrow> (if block = 0 then newBlock pageSource h sizeBit lastBlock else Some (block, h));
     let b = blocks h block;
     (case (if allocatedCoarse b = - 1 then None else findSlot b [0..<32]) of
        Some (coarse, fine) \<Rightarrow> reserveBlock h block coarse fine
      | None \<Rightarrow> mallocLoop pageSource h sizeBit (nextBlock b) block)
   }"

definition malloc ::
  "('m \<Rightarrow> (u32 \<times> 'm) option) \<Rightarrow> ('m \<Rightarrow> u32 \<Rightarrow> (u32 \<times> 'm) option) \<Rightarrow> 'm Heap \<Rightarrow> u32 \<Rightarrow>
     (u32 \<times> 'm Heap) option" where
  "malloc pageSource pagesSource h count = do {
     l \<leftarrow> LOG2 count;
     let sizeBit = l + 1;
     if sizeBit > 10 then do {
       (a, m) \<leftarrow> pagesSource (pages h) (drop_bit 12 (count - 1) + 1);
       Some (a, h\<lparr>pages := m\<rparr>)
     } else do {
       block \<leftarrow> aget 12 (allocationData h) sizeBit;
       mallocLoop pageSource h sizeBit block 0
     }
   }"

text \<open>
  \<open>free\<close> tells a slot from a page run by the magic number at the end of its page. The division by
  the slot size is unsigned, and a block without a size would divide by zero.
\<close>

definition free :: "('m \<Rightarrow> u32 \<Rightarrow> 'm option) \<Rightarrow> 'm Heap \<Rightarrow> u32 \<Rightarrow> 'm Heap option" where
  "free pageSink h location =
     (if location = 0 then Some h
      else do {
        let block = location AND NOT 0xFFF;
        let b = blocks h block;
        if magic b \<noteq> ALLOCATION_MAGIC then do {
          m \<leftarrow> pageSink (pages h) location;
          Some (h\<lparr>pages := m\<rparr>)
        } else if blockSize b = 0 then None
        else do {
          let index = (ucast ((ucast (ucast (location AND 0xFFF) :: u16) :: u32) div blockSize b) :: u16);
          let coarse = (ucast (index div 32) :: u8);
          let fine = (ucast (index mod 32) :: u8);
          word \<leftarrow> aget 32 (allocatedFine b) (unat coarse);
          fineWords \<leftarrow> aset 32 (allocatedFine b) (unat coarse) (word AND NOT (onebit (unat fine)));
          Some (setBlock h block (b\<lparr>allocatedFine := fineWords,
            allocatedCoarse := allocatedCoarse b AND NOT (onebit (unat coarse))\<rparr>))
        }
      })"

section \<open>The slots of a block\<close>

lemma floorLog_bounds: "0 < n \<Longrightarrow> 2 ^ floorLog n \<le> n \<and> n < 2 ^ Suc (floorLog n)"
proof (induction n rule: floorLog.induct)
  case (1 n)
  show ?case
  proof (cases "n < 2")
    case True
    with 1(2) show ?thesis by (simp add: floorLog.simps [of n])
  next
    case False
    with 1(1) have "2 ^ floorLog (n div 2) \<le> n div 2" "n div 2 < 2 ^ Suc (floorLog (n div 2))"
      by simp_all
    then have "2 * 2 ^ floorLog (n div 2) \<le> n" "n < 2 * 2 ^ Suc (floorLog (n div 2))"
      by linarith+
    with False show ?thesis by (simp add: floorLog.simps [of n])
  qed
qed

lemma floorLog_le: "0 < n \<Longrightarrow> floorLog n < k \<longleftrightarrow> n < 2 ^ k"
  using floorLog_bounds [of n]
  by (metis Suc_leI leD le_less_trans less_le_trans linorder_not_le one_less_numeral_iff
      power_increasing power_strict_increasing_iff one_le_numeral semiring_norm(76))

text \<open>Slot \<open>i\<close> of a block is the pair of its group and its position there.\<close>

definition slot_taken :: "AllocationBlock \<Rightarrow> nat \<Rightarrow> bool" where
  "slot_taken b i \<longleftrightarrow> bit (allocatedFine b (i div 32)) (i mod 32)"

text \<open>
  The invariant of a block of slots of \<open>2\<^sup>k\<close> bytes: the bit of a group is set exactly when its 32
  slots are taken, and every taken slot lies in the data area.
\<close>

definition block_ok :: "nat \<Rightarrow> AllocationBlock \<Rightarrow> bool" where
  "block_ok k b \<longleftrightarrow> blockSize b = onebit k \<and> magic b = ALLOCATION_MAGIC \<and>
     (\<forall>c < 32. bit (allocatedCoarse b) c \<longleftrightarrow> allocatedFine b c = - 1) \<and>
     (\<forall>i < 1024. slot_taken b i \<longrightarrow> 2 ^ k * (i + 1) \<le> DATA_SIZE)"

lemma unat_onebit: "k < 32 \<Longrightarrow> unat (onebit k) = 2 ^ k"
proof -
  assume "k < 32"
  then have "(2::nat) ^ k < 2 ^ 32" by (intro power_strict_increasing) simp_all
  then show ?thesis using unat_of_nat32 [of "2 ^ k"] by (simp add: onebit_def push_bit_eq_mult)
qed

lemma unat_slot_end:
  assumes "k \<le> 10" and "i \<le> 1024"
  shows "unat (onebit k * of_nat i) = 2 ^ k * i"
proof -
  have "(2::nat) ^ k \<le> 2 ^ 10" using assms(1) by (intro power_increasing) simp_all
  then have "2 ^ k * i \<le> 2 ^ 10 * 1024" using assms(2) by (intro mult_le_mono)
  then show ?thesis
    using assms by (simp add: unat_word_ariths unat_onebit)
qed

lemma findFineSlot_Some:
  "findFineSlot b c xs = Some (Some f) \<Longrightarrow>
     f \<in> set xs \<and> \<not> blockSize b * of_nat (32 * c + f + 1) > 3948 \<and> allocatedFine b c AND onebit f = 0"
  by (induction b c xs rule: findFineSlot.induct) (auto split: if_splits)

lemma findSlot_Some:
  "findSlot b xs = Some (c, f) \<Longrightarrow> c \<in> set xs \<and> f < 32 \<and>
     \<not> blockSize b * of_nat (32 * c + f + 1) > 3948 \<and> allocatedFine b c AND onebit f = 0"
  by (induction b xs rule: findSlot.induct) (auto split: option.splits dest: findFineSlot_Some)

lemma findSlot_free:
  assumes "block_ok k b" and "k \<le> 10" and "findSlot b [0..<32] = Some (c, f)"
  shows "c < 32" and "f < 32" and "\<not> slot_taken b (32 * c + f)" and "2 ^ k * (32 * c + f + 1) \<le> DATA_SIZE"
proof -
  note s = findSlot_Some [OF assms(3)]
  then show c: "c < 32" and f: "f < 32" by simp_all
  show "\<not> slot_taken b (32 * c + f)"
    using s f by (simp add: slot_taken_def and_onebit_eq_0)
  have "unat (blockSize b * of_nat (32 * c + f + 1)) \<le> 3948"
    using s by (simp add: word_le_nat_alt not_less)
  then show "2 ^ k * (32 * c + f + 1) \<le> DATA_SIZE"
    using unat_slot_end [of k "32 * c + f + 1"] assms(1,2) c f by (simp add: block_ok_def)
qed

lemma slot_index:
  assumes "f < (32::nat)" shows "(32 * c + f) div 32 = c" and "(32 * c + f) mod 32 = f"
  using assms by simp_all

text \<open>Taking and giving back a slot, on the level of one block.\<close>

definition takeSlot :: "AllocationBlock \<Rightarrow> nat \<Rightarrow> nat \<Rightarrow> AllocationBlock" where
  "takeSlot b c f =
     (let word = allocatedFine b c OR onebit f in
      b\<lparr>allocatedFine := (allocatedFine b)(c := word),
        allocatedCoarse := (if word = - 1 then allocatedCoarse b OR onebit c
                            else allocatedCoarse b AND NOT (onebit c))\<rparr>)"

lemma list_ex_free_bit: "list_ex (\<lambda>i. w AND onebit i = 0) [0..<32] \<longleftrightarrow> w \<noteq> - 1"
  by (auto simp: list_ex_iff word_neq_minus1_bit and_onebit_eq_0)

lemma or_and_not_onebit: "(w OR onebit c) AND NOT (onebit c) = w AND NOT (onebit c)"
  by (auto simp: bit_eq_iff bit_simps bit_onebit)

lemma slot_taken_takeSlot:
  assumes "c < 32" and "f < 32" and "i < 1024"
  shows "slot_taken (takeSlot b c f) i \<longleftrightarrow> slot_taken b i \<or> i = 32 * c + f"
proof -
  have "i = 32 * c + f \<longleftrightarrow> i div 32 = c \<and> i mod 32 = f"
    using assms by (auto simp: slot_index)
  then show ?thesis
    by (auto simp: slot_taken_def takeSlot_def Let_def bit_or_onebit)
qed

lemma block_ok_takeSlot:
  assumes "block_ok k b" and "c < 32" and "f < 32" and "2 ^ k * (32 * c + f + 1) \<le> DATA_SIZE"
  shows "block_ok k (takeSlot b c f)"
  unfolding block_ok_def
proof (intro conjI allI impI)
  fix c' assume c': "c' < (32::nat)"
  have "bit (allocatedCoarse b) c' \<longleftrightarrow> allocatedFine b c' = - 1"
    using assms(1) c' by (simp add: block_ok_def)
  then show "bit (allocatedCoarse (takeSlot b c f)) c' \<longleftrightarrow> allocatedFine (takeSlot b c f) c' = - 1"
    using c' by (auto simp: takeSlot_def Let_def bit_facts)
next
  fix i assume "i < 1024" "slot_taken (takeSlot b c f) i"
  then show "2 ^ k * (i + 1) \<le> DATA_SIZE"
    using assms by (auto simp: slot_taken_takeSlot block_ok_def)
qed (use assms(1) in \<open>simp_all add: block_ok_def takeSlot_def Let_def\<close>)

lemma reserveBlock_spec:
  assumes ok: "block_ok k (blocks h a)" and k: "k \<le> 10" and c: "c < 32" and f: "f < 32"
    and room: "2 ^ k * (32 * c + f + 1) \<le> DATA_SIZE"
  shows "reserveBlock h a c f = Some (a + of_nat (2 ^ k * (32 * c + f)),
     setBlock h a ((takeSlot (blocks h a) c f)\<lparr>blockData :=
       (\<lambda>i. if 2 ^ k * (32 * c + f) \<le> i \<and> i < 2 ^ k * (32 * c + f) + 2 ^ k then 0
            else blockData (blocks h a) i)\<rparr>))"
proof -
  define i where "i = 32 * c + f"
  define off where "off = 2 ^ k * i"
  have size: "blockSize (blocks h a) = onebit k" using ok by (simp add: block_ok_def)
  have "unat (onebit k * of_nat i) = off"
    using unat_slot_end [OF k, of i] c f by (simp add: off_def i_def)
  then have off: "onebit k * of_nat i = of_nat off" "unat (of_nat off :: u32) = off"
    by (metis of_nat_unat ucast_id)+
  have "off + 2 ^ k \<le> DATA_SIZE" using room by (simp add: off_def i_def)
  then show ?thesis
    unfolding reserveBlock_def list_ex_free_bit i_def [symmetric] off_def [symmetric] using c k
    by (simp add: Let_def clearData_def size off takeSlot_def or_and_not_onebit unat_onebit
        del: of_nat_mult of_nat_add cong: if_cong)
qed

section \<open>The chains\<close>

text \<open>\<open>chain B p bs\<close>: following \<open>next\<close> from \<open>p\<close> visits the blocks \<open>bs\<close> and then the null pointer.\<close>

fun chain :: "(u32 \<Rightarrow> AllocationBlock) \<Rightarrow> u32 \<Rightarrow> u32 list \<Rightarrow> bool" where
  "chain B p [] \<longleftrightarrow> p = 0"
| "chain B p (b # bs) \<longleftrightarrow> p = b \<and> b \<noteq> 0 \<and> chain B (nextBlock (B b)) bs"

abbreviation size_bits :: "nat set" where "size_bits \<equiv> {1..10}"

definition heap_rep :: "nat set \<Rightarrow> 'm Heap \<Rightarrow> (nat \<Rightarrow> u32 list) \<Rightarrow> bool" where
  "heap_rep used h cs \<longleftrightarrow> (\<forall>k \<in> size_bits.
     chain (blocks h) (allocationData h k) (cs k) \<and> distinct (cs k) \<and>
     (\<forall>b \<in> set (cs k). PAGE_OFFSET b = 0 \<and> unat (PAGE_ID b) \<in> used \<and> block_ok k (blocks h b)))"

definition blocks_of :: "'m Heap \<Rightarrow> nat \<Rightarrow> u32 set" where
  "blocks_of h k = {b. \<exists>bs. chain (blocks h) (allocationData h k) bs \<and> b \<in> set bs}"

text \<open>A slot is named by its block, its size class and its index; \<open>live\<close> are the slots handed out.\<close>

type_synonym slot = "u32 \<times> nat \<times> nat"

definition live :: "'m Heap \<Rightarrow> slot set" where
  "live h = {(b, k, i). k \<in> size_bits \<and> b \<in> blocks_of h k \<and> i < 1024 \<and> slot_taken (blocks h b) i}"

fun slotAddress :: "slot \<Rightarrow> u32" where
  "slotAddress (b, k, i) = b + of_nat (2 ^ k * i)"

lemma chain_unique: "chain B p xs \<Longrightarrow> chain B p ys \<Longrightarrow> xs = ys"
proof (induction xs arbitrary: p ys)
  case Nil
  then show ?case by (cases ys) auto
next
  case (Cons x xs)
  then show ?case by (cases ys) auto
qed

lemma chain_cong:
  "(\<And>b. b \<in> set bs \<Longrightarrow> nextBlock (B b) = nextBlock (B' b)) \<Longrightarrow> chain B p bs = chain B' p bs"
  by (induction bs arbitrary: p) auto

lemma chain_snoc:
  assumes "chain B p bs" and "bs \<noteq> []" and "distinct (bs @ [q])" and "q \<noteq> 0"
    and "nextBlock (B' (List.last bs)) = q" and "nextBlock (B' q) = 0"
    and "\<And>b. b \<in> set bs \<Longrightarrow> b \<noteq> List.last bs \<Longrightarrow> nextBlock (B' b) = nextBlock (B b)"
  shows "chain B' p (bs @ [q])"
  using assms
proof (induction bs arbitrary: p)
  case Nil
  then show ?case by simp
next
  case (Cons b bs)
  show ?case
  proof (cases "bs = []")
    case True
    with Cons.prems show ?thesis by simp
  next
    case False
    then have "b \<noteq> List.last bs" using Cons.prems(3) by (metis UnI1 distinct.simps(2) distinct_append last_in_set)
    then have "nextBlock (B' b) = nextBlock (B b)" using Cons.prems(7) [of b] False by simp
    with Cons False show ?thesis by simp
  qed
qed

lemma heap_repD:
  assumes "heap_rep U h cs" and "k \<in> size_bits"
  shows "chain (blocks h) (allocationData h k) (cs k)" and "distinct (cs k)"
    and "b \<in> set (cs k) \<Longrightarrow> PAGE_OFFSET b = 0" and "b \<in> set (cs k) \<Longrightarrow> unat (PAGE_ID b) \<in> U"
    and "b \<in> set (cs k) \<Longrightarrow> block_ok k (blocks h b)"
  using assms by (auto simp: heap_rep_def)

lemma chain_nonzero: "chain B p bs \<Longrightarrow> b \<in> set bs \<Longrightarrow> b \<noteq> 0"
  by (induction bs arbitrary: p) auto

lemma chain_next: "chain B p (ps @ r # rs) \<Longrightarrow> nextBlock (B r) = (case rs of [] \<Rightarrow> 0 | q # _ \<Rightarrow> q)"
proof (induction ps arbitrary: p)
  case Nil
  then show ?case by (cases rs) auto
qed auto

lemma blocks_of_rep: "heap_rep U h cs \<Longrightarrow> k \<in> size_bits \<Longrightarrow> blocks_of h k = set (cs k)"
proof -
  assume "heap_rep U h cs" and "k \<in> size_bits"
  note c = heap_repD(1) [OF this]
  show ?thesis unfolding blocks_of_def using c chain_unique [OF c] by blast
qed

lemma live_rep:
  "heap_rep U h cs \<Longrightarrow>
     live h = {(b, k, i). k \<in> size_bits \<and> b \<in> set (cs k) \<and> i < 1024 \<and> slot_taken (blocks h b) i}"
  by (auto simp: live_def blocks_of_rep)

lemma onebit_inj: "j < 32 \<Longrightarrow> onebit j = onebit k \<Longrightarrow> j = k"
  by (metis bit_onebit)

lemma block_in_one_chain:
  assumes "heap_rep U h cs" and "j \<in> size_bits" "k \<in> size_bits" and "b \<in> set (cs j)" "b \<in> set (cs k)"
  shows "j = k"
proof -
  have "onebit j = onebit k"
    using heap_repD(5) [OF assms(1,2,4)] heap_repD(5) [OF assms(1,3,5)] by (simp add: block_ok_def)
  then show ?thesis using onebit_inj [of j k] assms(2) by simp
qed

lemma live_of_block:
  assumes rep: "heap_rep U h cs" and k: "k \<in> size_bits" and a: "a \<in> set (cs k)"
  shows "(a, j, n) \<in> live h \<longleftrightarrow> j = k \<and> n < 1024 \<and> slot_taken (blocks h a) n"
  using k a block_in_one_chain [OF rep _ k _ a, of j] unfolding live_rep [OF rep] by auto

text \<open>Changing one block without touching its link, and appending a fresh block to a chain.\<close>

lemma heap_rep_update:
  assumes rep: "heap_rep U h cs" and k: "k \<in> size_bits" and a: "a \<in> set (cs k)"
    and b: "block_ok k b" "nextBlock b = nextBlock (blocks h a)"
  shows "heap_rep U (setBlock h a b) cs"
    and "live (setBlock h a b) = {s \<in> live h. fst s \<noteq> a} \<union> {(a, k, i) | i. i < 1024 \<and> slot_taken b i}"
proof -
  show rep': "heap_rep U (setBlock h a b) cs"
    unfolding heap_rep_def
  proof (intro ballI conjI)
    fix j assume j: "j \<in> size_bits"
    have "chain (blocks (setBlock h a b)) (allocationData h j) (cs j) = chain (blocks h) (allocationData h j) (cs j)"
      by (rule chain_cong) (simp add: setBlock_def b(2))
    then show "chain (blocks (setBlock h a b)) (allocationData (setBlock h a b) j) (cs j)"
      using heap_repD(1) [OF rep j] by (simp add: setBlock_def)
    show "distinct (cs j)" by (rule heap_repD(2) [OF rep j])
    fix d assume d: "d \<in> set (cs j)"
    show "PAGE_OFFSET d = 0" "unat (PAGE_ID d) \<in> U"
      using heap_repD(3,4) [OF rep j d] by simp_all
    show "block_ok j (blocks (setBlock h a b) d)"
      using heap_repD(5) [OF rep j d] b(1) block_in_one_chain [OF rep j k d] a by (auto simp: setBlock_def)
  qed
  show "live (setBlock h a b) = {s \<in> live h. fst s \<noteq> a} \<union> {(a, k, i) | i. i < 1024 \<and> slot_taken b i}"
  proof (rule set_eqI)
    fix s :: slot
    obtain d j i where s: "s = (d, j, i)" by (cases s)
    have "j = k" if "j \<in> size_bits" "a \<in> set (cs j)"
      by (rule block_in_one_chain [OF rep that(1) k that(2) a])
    then show "s \<in> live (setBlock h a b) \<longleftrightarrow>
        s \<in> {s \<in> live h. fst s \<noteq> a} \<union> {(a, k, i) | i. i < 1024 \<and> slot_taken b i}"
      unfolding live_rep [OF rep] live_rep [OF rep'] s using k a
      by (cases "d = a") (auto simp: setBlock_def)
  qed
qed

lemma heap_rep_append:
  assumes rep: "heap_rep U h cs" and k: "k \<in> size_bits" and fresh: "unat (PAGE_ID p) \<notin> U"
    and p: "PAGE_OFFSET p = 0" "p \<noteq> 0" and b: "block_ok k b" "nextBlock b = 0" "\<And>i. \<not> slot_taken b i"
    and B: "\<And>d. d \<noteq> p \<Longrightarrow> d \<noteq> List.last (cs k) \<Longrightarrow> blocks h' d = blocks h d" "blocks h' p = b"
    and last: "cs k \<noteq> [] \<Longrightarrow>
        blocks h' (List.last (cs k)) = (blocks h (List.last (cs k)))\<lparr>nextBlock := p\<rparr>"
    and heads: "cs k \<noteq> [] \<Longrightarrow> allocationData h' = allocationData h"
      "cs k = [] \<Longrightarrow> allocationData h' = (allocationData h)(k := p) \<and> (\<forall>d. d \<noteq> p \<longrightarrow> blocks h' d = blocks h d)"
  shows "heap_rep (insert (unat (PAGE_ID p)) U) h' (cs(k := cs k @ [p]))" and "live h' = live h"
proof -
  have out: "d \<noteq> p" if "j \<in> size_bits" "d \<in> set (cs j)" for j d
    using heap_repD(4) [OF rep that] fresh by blast
  have same: "blocks h' d = blocks h d" if "j \<in> size_bits" "d \<in> set (cs j)" "j \<noteq> k" for j d
  proof (cases "cs k = []")
    case True
    then show ?thesis using heads(2) out [OF that(1,2)] by blast
  next
    case False
    then have "d \<noteq> List.last (cs k)"
      using block_in_one_chain [OF rep that(1) k that(2)] that(3) by fastforce
    then show ?thesis using B(1) out [OF that(1,2)] by blast
  qed
  have keeps: "block_ok k (blocks h' d) \<and> (\<forall>i. slot_taken (blocks h' d) i = slot_taken (blocks h d) i)"
    if "d \<in> set (cs k)" for d
  proof (cases "d = List.last (cs k)")
    case True
    have "cs k \<noteq> []" using that by auto
    from last [OF this] heap_repD(5) [OF rep k that] True show ?thesis
      by (simp add: block_ok_def slot_taken_def)
  next
    case False
    then show ?thesis using B(1) [OF out [OF k that] False] heap_repD(5) [OF rep k that] by simp
  qed
  have head_k: "chain (blocks h') (allocationData h' k) (cs k @ [p])"
  proof (cases "cs k = []")
    case True
    then show ?thesis using heads(2) p(2) B(2) b(2) by simp
  next
    case False
    have "chain (blocks h') (allocationData h k) (cs k @ [p])"
    proof (rule chain_snoc [OF heap_repD(1) [OF rep k] False])
      show "distinct (cs k @ [p])" using heap_repD(2) [OF rep k] out [OF k] by auto
      show "nextBlock (blocks h' d) = nextBlock (blocks h d)" if "d \<in> set (cs k)" "d \<noteq> List.last (cs k)" for d
        using B(1) [OF out [OF k that(1)] that(2)] by simp
    qed (use p(2) last [OF False] B(2) b(2) in simp_all)
    then show ?thesis using heads(1) [OF False] by simp
  qed
  show rep': "heap_rep (insert (unat (PAGE_ID p)) U) h' (cs(k := cs k @ [p]))"
    unfolding heap_rep_def
  proof (intro ballI)
    fix j assume j: "j \<in> size_bits"
    show "chain (blocks h') (allocationData h' j) ((cs(k := cs k @ [p])) j) \<and>
      distinct ((cs(k := cs k @ [p])) j) \<and>
      (\<forall>d \<in> set ((cs(k := cs k @ [p])) j). PAGE_OFFSET d = 0 \<and>
        unat (PAGE_ID d) \<in> insert (unat (PAGE_ID p)) U \<and> block_ok j (blocks h' d))"
    proof (cases "j = k")
      case True
      then show ?thesis
        using head_k heap_repD(2-4) [OF rep k] keeps out [OF k, of p] p b(1) B(2) by auto
    next
      case False
      have "chain (blocks h') (allocationData h j) (cs j) = chain (blocks h) (allocationData h j) (cs j)"
        by (rule chain_cong) (simp add: same [OF j _ False])
      moreover have "allocationData h' j = allocationData h j"
        using heads False by (cases "cs k = []") auto
      ultimately show ?thesis
        using heap_repD [OF rep j] same [OF j _ False] False by auto
    qed
  qed
  show "live h' = live h"
  proof (rule set_eqI)
    fix s :: slot
    obtain d j i where s: "s = (d, j, i)" by (cases s)
    show "s \<in> live h' \<longleftrightarrow> s \<in> live h"
      unfolding live_rep [OF rep] live_rep [OF rep'] s
      using keeps same [of j d] B(2) b(3) out [of j d] by (cases "j = k") auto
  qed
qed

section \<open>What an allocation does\<close>

fun slotBytes :: "'m Heap \<Rightarrow> slot \<Rightarrow> u8 list" where
  "slotBytes h (b, k, i) = map (blockData (blocks h b)) [2 ^ k * i..<2 ^ k * (i + 1)]"

definition fresh_slot :: "'m Heap \<Rightarrow> 'm Heap \<Rightarrow> slot \<Rightarrow> bool" where
  "fresh_slot h h' s \<longleftrightarrow> s \<notin> live h \<and> live h' = insert s (live h) \<and> fst s \<noteq> 0 \<and> PAGE_OFFSET (fst s) = 0 \<and>
     2 ^ fst (snd s) * (snd (snd s) + 1) \<le> DATA_SIZE \<and>
     slotBytes h' s = replicate (2 ^ fst (snd s)) 0 \<and> (\<forall>t \<in> live h. slotBytes h' t = slotBytes h t)"

lemma slots_apart:
  assumes "j \<noteq> i" and "n * j \<le> x" and "x < n * (j + 1)"
  shows "\<not> (n * i \<le> x \<and> x < n * i + (n::nat))"
proof
  assume "n * i \<le> x \<and> x < n * i + n"
  then have "n * j < n * (i + 1)" "n * i < n * (j + 1)" using assms(2,3) by simp_all
  then have "j < i + 1" "i < j + 1" by (simp_all only: mult_less_cancel1)
  with assms(1) show False by simp
qed

lemma take_step:
  assumes rep: "heap_rep U h cs" and k: "k \<in> size_bits" and a: "a \<in> set (cs k)"
    and slot: "findSlot (blocks h a) [0..<32] = Some (c, f)"
  shows "\<exists>h'. reserveBlock h a c f = Some (slotAddress (a, k, 32 * c + f), h') \<and> heap_rep U h' cs \<and>
    fresh_slot h h' (a, k, 32 * c + f) \<and> pages h' = pages h"
proof -
  let ?i = "32 * c + f"
  let ?b = "takeSlot (blocks h a) c f"
  have ok: "block_ok k (blocks h a)" and k10: "k \<le> 10" using heap_repD(5) [OF rep k a] k by simp_all
  note sl = findSlot_free [OF ok k10 slot]
  define b where "b = ?b\<lparr>blockData := (\<lambda>i. if 2 ^ k * ?i \<le> i \<and> i < 2 ^ k * ?i + 2 ^ k then 0
        else blockData (blocks h a) i)\<rparr>"
  have run: "reserveBlock h a c f = Some (slotAddress (a, k, ?i), setBlock h a b)"
    using reserveBlock_spec [OF ok k10 sl(1,2,4)] by (simp add: b_def)
  have taken: "slot_taken b i \<longleftrightarrow> slot_taken (blocks h a) i \<or> i = ?i" if "i < 1024" for i
    using slot_taken_takeSlot [OF sl(1,2) that, of "blocks h a"] by (simp add: b_def slot_taken_def)
  have b_ok: "block_ok k b"
    using block_ok_takeSlot [OF ok sl(1,2,4)] by (simp add: b_def block_ok_def slot_taken_def)
  have link: "nextBlock b = nextBlock (blocks h a)" by (simp add: b_def takeSlot_def Let_def)
  note up = heap_rep_update [OF rep k a b_ok link]
  have i: "?i < 1024" using sl(1,2) by simp
  note mine = live_of_block [OF rep k a]
  have "live (setBlock h a b) = insert (a, k, ?i) (live h)"
    unfolding up(2) using taken mine i by (auto simp: split_paired_all)
  moreover have "(a, k, ?i) \<notin> live h" using mine sl(3) by simp
  moreover have "slotBytes (setBlock h a b) (a, k, ?i) = replicate (2 ^ k) 0"
    by (rule nth_equalityI) (simp_all add: setBlock_def b_def)
  moreover have "slotBytes (setBlock h a b) t = slotBytes h t" if "t \<in> live h" for t
  proof -
    obtain d j n where t: "t = (d, j, n)" by (cases t)
    show ?thesis
    proof (cases "d = a")
      case True
      then have "j = k" "n \<noteq> ?i" using that mine sl(3) t by auto
      then show ?thesis
        using slots_apart [of n ?i "2 ^ k"] by (auto simp: t True setBlock_def b_def)
    qed (simp add: t setBlock_def)
  qed
  moreover have "a \<noteq> 0" "PAGE_OFFSET a = 0"
    using chain_nonzero [OF heap_repD(1) [OF rep k] a] heap_repD(3) [OF rep k a] by simp_all
  ultimately show ?thesis
    using run up(1) sl(4) by (auto simp: fresh_slot_def setBlock_def)
qed

definition freshBlock :: "nat \<Rightarrow> u32 \<Rightarrow> AllocationBlock" where
  "freshBlock k previous = zeroBlock\<lparr>blockSize := onebit k, previousBlock := previous, magic := ALLOCATION_MAGIC\<rparr>"

lemma freshBlock_ok: "block_ok k (freshBlock k q)" "nextBlock (freshBlock k q) = 0" "\<not> slot_taken (freshBlock k q) i"
  "allocatedCoarse (freshBlock k q) = 0"
  by (simp_all add: freshBlock_def zeroBlock_def block_ok_def slot_taken_def)

lemma freshBlock_slot: "k \<le> 10 \<Longrightarrow> findSlot (freshBlock k q) [0..<32] = Some (0, 0)"
proof -
  assume k: "k \<le> 10"
  have "(2::nat) ^ k \<le> 2 ^ 10" using k by (intro power_increasing) simp_all
  then have "\<not> onebit k > 3948" using k by (simp add: word_less_nat_alt unat_onebit)
  moreover have "[0..<32] = (0::nat) # [1..<32]" by (simp add: upt_conv_Cons)
  ultimately show ?thesis by (simp add: freshBlock_def zeroBlock_def)
qed

lemma newBlock_step:
  assumes rep: "heap_rep U h cs" and k: "k \<in> size_bits" and page: "pageSource (pages h) = Some (p, m)"
    and fresh: "unat (PAGE_ID p) \<notin> U" and p: "PAGE_OFFSET p = 0" "p \<noteq> 0"
  shows "\<exists>h'. newBlock pageSource h k (if cs k = [] then 0 else List.last (cs k)) = Some (p, h') \<and>
    heap_rep (insert (unat (PAGE_ID p)) U) h' (cs(k := cs k @ [p])) \<and> live h' = live h \<and> pages h' = m \<and>
    (\<exists>q. blocks h' p = freshBlock k q) \<and> (\<forall>t \<in> live h. slotBytes h' t = slotBytes h t)"
proof -
  let ?l = "List.last (cs k)"
  define h' where "h' = (if cs k = []
     then setBlock (h\<lparr>pages := m, allocationData := (allocationData h)(k := p)\<rparr>) p (freshBlock k 0)
     else setBlock (setBlock (h\<lparr>pages := m\<rparr>) ?l ((blocks h ?l)\<lparr>nextBlock := p\<rparr>)) p (freshBlock k ?l))"
  have out: "d \<noteq> p" if "j \<in> size_bits" "d \<in> set (cs j)" for j d
    using heap_repD(4) [OF rep that] fresh by blast
  have l: "?l \<noteq> 0 \<and> ?l \<noteq> p" if "cs k \<noteq> []"
    using chain_nonzero [OF heap_repD(1) [OF rep k]] out [OF k] that by simp
  have run: "newBlock pageSource h k (if cs k = [] then 0 else ?l) = Some (p, h')"
    using page k l
    by (auto simp: newBlock_def h'_def setBlock_def freshBlock_def zeroBlock_def Let_def fun_upd_twist)
  have B: "blocks h' d = blocks h d" if "d \<noteq> p" "d \<noteq> ?l \<or> cs k = []" for d
    using that by (auto simp: h'_def setBlock_def)
  have fb: "\<exists>q. blocks h' p = freshBlock k q" by (auto simp: h'_def setBlock_def)
  have last_block: "cs k \<noteq> [] \<Longrightarrow> blocks h' ?l = (blocks h ?l)\<lparr>nextBlock := p\<rparr>"
    using l by (simp add: h'_def setBlock_def)
  from fb obtain q where q: "blocks h' p = freshBlock k q" ..
  have app: "heap_rep (insert (unat (PAGE_ID p)) U) h' (cs(k := cs k @ [p]))" "live h' = live h"
    using heap_rep_append [OF rep k fresh p freshBlock_ok(1-3) [of k q], of h'] B q last_block
    by (auto simp: h'_def setBlock_def)
  have "slotBytes h' t = slotBytes h t" if "t \<in> live h" for t
  proof -
    obtain d j n where t: "t = (d, j, n)" by (cases t)
    then have d: "d \<noteq> p" using that out unfolding live_rep [OF rep] by auto
    show ?thesis
    proof (cases "d = ?l \<and> cs k \<noteq> []")
      case True
      then show ?thesis using last_block by (simp add: t)
    next
      case False
      then show ?thesis using B [OF d] by (simp add: t)
    qed
  qed
  moreover have "pages h' = m" by (simp add: h'_def setBlock_def)
  ultimately show ?thesis using run app fb by blast
qed

definition heap_inv :: "('m \<Rightarrow> bool) \<Rightarrow> ('m \<Rightarrow> nat set) \<Rightarrow> 'm Heap \<Rightarrow> bool" where
  "heap_inv pages_ok used h \<longleftrightarrow> pages_ok (pages h) \<and> (\<exists>cs. heap_rep (used (pages h)) h cs)"

section \<open>The contract with the page allocator\<close>

text \<open>\<open>at_most_one src m m'\<close>: at most one page was taken from the source between \<open>m\<close> and \<open>m'\<close>.\<close>

definition at_most_one :: "('m \<Rightarrow> (u32 \<times> 'm) option) \<Rightarrow> 'm \<Rightarrow> 'm \<Rightarrow> bool" where
  "at_most_one src m m' \<longleftrightarrow> m' = m \<or> (\<exists>p. src m = Some (p, m'))"

locale page_provider =
  fixes pageSource :: "'m \<Rightarrow> (u32 \<times> 'm) option" and pages_ok :: "'m \<Rightarrow> bool" and used :: "'m \<Rightarrow> nat set"
  assumes page_law: "pages_ok m \<Longrightarrow> pageSource m = Some (p, m') \<Longrightarrow>
      pages_ok m' \<and> PAGE_OFFSET p = 0 \<and> p \<noteq> 0 \<and> unat (PAGE_ID p) \<notin> used m \<and>
      used m' = insert (unat (PAGE_ID p)) (used m)"
begin

lemma mallocLoop_spec:
  assumes rep: "heap_rep (used (pages h)) h cs" and m: "pages_ok (pages h)" and k: "k \<in> size_bits"
    and split: "cs k = ps @ rs"
  shows "case mallocLoop pageSource h k (case rs of [] \<Rightarrow> 0 | r # _ \<Rightarrow> r)
        (if ps = [] then 0 else List.last ps) of
      None \<Rightarrow> pageSource (pages h) = None
    | Some (a, h') \<Rightarrow> heap_inv pages_ok used h' \<and> at_most_one pageSource (pages h) (pages h') \<and>
        (\<exists>b i. a = slotAddress (b, k, i) \<and> fresh_slot h h' (b, k, i))"
  using split
proof (induction rs arbitrary: ps)
  case Nil
  let ?last = "if ps = [] then 0 else List.last ps"
  have ps: "cs k = ps" using Nil by simp
  show ?case
  proof (cases "pageSource (pages h)")
    case None
    then have "newBlock pageSource h k ?last = None" by (simp add: newBlock_def)
    then have "mallocLoop pageSource h k 0 ?last = None" by (simp add: mallocLoop.simps)
    with None show ?thesis by simp
  next
    case (Some pm)
    obtain p m' where page: "pageSource (pages h) = Some (p, m')" using Some by (cases pm) simp
    note law = page_law [OF m page]
    then obtain h1 q where n: "newBlock pageSource h k ?last = Some (p, h1)"
      and r1: "heap_rep (used m') h1 (cs(k := cs k @ [p]))" and lv: "live h1 = live h" and m1: "pages h1 = m'"
      and q: "blocks h1 p = freshBlock k q" and keep: "\<forall>t \<in> live h. slotBytes h1 t = slotBytes h t"
      using newBlock_step [where pageSource = pageSource, OF rep k page] ps by auto
    have slot: "findSlot (blocks h1 p) [0..<32] = Some (0, 0)"
      using freshBlock_slot [of k q] k q by simp
    then obtain h2 where h2: "reserveBlock h1 p 0 0 = Some (slotAddress (p, k, 0), h2)"
      "heap_rep (used m') h2 (cs(k := cs k @ [p]))" "fresh_slot h1 h2 (p, k, 0)" "pages h2 = m'"
      using take_step [OF r1 k _ slot] m1 by auto
    have "mallocLoop pageSource h k 0 ?last = Some (slotAddress (p, k, 0), h2)"
      using n slot h2(1) q freshBlock_ok(4) [of k q] by (simp add: mallocLoop.simps)
    moreover have "heap_inv pages_ok used h2" using h2(2,4) law unfolding heap_inv_def by blast
    moreover have "fresh_slot h h2 (p, k, 0)" using h2(3) lv keep by (auto simp: fresh_slot_def)
    moreover have "at_most_one pageSource (pages h) (pages h2)" using page h2(4) by (auto simp: at_most_one_def)
    ultimately show ?thesis by (auto simp del: slotAddress.simps)
  qed
next
  case (Cons r rs)
  let ?last = "if ps = [] then 0 else List.last ps"
  have r: "r \<in> set (cs k)" using Cons.prems by simp
  have nz: "r \<noteq> 0" by (rule chain_nonzero [OF heap_repD(1) [OF rep k] r])
  show ?case
  proof (cases "if allocatedCoarse (blocks h r) = - 1 then None else findSlot (blocks h r) [0..<32]")
    case None
    have "chain (blocks h) (allocationData h k) (ps @ r # rs)"
      using heap_repD(1) [OF rep k] Cons.prems by simp
    then have "nextBlock (blocks h r) = (case rs of [] \<Rightarrow> 0 | r # _ \<Rightarrow> r)"
      by (rule chain_next)
    then have "mallocLoop pageSource h k r ?last =
        mallocLoop pageSource h k (case rs of [] \<Rightarrow> 0 | r # _ \<Rightarrow> r) r"
      using nz None by (subst mallocLoop.simps) simp
    then show ?thesis using Cons.IH [of "ps @ [r]"] Cons.prems by simp
  next
    case (Some cf)
    obtain c f where slot: "findSlot (blocks h r) [0..<32] = Some (c, f)" and "allocatedCoarse (blocks h r) \<noteq> - 1"
      using Some by (cases cf) (auto split: if_splits)
    then have "mallocLoop pageSource h k r ?last = reserveBlock h r c f"
      using nz by (subst mallocLoop.simps) simp
    moreover obtain h2 where "reserveBlock h r c f = Some (slotAddress (r, k, 32 * c + f), h2)"
      "heap_rep (used (pages h)) h2 cs" "fresh_slot h h2 (r, k, 32 * c + f)" "pages h2 = pages h"
      using take_step [OF rep k r slot] by auto
    ultimately show ?thesis
      using m by (auto simp: heap_inv_def at_most_one_def simp del: slotAddress.simps)
  qed
qed

end

section \<open>Page arithmetic of slot addresses\<close>

lemma page_base_minus: "a AND NOT 0xFFF = a - PAGE_OFFSET a"
proof -
  have "NOT a AND (a AND 0xFFF) = 0" by (auto simp: bit_eq_iff bit_simps)
  from disjunctive_diff_eq_and_not [OF this] have "a - (a AND 0xFFF) = a AND NOT (a AND 0xFFF)" .
  moreover have "a AND NOT (a AND 0xFFF) = a AND NOT 0xFFF" by (auto simp: bit_eq_iff bit_simps)
  ultimately show ?thesis by (simp add: PAGE_OFFSET_def)
qed

lemma slot_page:
  assumes "PAGE_OFFSET b = 0" and "off < 4096"
  shows "PAGE_OFFSET (b + of_nat off) = of_nat off" and "(b + of_nat off) AND NOT 0xFFF = b"
proof -
  have low: "\<not> bit b n" if "n < 12" for n
    using assms(1) that by (auto simp: PAGE_OFFSET_take_bit bit_eq_iff bit_simps)
  have high: "\<not> bit (of_nat off :: u32) n" if "12 \<le> n" for n
    using assms(2) that bit_above_unat [of "of_nat off" 12 n] by simp
  have "b AND of_nat off = 0"
    using low high by (auto simp: bit_eq_iff bit_simps) (meson not_le)
  then have "b + of_nat off = b OR of_nat off" by (rule disjunctive_add_eq_or)
  then show o: "PAGE_OFFSET (b + of_nat off) = of_nat off"
    using low high by (auto simp: PAGE_OFFSET_take_bit bit_eq_iff bit_simps) (meson not_le)
  show "(b + of_nat off) AND NOT 0xFFF = b" unfolding page_base_minus o by simp
qed

lemma unat_through_u16: "unat (x :: u32) < 65536 \<Longrightarrow> unat (ucast (ucast x :: u16) :: u32) = unat x"
  by (simp add: unsigned_ucast_eq unsigned_take_bit_eq take_bit_nat_eq_self)

lemma free_slot:
  assumes rep: "heap_rep U h cs" and s: "(b, k, i) \<in> live h"
  shows "\<exists>h'. free pageSink h (slotAddress (b, k, i)) = Some h' \<and> heap_rep U h' cs \<and> pages h' = pages h \<and>
    live h' = live h - {(b, k, i)} \<and> (\<forall>t. slotBytes h' t = slotBytes h t)"
proof -
  let ?b = "blocks h b"
  let ?off = "2 ^ k * i"
  have k: "k \<in> size_bits" and b: "b \<in> set (cs k)" and i: "i < 1024" and taken: "slot_taken ?b i"
    using s unfolding live_rep [OF rep] by auto
  have ok: "block_ok k ?b" and al: "PAGE_OFFSET b = 0" and nz: "b \<noteq> 0"
    using heap_repD(3,5) [OF rep k b] chain_nonzero [OF heap_repD(1) [OF rep k] b] by simp_all
  have off: "?off < 4096" using ok i taken by (auto simp: block_ok_def)
  note pg = slot_page [OF al off]
  have bs: "blockSize ?b = onebit k" and mg: "magic ?b = ALLOCATION_MAGIC" using ok by (simp_all add: block_ok_def)
  have uk: "unat (onebit k) = 2 ^ k" using k by (simp add: unat_onebit)
  have "unat (of_nat ?off :: u32) = ?off" using off by (intro unat_of_nat32) simp
  then have idx: "unat (ucast (ucast (of_nat ?off :: u32) :: u16) div onebit k) = i"
    using off unat_through_u16 [of "of_nat ?off"] by (simp add: unat_div uk del: of_nat_mult)
  define ix where "ix = (ucast (ucast (ucast (of_nat ?off :: u32) :: u16) div onebit k) :: u16)"
  have ix: "unat ix = i" using idx i by (simp add: ix_def unsigned_ucast_eq take_bit_nat_eq_self)
  have c: "unat (ucast (ix div 32) :: u8) = i div 32" and f: "unat (ucast (ix mod 32) :: u8) = i mod 32"
    using ix i by (simp_all add: unsigned_ucast_eq unat_div unat_mod take_bit_nat_eq_self)
  define b' where "b' = ?b\<lparr>allocatedFine := (allocatedFine ?b)(i div 32 := allocatedFine ?b (i div 32) AND NOT (onebit (i mod 32))),
    allocatedCoarse := allocatedCoarse ?b AND NOT (onebit (i div 32))\<rparr>"
  have "slotAddress (b, k, i) \<noteq> 0"
    using pg(2) nz by (metis and_zero_eq bit.conj_zero_left slotAddress.simps)
  moreover have "onebit k \<noteq> 0" using uk by (metis power_not_zero unat_0 zero_neq_numeral)
  ultimately have run: "free pageSink h (slotAddress (b, k, i)) = Some (setBlock h b b')"
    using pg i mg bs uk
    by (simp add: free_def Let_def PAGE_OFFSET_def ix_def [symmetric] c f b'_def del: of_nat_mult)
  have c32: "i div 32 < 32" using i by simp
  have t': "slot_taken b' n \<longleftrightarrow> slot_taken ?b n \<and> n \<noteq> i" if "n < 1024" for n
    by (auto simp: b'_def slot_taken_def bit_and_not_onebit) (metis div_mult_mod_eq)
  have ok': "block_ok k b'"
    unfolding block_ok_def
  proof (intro conjI allI impI)
    fix d assume d: "d < (32::nat)"
    have "allocatedFine b' (i div 32) \<noteq> - 1"
      by (auto simp: b'_def word_neq_minus1_bit bit_and_not_onebit intro!: exI [of _ "i mod 32"])
    then show "bit (allocatedCoarse b') d \<longleftrightarrow> allocatedFine b' d = - 1"
      using ok d by (auto simp: block_ok_def b'_def bit_and_not_onebit split: if_splits)
  next
    fix n assume "n < 1024" "slot_taken b' n"
    then show "2 ^ k * (n + 1) \<le> DATA_SIZE" using ok t' by (simp add: block_ok_def)
  qed (use ok in \<open>simp_all add: block_ok_def b'_def\<close>)
  have "nextBlock b' = nextBlock ?b" by (simp add: b'_def)
  note up = heap_rep_update [OF rep k b ok' this]
  have "live (setBlock h b b') = live h - {(b, k, i)}"
    unfolding up(2) using t' live_of_block [OF rep k b] by (auto simp: split_paired_all)
  moreover have "slotBytes (setBlock h b b') t = slotBytes h t" for t
    by (cases t) (simp add: setBlock_def b'_def)
  moreover have "pages (setBlock h b b') = pages h" by (simp add: setBlock_def)
  ultimately show ?thesis using run up(1) by blast
qed

context page_provider
begin

lemma malloc_small:
  assumes "heap_inv pages_ok used h" and "0 < unat n" and "unat n < 1024"
  shows "case malloc pageSource pagesSource h n of
      None \<Rightarrow> pageSource (pages h) = None
    | Some (a, h') \<Rightarrow> heap_inv pages_ok used h' \<and> at_most_one pageSource (pages h) (pages h') \<and> (\<exists>b k i. k \<in> size_bits \<and> unat n < 2 ^ k \<and> 2 ^ k \<le> 2 * unat n \<and>
        a = slotAddress (b, k, i) \<and> fresh_slot h h' (b, k, i))"
proof -
  obtain cs where rep: "heap_rep (used (pages h)) h cs" and m: "pages_ok (pages h)"
    using assms(1) by (auto simp: heap_inv_def)
  let ?k = "floorLog (unat n) + 1"
  have "n \<noteq> 0" using assms(2) by auto
  then have log: "LOG2 n = Some (floorLog (unat n))" by (simp add: LOG2_def)
  have fits: "unat n < 2 ^ ?k" "2 ^ ?k \<le> 2 * unat n" using floorLog_bounds [OF assms(2)] by simp_all
  have k: "?k \<in> size_bits" using floorLog_le [OF assms(2), of 10] assms(3) by simp
  have head: "allocationData h ?k = (case cs ?k of [] \<Rightarrow> 0 | r # _ \<Rightarrow> r)"
    using heap_repD(1) [OF rep k] by (cases "cs ?k") simp_all
  define r where "r = malloc pageSource pagesSource h n"
  have "mallocLoop pageSource h ?k (allocationData h ?k) 0 = r"
    using k by (simp add: malloc_def log r_def)
  then have spec: "case r of None \<Rightarrow> pageSource (pages h) = None
    | Some (a, h') \<Rightarrow> heap_inv pages_ok used h' \<and> at_most_one pageSource (pages h) (pages h') \<and> (\<exists>b i. a = slotAddress (b, ?k, i) \<and> fresh_slot h h' (b, ?k, i))"
    using mallocLoop_spec [OF rep m k, of "[]" "cs ?k", folded head] by simp
  have "case r of None \<Rightarrow> pageSource (pages h) = None
    | Some (a, h') \<Rightarrow> heap_inv pages_ok used h' \<and> at_most_one pageSource (pages h) (pages h') \<and> (\<exists>b k i. k \<in> size_bits \<and> unat n < 2 ^ k \<and> 2 ^ k \<le> 2 * unat n \<and>
        a = slotAddress (b, k, i) \<and> fresh_slot h h' (b, k, i))"
  proof (cases r)
    case None
    with spec show ?thesis by simp
  next
    case (Some ah)
    obtain a h' where r: "r = Some (a, h')" using Some by (cases ah) simp
    with spec have "heap_inv pages_ok used h'" "at_most_one pageSource (pages h) (pages h')" "\<exists>b i. a = slotAddress (b, ?k, i) \<and> fresh_slot h h' (b, ?k, i)"
      by (simp_all only: option.case prod.case)
    with k fits show ?thesis unfolding r option.case prod.case by blast
  qed
  then show ?thesis unfolding r_def .
qed

lemma free_live:
  assumes "heap_inv pages_ok used h" and "s \<in> live h"
  shows "\<exists>h'. free pageSink h (slotAddress s) = Some h' \<and> heap_inv pages_ok used h' \<and> live h' = live h - {s} \<and>
    (\<forall>t. slotBytes h' t = slotBytes h t)"
proof -
  obtain cs where rep: "heap_rep (used (pages h)) h cs" and m: "pages_ok (pages h)"
    using assms(1) by (auto simp: heap_inv_def)
  obtain b k i where s: "s = (b, k, i)" by (cases s)
  show ?thesis
    using free_slot [OF rep, of b k i pageSink] assms(2) m unfolding s heap_inv_def by metis
qed

end

text \<open>The part of the contract for runs of pages.\<close>

locale page_run_provider = page_provider +
  fixes pagesSource :: "'a \<Rightarrow> u32 \<Rightarrow> (u32 \<times> 'a) option"
  assumes run_law: "pages_ok m \<Longrightarrow> 0 < unat n \<Longrightarrow> pagesSource m n = Some (a, m') \<Longrightarrow>
      pages_ok m' \<and> PAGE_OFFSET a = 0 \<and> a \<noteq> 0 \<and>
      {unat (PAGE_ID a)..<unat (PAGE_ID a) + unat n} \<inter> used m = {} \<and>
      used m' = used m \<union> {unat (PAGE_ID a)..<unat (PAGE_ID a) + unat n}"
begin

lemma heap_rep_mono: "heap_rep U h cs \<Longrightarrow> U \<subseteq> V \<Longrightarrow> heap_rep V (h\<lparr>pages := m\<rparr>) cs"
  by (fastforce simp: heap_rep_def)

lemma malloc_large:
  assumes inv: "heap_inv pages_ok used h" and n: "1024 \<le> unat n" and run: "malloc pageSource pagesSource h n = Some (a, h')"
  shows "heap_inv pages_ok used h' \<and> live h' = live h \<and> (\<forall>t. slotBytes h' t = slotBytes h t) \<and> a \<noteq> 0 \<and> PAGE_OFFSET a = 0 \<and>
    (\<exists>c. unat n \<le> 4096 * c \<and> 4096 * c < unat n + 4096 \<and>
       {unat (PAGE_ID a)..<unat (PAGE_ID a) + c} \<inter> used (pages h) = {} \<and>
       used (pages h') = used (pages h) \<union> {unat (PAGE_ID a)..<unat (PAGE_ID a) + c})"
proof -
  let ?c = "drop_bit 12 (n - 1) + 1"
  have nz: "n \<noteq> 0" "0 < unat n" using n by auto
  have n1: "unat (n - 1) = unat n - 1" using nz by (simp add: unat_minus_one)
  have "unat (drop_bit 12 (n - 1)) = (unat n - 1) div 4096" by (simp add: unat_drop_bit n1)
  moreover have "(unat n - 1) div 4096 + 1 < 4294967296"
    using unat_u32_bound [of n] by linarith
  ultimately have c: "unat ?c = (unat n - 1) div 4096 + 1"
    by (simp add: unat_add_small)
  have "\<not> floorLog (unat n) + 1 \<le> 10" using floorLog_le [OF nz(2), of 10] n by simp
  then have "10 < floorLog (unat n) + 1" by simp
  then obtain m where m: "pagesSource (pages h) ?c = Some (a, m)" "h' = h\<lparr>pages := m\<rparr>"
    using run nz(1) by (auto simp: malloc_def LOG2_def split: bind_splits)
  obtain cs where rep: "heap_rep (used (pages h)) h cs" and pm: "pages_ok (pages h)"
    using inv by (auto simp: heap_inv_def)
  have "0 < unat ?c" using c by simp
  note law = run_law [OF pm this m(1)]
  have "heap_rep (used m) h' cs" using heap_rep_mono [OF rep, of "used m" m] law m(2) by auto
  moreover have "live h' = live h" by (simp add: m(2) live_def blocks_of_def)
  moreover have "slotBytes h' t = slotBytes h t" for t by (cases t) (simp add: m(2))
  moreover have "unat n \<le> 4096 * unat ?c \<and> 4096 * unat ?c < unat n + 4096"
    unfolding c using nz(2) by (simp add: algebra_simps) linarith
  ultimately show ?thesis using law m(2) unfolding heap_inv_def by auto
qed

end

section \<open>The kernel's allocator\<close>

definition kernel_pages_ok :: "KernelMemory \<Rightarrow> bool" where
  "kernel_pages_ok m \<longleftrightarrow> kernel_ok m \<and> 0 \<in> used_virtual m"

definition kernel_used :: "KernelMemory \<Rightarrow> nat set" where
  "kernel_used m = used_virtual m"

text \<open>The kernel's \<open>malloc(size)\<close> and \<open>free\<close>, on the paging code of the kernel.\<close>

definition kernelMalloc :: "KernelMemory Heap \<Rightarrow> u32 \<Rightarrow> (u32 \<times> KernelMemory Heap) option" where
  "kernelMalloc h count = malloc getPage getPagesCount h count"

definition kernelFree :: "KernelMemory Heap \<Rightarrow> u32 \<Rightarrow> KernelMemory Heap option" where
  "kernelFree h location = free freePage h location"

abbreviation kernel_heap_ok :: "KernelMemory Heap \<Rightarrow> bool" where
  "kernel_heap_ok h \<equiv> heap_inv kernel_pages_ok kernel_used h"

lemma unat_PAGE_ID_0: "unat (PAGE_ID 0) = 0"
  by (simp add: unat_PAGE_ID)

interpretation kp: page_run_provider getPage kernel_pages_ok kernel_used getPagesCount
proof
  fix m p m' assume "kernel_pages_ok m" "getPage m = Some (p, m')"
  then show "kernel_pages_ok m' \<and> PAGE_OFFSET p = 0 \<and> p \<noteq> 0 \<and> unat (PAGE_ID p) \<notin> kernel_used m \<and>
      kernel_used m' = insert (unat (PAGE_ID p)) (kernel_used m)"
    using getPage_spec [of m p m'] unat_PAGE_ID_0 by (auto simp: kernel_pages_ok_def kernel_used_def)
next
  fix m n a m' assume ok: "kernel_pages_ok m" and n: "0 < unat n" and run: "getPagesCount m n = Some (a, m')"
  then have k: "kernel_ok m" and z: "0 \<in> used_virtual m" by (simp_all add: kernel_pages_ok_def)
  obtain v where v: "a = ADDRESS v" "free_run (kernelVirtualPages m) (unat v) (unat n)" "kernel_ok m'"
    "used_virtual m' = used_virtual m \<union> {unat v..<unat v + unat n}"
    using getPagesCount_spec [OF k n run] by blast
  then have lt: "unat v < PAGES" and all: "\<forall>i < unat n. unat v + i \<notin> used_virtual m"
    using n by (auto simp: free_run_def)
  have free: "{unat v..<unat v + unat n} \<inter> used_virtual m = {}"
  proof -
    have "x \<notin> used_virtual m" if "unat v \<le> x" "x < unat v + unat n" for x
      using all that by (metis le_iff_add nat_add_left_cancel_less)
    then show ?thesis by auto
  qed
  have id: "PAGE_ID a = v" using v(1) lt by simp
  have "unat v \<notin> used_virtual m" using all n by (metis add.right_neutral)
  then have "a \<noteq> 0" using z id unat_PAGE_ID_0 by metis
  then show "kernel_pages_ok m' \<and> PAGE_OFFSET a = 0 \<and> a \<noteq> 0 \<and>
      {unat (PAGE_ID a)..<unat (PAGE_ID a) + unat n} \<inter> kernel_used m = {} \<and>
      kernel_used m' = kernel_used m \<union> {unat (PAGE_ID a)..<unat (PAGE_ID a) + unat n}"
    using v free id z by (auto simp: kernel_pages_ok_def kernel_used_def)
qed

section \<open>The contract with the clients\<close>

text \<open>Addresses of live slots determine the slots, so the clients may speak of addresses only.\<close>

lemma of_nat32_inj: "(of_nat x :: u32) = of_nat y \<Longrightarrow> x < 4294967296 \<Longrightarrow> y < 4294967296 \<Longrightarrow> x = y"
  by (metis unat_of_nat32)

lemma slotAddress_inj:
  assumes rep: "heap_rep U h cs" and s: "s \<in> live h" and t: "t \<in> live h" and eq: "slotAddress s = slotAddress t"
  shows "s = t"
proof -
  obtain b k i where sb: "s = (b, k, i)" by (cases s)
  obtain d j n where td: "t = (d, j, n)" by (cases t)
  have S: "k \<in> size_bits" "b \<in> set (cs k)" "i < 1024" "slot_taken (blocks h b) i"
    and T: "j \<in> size_bits" "d \<in> set (cs j)" "n < 1024" "slot_taken (blocks h d) n"
    using s t sb td unfolding live_rep [OF rep] by auto
  have offs: "2 ^ k * i < 4096" "2 ^ j * n < 4096"
    using heap_repD(5) [OF rep S(1,2)] heap_repD(5) [OF rep T(1,2)] S T by (auto simp: block_ok_def)
  note ps = slot_page [OF heap_repD(3) [OF rep S(1,2)] offs(1)]
  note pt = slot_page [OF heap_repD(3) [OF rep T(1,2)] offs(2)]
  have bd: "b = d" using ps(2) pt(2) eq sb td by simp
  then have kj: "k = j" using block_in_one_chain [OF rep S(1) T(1) S(2)] T(2) by simp
  have "(of_nat (2 ^ k * i) :: u32) = of_nat (2 ^ j * n)"
    using ps(1) pt(1) eq sb td by (simp only: slotAddress.simps)
  then have "2 ^ k * i = 2 ^ j * n"
    using of_nat32_inj [OF _ less_trans [OF offs(1)] less_trans [OF offs(2)]] by simp
  then show ?thesis using kj bd sb td by simp
qed

lemma page_number:
  assumes "b mod 4096 = (0::nat)" and "b \<le> x" and "x < b + 4096"
  shows "b div 4096 = x div 4096"
proof -
  have "b = 4096 * (b div 4096)" using assms(1) by (metis add.right_neutral mult_div_mod_eq)
  then have "x = 4096 * (b div 4096) + (x - b)" "x - b < 4096" using assms(2,3) by linarith+
  then show ?thesis by (metis Euclidean_Rings.div_mult_self4 div_less div_mult_self4 add.commute add_0 zero_neq_numeral)
qed

definition allocated :: "'m Heap \<Rightarrow> u32 set" where
  "allocated h = slotAddress ` live h"

lemma heap_inv_inj:
  assumes "heap_inv P U h" shows "inj_on slotAddress (live h)"
  using assms slotAddress_inj unfolding heap_inv_def inj_on_def by blast

definition heap_ready :: "KernelMemory Heap \<Rightarrow> bool" where
  "heap_ready h \<longleftrightarrow> getPage (pages h) \<noteq> None"

interpretation ka: allocator "\<lambda>h. kernel_heap_ok h" allocated heap_ready kernelMalloc kernelFree
proof
  fix h n a h' assume h: "kernel_heap_ok h" and n: "0 < unat n" "unat n < 1024"
    and run: "kernelMalloc h n = Some (a, h')"
  obtain b k i where inv: "kernel_heap_ok h'" and a: "a = slotAddress (b, k, i)"
    and fresh: "fresh_slot h h' (b, k, i)"
    using kp.malloc_small [OF h n, of getPagesCount] run by (auto simp: kernelMalloc_def simp del: slotAddress.simps)
  have l: "live h' = insert (b, k, i) (live h)" "(b, k, i) \<notin> live h" using fresh by (simp_all add: fresh_slot_def)
  have "a \<notin> allocated h"
    using inj_onD [OF heap_inv_inj [OF inv]] l unfolding allocated_def a by blast
  moreover have "a \<noteq> 0"
  proof
    assume "a = 0"
    moreover have "PAGE_OFFSET b = 0" "2 ^ k * i < 4096" "b \<noteq> 0" using fresh by (simp_all add: fresh_slot_def)
    from slot_page(2) [OF this(1,2)] this(3) have "slotAddress (b, k, i) AND NOT 0xFFF \<noteq> 0"
      unfolding slotAddress.simps by metis
    ultimately show False using a by simp
  qed
  ultimately show "kernel_heap_ok h' \<and> a \<noteq> 0 \<and> a \<notin> allocated h \<and> allocated h' = insert a (allocated h)"
    using inv l(1) a by (simp add: allocated_def)
next
  fix h and n :: u32 assume h: "kernel_heap_ok h" and n: "0 < unat n" "unat n < 1024" and "heap_ready h"
  then show "\<exists>a s'. kernelMalloc h n = Some (a, s')"
    using kp.malloc_small [OF h n, of getPagesCount]
    by (cases "malloc getPage getPagesCount h n") (auto simp: kernelMalloc_def heap_ready_def)
next
  fix h a assume h: "kernel_heap_ok h" and "a \<in> allocated h"
  then obtain s where s: "s \<in> live h" "a = slotAddress s" by (auto simp: allocated_def)
  obtain h' where "free freePage h (slotAddress s) = Some h'" "kernel_heap_ok h'" "live h' = live h - {s}"
    using kp.free_live [OF h s(1), of freePage] by blast
  moreover have "slotAddress ` (live h - {s}) = slotAddress ` live h - {slotAddress s}"
    using inj_on_image_set_diff [OF heap_inv_inj [OF h], of "live h" "{s}"] s(1) by simp
  ultimately show "\<exists>s'. kernelFree h a = Some s' \<and> kernel_heap_ok s' \<and> allocated s' = allocated h - {a}"
    by (simp add: kernelFree_def allocated_def s(2))
next
  fix h show "kernelFree h 0 = Some h" by (simp add: kernelFree_def free_def)
qed

section \<open>Properties of the allocator\<close>

definition started_heap :: "KernelMemory Heap" where
  "started_heap = \<lparr>pages = started_memory, allocationData = (\<lambda>_. 0), blocks = (\<lambda>_. zeroBlock)\<rparr>"

lemma started_heap_ok: "kernel_heap_ok started_heap"
proof -
  have "heap_rep (kernel_used (pages started_heap)) started_heap (\<lambda>_. [])"
    by (simp add: heap_rep_def started_heap_def)
  then show ?thesis
    by (auto simp: heap_inv_def kernel_pages_ok_def started_heap_def started_memory_facts)
qed

lemma started_heap_ready: "heap_ready started_heap"
  using started_getPage by (auto simp: heap_ready_def started_heap_def)

lemma started_malloc: "0 < unat n \<Longrightarrow> unat n < 1024 \<Longrightarrow> \<exists>a h'. kernelMalloc started_heap n = Some (a, h')"
  by (rule ka.alloc_returns [OF started_heap_ok _ _ started_heap_ready])

text \<open>
  C3. A request of 1 to 1023 bytes that returns gives the address of a slot that was not handed out,
  at least as large as the request and at most twice as large, inside the data area of its page, full
  of zero bytes. The slots handed out before stay handed out with their contents.
\<close>

theorem malloc_fresh_zeroed:
  assumes "kernel_heap_ok h" and "0 < unat n" and "unat n < 1024" and "kernelMalloc h n = Some (a, h')"
  shows "\<exists>b k i. a = slotAddress (b, k, i) \<and> PAGE_OFFSET b = 0 \<and> unat n \<le> 2 ^ k \<and> 2 ^ k \<le> 2 * unat n \<and>
     2 ^ k * (i + 1) \<le> DATA_SIZE \<and> (b, k, i) \<notin> live h \<and> live h' = insert (b, k, i) (live h) \<and>
     slotBytes h' (b, k, i) = replicate (2 ^ k) 0 \<and> (\<forall>t \<in> live h. slotBytes h' t = slotBytes h t) \<and>
     kernel_heap_ok h'"
proof -
  obtain b k i where "kernel_heap_ok h'" "unat n < 2 ^ k" "2 ^ k \<le> 2 * unat n" "a = slotAddress (b, k, i)"
    "fresh_slot h h' (b, k, i)"
    using kp.malloc_small [OF assms(1-3), of getPagesCount] assms(4)
    by (auto simp: kernelMalloc_def simp del: slotAddress.simps)
  then show ?thesis
    by (intro exI [of _ b] exI [of _ k] exI [of _ i])
      (simp add: fresh_slot_def del: slotAddress.simps slotBytes.simps)
qed

theorem malloc_fresh_zeroed_witness:
  "\<exists>a h' b k i. kernelMalloc started_heap 24 = Some (a, h') \<and> a = slotAddress (b, k, i) \<and> 24 \<le> (2::nat) ^ k \<and>
     slotBytes h' (b, k, i) = replicate (2 ^ k) 0"
proof -
  obtain a h' where run: "kernelMalloc started_heap 24 = Some (a, h')" using started_malloc [of 24] by auto
  from malloc_fresh_zeroed [OF started_heap_ok _ _ run] run show ?thesis
    by (simp del: slotAddress.simps slotBytes.simps) blast
qed

text \<open>
  \<open>malloc\<close> of 1 to 1023 bytes returns whenever the page allocator has a page: the walk over the
  chain of blocks ends, however many full blocks it holds.
\<close>

theorem malloc_returns:
  assumes "kernel_heap_ok h" and "0 < unat n" and "unat n < 1024" and "getPage (pages h) = Some (p, m)"
  shows "\<exists>a h'. kernelMalloc h n = Some (a, h')"
  using ka.alloc_returns [OF assms(1-3)] assms(4) by (simp add: heap_ready_def)

theorem malloc_returns_witness: "\<exists>a h'. kernelMalloc started_heap 1023 = Some (a, h')"
proof -
  obtain p m where "getPage (pages started_heap) = Some (p, m)"
    using started_heap_ready by (auto simp: heap_ready_def)
  from malloc_returns [OF started_heap_ok _ _ this, of 1023] show ?thesis by simp
qed

text \<open>
  The slots handed out never overlap: two different live slots have disjoint byte ranges, and each
  lies inside the 3948 data bytes of its page.
\<close>

theorem live_slots_disjoint:
  assumes "kernel_heap_ok h" and "(b, k, i) \<in> live h" and "(d, j, n) \<in> live h" and "(b, k, i) \<noteq> (d, j, n)"
  shows "{unat b + 2 ^ k * i..<unat b + 2 ^ k * (i + 1)} \<inter> {unat d + 2 ^ j * n..<unat d + 2 ^ j * (n + 1)} = {} \<and>
     unat b mod 4096 = 0 \<and> 2 ^ k * (i + 1) \<le> DATA_SIZE"
proof -
  obtain cs where rep: "heap_rep (kernel_used (pages h)) h cs" using assms(1) by (auto simp: heap_inv_def)
  have S: "k \<in> size_bits" "b \<in> set (cs k)" "i < 1024" "slot_taken (blocks h b) i"
    and T: "j \<in> size_bits" "d \<in> set (cs j)" "n < 1024" "slot_taken (blocks h d) n"
    using assms(2,3) unfolding live_rep [OF rep] by auto
  have room: "2 ^ k * (i + 1) \<le> DATA_SIZE" "2 ^ j * (n + 1) \<le> DATA_SIZE"
    using heap_repD(5) [OF rep S(1,2)] heap_repD(5) [OF rep T(1,2)] S T by (auto simp: block_ok_def)
  have al: "unat b mod 4096 = 0" "unat d mod 4096 = 0"
    using heap_repD(3) [OF rep S(1,2)] heap_repD(3) [OF rep T(1,2)]
    by (auto simp: PAGE_OFFSET_take_bit take_bit_eq_mod unat_mod dest!: arg_cong [of _ _ unat])
  have False if x: "unat b + 2 ^ k * i \<le> x" "x < unat b + 2 ^ k * (i + 1)"
    "unat d + 2 ^ j * n \<le> x" "x < unat d + 2 ^ j * (n + 1)" for x
  proof -
    have "unat b div 4096 = x div 4096" "unat d div 4096 = x div 4096"
      using page_number [OF al(1), of x] page_number [OF al(2), of x] x room by simp_all
    then have bd: "b = d" using al by (metis div_mult_mod_eq word_unat_eq_iff)
    then have kj: "k = j" using block_in_one_chain [OF rep S(1) T(1) S(2)] T(2) by simp
    then have "i \<noteq> n" using assms(4) bd by simp
    have "2 ^ k * i \<le> x - unat b" "x - unat b < 2 ^ k * (i + 1)"
      "2 ^ k * n \<le> x - unat b" "x - unat b < 2 ^ k * n + 2 ^ k"
      using x bd kj by (simp_all add: less_diff_conv2 le_diff_conv2)
    with slots_apart [OF \<open>i \<noteq> n\<close>, of "2 ^ k" "x - unat b"] show False by blast
  qed
  then show ?thesis using al room by fastforce
qed

text \<open>A heap with one block of 32-byte slots, two of them handed out.\<close>

definition two_slot_heap :: "KernelMemory Heap" where
  "two_slot_heap = started_heap\<lparr>allocationData := (\<lambda>_. 0)(5 := 0xFF800000),
     blocks := (\<lambda>_. zeroBlock)(0xFF800000 := takeSlot (takeSlot (freshBlock 5 0) 0 0) 0 1)\<rparr>"

lemma two_slot_heap_rep:
  "heap_rep (kernel_used (pages two_slot_heap)) two_slot_heap ((\<lambda>_. [])(5 := [0xFF800000]))"
proof -
  let ?b = "takeSlot (takeSlot (freshBlock 5 0) 0 0) 0 1"
  have "block_ok 5 ?b" by (intro block_ok_takeSlot freshBlock_ok) simp_all
  moreover have "nextBlock ?b = 0" by (simp add: takeSlot_def Let_def freshBlock_def zeroBlock_def)
  moreover have "PAGE_OFFSET 0xFF800000 = 0" "unat (PAGE_ID 0xFF800000) = 0xFF800"
    by (simp_all add: PAGE_OFFSET_def PAGE_ID_def)
  ultimately show ?thesis
    by (auto simp: heap_rep_def two_slot_heap_def started_heap_def kernel_used_def started_memory_facts)
qed

theorem live_slots_disjoint_witness:
  "(0xFF800000, 5, 0) \<in> live two_slot_heap \<and> (0xFF800000, 5, 1) \<in> live two_slot_heap \<and>
   {unat (0xFF800000 :: u32) + 2 ^ 5 * 0..<unat (0xFF800000 :: u32) + 2 ^ 5 * (0 + 1)} \<inter>
   {unat (0xFF800000 :: u32) + 2 ^ 5 * 1..<unat (0xFF800000 :: u32) + 2 ^ 5 * (1 + 1)} = {}"
proof -
  have ok: "kernel_heap_ok two_slot_heap"
    using two_slot_heap_rep started_heap_ok by (auto simp: heap_inv_def two_slot_heap_def)
  have "(0xFF800000, 5, i) \<in> live two_slot_heap" if "i = 0 \<or> i = 1" for i
    using that unfolding live_rep [OF two_slot_heap_rep]
    by (auto simp: two_slot_heap_def slot_taken_takeSlot)
  then have mem: "(0xFF800000, 5, 0) \<in> live two_slot_heap" "(0xFF800000, 5, 1) \<in> live two_slot_heap"
    by blast+
  from live_slots_disjoint [OF ok this] mem show ?thesis by auto
qed

text \<open>
  \<open>free\<close> of the address of a live slot returns, gives back exactly that slot and leaves the contents
  of all slots alone; freeing the null pointer does nothing.
\<close>

theorem free_gives_back_one_slot:
  assumes "kernel_heap_ok h" and "s \<in> live h"
  shows "(\<exists>h'. kernelFree h (slotAddress s) = Some h' \<and> kernel_heap_ok h' \<and> live h' = live h - {s} \<and>
      (\<forall>t. slotBytes h' t = slotBytes h t)) \<and> kernelFree h 0 = Some h"
  using kp.free_live [OF assms, of freePage] ka.release_null by (simp add: kernelFree_def)

theorem free_gives_back_one_slot_witness:
  "\<exists>a h h' s. kernelMalloc started_heap 100 = Some (a, h) \<and> s \<in> live h \<and> kernelFree h (slotAddress s) = Some h' \<and>
     live h' = live started_heap"
proof -
  obtain a h where run: "kernelMalloc started_heap 100 = Some (a, h)" using started_malloc [of 100] by auto
  have h: "kernel_heap_ok h" using ka.alloc_law [OF started_heap_ok _ _ run] by simp
  obtain b k i where "fresh_slot started_heap h (b, k, i)"
    using kp.malloc_small [OF started_heap_ok, of 100 getPagesCount] run
    by (auto simp: kernelMalloc_def simp del: slotAddress.simps)
  then have l: "live h = insert (b, k, i) (live started_heap)" "(b, k, i) \<notin> live started_heap"
    by (simp_all add: fresh_slot_def)
  then have "(b, k, i) \<in> live h" by simp
  from free_gives_back_one_slot [OF h this] l run this show ?thesis
    by (metis Diff_insert_absorb)
qed

text \<open>
  A request of 1024 bytes or more is rounded up to whole pages: the result is page aligned, its pages
  were all unused, exactly these pages become used, and no slot changes.
\<close>

theorem malloc_large_page_run:
  assumes "kernel_heap_ok h" and "1024 \<le> unat n" and "kernelMalloc h n = Some (a, h')"
  shows "\<exists>c. PAGE_OFFSET a = 0 \<and> a \<noteq> 0 \<and> unat n \<le> 4096 * c \<and> 4096 * c < unat n + 4096 \<and>
     {unat (PAGE_ID a)..<unat (PAGE_ID a) + c} \<inter> used_virtual (pages h) = {} \<and>
     used_virtual (pages h') = used_virtual (pages h) \<union> {unat (PAGE_ID a)..<unat (PAGE_ID a) + c} \<and>
     live h' = live h \<and> kernel_heap_ok h'"
  using kp.malloc_large [OF assms(1,2) assms(3) [unfolded kernelMalloc_def]] by (auto simp: kernel_used_def)

theorem malloc_large_page_run_witness:
  "\<exists>a h'. kernelMalloc started_heap 4096 = Some (a, h') \<and> PAGE_OFFSET a = 0 \<and> kernel_heap_ok h'"
proof -
  obtain a m where "getPagesCount started_memory 1 = Some (a, m)" using started_getPagesCount by blast
  moreover have "floorLog 4096 = 12" by (simp add: floorLog.simps)
  ultimately have run: "kernelMalloc started_heap 4096 = Some (a, started_heap\<lparr>pages := m\<rparr>)"
    by (simp add: kernelMalloc_def malloc_def LOG2_def started_heap_def)
  from malloc_large_page_run [OF started_heap_ok _ run] run show ?thesis by auto
qed

end
