(* ===== verification/Lists.thy ===== *)
theory Lists
  imports Malloc
begin

text \<open>
  The linked lists of the kernel (\<open>kernel/util/list.c\<close>) and of \<open>hlib\<close> (\<open>hlib/list.c\<close>). The memory is
  a map from addresses to list elements on top of the allocator's state: reading an address with no
  element is a fault, \<open>free\<close> removes the element. The allocator is an argument of the definitions
  that call it, with the contract of the locale \<open>allocator\<close>.
\<close>

record ListElement =
  nextElement :: u32
  element_data :: u32

record 's Store =
  heap :: 's
  cells :: "u32 \<Rightarrow> ListElement option"

section \<open>Operations\<close>

text \<open>\<open>free\<close> of any object: the address is released and holds no list element any more.\<close>

definition freeAt :: "('s \<Rightarrow> u32 \<Rightarrow> 's option) \<Rightarrow> 's Store \<Rightarrow> u32 \<Rightarrow> 's Store option" where
  "freeAt release st p = do {
     h \<leftarrow> release (heap st) p;
     Some (st\<lparr>heap := h, cells := (cells st)(p := None)\<rparr>)
   }"

definition setNext :: "'s Store \<Rightarrow> u32 \<Rightarrow> u32 \<Rightarrow> 's Store option" where
  "setNext st p q = do {
     e \<leftarrow> cells st p;
     Some (st\<lparr>cells := (cells st)(p \<mapsto> e\<lparr>nextElement := q\<rparr>)\<rparr>)
   }"

text \<open>The loop of \<open>listAdd\<close> that follows \<open>next\<close> to the last element.\<close>

partial_function (option) lastElement :: "(u32 \<Rightarrow> ListElement option) \<Rightarrow> u32 \<Rightarrow> u32 option" where
  "lastElement C current = do {
     e \<leftarrow> C current;
     if nextElement e \<noteq> 0 then lastElement C (nextElement e) else Some current
   }"

text \<open>
  \<open>listAdd\<close>: the list argument is the value of the pointer the caller's variable holds, and the new
  value is returned. The element is 8 bytes.
\<close>

definition listAdd ::
  "('s \<Rightarrow> u32 \<Rightarrow> (u32 \<times> 's) option) \<Rightarrow> 's Store \<Rightarrow> u32 \<Rightarrow> u32 \<Rightarrow> (u32 \<times> 's Store) option" where
  "listAdd alloc st list data = do {
     (element, h) \<leftarrow> alloc (heap st) 8;
     let st = st\<lparr>heap := h, cells := (cells st)(element \<mapsto> \<lparr>nextElement = 0, element_data = data\<rparr>)\<rparr>;
     if list = 0 then Some (element, st)
     else do {
       current \<leftarrow> lastElement (cells st) list;
       st \<leftarrow> setNext st current element;
       Some (list, st)
     }
   }"

definition listPopFirst ::
  "('s \<Rightarrow> u32 \<Rightarrow> 's option) \<Rightarrow> 's Store \<Rightarrow> u32 \<Rightarrow> (u32 \<times> u32 \<times> 's Store) option" where
  "listPopFirst release st list =
     (if list = 0 then Some (0, list, st)
      else do {
        e \<leftarrow> cells st list;
        st \<leftarrow> freeAt release st list;
        Some (element_data e, nextElement e, st)
      })"

text \<open>The macro \<open>foreach\<close> with the body of \<open>listCount\<close>.\<close>

partial_function (option) countElements :: "(u32 \<Rightarrow> ListElement option) \<Rightarrow> u32 \<Rightarrow> u32 \<Rightarrow> u32 option" where
  "countElements C current i =
     (if current = 0 then Some i
      else do {
        e \<leftarrow> C current;
        countElements C (nextElement e) (i + 1)
      })"

definition listCount :: "(u32 \<Rightarrow> ListElement option) \<Rightarrow> u32 \<Rightarrow> u32 option" where
  "listCount C list = countElements C list 0"

text \<open>The loop of the kernel's \<open>listGet\<close>, counting the remaining steps.\<close>

primrec listGetLoop :: "(u32 \<Rightarrow> ListElement option) \<Rightarrow> u32 \<Rightarrow> nat \<Rightarrow> u32 option" where
  "listGetLoop C list 0 =
     (if list = 0 then Some 0 else do { e \<leftarrow> C list; Some (element_data e) })"
| "listGetLoop C list (Suc n) =
     (if list = 0 then Some 0 else do { e \<leftarrow> C list; listGetLoop C (nextElement e) n })"

definition listGet :: "(u32 \<Rightarrow> ListElement option) \<Rightarrow> u32 \<Rightarrow> u32 \<Rightarrow> u32 option" where
  "listGet C list position = listGetLoop C list (unat position)"

text \<open>\<open>listGet\<close> of \<open>hlib\<close> has no check for the end of the list.\<close>

primrec hlibListGetLoop :: "(u32 \<Rightarrow> ListElement option) \<Rightarrow> u32 \<Rightarrow> nat \<Rightarrow> u32 option" where
  "hlibListGetLoop C list 0 = do { e \<leftarrow> C list; Some (element_data e) }"
| "hlibListGetLoop C list (Suc n) = do { e \<leftarrow> C list; hlibListGetLoop C (nextElement e) n }"

definition hlibListGet :: "(u32 \<Rightarrow> ListElement option) \<Rightarrow> u32 \<Rightarrow> u32 \<Rightarrow> u32 option" where
  "hlibListGet C list position = hlibListGetLoop C list (unat position)"

partial_function (option) removeLoop ::
  "('s \<Rightarrow> u32 \<Rightarrow> 's option) \<Rightarrow> 's Store \<Rightarrow> u32 \<Rightarrow> u32 \<Rightarrow> u32 \<Rightarrow> u32 \<Rightarrow> (bool \<times> u32 \<times> 's Store) option" where
  "removeLoop release st list element previous value =
     (if element = 0 then Some (False, list, st)
      else do {
        e \<leftarrow> cells st element;
        if element_data e = value then do {
          (list, st) \<leftarrow> (if previous \<noteq> 0 then do {
                          st \<leftarrow> setNext st previous (nextElement e);
                          Some (list, st)
                        } else Some (nextElement e, st));
          st \<leftarrow> freeAt release st element;
          Some (True, list, st)
        } else removeLoop release st list (nextElement e) element value
      })"

definition listRemoveValue ::
  "('s \<Rightarrow> u32 \<Rightarrow> 's option) \<Rightarrow> 's Store \<Rightarrow> u32 \<Rightarrow> u32 \<Rightarrow> (bool \<times> u32 \<times> 's Store) option" where
  "listRemoveValue release st list value =
     (if list = 0 then Some (False, list, st) else removeLoop release st list list 0 value)"

partial_function (option) clearLoop ::
  "('s \<Rightarrow> u32 \<Rightarrow> 's option) \<Rightarrow> 's Store \<Rightarrow> u32 \<Rightarrow> bool \<Rightarrow> 's Store option" where
  "clearLoop release st current freeData = do {
     e \<leftarrow> cells st current;
     if nextElement e \<noteq> 0 then do {
       st \<leftarrow> (if freeData then freeAt release st (element_data e) else Some st);
       e \<leftarrow> cells st current;
       st \<leftarrow> freeAt release st current;
       clearLoop release st (nextElement e) freeData
     } else Some st
   }"

definition listClear ::
  "('s \<Rightarrow> u32 \<Rightarrow> 's option) \<Rightarrow> 's Store \<Rightarrow> u32 \<Rightarrow> bool \<Rightarrow> (u32 \<times> 's Store) option" where
  "listClear release st list freeData =
     (if list = 0 then Some (list, st)
      else do {
        st \<leftarrow> clearLoop release st list freeData;
        Some (0, st)
      })"

section \<open>Lists as sequences\<close>

text \<open>\<open>list_at C p xs\<close>: from \<open>p\<close> the memory holds a list with the elements \<open>xs\<close>, pairs of address and data.\<close>

fun list_at :: "(u32 \<Rightarrow> ListElement option) \<Rightarrow> u32 \<Rightarrow> (u32 \<times> u32) list \<Rightarrow> bool" where
  "list_at C p [] \<longleftrightarrow> p = 0"
| "list_at C p ((a, d) # xs) \<longleftrightarrow> p = a \<and> a \<noteq> 0 \<and>
     (\<exists>q. C a = Some \<lparr>nextElement = q, element_data = d\<rparr> \<and> list_at C q xs)"

abbreviation addresses :: "(u32 \<times> u32) list \<Rightarrow> u32 set" where
  "addresses xs \<equiv> fst ` set xs"

lemma list_at_unique: "list_at C p xs \<Longrightarrow> list_at C p ys \<Longrightarrow> xs = ys"
proof (induction xs arbitrary: p ys)
  case Nil
  then show ?case by (cases ys) auto
next
  case (Cons x xs)
  then show ?case by (cases x; cases ys) auto
qed

lemma list_at_append:
  "list_at C p (xs @ ys) \<Longrightarrow> \<exists>q. list_at C q ys \<and> (ys \<noteq> [] \<longrightarrow> q = fst (hd ys))"
proof (induction xs arbitrary: p)
  case Nil
  then show ?case by (cases ys) auto
qed auto

lemma list_at_distinct: "list_at C p xs \<Longrightarrow> distinct (map fst xs)"
proof (induction xs arbitrary: p)
  case Nil
  then show ?case by simp
next
  case (Cons x xs)
  obtain a d where x: "x = (a, d)" by (cases x)
  have whole: "list_at C a (x # xs)" and tail: "\<exists>q. list_at C q xs" using Cons.prems by (auto simp: x)
  have "a \<notin> addresses xs"
  proof
    assume "a \<in> addresses xs"
    then obtain d' where "(a, d') \<in> set xs" by auto
    then obtain ys zs where xs: "xs = ys @ (a, d') # zs" by (meson split_list)
    with tail have "list_at C a ((a, d') # zs)" using list_at_append by fastforce
    from list_at_unique [OF whole this] have "length xs = length zs" by (auto simp: x)
    then show False by (simp add: xs)
  qed
  with tail Cons.IH show ?case by (auto simp: x)
qed

lemma list_at_cong:
  "(\<And>a. a \<in> addresses xs \<Longrightarrow> C' a = C a) \<Longrightarrow> list_at C' p xs = list_at C p xs"
  by (induction xs arbitrary: p) auto

lemma list_at_dom: "list_at C p xs \<Longrightarrow> addresses xs \<subseteq> dom C"
  by (induction xs arbitrary: p) fastforce+

lemma list_at_nonzero: "list_at C p xs \<Longrightarrow> 0 \<notin> addresses xs"
proof (induction xs arbitrary: p)
  case (Cons x xs)
  obtain a d q where "x = (a, d)" "a \<noteq> 0" "list_at C q xs" using Cons.prems by (cases x) auto
  with Cons.IH [of q] show ?case by simp
qed simp

lemma lastElement_at: "list_at C p (xs @ [(a, d)]) \<Longrightarrow> lastElement C p = Some a"
proof (induction xs arbitrary: p)
  case Nil
  then show ?case by (simp add: lastElement.simps)
next
  case (Cons x xs)
  obtain b e where x: "x = (b, e)" by (cases x)
  with Cons.prems obtain q where q: "C p = Some \<lparr>nextElement = q, element_data = e\<rparr>" "list_at C q (xs @ [(a, d)])"
    by auto
  then have "q \<noteq> 0" by (cases xs) auto
  then show ?case using q Cons.IH by (simp add: lastElement.simps [of C p])
qed

lemma list_at_relink:
  assumes "list_at C p (xs @ (b, d) # ys)" and "C' b = Some \<lparr>nextElement = q, element_data = d\<rparr>"
    and "list_at C' q ws" and "\<And>a. a \<in> addresses xs \<Longrightarrow> C' a = C a"
  shows "list_at C' p (xs @ (b, d) # ws)"
  using assms
proof (induction xs arbitrary: p)
  case (Cons x xs)
  obtain a f where x: "x = (a, f)" by (cases x)
  with Cons.prems(1) obtain r where r: "C a = Some \<lparr>nextElement = r, element_data = f\<rparr>"
    "list_at C r (xs @ (b, d) # ys)" "p = a" "a \<noteq> 0"
    by auto
  have "list_at C' r (xs @ (b, d) # ws)"
    by (rule Cons.IH [OF r(2)]) (use Cons.prems in auto)
  moreover have "C' a = C a" using Cons.prems(4) by (simp add: x)
  ultimately show ?case using r by (simp add: x)
qed auto

lemma countElements_at: "list_at C p xs \<Longrightarrow> countElements C p i = Some (i + of_nat (length xs))"
proof (induction xs arbitrary: p i)
  case Nil
  then show ?case by (simp add: countElements.simps)
next
  case (Cons x xs)
  then show ?case by (cases x) (auto simp: countElements.simps [of C p i])
qed

lemma listGetLoop_at:
  "list_at C p xs \<Longrightarrow> listGetLoop C p n = Some (if n < length xs then snd (xs ! n) else 0)"
proof (induction xs arbitrary: p n)
  case Nil
  then show ?case by (cases n) simp_all
next
  case (Cons x xs)
  then show ?case by (cases x; cases n) auto
qed

lemma hlibListGetLoop_at:
  "list_at C p xs \<Longrightarrow> C 0 = None \<Longrightarrow>
     hlibListGetLoop C p n = (if n < length xs then Some (snd (xs ! n)) else None)"
proof (induction xs arbitrary: p n)
  case Nil
  then show ?case by (cases n) simp_all
next
  case (Cons x xs)
  then show ?case by (cases x; cases n) auto
qed

section \<open>The operations on top of an allocator\<close>

definition store_ok :: "('s \<Rightarrow> bool) \<Rightarrow> ('s \<Rightarrow> u32 set) \<Rightarrow> 's Store \<Rightarrow> bool" where
  "store_ok good live_at st \<longleftrightarrow> good (heap st) \<and> dom (cells st) \<subseteq> live_at (heap st)"

text \<open>\<open>frame st st' A\<close>: the operation from \<open>st\<close> to \<open>st'\<close> keeps every list that avoids the addresses \<open>A\<close>.\<close>

definition frame :: "'s Store \<Rightarrow> 's Store \<Rightarrow> u32 set \<Rightarrow> bool" where
  "frame st st' A \<longleftrightarrow> (\<forall>a \<in> dom (cells st) - A. cells st' a = cells st a)"

lemma frame_list:
  assumes "frame st st' A" and "list_at (cells st) q ys" and "addresses ys \<inter> A = {}"
  shows "list_at (cells st') q ys"
proof -
  have "cells st' a = cells st a" if "a \<in> addresses ys" for a
    using that list_at_dom [OF assms(2)] assms(1,3) by (auto simp: frame_def)
  then show ?thesis using list_at_cong assms(2) by blast
qed

context allocator
begin

lemma listAdd_spec:
  assumes ok: "store_ok good live_at st" and l: "list_at (cells st) p xs" and run: "listAdd alloc st p d = Some (p', st')"
  shows "\<exists>e. e \<notin> live_at (heap st) \<and> list_at (cells st') p' (xs @ [(e, d)]) \<and> store_ok good live_at st' \<and>
    frame st st' (addresses xs) \<and> live_at (heap st') = insert e (live_at (heap st))"
proof -
  obtain e h where al: "alloc (heap st) 8 = Some (e, h)" using run by (auto simp: listAdd_def split: bind_splits)
  have law: "good h" "e \<noteq> 0" "e \<notin> live_at (heap st)" "live_at h = insert e (live_at (heap st))"
    using alloc_law [OF _ _ _ al] ok by (simp_all add: store_ok_def)
  then have fresh: "e \<notin> dom (cells st)" using ok by (auto simp: store_ok_def)
  then have e_out: "e \<notin> addresses xs" using list_at_dom [OF l] by blast
  let ?C = "(cells st)(e \<mapsto> \<lparr>nextElement = 0, element_data = d\<rparr>)"
  have lC: "list_at ?C p xs" using list_at_cong [of xs ?C "cells st"] e_out l by fastforce
  show ?thesis
  proof (cases xs rule: rev_cases)
    case Nil
    with l al have "p = 0" by simp
    with run al have "p' = e" "st' = st\<lparr>heap := h, cells := ?C\<rparr>" by (auto simp: listAdd_def)
    then show ?thesis using law ok Nil fresh by (auto simp: store_ok_def frame_def)
  next
    case (snoc ys x)
    obtain a v where x: "x = (a, v)" by (cases x)
    have last: "lastElement ?C p = Some a" using lastElement_at lC snoc x by simp
    have "list_at (cells st) a [(a, v)]" using list_at_append [of "cells st" p ys "[x]"] l snoc x by auto
    then have ca: "cells st a = Some \<lparr>nextElement = 0, element_data = v\<rparr>" by auto
    have ea: "e \<noteq> a" using e_out snoc x by auto
    have p0: "p \<noteq> 0" using l snoc x by (cases ys) auto
    have st': "st' = st\<lparr>heap := h, cells := ?C(a \<mapsto> \<lparr>nextElement = e, element_data = v\<rparr>)\<rparr>" "p' = p"
      using run al last p0 ca ea by (auto simp: listAdd_def setNext_def Let_def)
    have dis: "a \<notin> addresses ys" using list_at_distinct [OF l] snoc x by auto
    have "list_at (cells st') p (ys @ (a, v) # (e, d) # [])"
      by (rule list_at_relink [of "cells st" p ys a v "[]" _ e]) (use l snoc x law(2) e_out ea dis st' in auto)
    moreover have "dom (cells st') \<subseteq> live_at h"
      using ok ca law(4) by (auto simp: store_ok_def st')
    moreover have "frame st st' (addresses xs)"
      using fresh by (auto simp: frame_def st' snoc x)
    ultimately show ?thesis
      using law snoc x by (intro exI [of _ e]) (simp add: store_ok_def st')
  qed
qed

lemma listAdd_total:
  assumes ok: "store_ok good live_at st" and l: "list_at (cells st) p xs" and al: "alloc (heap st) 8 = Some (e, h)"
  shows "\<exists>p' st'. listAdd alloc st p d = Some (p', st')"
proof -
  have "e \<notin> dom (cells st)" using alloc_law [OF _ _ _ al] ok by (auto simp: store_ok_def)
  then have e: "e \<notin> addresses xs" using list_at_dom [OF l] by blast
  let ?C = "(cells st)(e \<mapsto> \<lparr>nextElement = 0, element_data = d\<rparr>)"
  have lC: "list_at ?C p xs" using list_at_cong [of xs ?C "cells st"] e l by fastforce
  show ?thesis
  proof (cases xs rule: rev_cases)
    case Nil
    with l al show ?thesis by (simp add: listAdd_def Let_def)
  next
    case (snoc ys x)
    obtain a v where x: "x = (a, v)" by (cases x)
    have "lastElement ?C p = Some a" using lastElement_at lC snoc x by simp
    moreover have "a \<in> dom ?C" using list_at_dom [OF lC] snoc x by auto
    ultimately show ?thesis using al by (auto simp: listAdd_def setNext_def Let_def)
  qed
qed

lemma listAdd_returns:
  assumes ok: "store_ok good live_at st" and l: "list_at (cells st) p xs" and "ready (heap st)"
  shows "\<exists>p' st'. listAdd alloc st p d = Some (p', st')"
  using alloc_returns [of "heap st" 8] assms listAdd_total [OF ok l] by (fastforce simp: store_ok_def)

lemma freeAt_spec:
  assumes ok: "store_ok good live_at st" and a: "a \<in> live_at (heap st)"
  shows "\<exists>st'. freeAt release st a = Some st' \<and> store_ok good live_at st' \<and> cells st' = (cells st)(a := None) \<and>
    live_at (heap st') = live_at (heap st) - {a}"
  using release_law [of "heap st" a] ok a by (auto simp: freeAt_def store_ok_def subset_iff)

lemma listPopFirst_spec:
  assumes ok: "store_ok good live_at st" and l: "list_at (cells st) p ((a, d) # xs)"
  shows "\<exists>p' st'. listPopFirst release st p = Some (d, p', st') \<and> list_at (cells st') p' xs \<and>
    store_ok good live_at st' \<and> frame st st' {a} \<and> live_at (heap st') = live_at (heap st) - {a}"
proof -
  obtain q where q: "p = a" "a \<noteq> 0" "cells st a = Some \<lparr>nextElement = q, element_data = d\<rparr>" "list_at (cells st) q xs"
    using l by auto
  then have "a \<in> live_at (heap st)" using ok by (auto simp: store_ok_def)
  then obtain st' where st': "freeAt release st a = Some st'" "store_ok good live_at st'"
    "cells st' = (cells st)(a := None)" "live_at (heap st') = live_at (heap st) - {a}"
    using freeAt_spec [OF ok] by blast
  have "a \<notin> addresses xs" using list_at_distinct [OF l] by simp
  then have "list_at (cells st') q xs"
    using list_at_cong [of xs "cells st'" "cells st"] q(4) st'(3) by fastforce
  then show ?thesis using q st' by (auto simp: listPopFirst_def frame_def)
qed

end

lemma removeLoop_skip:
  assumes "list_at (cells st) element (us @ ws)" and "v \<notin> snd ` set us"
  shows "removeLoop release st list element previous v =
    removeLoop release st list (if ws = [] then 0 else fst (hd ws)) (if us = [] then previous else fst (List.last us)) v"
  using assms
proof (induction us arbitrary: element previous)
  case Nil
  then show ?case by (cases ws) auto
next
  case (Cons x us)
  obtain a d where x: "x = (a, d)" by (cases x)
  with Cons.prems obtain q where q: "element = a" "a \<noteq> 0" "cells st a = Some \<lparr>nextElement = q, element_data = d\<rparr>"
    "list_at (cells st) q (us @ ws)" "d \<noteq> v" "v \<notin> snd ` set us"
    by auto
  then have "removeLoop release st list element previous v = removeLoop release st list q a v"
    by (simp add: removeLoop.simps [of release st list a])
  also have "\<dots> = removeLoop release st list (if ws = [] then 0 else fst (hd ws)) (if us = [] then a else fst (List.last us)) v"
    by (rule Cons.IH [OF q(4,6)])
  finally show ?case by (simp add: x)
qed

context allocator
begin

lemma listRemoveValue_absent:
  assumes "list_at (cells st) p xs" and "v \<notin> snd ` set xs"
  shows "listRemoveValue release st p v = Some (False, p, st)"
  using removeLoop_skip [of st p xs "[]" v release p 0] assms
  by (simp add: listRemoveValue_def removeLoop.simps [of release st p 0])

lemma listRemoveValue_first:
  assumes ok: "store_ok good live_at st" and l: "list_at (cells st) p (us @ (a, v) # ws)" and us: "v \<notin> snd ` set us"
  shows "\<exists>p' st'. listRemoveValue release st p v = Some (True, p', st') \<and> list_at (cells st') p' (us @ ws) \<and>
    store_ok good live_at st' \<and> live_at (heap st') = live_at (heap st) - {a} \<and>
    frame st st' (addresses (us @ [(a, v)]))"
proof -
  obtain q where ca: "cells st a = Some \<lparr>nextElement = q, element_data = v\<rparr>" and lq: "list_at (cells st) q ws" and a0: "a \<noteq> 0"
    using list_at_append [OF l] by auto
  have p0: "p \<noteq> 0" using l by (cases us) auto
  let ?prev = "if us = [] then 0 else fst (List.last us)"
  have run: "listRemoveValue release st p v = removeLoop release st p a ?prev v"
    using removeLoop_skip [OF l us, of release p 0] p0 by (simp add: listRemoveValue_def)
  have dist: "distinct (map fst (us @ (a, v) # ws))" by (rule list_at_distinct [OF l])
  have alive: "a \<in> live_at (heap st)" using ok ca by (auto simp: store_ok_def)
  show ?thesis
  proof (cases us rule: rev_cases)
    case Nil
    obtain st' where st': "freeAt release st a = Some st'" "store_ok good live_at st'"
      "cells st' = (cells st)(a := None)" "live_at (heap st') = live_at (heap st) - {a}"
      using freeAt_spec [OF ok alive] by blast
    have "list_at (cells st') q ws"
      using list_at_cong [of ws "cells st'" "cells st"] lq st'(3) dist by fastforce
    moreover have "frame st st' {a}" by (simp add: frame_def st'(3))
    ultimately show ?thesis
      using run ca a0 st' Nil by (simp add: removeLoop.simps [of release st p a])
  next
    case (snoc xs x)
    obtain b d where x: "x = (b, d)" by (cases x)
    have l': "list_at (cells st) p (xs @ (b, d) # (a, v) # ws)" using l snoc x by simp
    have cb: "cells st b = Some \<lparr>nextElement = a, element_data = d\<rparr>" and b0: "b \<noteq> 0"
      using list_at_append [OF l'] by auto
    define s1 where "s1 = st\<lparr>cells := (cells st)(b \<mapsto> \<lparr>nextElement = q, element_data = d\<rparr>)\<rparr>"
    have ok1: "store_ok good live_at s1" and alive1: "a \<in> live_at (heap s1)"
      using ok cb alive by (auto simp: s1_def store_ok_def)
    obtain st' where st': "freeAt release s1 a = Some st'" "store_ok good live_at st'"
      "cells st' = (cells s1)(a := None)" "live_at (heap st') = live_at (heap s1) - {a}"
      using freeAt_spec [OF ok1 alive1] by blast
    have C': "cells st' = (cells st)(b \<mapsto> \<lparr>nextElement = q, element_data = d\<rparr>, a := None)"
      by (simp add: st'(3) s1_def)
    have ab: "a \<noteq> b" "b \<notin> addresses xs" "a \<notin> addresses xs" "a \<notin> addresses ws" "b \<notin> addresses ws"
      using dist snoc x by auto
    have "list_at (cells st') q ws"
      using list_at_cong [of ws "cells st'" "cells st"] lq ab C' by fastforce
    then have "list_at (cells st') p (xs @ (b, d) # ws)"
      using ab by (intro list_at_relink [OF l']) (auto simp: C')
    moreover have "frame st st' (addresses (us @ [(a, v)]))" by (auto simp: frame_def C' snoc x)
    moreover have "removeLoop release st p a b v = Some (True, p, st')"
      using ca a0 b0 cb st'(1) by (simp add: removeLoop.simps [of release st p a] setNext_def s1_def)
    ultimately show ?thesis
      using run st' snoc x by (simp add: s1_def)
  qed
qed

lemma clearLoop_spec:
  assumes "store_ok good live_at st" and "list_at (cells st) p (xs @ [(a, d)])"
  shows "\<exists>st'. clearLoop release st p False = Some st' \<and> store_ok good live_at st' \<and>
    live_at (heap st') = live_at (heap st) - addresses xs \<and> cells st' a = Some \<lparr>nextElement = 0, element_data = d\<rparr> \<and>
    frame st st' (addresses xs)"
  using assms
proof (induction xs arbitrary: st p)
  case Nil
  then show ?case by (simp add: clearLoop.simps frame_def)
next
  case (Cons x xs)
  obtain b e where x: "x = (b, e)" by (cases x)
  then obtain q where q: "p = b" "b \<noteq> 0" "cells st b = Some \<lparr>nextElement = q, element_data = e\<rparr>"
    "list_at (cells st) q (xs @ [(a, d)])"
    using Cons.prems(2) by auto
  have q0: "q \<noteq> 0" using q(4) by (cases xs) auto
  have "b \<in> live_at (heap st)" using Cons.prems(1) q(3) by (auto simp: store_ok_def)
  then obtain s1 where s1: "freeAt release st b = Some s1" "store_ok good live_at s1"
    "cells s1 = (cells st)(b := None)" "live_at (heap s1) = live_at (heap st) - {b}"
    using freeAt_spec [OF Cons.prems(1)] by blast
  have "b \<notin> addresses (xs @ [(a, d)])" using list_at_distinct [OF Cons.prems(2)] x by auto
  then have "list_at (cells s1) q (xs @ [(a, d)])"
    using list_at_cong [of "xs @ [(a, d)]" "cells s1" "cells st"] q(4) s1(3) by fastforce
  from Cons.IH [OF s1(2) this] obtain st' where st': "clearLoop release s1 q False = Some st'"
    "store_ok good live_at st'" "live_at (heap st') = live_at (heap s1) - addresses xs"
    "cells st' a = Some \<lparr>nextElement = 0, element_data = d\<rparr>" "frame s1 st' (addresses xs)"
    by blast
  have "clearLoop release st p False = Some st'"
    using q q0 s1(1) st'(1) by (simp add: clearLoop.simps [of release st b])
  moreover have "frame st st' (addresses (x # xs))"
    using st'(5) s1(3) by (auto simp: frame_def x)
  moreover have "live_at (heap st') = live_at (heap st) - addresses (x # xs)"
    using st'(3) s1(4) x by auto
  ultimately show ?case using st'(2,4) by blast
qed

end

section \<open>Lists as queues\<close>

text \<open>
  The contract of a first-in first-out queue. The kernel keeps its pending system calls, the services
  their events, in such queues: \<open>listAdd\<close> at the end and \<open>listPopFirst\<close> at the front.
\<close>

locale fifo =
  fixes rep :: "'q \<Rightarrow> u32 list \<Rightarrow> bool" and enq :: "'q \<Rightarrow> u32 \<Rightarrow> 'q option" and deq :: "'q \<Rightarrow> (u32 \<times> 'q) option"
  assumes enq_law: "rep q ds \<Longrightarrow> enq q d = Some q' \<Longrightarrow> rep q' (ds @ [d])"
    and deq_law: "rep q (d # ds) \<Longrightarrow> \<exists>q'. deq q = Some (d, q') \<and> rep q' ds"
    and deq_empty: "rep q [] \<Longrightarrow> deq q = Some (0, q)"
begin

lemma enq_all: "rep q ds \<Longrightarrow> ofold (\<lambda>d q. enq q d) es q = Some q' \<Longrightarrow> rep q' (ds @ es)"
proof (induction es arbitrary: q ds)
  case (Cons e es)
  then obtain q1 where "enq q e = Some q1" "ofold (\<lambda>d q. enq q d) es q1 = Some q'"
    by (auto split: bind_splits)
  with Cons.IH [of q1 "ds @ [e]"] enq_law [OF Cons.prems(1)] show ?case by simp
qed simp

end

primrec dequeue :: "('q \<Rightarrow> (u32 \<times> 'q) option) \<Rightarrow> nat \<Rightarrow> 'q \<Rightarrow> (u32 list \<times> 'q) option" where
  "dequeue deq 0 q = Some ([], q)"
| "dequeue deq (Suc n) q = do {
     (d, q) \<leftarrow> deq q;
     (ds, q) \<leftarrow> dequeue deq n q;
     Some (d # ds, q)
   }"

context fifo
begin

lemma dequeue_all: "rep q (ds @ es) \<Longrightarrow> \<exists>q'. dequeue deq (length ds) q = Some (ds, q') \<and> rep q' es"
proof (induction ds arbitrary: q)
  case (Cons d ds)
  then obtain q1 where "deq q = Some (d, q1)" "rep q1 (ds @ es)" using deq_law by fastforce
  with Cons.IH [of q1] show ?case by auto
qed simp

lemma first_in_first_out:
  assumes "rep q ds" and "ofold (\<lambda>d q. enq q d) es q = Some q'"
  shows "\<exists>q''. dequeue deq (length (ds @ es)) q' = Some (ds @ es, q'') \<and> rep q'' []"
  using dequeue_all [of q' "ds @ es" "[]"] enq_all [OF assms] by simp

end

text \<open>A queue of the kernel: the pointer to the first element and the memory.\<close>

definition queue_rep :: "('s \<Rightarrow> bool) \<Rightarrow> ('s \<Rightarrow> u32 set) \<Rightarrow> u32 \<times> 's Store \<Rightarrow> u32 list \<Rightarrow> bool" where
  "queue_rep good live_at q ds \<longleftrightarrow> store_ok good live_at (snd q) \<and>
     (\<exists>xs. list_at (cells (snd q)) (fst q) xs \<and> map snd xs = ds)"

definition queue_add :: "('s \<Rightarrow> u32 \<Rightarrow> (u32 \<times> 's) option) \<Rightarrow> u32 \<times> 's Store \<Rightarrow> u32 \<Rightarrow> (u32 \<times> 's Store) option" where
  "queue_add alloc q d = listAdd alloc (snd q) (fst q) d"

definition queue_pop :: "('s \<Rightarrow> u32 \<Rightarrow> 's option) \<Rightarrow> u32 \<times> 's Store \<Rightarrow> (u32 \<times> u32 \<times> 's Store) option" where
  "queue_pop release q = listPopFirst release (snd q) (fst q)"

sublocale allocator \<subseteq> lq: fifo "queue_rep good live_at" "queue_add alloc" "queue_pop release"
proof
  fix q ds d q' assume "queue_rep good live_at q ds" and run: "queue_add alloc q d = Some q'"
  then obtain xs where "store_ok good live_at (snd q)" "list_at (cells (snd q)) (fst q) xs" and ds: "map snd xs = ds"
    by (auto simp: queue_rep_def)
  from listAdd_spec [OF this(1,2), of d "fst q'" "snd q'"] run obtain e where
    "list_at (cells (snd q')) (fst q') (xs @ [(e, d)])" "store_ok good live_at (snd q')"
    by (auto simp: queue_add_def)
  then show "queue_rep good live_at q' (ds @ [d])"
    using ds unfolding queue_rep_def by (intro conjI exI [of _ "xs @ [(e, d)]"]) simp_all
next
  fix q d ds assume "queue_rep good live_at q (d # ds)"
  then obtain x xs where "store_ok good live_at (snd q)" "list_at (cells (snd q)) (fst q) ((x, d) # xs)" "map snd xs = ds"
    by (auto simp: queue_rep_def Cons_eq_map_conv)
  moreover from listPopFirst_spec [OF this(1,2)] obtain p' st' where
    "listPopFirst release (snd q) (fst q) = Some (d, p', st')" "list_at (cells st') p' xs" "store_ok good live_at st'"
    by blast
  ultimately show "\<exists>q'. queue_pop release q = Some (d, q') \<and> queue_rep good live_at q' ds"
    unfolding queue_pop_def queue_rep_def by auto
next
  fix q assume "queue_rep good live_at q []"
  then show "queue_pop release q = Some (0, q)"
    by (cases q) (auto simp: queue_rep_def queue_pop_def listPopFirst_def)
qed

section \<open>Properties of the lists\<close>

abbreviation kernel_store_ok :: "KernelMemory Heap Store \<Rightarrow> bool" where
  "kernel_store_ok st \<equiv> store_ok (\<lambda>h. kernel_heap_ok h) allocated st"

text \<open>
  The kernel's lists are first-in first-out queues: popping as often as the list has elements gives
  first the elements it held, then those added with \<open>listAdd\<close>, in order, and leaves the empty list.
\<close>

theorem lists_first_in_first_out:
  assumes "kernel_store_ok st" and "list_at (cells st) p xs"
    and "ofold (\<lambda>d q. queue_add kernelMalloc q d) es (p, st) = Some q"
  shows "\<exists>st'. dequeue (queue_pop kernelFree) (length xs + length es) q = Some (map snd xs @ es, 0, st')"
proof -
  have "queue_rep (\<lambda>h. kernel_heap_ok h) allocated (p, st) (map snd xs)"
    using assms(1,2) by (auto simp: queue_rep_def)
  from ka.lq.first_in_first_out [OF this assms(3)] show ?thesis
    by (auto simp: queue_rep_def)
qed

definition started_store :: "KernelMemory Heap Store" where
  "started_store = \<lparr>heap = started_heap, cells = Map.empty\<rparr>"

lemma started_store_ok: "kernel_store_ok started_store"
  by (simp add: store_ok_def started_store_def started_heap_ok)

lemma started_listAdd: "\<exists>p st. listAdd kernelMalloc started_store 0 d = Some (p, st)"
  by (rule ka.listAdd_returns [OF started_store_ok, of 0 "[]"]) (simp_all add: started_store_def started_heap_ready)

theorem lists_first_in_first_out_witness:
  "\<exists>q st'. ofold (\<lambda>d q. queue_add kernelMalloc q d) [7] (0, started_store) = Some q \<and>
     dequeue (queue_pop kernelFree) 1 q = Some ([7], 0, st')"
proof -
  obtain p st where "listAdd kernelMalloc started_store 0 7 = Some (p, st)" using started_listAdd by blast
  then have run: "ofold (\<lambda>d q. queue_add kernelMalloc q d) [7] (0, started_store) = Some (p, st)"
    by (simp add: queue_add_def)
  have "list_at (cells started_store) 0 []" by simp
  from lists_first_in_first_out [OF started_store_ok this run] run show ?thesis by simp
qed

text \<open>
  \<open>listAdd\<close> returns when the allocator is ready; it appends one element at a fresh address and keeps
  every list that shares no element with the argument.
\<close>

theorem listAdd_appends:
  assumes "kernel_store_ok st" and "list_at (cells st) p xs" and "heap_ready (heap st)"
  shows "\<exists>p' st' e. listAdd kernelMalloc st p d = Some (p', st') \<and> e \<notin> allocated (heap st) \<and>
     list_at (cells st') p' (xs @ [(e, d)]) \<and> kernel_store_ok st' \<and>
     (\<forall>q ys. list_at (cells st) q ys \<and> addresses ys \<inter> addresses xs = {} \<longrightarrow> list_at (cells st') q ys)"
proof -
  obtain p' st' where run: "listAdd kernelMalloc st p d = Some (p', st')"
    using ka.listAdd_returns [OF assms] by blast
  with ka.listAdd_spec [OF assms(1,2) run] frame_list show ?thesis by blast
qed

theorem listAdd_appends_witness:
  "\<exists>p' st' e. listAdd kernelMalloc started_store 0 5 = Some (p', st') \<and> list_at (cells st') p' [(e, 5)]"
  using listAdd_appends [OF started_store_ok, of 0 "[]" 5] started_heap_ready by (auto simp: started_store_def)

text \<open>
  The kernel's \<open>listGet\<close> is indexing with the null pointer behind the end, and \<open>listCount\<close> the length
  of the list; the \<open>listGet\<close> of \<open>hlib\<close> dereferences the null pointer behind the end instead.
\<close>

theorem listGet_indexing:
  assumes "list_at C p xs" and "C 0 = None" and "length xs < 2 ^ 32"
  shows "listGet C p i = Some (if unat i < length xs then snd (xs ! unat i) else 0) \<and>
     hlibListGet C p i = (if unat i < length xs then Some (snd (xs ! unat i)) else None) \<and>
     map_option unat (listCount C p) = Some (length xs)"
  using listGetLoop_at [OF assms(1)] hlibListGetLoop_at [OF assms(1,2)] countElements_at [OF assms(1), of 0] assms(3)
  by (simp add: listGet_def hlibListGet_def listCount_def)

theorem listGet_indexing_witness:
  "let C = [0x10 \<mapsto> \<lparr>nextElement = 0x20, element_data = 3\<rparr>, 0x20 \<mapsto> \<lparr>nextElement = 0, element_data = 4\<rparr>]
   in listGet C 0x10 1 = Some 4 \<and> listGet C 0x10 2 = Some 0 \<and> hlibListGet C 0x10 2 = None"
proof -
  let ?C = "[0x10 \<mapsto> \<lparr>nextElement = 0x20, element_data = 3\<rparr>, 0x20 \<mapsto> \<lparr>nextElement = 0, element_data = 4\<rparr>]
    :: u32 \<Rightarrow> ListElement option"
  have "list_at ?C 0x10 [(0x10, 3), (0x20, 4)]" by simp
  note th = listGet_indexing [OF this]
  show ?thesis using th [of 1] th [of 2] by (simp add: Let_def)
qed

text \<open>
  \<open>listRemoveValue\<close> of \<open>hlib\<close> removes the first element with the value and frees it, or changes
  nothing and answers false. The allocator may be any that fulfils the contract.
\<close>

theorem listRemoveValue_removes_first:
  assumes "allocator good live_at ready alloc release" and "store_ok good live_at st" and "list_at (cells st) p xs"
  shows "if v \<in> snd ` set xs
     then \<exists>us a ws p' st'. xs = us @ (a, v) # ws \<and> v \<notin> snd ` set us \<and>
       listRemoveValue release st p v = Some (True, p', st') \<and> list_at (cells st') p' (us @ ws) \<and>
       store_ok good live_at st' \<and> live_at (heap st') = live_at (heap st) - {a}
     else listRemoveValue release st p v = Some (False, p, st)"
proof (cases "v \<in> snd ` set xs")
  case True
  then obtain a where "(a, v) \<in> set xs" by auto
  then have "\<exists>x \<in> set xs. snd x = v" by force
  from split_list_first_prop [OF this] obtain us x ws where
    xs: "xs = us @ x # ws" "snd x = v" "\<forall>y \<in> set us. snd y \<noteq> v" by blast
  then obtain b where b: "xs = us @ (b, v) # ws" "v \<notin> snd ` set us" by (cases x) auto
  have "list_at (cells st) p (us @ (b, v) # ws)" using assms(3) b(1) by simp
  from allocator.listRemoveValue_first [OF assms(1,2) this b(2)] b have "\<exists>us a ws p' st'. xs = us @ (a, v) # ws \<and>
      v \<notin> snd ` set us \<and> listRemoveValue release st p v = Some (True, p', st') \<and> list_at (cells st') p' (us @ ws) \<and>
      store_ok good live_at st' \<and> live_at (heap st') = live_at (heap st) - {a}"
    by blast
  with True show ?thesis by (simp only: if_True)
next
  case False
  then show ?thesis using allocator.listRemoveValue_absent [OF assms(1,3)] by simp
qed

text \<open>A list of two elements in the started kernel heap.\<close>

definition pair_store :: "u32 \<Rightarrow> u32 \<Rightarrow> KernelMemory Heap Store" where
  "pair_store d e = \<lparr>heap = two_slot_heap,
     cells = [0xFF800000 \<mapsto> \<lparr>nextElement = 0xFF800020, element_data = d\<rparr>,
              0xFF800020 \<mapsto> \<lparr>nextElement = 0, element_data = e\<rparr>]\<rparr>"

lemma pair_store_ok: "kernel_store_ok (pair_store d e)"
proof -
  have "(0xFF800000, 5, i) \<in> live two_slot_heap" if "i = 0 \<or> i = 1" for i
    using that unfolding live_rep [OF two_slot_heap_rep] by (auto simp: two_slot_heap_def slot_taken_takeSlot)
  then have "slotAddress (0xFF800000, 5, 0) \<in> allocated two_slot_heap" "slotAddress (0xFF800000, 5, 1) \<in> allocated two_slot_heap"
    unfolding allocated_def by blast+
  then have "0xFF800000 \<in> allocated two_slot_heap" "0xFF800020 \<in> allocated two_slot_heap" by simp_all
  moreover have "kernel_heap_ok two_slot_heap"
    using two_slot_heap_rep started_heap_ok by (auto simp: heap_inv_def two_slot_heap_def)
  ultimately show ?thesis by (auto simp: store_ok_def pair_store_def)
qed

lemma pair_store_list: "list_at (cells (pair_store d e)) 0xFF800000 [(0xFF800000, d), (0xFF800020, e)]"
  by (simp add: pair_store_def)

theorem listRemoveValue_removes_first_witness:
  "\<exists>p' st'. listRemoveValue kernelFree (pair_store 1 2) 0xFF800000 2 = Some (True, p', st') \<and>
     list_at (cells st') p' [(0xFF800000, 1)]"
proof -
  note th = listRemoveValue_removes_first [OF ka.allocator_axioms pair_store_ok pair_store_list, of 2 1 2]
  then obtain us a ws p' st' where *: "[(0xFF800000, 1), (0xFF800020, 2)] = us @ (a, 2) # ws" "2 \<notin> snd ` set us"
    "listRemoveValue kernelFree (pair_store 1 2) 0xFF800000 2 = Some (True, p', st')" "list_at (cells st') p' (us @ ws)"
    by auto
  then have "us = [(0xFF800000, 1)] \<and> ws = []"
    by (cases us; cases "tl us") auto
  with * show ?thesis by auto
qed

text \<open>
  \<open>listClear\<close> of \<open>hlib\<close> empties the list but stops before the last element: all elements except the
  last are freed, and the last stays allocated with no pointer left to it.
\<close>

theorem listClear_keeps_last_element:
  assumes "allocator good live_at ready alloc release" and "store_ok good live_at st"
    and "list_at (cells st) p (xs @ [(a, d)])"
  shows "\<exists>st'. listClear release st p False = Some (0, st') \<and> store_ok good live_at st' \<and>
     live_at (heap st') = live_at (heap st) - addresses xs \<and> a \<in> live_at (heap st') \<and> a \<in> dom (cells st')"
proof -
  have "p \<noteq> 0" using assms(3) by (cases xs) auto
  moreover obtain st' where st': "clearLoop release st p False = Some st'" "store_ok good live_at st'"
    "live_at (heap st') = live_at (heap st) - addresses xs" "cells st' a = Some \<lparr>nextElement = 0, element_data = d\<rparr>"
    using allocator.clearLoop_spec [OF assms] by blast
  moreover have "a \<in> dom (cells st')" using st'(4) by blast
  moreover then have "a \<in> live_at (heap st')" using st'(2) by (auto simp: store_ok_def)
  ultimately show ?thesis by (auto simp: listClear_def)
qed

theorem listClear_keeps_last_element_witness:
  "\<exists>st'. listClear kernelFree (pair_store 1 2) 0xFF800000 False = Some (0, st') \<and> 0xFF800020 \<in> allocated (heap st')"
  using listClear_keeps_last_element [OF ka.allocator_axioms pair_store_ok, of 1 2 "0xFF800000" "[(0xFF800000, 1)]" "0xFF800020" 2]
    pair_store_list [of 1 2] by auto

end
