(* ===== verification/StringMap.thy ===== *)
theory StringMap
  imports Strings Malloc
begin

text \<open>
  The kernel's string table (\<open>kernel/stringmap/stringmap.c\<close>): strings are known by their hash, a 32-bit
  number, and the table from numbers to strings is a tree of layers with 16 pointers each, indexed by
  the eight 4-bit digits of the number, lowest digit first. The root layer is a static array, the
  others come from \<open>malloc\<close>, which is an argument with the contract \<open>allocator\<close>.
\<close>

section \<open>The hash\<close>

text \<open>\<open>char\<close> is signed: a byte of 128 or more is added as a negative number.\<close>

partial_function (option) hashLoop :: "bytes \<Rightarrow> u32 \<Rightarrow> u32 \<Rightarrow> u32 option" where
  "hashLoop m p hash = (if m p = 0 then Some hash else hashLoop m (p + 1) (257 * hash + scast (m p)))"

definition hashString :: "bytes \<Rightarrow> u32 \<Rightarrow> u32 option" where
  "hashString m string = hashLoop m string 0"

definition hash_of :: "u8 list \<Rightarrow> u32" where
  "hash_of s = foldl (\<lambda>hash c. 257 * hash + scast c) 0 s"

section \<open>The layers\<close>

datatype MapLayer = RootLayer | LayerAt u32

record 's StringMap =
  mapHeap :: 's
  rootLayer :: "nat \<Rightarrow> u32"
  layers :: "u32 \<Rightarrow> (nat \<Rightarrow> u32) option"

fun layerGet :: "'s StringMap \<Rightarrow> MapLayer \<Rightarrow> nat \<Rightarrow> u32 option" where
  "layerGet st RootLayer i = aget 16 (rootLayer st) i"
| "layerGet st (LayerAt a) i = do { l \<leftarrow> layers st a; aget 16 l i }"

fun layerSet :: "'s StringMap \<Rightarrow> MapLayer \<Rightarrow> nat \<Rightarrow> u32 \<Rightarrow> 's StringMap option" where
  "layerSet st RootLayer i v = do { l \<leftarrow> aset 16 (rootLayer st) i v; Some (st\<lparr>rootLayer := l\<rparr>) }"
| "layerSet st (LayerAt a) i v = do {
     l \<leftarrow> layers st a;
     l \<leftarrow> aset 16 l i v;
     Some (st\<lparr>layers := (layers st)(a \<mapsto> l)\<rparr>)
   }"

text \<open>
  The digits the loops of the source visit: \<open>startBit\<close> 0, 4, ..., 24 with the mask \<open>0xF\<close>, and then
  the four highest bits.
\<close>

definition digit :: "u32 \<Rightarrow> nat \<Rightarrow> nat" where
  "digit hash startBit = unat (drop_bit startBit hash AND 0xF)"

definition startBits :: "nat list" where
  "startBits = [0, 4, 8, 12, 16, 20, 24]"

definition topDigit :: "u32 \<Rightarrow> nat" where
  "topDigit hash = unat (drop_bit 28 hash)"

fun insertLayers ::
  "('s \<Rightarrow> u32 \<Rightarrow> (u32 \<times> 's) option) \<Rightarrow> u32 \<Rightarrow> nat list \<Rightarrow> 's StringMap \<Rightarrow> MapLayer \<Rightarrow> (MapLayer \<times> 's StringMap) option" where
  "insertLayers alloc hash [] st current = Some (current, st)"
| "insertLayers alloc hash (startBit # rest) st current = do {
     nextLayer \<leftarrow> layerGet st current (digit hash startBit);
     (nextLayer, st) \<leftarrow>
       (if nextLayer = 0 then do {
          (a, h) \<leftarrow> alloc (mapHeap st) 64;
          let st = st\<lparr>mapHeap := h, layers := (layers st)(a \<mapsto> (\<lambda>_. 0))\<rparr>;
          st \<leftarrow> layerSet st current (digit hash startBit) a;
          Some (a, st)
        } else Some (nextLayer, st));
     insertLayers alloc hash rest st (LayerAt nextLayer)
   }"

definition insertId ::
  "('s \<Rightarrow> u32 \<Rightarrow> (u32 \<times> 's) option) \<Rightarrow> 's StringMap \<Rightarrow> u32 \<Rightarrow> u32 \<Rightarrow> 's StringMap option" where
  "insertId alloc st hash string = do {
     (current, st) \<leftarrow> insertLayers alloc hash startBits st RootLayer;
     layerSet st current (topDigit hash) string
   }"

definition insertString ::
  "('s \<Rightarrow> u32 \<Rightarrow> (u32 \<times> 's) option) \<Rightarrow> bytes \<Rightarrow> 's StringMap \<Rightarrow> u32 \<Rightarrow> (u32 \<times> 's StringMap) option" where
  "insertString alloc m st string = do {
     hash \<leftarrow> hashString m string;
     st \<leftarrow> insertId alloc st hash string;
     Some (hash, st)
   }"

text \<open>
  The walk of \<open>retrieveString\<close> and \<open>discardString\<close>: \<open>Some None\<close> is the early return at a null pointer.
\<close>

fun findLayer :: "u32 \<Rightarrow> nat list \<Rightarrow> 's StringMap \<Rightarrow> MapLayer \<Rightarrow> MapLayer option option" where
  "findLayer stringId [] st current = Some (Some current)"
| "findLayer stringId (startBit # rest) st current = do {
     nextLayer \<leftarrow> layerGet st current (digit stringId startBit);
     if nextLayer = 0 then Some None else findLayer stringId rest st (LayerAt nextLayer)
   }"

definition retrieveString :: "'s StringMap \<Rightarrow> u32 \<Rightarrow> u32 option" where
  "retrieveString st stringId = do {
     found \<leftarrow> findLayer stringId startBits st RootLayer;
     (case found of None \<Rightarrow> Some 0 | Some current \<Rightarrow> layerGet st current (topDigit stringId))
   }"

definition discardString :: "('s \<Rightarrow> u32 \<Rightarrow> 's option) \<Rightarrow> 's StringMap \<Rightarrow> u32 \<Rightarrow> 's StringMap option" where
  "discardString release st stringId = do {
     found \<leftarrow> findLayer stringId startBits st RootLayer;
     (case found of
        None \<Rightarrow> Some st
      | Some current \<Rightarrow> do {
          string \<leftarrow> layerGet st current (topDigit stringId);
          h \<leftarrow> release (mapHeap st) string;
          layerSet (st\<lparr>mapHeap := h\<rparr>) current (topDigit stringId) 0
        })
   }"

section \<open>The table as a tree\<close>

text \<open>
  \<open>owned st l d\<close> are the layers below \<open>l\<close> when \<open>d\<close> more levels of layers follow, and \<open>tree_ok\<close> says
  that they form a tree: every pointer to a layer leads to one, and no layer is reached twice.
\<close>

definition entry :: "'s StringMap \<Rightarrow> MapLayer \<Rightarrow> nat \<Rightarrow> u32" where
  "entry st l i = (case l of RootLayer \<Rightarrow> rootLayer st i | LayerAt a \<Rightarrow> the (layers st a) i)"

fun layer_exists :: "'s StringMap \<Rightarrow> MapLayer \<Rightarrow> bool" where
  "layer_exists st RootLayer \<longleftrightarrow> True"
| "layer_exists st (LayerAt a) \<longleftrightarrow> a \<in> dom (layers st)"

fun owned :: "'s StringMap \<Rightarrow> nat \<Rightarrow> MapLayer \<Rightarrow> u32 set" where
  "owned st 0 l = {}"
| "owned st (Suc d) l = (\<Union>i \<in> {i. i < 16 \<and> entry st l i \<noteq> 0}. insert (entry st l i) (owned st d (LayerAt (entry st l i))))"

definition below :: "'s StringMap \<Rightarrow> nat \<Rightarrow> u32 \<Rightarrow> u32 set" where
  "below st d a = (if a = 0 then {} else insert a (owned st d (LayerAt a)))"

fun tree_ok :: "'s StringMap \<Rightarrow> nat \<Rightarrow> MapLayer \<Rightarrow> bool" where
  "tree_ok st 0 l \<longleftrightarrow> layer_exists st l"
| "tree_ok st (Suc d) l \<longleftrightarrow> layer_exists st l \<and>
     (\<forall>i < 16. entry st l i \<noteq> 0 \<longrightarrow> tree_ok st d (LayerAt (entry st l i)) \<and>
        entry st l i \<notin> owned st d (LayerAt (entry st l i)) \<and> LayerAt (entry st l i) \<noteq> l \<and>
        (\<forall>a \<in> owned st d (LayerAt (entry st l i)). LayerAt a \<noteq> l)) \<and>
     (\<forall>i < 16. \<forall>j < 16. i \<noteq> j \<longrightarrow> below st d (entry st l i) \<inter> below st d (entry st l j) = {})"

text \<open>Looking up a list of digits below a layer; \<open>retrieveString\<close> does this with all eight digits.\<close>

fun lookup :: "'s StringMap \<Rightarrow> MapLayer \<Rightarrow> nat list \<Rightarrow> u32" where
  "lookup st l [] = 0"
| "lookup st l [i] = entry st l i"
| "lookup st l (i # is) = (if entry st l i = 0 then 0 else lookup st (LayerAt (entry st l i)) is)"

lemma below_in_owned:
  "i < 16 \<Longrightarrow> entry st l i \<noteq> 0 \<Longrightarrow> insert (entry st l i) (owned st d (LayerAt (entry st l i))) \<subseteq> owned st (Suc d) l"
  by auto

lemma tree_okD:
  assumes "tree_ok st (Suc d) l" and "i < 16" and "entry st l i \<noteq> 0"
  shows "tree_ok st d (LayerAt (entry st l i))" and "entry st l i \<notin> owned st d (LayerAt (entry st l i))"
    and "a \<in> below st d (entry st l i) \<Longrightarrow> LayerAt a \<noteq> l"
    and "j < 16 \<Longrightarrow> i \<noteq> j \<Longrightarrow> below st d (entry st l i) \<inter> below st d (entry st l j) = {}"
proof -
  have c: "tree_ok st d (LayerAt (entry st l i)) \<and> entry st l i \<notin> owned st d (LayerAt (entry st l i)) \<and>
      LayerAt (entry st l i) \<noteq> l \<and> (\<forall>a \<in> owned st d (LayerAt (entry st l i)). LayerAt a \<noteq> l)"
    using assms unfolding tree_ok.simps by blast
  then show "tree_ok st d (LayerAt (entry st l i))" "entry st l i \<notin> owned st d (LayerAt (entry st l i))"
    by blast+
  show "a \<in> below st d (entry st l i) \<Longrightarrow> LayerAt a \<noteq> l"
    using c assms(3) by (auto simp: below_def simp del: owned.simps)
  show "j < 16 \<Longrightarrow> i \<noteq> j \<Longrightarrow> below st d (entry st l i) \<inter> below st d (entry st l j) = {}"
    using assms unfolding tree_ok.simps by blast
qed

lemma tree_ok_exists: "tree_ok st d l \<Longrightarrow> layer_exists st l"
  by (cases d) auto

lemma owned_dom: "tree_ok st d l \<Longrightarrow> owned st d l \<subseteq> dom (layers st)"
proof (induction d arbitrary: l)
  case (Suc d)
  have "insert (entry st l i) (owned st d (LayerAt (entry st l i))) \<subseteq> dom (layers st)"
    if "i < 16" "entry st l i \<noteq> 0" for i
  proof -
    note t = tree_okD(1) [OF Suc.prems that]
    show ?thesis using Suc.IH [OF t] tree_ok_exists [OF t] by simp
  qed
  then show ?case by auto
qed simp

definition agree :: "'s StringMap \<Rightarrow> 's StringMap \<Rightarrow> MapLayer \<Rightarrow> u32 set \<Rightarrow> bool" where
  "agree st st' l A \<longleftrightarrow> (l = RootLayer \<longrightarrow> rootLayer st' = rootLayer st) \<and>
     (\<forall>a. LayerAt a = l \<or> a \<in> A \<longrightarrow> layers st' a = layers st a)"

lemma agree_entry: "agree st st' l A \<Longrightarrow> entry st' l = entry st l"
  by (cases l) (auto simp: agree_def entry_def fun_eq_iff)

lemma agree_child:
  assumes "agree st st' l (owned st (Suc d) l)" and "i < 16" and "entry st l i \<noteq> 0"
  shows "agree st st' (LayerAt (entry st l i)) (owned st d (LayerAt (entry st l i)))"
  using assms(1) below_in_owned [OF assms(2,3), of d] unfolding agree_def by blast

lemma frame_tree:
  assumes "agree st st' l (owned st d l)"
  shows "owned st' d l = owned st d l" and "tree_ok st d l \<Longrightarrow> tree_ok st' d l"
    and "length is = Suc d \<Longrightarrow> set is \<subseteq> {..<16} \<Longrightarrow> lookup st' l is = lookup st l is"
  using assms
proof (induction d arbitrary: l "is")
  case 0
  {
    case 1
    then show ?case by simp
  next
    case 2
    then show ?case by (cases l) (auto simp: agree_def)
  next
    case 3
    then show ?case using agree_entry [of st st' l] by (cases "is") auto
  }
next
  case (Suc d)
  {
    case 1
    note e = agree_entry [OF 1]
    have "owned st' d (LayerAt (entry st l i)) = owned st d (LayerAt (entry st l i))" if "i < 16" "entry st l i \<noteq> 0" for i
      using Suc.IH(1) [OF agree_child [OF 1 that]] .
    then show ?case by (auto simp: e)
  next
    case 2
    note e = agree_entry [OF 2(2)]
    have sub: "owned st' d (LayerAt (entry st l i)) = owned st d (LayerAt (entry st l i))"
      "tree_ok st' d (LayerAt (entry st l i))" if "i < 16" "entry st l i \<noteq> 0" for i
      using Suc.IH(1) [OF agree_child [OF 2(2) that]]
        Suc.IH(2) [OF tree_okD(1) [OF 2(1) that] agree_child [OF 2(2) that]] by simp_all
    have "below st' d (entry st l i) = below st d (entry st l i)" if "i < 16" for i
      using sub(1) [OF that] by (simp add: below_def)
    moreover have "layer_exists st' l" using 2 by (cases l) (auto simp: agree_def)
    ultimately show ?case using 2(1) sub by (simp add: e del: owned.simps)
  next
    case 3
    note e = agree_entry [OF 3(3)]
    obtain i j js where ij: "is = i # j # js" "length (j # js) = Suc d" "i < 16" "set (j # js) \<subseteq> {..<16}"
      using 3(1,2) by (cases "is"; cases "tl is") auto
    have "lookup st' (LayerAt (entry st l i)) (j # js) = lookup st (LayerAt (entry st l i)) (j # js)" if "entry st l i \<noteq> 0"
      using Suc.IH(3) [OF ij(2,4) agree_child [OF 3(3) ij(3) that]] .
    then show ?case by (simp add: ij(1) e)
  }
qed

text \<open>\<open>updates st st' l d path v\<close>: below \<open>l\<close> exactly the entry of \<open>path\<close> became \<open>v\<close>.\<close>

definition updates :: "'s StringMap \<Rightarrow> 's StringMap \<Rightarrow> MapLayer \<Rightarrow> nat \<Rightarrow> nat list \<Rightarrow> u32 \<Rightarrow> bool" where
  "updates st st' l d path v \<longleftrightarrow> tree_ok st' d l \<and> owned st' d l \<subseteq> owned st d l \<union> - dom (layers st) \<and>
     dom (layers st) \<subseteq> dom (layers st') \<and>
     (\<forall>a \<in> dom (layers st). LayerAt a \<noteq> l \<and> a \<notin> owned st d l \<longrightarrow> layers st' a = layers st a) \<and>
     (l \<noteq> RootLayer \<longrightarrow> rootLayer st' = rootLayer st) \<and>
     (\<forall>is. length is = Suc d \<and> set is \<subseteq> {..<16} \<longrightarrow> lookup st' l is = (if is = path then v else lookup st l is))"

lemma updates_leaf:
  assumes "layer_exists st l" and "t < 16"
  shows "\<exists>st'. layerSet st l t v = Some st' \<and> updates st st' l 0 [t] v \<and> mapHeap st' = mapHeap st \<and>
    dom (layers st') = dom (layers st)"
proof (cases l)
  case RootLayer
  let ?st = "st\<lparr>rootLayer := (rootLayer st)(t := v)\<rparr>"
  have "updates st ?st RootLayer 0 [t] v"
    unfolding updates_def by (auto simp: entry_def length_Suc_conv split: if_splits)
  then show ?thesis using assms RootLayer by simp
next
  case (LayerAt a)
  then obtain f where f: "layers st a = Some f" using assms by auto
  let ?st = "st\<lparr>layers := (layers st)(a \<mapsto> f(t := v))\<rparr>"
  have "updates st ?st l 0 [t] v"
    unfolding updates_def using f LayerAt by (auto simp: entry_def length_Suc_conv split: if_splits)
  then show ?thesis using assms LayerAt f by (auto simp: insert_absorb domI)
qed

lemma layerGet_entry: "layer_exists st l \<Longrightarrow> i < 16 \<Longrightarrow> layerGet st l i = Some (entry st l i)"
  by (cases l) (auto simp: entry_def)

lemma updates_descend:
  assumes ok: "tree_ok st (Suc d) l" and n: "n < 16" and c: "entry st l n \<noteq> 0"
    and up: "updates st st' (LayerAt (entry st l n)) d path v"
  shows "updates st st' l (Suc d) (n # path) v"
proof -
  let ?c = "entry st l n"
  have new: "owned st' d (LayerAt ?c) \<subseteq> owned st d (LayerAt ?c) \<union> - dom (layers st)"
    and keep: "\<And>a. a \<in> dom (layers st) \<Longrightarrow> a \<noteq> ?c \<Longrightarrow> a \<notin> owned st d (LayerAt ?c) \<Longrightarrow> layers st' a = layers st a"
    and root: "rootLayer st' = rootLayer st" and grow: "dom (layers st) \<subseteq> dom (layers st')"
    and look: "\<And>is. length is = Suc d \<Longrightarrow> set is \<subseteq> {..<16} \<Longrightarrow>
      lookup st' (LayerAt ?c) is = (if is = path then v else lookup st (LayerAt ?c) is)"
    and tree: "tree_ok st' d (LayerAt ?c)"
    using up unfolding updates_def by auto
  have l: "layer_exists st l" by (rule tree_ok_exists [OF ok])
  have l_out: "LayerAt a \<noteq> l" if "a \<in> below st d ?c" for a by (rule tree_okD(3) [OF ok n c that])
  have agree_l: "agree st st' l {}"
    unfolding agree_def
  proof (intro conjI allI impI)
    fix a assume "LayerAt a = l \<or> a \<in> {}"
    then have "LayerAt a = l" by simp
    moreover then have "a \<noteq> ?c" "a \<notin> owned st d (LayerAt ?c)" using l_out c by (auto simp: below_def)
    ultimately show "layers st' a = layers st a" using keep l by auto
  qed (simp add: root)
  note e = agree_entry [OF agree_l]
  have other: "agree st st' (LayerAt (entry st l i)) (owned st d (LayerAt (entry st l i)))"
    if "i < 16" "entry st l i \<noteq> 0" "i \<noteq> n" for i
  proof -
    have "below st d (entry st l i) \<inter> below st d ?c = {}" by (rule tree_okD(4) [OF ok that(1,2) n that(3)])
    moreover have "below st d (entry st l i) \<subseteq> dom (layers st)"
      using owned_dom [OF tree_okD(1) [OF ok that(1,2)]] tree_ok_exists [OF tree_okD(1) [OF ok that(1,2)]] that(2)
      by (simp add: below_def)
    ultimately have "layers st' a = layers st a" if "a \<in> below st d (entry st l i)" for a
    proof -
      have "a \<in> dom (layers st)" "a \<notin> below st d ?c" using \<open>below st d _ \<inter> _ = {}\<close> \<open>below st d _ \<subseteq> _\<close> that by blast+
      then show ?thesis using keep [of a] c by (simp add: below_def)
    qed
    then show ?thesis using that(2) by (auto simp: agree_def below_def)
  qed
  have sub: "below st' d (entry st l i) = below st d (entry st l i)" if "i < 16" "i \<noteq> n" for i
    using frame_tree(1) [OF other [OF that(1) _ that(2)]] by (auto simp: below_def)
  have sub_n: "below st' d ?c \<subseteq> below st d ?c \<union> - dom (layers st)"
    using new by (auto simp: below_def)
  have in_dom: "below st d (entry st l i) \<subseteq> dom (layers st)" if "i < 16" for i
    using owned_dom [OF tree_okD(1) [OF ok that]] tree_ok_exists [OF tree_okD(1) [OF ok that]] by (auto simp: below_def)
  have tr: "tree_ok st' d (LayerAt (entry st l i))" if "i < 16" "entry st l i \<noteq> 0" for i
    using tree frame_tree(2) [OF other [OF that] tree_okD(1) [OF ok that]] by (cases "i = n") auto
  have notin: "entry st l i \<notin> owned st' d (LayerAt (entry st l i))" if "i < 16" "entry st l i \<noteq> 0" for i
  proof (cases "i = n")
    case True
    have "?c \<in> dom (layers st)" using in_dom [OF n] c by (auto simp: below_def)
    then show ?thesis using True new tree_okD(2) [OF ok n c] by auto
  next
    case False
    then show ?thesis using frame_tree(1) [OF other [OF that False]] tree_okD(2) [OF ok that] by simp
  qed
  have outl: "LayerAt a \<noteq> l" if "i < 16" "entry st l i \<noteq> 0" "a \<in> below st' d (entry st l i)" for i a
  proof (cases "i = n")
    case True
    then have "a \<in> below st d ?c \<or> a \<notin> dom (layers st)" using sub_n that(3) by auto
    then show ?thesis using l_out l by (cases l) auto
  next
    case False
    then show ?thesis using tree_okD(3) [OF ok that(1,2)] sub [OF that(1) False] that(3) by simp
  qed
  have dis: "below st' d (entry st l i) \<inter> below st' d (entry st l j) = {}" if ij: "i < 16" "j < 16" "i \<noteq> j" for i j
  proof -
    have old: "below st d (entry st l i) \<inter> below st d (entry st l j) = {}"
    proof (cases "entry st l i = 0")
      case False
      show ?thesis by (rule tree_okD(4) [OF ok ij(1) False ij(2,3)])
    qed (simp add: below_def)
    have part: "below st' d ?c \<inter> below st d (entry st l k) = {}"
      if "below st d ?c \<inter> below st d (entry st l k) = {}" "k < 16" for k
      using that sub_n in_dom [OF that(2)] by blast
    consider "i = n" "j \<noteq> n" | "j = n" "i \<noteq> n" | "i \<noteq> n" "j \<noteq> n" using ij(3) by blast
    then show ?thesis
    proof cases
      case 1
      then show ?thesis using part [OF _ ij(2)] old sub [OF ij(2)] by simp
    next
      case 2
      then show ?thesis using part [OF _ ij(1)] old sub [OF ij(1)] by (simp add: Int_commute)
    next
      case 3
      then show ?thesis using old sub ij by simp
    qed
  qed
  have layer': "layer_exists st' l" using l grow by (cases l) auto
  have tree': "tree_ok st' (Suc d) l"
    using layer' tr notin outl dis unfolding tree_ok.simps e by (auto simp: below_def simp del: owned.simps)
  have own: "owned st' (Suc d) l = (\<Union>i \<in> {i. i < 16}. below st' d (entry st l i))"
    "owned st (Suc d) l = (\<Union>i \<in> {i. i < 16}. below st d (entry st l i))"
    by (auto simp: e below_def)
  have "owned st' (Suc d) l \<subseteq> owned st (Suc d) l \<union> - dom (layers st)"
  proof
    fix a assume "a \<in> owned st' (Suc d) l"
    then obtain i where i: "i < 16" "a \<in> below st' d (entry st l i)" unfolding own by blast
    then have "a \<in> below st d (entry st l i) \<union> - dom (layers st)"
      using sub_n sub [OF i(1)] by (cases "i = n") auto
    then show "a \<in> owned st (Suc d) l \<union> - dom (layers st)" unfolding own using i(1) by blast
  qed
  moreover have "layers st' a = layers st a" if "a \<in> dom (layers st)" "a \<notin> owned st (Suc d) l" for a
    using keep [OF that(1)] that(2) below_in_owned [OF n c, of d] by blast
  moreover have "lookup st' l is = (if is = n # path then v else lookup st l is)"
    if len: "length is = Suc (Suc d)" and dg: "set is \<subseteq> {..<16}" for "is"
  proof -
    obtain i j js where ij: "is = i # j # js" "length (j # js) = Suc d" "i < 16" "set (j # js) \<subseteq> {..<16}"
      using len dg by (cases "is"; cases "tl is") auto
    show ?thesis
    proof (cases "i = n")
      case True
      then show ?thesis using look [OF ij(2,4)] c by (simp add: ij(1) e)
    next
      case False
      then show ?thesis using frame_tree(3) [OF other [OF ij(3) _ False] ij(2,4)] by (auto simp: ij(1) e)
    qed
  qed
  ultimately show ?thesis
    unfolding updates_def using tree' grow root by blast
qed

text \<open>An empty layer added at a null pointer changes no lookup.\<close>

lemma grow_layer:
  assumes ok: "tree_ok st (Suc d) l" and n: "n < 16" and null: "entry st l n = 0"
    and a: "a \<notin> dom (layers st)" "a \<noteq> 0"
    and set: "layerSet (st\<lparr>mapHeap := h, layers := (layers st)(a \<mapsto> (\<lambda>_. 0))\<rparr>) l n a = Some st'"
  shows "updates st st' l (Suc d) [] 0" and "entry st' l n = a" and "mapHeap st' = h"
    and "dom (layers st') = insert a (dom (layers st))"
proof -
  have l: "layer_exists st l" by (rule tree_ok_exists [OF ok])
  have la: "LayerAt a \<noteq> l" using l a(1) by auto
  have lay: "layers st' x = (if x = a then Some (\<lambda>_. 0) else layers st x)" if "LayerAt x \<noteq> l" for x
    using set that la l by (cases l) (auto split: bind_splits)
  have root: "l \<noteq> RootLayer \<Longrightarrow> rootLayer st' = rootLayer st"
    using set by (cases l) (auto split: bind_splits)
  have e: "entry st' l i = (if i = n then a else entry st l i)" for i
    using set n la l by (cases l) (auto simp: entry_def split: bind_splits)
  show "entry st' l n = a" by (simp add: e)
  show "mapHeap st' = h" using set by (cases l) (auto split: bind_splits)
  show dom: "dom (layers st') = insert a (dom (layers st))"
    using set l la by (cases l) (auto split: bind_splits if_splits)
  have ea: "entry st' (LayerAt a) i = 0" for i using lay [OF la] by (simp add: entry_def)
  have empty: "owned st' k (LayerAt a) = {}" for k
    using ea by (cases k) simp_all
  have empty_ok: "tree_ok st' k (LayerAt a)" for k
    using ea dom by (cases k) (simp_all add: below_def)
  have zero: "lookup st' (LayerAt a) is = 0" for "is"
    using ea by (cases "is"; cases "tl is") auto
  have same: "agree st st' (LayerAt (entry st l i)) (owned st d (LayerAt (entry st l i)))"
    if ii: "i < 16" "entry st l i \<noteq> 0" for i
  proof -
    have "layers st' x = layers st x" if x: "x \<in> below st d (entry st l i)" for x
    proof -
      have "x \<in> dom (layers st)"
        using x owned_dom [OF tree_okD(1) [OF ok ii]] tree_ok_exists [OF tree_okD(1) [OF ok ii]]
        by (auto simp: below_def split: if_splits)
      then show ?thesis using lay [OF tree_okD(3) [OF ok ii x]] a(1) by auto
    qed
    then show ?thesis using ii by (auto simp: agree_def below_def)
  qed
  have b: "below st' d (entry st' l i) = (if i = n then {a} else below st d (entry st l i))" if "i < 16" for i
    using frame_tree(1) [OF same [OF that]] a(2) empty by (auto simp: e below_def)
  have in_dom: "below st d (entry st l i) \<subseteq> dom (layers st)" if "i < 16" for i
    using owned_dom [OF tree_okD(1) [OF ok that]] tree_ok_exists [OF tree_okD(1) [OF ok that]] by (auto simp: below_def)
  have tr: "tree_ok st' d (LayerAt (entry st' l i))" "entry st' l i \<notin> owned st' d (LayerAt (entry st' l i))"
    if "i < 16" "entry st' l i \<noteq> 0" for i
    using that empty empty_ok frame_tree(1,2) [OF same] tree_okD(1,2) [OF ok] by (auto simp: e split: if_splits)
  have outl: "LayerAt x \<noteq> l" if "i < 16" "x \<in> below st' d (entry st' l i)" for i x
    using that b [OF that(1)] la tree_okD(3) [OF ok that(1)] by (auto simp: below_def split: if_splits)
  have dis: "below st' d (entry st' l i) \<inter> below st' d (entry st' l j) = {}" if "i < 16" "j < 16" "i \<noteq> j" for i j
  proof -
    have "below st d (entry st l i) \<inter> below st d (entry st l j) = {}"
      using tree_okD(4) [OF ok that(1) _ that(2,3)] by (cases "entry st l i = 0") (auto simp: below_def)
    then show ?thesis using b that in_dom [OF that(1)] in_dom [OF that(2)] a(1) by auto
  qed
  have layer': "layer_exists st' l" using l dom by (cases l) auto
  have tree': "tree_ok st' (Suc d) l"
    using layer' tr outl dis unfolding tree_ok.simps by (auto simp: below_def simp del: owned.simps)
  have own: "owned st' (Suc d) l = (\<Union>i \<in> {i. i < 16}. below st' d (entry st' l i))"
    "owned st (Suc d) l = (\<Union>i \<in> {i. i < 16}. below st d (entry st l i))"
    by (auto simp: below_def)
  have "owned st' (Suc d) l \<subseteq> owned st (Suc d) l \<union> - dom (layers st)"
    unfolding own using b a(1) by auto
  moreover have "lookup st' l is = lookup st l is" if len: "length is = Suc (Suc d)" and dg: "set is \<subseteq> {..<16}" for "is"
  proof -
    obtain i j js where ij: "is = i # j # js" "length (j # js) = Suc d" "i < 16" "set (j # js) \<subseteq> {..<16}"
      using len dg by (cases "is"; cases "tl is") auto
    show ?thesis
      using frame_tree(3) [OF same [OF ij(3)] ij(2,4)] zero [of "j # js"] null by (auto simp: ij(1) e)
  qed
  moreover have "layers st' x = layers st x" if "x \<in> dom (layers st)" "LayerAt x \<noteq> l" for x
    using lay [OF that(2)] that(1) a(1) by auto
  ultimately show "updates st st' l (Suc d) [] 0"
    unfolding updates_def using tree' dom root by auto
qed

lemma updates_after_grow:
  assumes "updates st st1 l d [] 0" and "updates st1 st' l d path v"
  shows "updates st st' l d path v"
proof -
  have a: "owned st1 d l \<subseteq> owned st d l \<union> - dom (layers st)" "dom (layers st) \<subseteq> dom (layers st1)"
    "\<And>x. x \<in> dom (layers st) \<Longrightarrow> LayerAt x \<noteq> l \<Longrightarrow> x \<notin> owned st d l \<Longrightarrow> layers st1 x = layers st x"
    "l \<noteq> RootLayer \<Longrightarrow> rootLayer st1 = rootLayer st"
    "\<And>is. length is = Suc d \<Longrightarrow> set is \<subseteq> {..<16} \<Longrightarrow> lookup st1 l is = lookup st l is"
    using assms(1) unfolding updates_def by auto
  have b: "tree_ok st' d l" "owned st' d l \<subseteq> owned st1 d l \<union> - dom (layers st1)" "dom (layers st1) \<subseteq> dom (layers st')"
    "\<And>x. x \<in> dom (layers st1) \<Longrightarrow> LayerAt x \<noteq> l \<Longrightarrow> x \<notin> owned st1 d l \<Longrightarrow> layers st' x = layers st1 x"
    "l \<noteq> RootLayer \<Longrightarrow> rootLayer st' = rootLayer st1"
    "\<And>is. length is = Suc d \<Longrightarrow> set is \<subseteq> {..<16} \<Longrightarrow> lookup st' l is = (if is = path then v else lookup st1 l is)"
    using assms(2) unfolding updates_def by auto
  have "layers st' x = layers st x" if "x \<in> dom (layers st)" "LayerAt x \<noteq> l" "x \<notin> owned st d l" for x
    using a(1,2) a(3) [OF that] b(4) [of x] that by auto
  moreover have "owned st' d l \<subseteq> owned st d l \<union> - dom (layers st)" using a(1,2) b(2) by blast
  ultimately show ?thesis
    unfolding updates_def using a(2,4,5) b(1,3,5,6) by auto
qed

lemma digit_lt: "digit hash s < 16"
proof -
  have "drop_bit s hash AND 0xF = take_bit 4 (drop_bit s hash)"
    by (simp add: take_bit_eq_mask mask_eq_exp_minus_1)
  then have "digit hash s = unat (drop_bit s hash) mod 16"
    by (simp add: digit_def take_bit_eq_mod unat_mod)
  then show ?thesis by simp
qed

definition table_ok :: "('s \<Rightarrow> bool) \<Rightarrow> ('s \<Rightarrow> u32 set) \<Rightarrow> 's StringMap \<Rightarrow> bool" where
  "table_ok good live_at st \<longleftrightarrow> good (mapHeap st) \<and> dom (layers st) \<subseteq> live_at (mapHeap st) \<and> tree_ok st 7 RootLayer"

context allocator
begin

lemma insertLayers_spec:
  assumes "good (mapHeap st)" and "dom (layers st) \<subseteq> live_at (mapHeap st)" and "tree_ok st (length bits) l"
    and "insertLayers alloc hash bits st l = Some (current, st1)" and "t < 16"
  shows "\<exists>st'. layerSet st1 current t v = Some st' \<and> updates st st' l (length bits) (map (digit hash) bits @ [t]) v \<and>
    good (mapHeap st') \<and> dom (layers st') \<subseteq> live_at (mapHeap st') \<and> live_at (mapHeap st) \<subseteq> live_at (mapHeap st')"
  using assms
proof (induction bits arbitrary: st l)
  case Nil
  then have "layer_exists st l" by simp
  from updates_leaf [OF this Nil.prems(5), of v] Nil.prems show ?case by auto
next
  case (Cons b bits)
  let ?n = "digit hash b"
  have n: "?n < 16" by (rule digit_lt)
  have ok: "tree_ok st (Suc (length bits)) l" using Cons.prems(3) by simp
  note get = layerGet_entry [OF tree_ok_exists [OF ok] n]
  have walk: ?case if c: "entry st2 l ?n \<noteq> 0" and ok2: "tree_ok st2 (Suc (length bits)) l"
    and h2: "good (mapHeap st2)" "dom (layers st2) \<subseteq> live_at (mapHeap st2)" "live_at (mapHeap st) \<subseteq> live_at (mapHeap st2)"
    and up: "st2 = st \<or> updates st st2 l (Suc (length bits)) [] 0"
    and rest: "insertLayers alloc hash bits st2 (LayerAt (entry st2 l ?n)) = Some (current, st1)" for st2
  proof -
    from Cons.IH [OF h2(1,2) tree_okD(1) [OF ok2 n c] rest Cons.prems(5)] obtain st' where
      st': "layerSet st1 current t v = Some st'"
      "updates st2 st' (LayerAt (entry st2 l ?n)) (length bits) (map (digit hash) bits @ [t]) v"
      "good (mapHeap st')" "dom (layers st') \<subseteq> live_at (mapHeap st')" "live_at (mapHeap st2) \<subseteq> live_at (mapHeap st')"
      by blast
    have "updates st2 st' l (Suc (length bits)) (?n # map (digit hash) bits @ [t]) v"
      by (rule updates_descend [OF ok2 n c st'(2)])
    then have "updates st st' l (Suc (length bits)) (?n # map (digit hash) bits @ [t]) v"
      using up updates_after_grow by blast
    then show ?thesis using st' h2(3) by auto
  qed
  show ?case
  proof (cases "entry st l ?n = 0")
    case False
    then have "insertLayers alloc hash bits st (LayerAt (entry st l ?n)) = Some (current, st1)"
      using Cons.prems(4) get by simp
    with walk [OF False ok] Cons.prems(1,2) show ?thesis by blast
  next
    case True
    obtain a h st2 where al: "alloc (mapHeap st) 64 = Some (a, h)"
      and set: "layerSet (st\<lparr>mapHeap := h, layers := (layers st)(a \<mapsto> (\<lambda>_. 0))\<rparr>) l ?n a = Some st2"
      and rest: "insertLayers alloc hash bits st2 (LayerAt a) = Some (current, st1)"
      using Cons.prems(4) get True by (auto split: bind_splits)
    have law: "good h" "a \<noteq> 0" "a \<notin> live_at (mapHeap st)" "live_at h = insert a (live_at (mapHeap st))"
      using alloc_law [OF Cons.prems(1) _ _ al] by simp_all
    then have "a \<notin> dom (layers st)" using Cons.prems(2) by blast
    note g = grow_layer [OF ok n True this law(2) set]
    have ok2: "tree_ok st2 (Suc (length bits)) l" using g(1) by (simp only: updates_def)
    show ?thesis
      by (rule walk [OF _ ok2]) (use g law rest Cons.prems(2) in auto)
  qed
qed

end

lemma findLayer_spec:
  assumes "tree_ok st (length bits) l" and "t < 16"
  shows "(findLayer stringId bits st l = Some None \<and> lookup st l (map (digit stringId) bits @ [t]) = 0) \<or>
    (\<exists>c. findLayer stringId bits st l = Some (Some c) \<and> layer_exists st c \<and>
       lookup st l (map (digit stringId) bits @ [t]) = entry st c t)"
  using assms
proof (induction bits arbitrary: l)
  case (Cons b bits)
  let ?n = "digit stringId b"
  have n: "?n < 16" by (rule digit_lt)
  have ok: "tree_ok st (Suc (length bits)) l" using Cons.prems(1) by simp
  note get = layerGet_entry [OF tree_ok_exists [OF ok] n]
  have look: "lookup st l (?n # map (digit stringId) bits @ [t]) =
      (if entry st l ?n = 0 then 0 else lookup st (LayerAt (entry st l ?n)) (map (digit stringId) bits @ [t]))"
    by (cases bits) simp_all
  show ?case
  proof (cases "entry st l ?n = 0")
    case True
    then show ?thesis using get look by simp
  next
    case False
    from Cons.IH [OF tree_okD(1) [OF ok n False] Cons.prems(2)] False get look show ?thesis by simp
  qed
qed simp

lemma findLayer_insertLayers:
  "findLayer stringId bits st l = Some (Some c) \<Longrightarrow>
     insertLayers alloc stringId bits (st\<lparr>mapHeap := h\<rparr>) l = Some (c, st\<lparr>mapHeap := h\<rparr>)"
proof (induction bits arbitrary: l)
  case (Cons b bits)
  have "layerGet (st\<lparr>mapHeap := h\<rparr>) l = layerGet st l" by (cases l) (simp_all add: fun_eq_iff)
  with Cons show ?case by (auto split: bind_splits if_splits)
qed simp

section \<open>The table as a function of the numbers\<close>

definition digits :: "u32 \<Rightarrow> nat list" where
  "digits stringId = map (digit stringId) startBits @ [topDigit stringId]"

lemma topDigit_lt: "topDigit x < 16"
proof -
  have "unat x < 16 * 2 ^ 28" using unat_u32_bound [of x] by simp
  then show ?thesis by (simp add: topDigit_def unat_drop_bit less_mult_imp_div_less)
qed

lemma digits_shape: "length (digits x) = 8" "set (digits x) \<subseteq> {..<16}"
  by (auto simp: digits_def startBits_def digit_lt topDigit_lt)

lemma digit_bit: "digit x s = digit y s \<Longrightarrow> s \<le> n \<Longrightarrow> n < s + 4 \<Longrightarrow> bit x n = bit y n"
proof -
  assume "digit x s = digit y s" and n: "s \<le> n" "n < s + 4"
  then have "drop_bit s x AND mask 4 = drop_bit s y AND mask 4"
    by (simp add: digit_def mask_eq_exp_minus_1 word_unat_eq_iff)
  then have "bit (drop_bit s x AND mask 4) (n - s) = bit (drop_bit s y AND mask 4) (n - s)" by simp
  moreover have "n - s < 4" using n by simp
  ultimately show ?thesis using n(1) by (simp add: bit_simps)
qed

lemma digits_inj: "digits x = digits y \<Longrightarrow> x = y"
proof -
  assume eq: "digits x = digits y"
  then have d: "digit x s = digit y s" if "s \<in> set startBits" for s
    using that by (auto simp: digits_def startBits_def)
  have top: "drop_bit 28 x = drop_bit 28 y" using eq by (simp add: digits_def topDigit_def word_unat_eq_iff)
  have "bit x n = bit y n" if "n < 32" for n
  proof (cases "n < 28")
    case True
    then have "4 * (n div 4) \<in> set startBits"
      by (auto simp: startBits_def)
    from digit_bit [OF d [OF this]] show ?thesis by simp
  next
    case False
    have "bit (drop_bit 28 x) (n - 28) = bit (drop_bit 28 y) (n - 28)" using top by simp
    with False show ?thesis by (simp add: bit_simps)
  qed
  then show "x = y" by (auto simp: bit_eq_iff bit_simps)
qed

lemma retrieve_lookup:
  assumes "tree_ok st 7 RootLayer"
  shows "retrieveString st stringId = Some (lookup st RootLayer (digits stringId))"
proof -
  have len: "length startBits = 7" by (simp add: startBits_def)
  from findLayer_spec [of st startBits RootLayer "topDigit stringId" stringId, unfolded len, OF assms topDigit_lt] show ?thesis
    using layerGet_entry topDigit_lt by (fastforce simp: retrieveString_def digits_def)
qed

lemma updates_retrieve:
  assumes "tree_ok st 7 RootLayer" and "updates st st' RootLayer 7 (digits x) v"
  shows "retrieveString st' y = (if y = x then Some v else retrieveString st y)" and "tree_ok st' 7 RootLayer"
proof -
  show t: "tree_ok st' 7 RootLayer" using assms(2) by (simp only: updates_def)
  have "lookup st' RootLayer (digits y) = (if digits y = digits x then v else lookup st RootLayer (digits y))"
    using assms(2) digits_shape [of y] unfolding updates_def by simp
  then show "retrieveString st' y = (if y = x then Some v else retrieveString st y)"
    using digits_inj by (auto simp: retrieve_lookup [OF t] retrieve_lookup [OF assms(1)])
qed

locale string_table =
  fixes ok :: "'t \<Rightarrow> bool" and find :: "'t \<Rightarrow> u32 \<Rightarrow> u32 option" and put :: "'t \<Rightarrow> u32 \<Rightarrow> u32 \<Rightarrow> 't option"
    and disposable :: "'t \<Rightarrow> u32 \<Rightarrow> bool" and discard :: "'t \<Rightarrow> u32 \<Rightarrow> 't option"
  assumes find_returns: "ok t \<Longrightarrow> \<exists>v. find t i = Some v"
    and put_law: "ok t \<Longrightarrow> put t i v = Some t' \<Longrightarrow> ok t' \<and> find t' j = (if j = i then Some v else find t j)"
    and discard_law: "ok t \<Longrightarrow> disposable t i \<Longrightarrow>
      \<exists>t'. discard t i = Some t' \<and> ok t' \<and> (\<forall>j. find t' j = (if j = i then Some 0 else find t j))"
begin

lemma put_put:
  assumes "ok t" and "put t i v = Some t1" and "put t1 j w = Some t2" and "i \<noteq> j"
  shows "find t2 i = Some v \<and> find t2 j = Some w"
proof -
  have "ok t1" using put_law [OF assms(1,2)] by blast
  from put_law [OF this assms(3)] put_law [OF assms(1,2), of i] assms(4) show ?thesis by auto
qed

lemma put_same:
  assumes "ok t" and "put t i v = Some t1" and "put t1 i w = Some t2"
  shows "find t2 i = Some w"
proof -
  have "ok t1" using put_law [OF assms(1,2)] by blast
  from put_law [OF this assms(3), of i] show ?thesis by simp
qed

end

definition disposable :: "('s \<Rightarrow> u32 set) \<Rightarrow> 's StringMap \<Rightarrow> u32 \<Rightarrow> bool" where
  "disposable live_at st stringId \<longleftrightarrow> (\<forall>p. retrieveString st stringId = Some p \<longrightarrow>
     p = 0 \<or> p \<in> live_at (mapHeap st) - dom (layers st))"

context allocator
begin

lemma insertId_spec:
  assumes "table_ok good live_at st" and "insertId alloc st x v = Some st'"
  shows "table_ok good live_at st'" and "retrieveString st' y = (if y = x then Some v else retrieveString st y)"
proof -
  have t: "tree_ok st 7 RootLayer" "good (mapHeap st)" "dom (layers st) \<subseteq> live_at (mapHeap st)"
    using assms(1) by (simp_all add: table_ok_def)
  obtain c st1 where l: "insertLayers alloc x startBits st RootLayer = Some (c, st1)" "layerSet st1 c (topDigit x) v = Some st'"
    using assms(2) by (auto simp: insertId_def split: bind_splits)
  have len: "length startBits = 7" by (simp add: startBits_def)
  have "updates st st' RootLayer 7 (digits x) v \<and> good (mapHeap st') \<and> dom (layers st') \<subseteq> live_at (mapHeap st')"
    using insertLayers_spec [OF t(2,3) _ l(1) topDigit_lt [of x], of v] t(1) l(2) by (simp add: len digits_def)
  then show "table_ok good live_at st'" "retrieveString st' y = (if y = x then Some v else retrieveString st y)"
    using updates_retrieve [OF t(1), of st' x v] by (simp_all add: table_ok_def)
qed

lemma discardString_spec:
  assumes "table_ok good live_at st" and "disposable live_at st x"
  shows "\<exists>st'. discardString release st x = Some st' \<and> table_ok good live_at st' \<and>
    (\<forall>y. retrieveString st' y = (if y = x then Some 0 else retrieveString st y))"
proof -
  have t: "tree_ok st 7 RootLayer" "good (mapHeap st)" "dom (layers st) \<subseteq> live_at (mapHeap st)"
    using assms(1) by (simp_all add: table_ok_def)
  have len: "length startBits = 7" by (simp add: startBits_def)
  note find = findLayer_spec [of st startBits RootLayer "topDigit x" x, unfolded len, OF t(1) topDigit_lt]
  show ?thesis
  proof (cases "findLayer x startBits st RootLayer = Some None")
    case True
    then have "retrieveString st x = Some 0" by (simp add: retrieveString_def)
    then show ?thesis using True assms(1) by (auto simp: discardString_def)
  next
    case False
    then obtain c where c: "findLayer x startBits st RootLayer = Some (Some c)" "layer_exists st c"
      using find by auto
    define p where "p = entry st c (topDigit x)"
    have get: "layerGet st c (topDigit x) = Some p" unfolding p_def by (rule layerGet_entry [OF c(2) topDigit_lt])
    then have "retrieveString st x = Some p" using c(1) by (simp add: retrieveString_def)
    then have p: "p = 0 \<or> p \<in> live_at (mapHeap st) - dom (layers st)" using assms(2) by (simp add: disposable_def)
    have "\<exists>h. release (mapHeap st) p = Some h \<and> good h \<and> dom (layers st) \<subseteq> live_at h"
    proof (cases "p = 0")
      case True
      then show ?thesis using release_null [of "mapHeap st"] t(2,3) by simp
    next
      case False
      then have q: "p \<in> live_at (mapHeap st)" "p \<notin> dom (layers st)" using p by simp_all
      obtain h where "release (mapHeap st) p = Some h" "good h" "live_at h = live_at (mapHeap st) - {p}"
        using release_law [OF t(2) q(1)] by blast
      moreover have "dom (layers st) \<subseteq> live_at (mapHeap st) - {p}" using t(3) q(2) by blast
      ultimately show ?thesis by simp
    qed
    then obtain h where h: "release (mapHeap st) p = Some h" "good h" "dom (layers st) \<subseteq> live_at h" by blast
    let ?st = "st\<lparr>mapHeap := h\<rparr>"
    have ag: "agree st ?st RootLayer (owned st 7 RootLayer)" by (simp add: agree_def)
    have tr: "tree_ok ?st 7 RootLayer" by (rule frame_tree(2) [OF ag t(1)])
    have ins: "insertLayers alloc x startBits ?st RootLayer = Some (c, ?st)" by (rule findLayer_insertLayers [OF c(1)])
    have inv: "good (mapHeap ?st)" "dom (layers ?st) \<subseteq> live_at (mapHeap ?st)" using h by simp_all
    obtain st' where st': "layerSet ?st c (topDigit x) 0 = Some st'" "updates ?st st' RootLayer 7 (digits x) 0"
      "good (mapHeap st')" "dom (layers st') \<subseteq> live_at (mapHeap st')"
      using insertLayers_spec [of ?st startBits RootLayer x c ?st "topDigit x" 0, unfolded len, OF inv tr ins topDigit_lt]
      unfolding digits_def [symmetric] by blast
    have same: "retrieveString ?st y = retrieveString st y" for y
      using frame_tree(3) [OF ag, of "digits y"] digits_shape [of y] by (simp add: retrieve_lookup [OF tr] retrieve_lookup [OF t(1)])
    have "discardString release st x = Some st'"
      using c(1) get h(1) st'(1) by (simp add: discardString_def)
    then show ?thesis
      using st' updates_retrieve [OF tr st'(2)] same by (auto simp: table_ok_def)
  qed
qed

end

sublocale allocator \<subseteq> tab: string_table "table_ok good live_at" retrieveString "insertId alloc" "disposable live_at" "discardString release"
proof
  fix t i assume "table_ok good live_at t"
  then show "\<exists>v. retrieveString t i = Some v" by (simp add: table_ok_def retrieve_lookup)
next
  fix t i v t' j assume "table_ok good live_at t" "insertId alloc t i v = Some t'"
  then show "table_ok good live_at t' \<and> retrieveString t' j = (if j = i then Some v else retrieveString t j)"
    using insertId_spec by blast
next
  fix t i assume "table_ok good live_at t" "disposable live_at t i"
  then show "\<exists>t'. discardString release t i = Some t' \<and> table_ok good live_at t' \<and>
      (\<forall>j. retrieveString t' j = (if j = i then Some 0 else retrieveString t j))"
    by (rule discardString_spec)
qed

section \<open>Properties of the string table\<close>

lemma hashLoop_cstr: "cstr m p s \<Longrightarrow> hashLoop m p h = Some (foldl (\<lambda>hash c. 257 * hash + scast c) h s)"
proof (induction s arbitrary: p h)
  case Nil
  then show ?case by (simp add: hashLoop.simps)
next
  case (Cons c s)
  then show ?case by (simp add: hashLoop.simps [of m p])
qed

lemma hashString_cstr: "cstr m p s \<Longrightarrow> hashString m p = Some (hash_of s)"
  by (simp add: hashString_def hash_of_def hashLoop_cstr)

text \<open>The value of a string of bytes below 128 as a number in base 257, without wrap-around.\<close>

definition base257 :: "u8 list \<Rightarrow> nat" where
  "base257 s = foldl (\<lambda>n c. 257 * n + unat c) 0 s"

lemma scast_ascii: "unat (c :: u8) < 128 \<Longrightarrow> scast c = (of_nat (unat c) :: u32)"
proof -
  assume lt: "unat c < 128"
  have "\<not> bit (unat c) 7" using lt by (simp add: bit_iff_odd)
  then have "\<not> bit c 7" by (simp add: bit_unsigned_iff)
  then have "\<not> bit c n" if "7 \<le> n" for n
    using that bit_imp_le_length [of c n] by (cases "n = 7") auto
  then have "scast c = (ucast c :: u32)"
    by (auto simp: bit_eq_iff bit_signed_iff bit_unsigned_iff min_def)
  moreover have "unat (ucast c :: u32) = unat c" using lt by (simp add: unsigned_ucast_eq take_bit_nat_eq_self)
  ultimately show ?thesis using lt by (simp add: word_unat_eq_iff)
qed

definition ascii :: "u8 list \<Rightarrow> bool" where
  "ascii s \<longleftrightarrow> (\<forall>c \<in> set s. 0 < unat c \<and> unat c < 128)"

lemma base257_snoc: "base257 (s @ [c]) = 257 * base257 s + unat c"
  by (simp add: base257_def)

lemma hash_base257: "ascii s \<Longrightarrow> hash_of s = of_nat (base257 s)"
proof (induction s rule: rev_induct)
  case (snoc c s)
  have "unat c < 128" "ascii s" using snoc.prems by (simp_all add: ascii_def)
  then have "scast c = (of_nat (unat c) :: u32)" "hash_of s = of_nat (base257 s)"
    using scast_ascii snoc.IH by blast+
  then show ?case unfolding base257_snoc by (simp add: hash_of_def)
qed (simp add: hash_of_def base257_def)

lemma base257_bound: "ascii s \<Longrightarrow> 2 * base257 s < 257 ^ length s"
proof (induction s rule: rev_induct)
  case (snoc c s)
  then have "unat c < 128" "2 * base257 s + 1 \<le> 257 ^ length s" by (auto simp: ascii_def)
  moreover define p where "p = (257::nat) ^ length s"
  ultimately have "2 * (257 * base257 s + unat c) < 257 * p" by simp
  then show ?case by (simp add: base257_snoc p_def)
qed (simp add: base257_def)

lemma base257_four: "ascii s \<Longrightarrow> length s \<le> 4 \<Longrightarrow> base257 s < 4294967296"
proof -
  assume "ascii s" and "length s \<le> 4"
  then have "2 * base257 s < 257 ^ length s" "(257::nat) ^ length s \<le> 257 ^ 4"
    by (simp_all only: base257_bound power_increasing one_le_numeral)
  then show ?thesis by simp
qed

lemma base257_pos: "ascii s \<Longrightarrow> s \<noteq> [] \<Longrightarrow> 0 < base257 s"
  by (cases s rule: rev_cases) (auto simp: ascii_def base257_snoc)

lemma base257_inj: "ascii s \<Longrightarrow> ascii t \<Longrightarrow> base257 s = base257 t \<Longrightarrow> s = t"
proof (induction s arbitrary: t rule: rev_induct)
  case Nil
  then show ?case using base257_pos [of t] by (auto simp: base257_def)
next
  case (snoc c s)
  have c: "0 < unat c" "unat c < 128" and s: "ascii s" using snoc.prems(1) by (simp_all add: ascii_def)
  show ?case
  proof (cases t rule: rev_cases)
    case Nil
    then show ?thesis using snoc.prems(3) c by (simp add: base257_snoc) (simp add: base257_def)
  next
    case (snoc t' d)
    have d: "0 < unat d" "unat d < 128" and t': "ascii t'" using snoc.prems(2) snoc by (simp_all add: ascii_def)
    have eq: "257 * base257 s + unat c = 257 * base257 t' + unat d"
      using snoc.prems(3) snoc by (simp add: base257_snoc)
    have "(257 * base257 s + unat c) mod 257 = (257 * base257 t' + unat d) mod 257" using eq by simp
    then have "unat c = unat d" using c(2) d(2) by simp
    then have "unat c = unat d" "base257 s = base257 t'" using eq by simp_all
    then show ?thesis using snoc.IH [OF s t'] snoc by (simp add: word_unat_eq_iff)
  qed
qed

text \<open>An allocator with a pool of 16 addresses, for the examples below.\<close>

definition pool :: "u32 list" where
  "pool = map (\<lambda>i. of_nat (0x1000 * (i + 1))) [0..<16]"

definition poolAlloc :: "u32 list \<Rightarrow> u32 \<Rightarrow> (u32 \<times> u32 list) option" where
  "poolAlloc xs n = (case filter (\<lambda>a. a \<notin> set xs) pool of [] \<Rightarrow> None | a # _ \<Rightarrow> Some (a, a # xs))"

definition poolFree :: "u32 list \<Rightarrow> u32 \<Rightarrow> u32 list option" where
  "poolFree xs a = Some (removeAll a xs)"

lemma pool_allocator:
  "allocator (\<lambda>xs. 0 \<notin> set xs) set (\<lambda>xs. filter (\<lambda>a. a \<notin> set xs) pool \<noteq> []) poolAlloc
     (\<lambda>xs a. if a = 0 then Some xs else poolFree xs a)"
proof
  have nz: "0 \<notin> set pool" by (simp add: pool_def upt_rec)
  fix xs ys :: "u32 list" and n :: u32 and a
  assume "0 \<notin> set xs" "poolAlloc xs n = Some (a, ys)"
  moreover from this obtain rest where f: "filter (\<lambda>a. a \<notin> set xs) pool = a # rest" and "ys = a # xs"
    by (auto simp: poolAlloc_def split: list.splits)
  moreover have "a \<in> set (filter (\<lambda>a. a \<notin> set xs) pool)" unfolding f by simp
  then have "a \<in> set pool" "a \<notin> set xs" by simp_all
  ultimately show "0 \<notin> set ys \<and> a \<noteq> 0 \<and> a \<notin> set xs \<and> set ys = insert a (set xs)" using nz by auto
next
  fix xs :: "u32 list" and n :: u32
  assume "filter (\<lambda>a. a \<notin> set xs) pool \<noteq> []"
  then show "\<exists>a s'. poolAlloc xs n = Some (a, s')" by (cases "filter (\<lambda>a. a \<notin> set xs) pool") (simp_all add: poolAlloc_def)
qed (auto simp: poolFree_def)

definition empty_table :: "u32 list StringMap" where
  "empty_table = \<lparr>mapHeap = [], rootLayer = (\<lambda>_. 0), layers = Map.empty\<rparr>"

lemma empty_table_ok: "table_ok (\<lambda>xs. 0 \<notin> set xs) set empty_table"
  by (simp add: table_ok_def empty_table_def entry_def numeral_eq_Suc below_def)

text \<open>
  C17. After \<open>insertString\<close> returned the number of a string, \<open>retrieveString\<close> of that number returns and
  gives the pointer that was inserted; every other number gives what it gave before.
\<close>

theorem insertString_retrieveString:
  assumes "allocator good live_at ready alloc release" and "table_ok good live_at st" and "cstr m p s"
    and "insertString alloc m st p = Some (stringId, st')"
  shows "stringId = hash_of s \<and> table_ok good live_at st' \<and> retrieveString st' stringId = Some p \<and>
     (\<forall>other. other \<noteq> stringId \<longrightarrow> retrieveString st' other = retrieveString st other)"
proof -
  have "stringId = hash_of s" "insertId alloc st (hash_of s) p = Some st'"
    using assms(4) by (auto simp: insertString_def hashString_cstr [OF assms(3)] split: bind_splits)
  with allocator.insertId_spec [OF assms(1,2)] show ?thesis by simp
qed

definition name_memory :: bytes where
  "name_memory = (\<lambda>_. 0)(0x10 := 97, 0x11 := 101, 0x12 := 97, 0x13 := 101, 0x14 := 97,
     0x20 := 98, 0x21 := 97, 0x22 := 103, 0x23 := 97, 0x24 := 98)"

lemma names: "cstr name_memory 0x10 [97, 101, 97, 101, 97]" "cstr name_memory 0x20 [98, 97, 103, 97, 98]"
  by (simp_all add: name_memory_def)

lemma hash_aeaea: "hash_of [97, 101, 97, 101, 97] = 3973700589" "hash_of [98, 97, 103, 97, 98] = 3973700589"
  by (simp_all add: hash_of_def)

lemma pool_insert: "\<exists>st. insertString poolAlloc name_memory empty_table 0x10 = Some (3973700589, st)"
  by (simp add: insertString_def hashString_cstr [OF names(1)] hash_aeaea insertId_def startBits_def
      digit_def topDigit_def empty_table_def poolAlloc_def pool_def upt_rec)

theorem insertString_retrieveString_witness:
  "\<exists>st. insertString poolAlloc name_memory empty_table 0x10 = Some (3973700589, st) \<and>
     retrieveString st 3973700589 = Some 0x10 \<and> retrieveString st 5 = Some 0"
proof -
  obtain st where st: "insertString poolAlloc name_memory empty_table 0x10 = Some (3973700589, st)"
    using pool_insert by blast
  have "retrieveString empty_table 5 = Some 0"
    by (simp add: retrieveString_def empty_table_def startBits_def digit_def)
  with insertString_retrieveString [OF pool_allocator empty_table_ok names(1) st] st show ?thesis by simp
qed

text \<open>
  \<open>discardString\<close> of a number whose string was allocated (or that has none) returns, and afterwards that
  number has no string while all others keep theirs.
\<close>

theorem discardString_removes_one:
  assumes "allocator good live_at ready alloc release" and "table_ok good live_at st"
    and "retrieveString st stringId = Some p" and "p = 0 \<or> p \<in> live_at (mapHeap st) - dom (layers st)"
  shows "\<exists>st'. discardString release st stringId = Some st' \<and> table_ok good live_at st' \<and>
     retrieveString st' stringId = Some 0 \<and>
     (\<forall>other. other \<noteq> stringId \<longrightarrow> retrieveString st' other = retrieveString st other)"
proof -
  have "disposable live_at st stringId" using assms(3,4) by (simp add: disposable_def)
  from allocator.discardString_spec [OF assms(1,2) this] show ?thesis by auto
qed

theorem discardString_removes_one_witness:
  "\<exists>st'. discardString (\<lambda>xs a. if a = 0 then Some xs else poolFree xs a) empty_table 7 = Some st' \<and>
     retrieveString st' 7 = Some 0"
proof -
  have "retrieveString empty_table 7 = Some 0"
    by (simp add: retrieveString_def empty_table_def startBits_def digit_def)
  from discardString_removes_one [OF pool_allocator empty_table_ok this] show ?thesis by auto
qed

text \<open>
  Strings of at most four bytes in the range 1 to 127 have different numbers: their hashes do not wrap
  around.
\<close>

theorem short_string_ids_distinct:
  assumes "ascii s" and "ascii t" and "length s \<le> 4" and "length t \<le> 4" and "hash_of s = hash_of t"
  shows "s = t"
proof -
  have bound: "base257 u < 4294967296" if "ascii u" "length u \<le> 4" for u
    using that base257_four by simp
  have "(of_nat (base257 s) :: u32) = of_nat (base257 t)"
    using assms hash_base257 by metis
  then have "base257 s = base257 t" using of_nat32_eq bound assms(1-4) by blast
  then show ?thesis by (rule base257_inj [OF assms(1,2)])
qed

theorem short_string_ids_distinct_witness: "hash_of [112, 105, 116] \<noteq> hash_of [112, 105, 99]"
  using short_string_ids_distinct [of "[112, 105, 116]" "[112, 105, 99]"] by (auto simp: ascii_def)


end
