(* ===== verification/Machine.thy ===== *)
theory Machine
  imports Prelude
begin

text \<open>
  The processor tables the kernel fills at start (\<open>registerInterrupts\<close> of \<open>kernel/interrupts/interrupts.c\<close>,
  \<open>setupSyscalls\<close> of \<open>kernel/syscalls/syscall.c\<close>): interrupt descriptors, segment descriptors, the task
  state, the registers for \<open>sysenter\<close>, and the first commands to the interrupt controller.
\<close>

record IdtEntry =
  offsetLow :: u16
  segment :: u16
  idt_reserved :: u8
  idt_type :: u8
  offsetHigh :: u16

record InterruptTablePointer =
  pointer_limit :: u16
  pointer_base :: u32

record GDTEntry =
  limit :: u16
  baseLow :: u16
  baseMid :: u8
  access :: u8
  granularity :: u8
  baseHigh :: u8

record TSS =
  tss_previous :: u32
  esp0 :: u32
  ss0 :: u32
  tss_esp1 :: u32
  tss_ss1 :: u32
  tss_esp2 :: u32
  tss_ss2 :: u32
  tss_cr3 :: u32
  tss_eip :: u32
  tss_eflags :: u32
  tss_eax :: u32
  tss_ecx :: u32
  tss_edx :: u32
  tss_ebx :: u32
  tss_esp :: u32
  tss_ebp :: u32
  tss_esi :: u32
  tss_edi :: u32
  tss_es :: u32
  tss_cs :: u32
  tss_ss :: u32
  tss_ds :: u32
  tss_fs :: u32
  tss_gs :: u32
  tss_ldt :: u32
  tss_trap :: u16
  tss_iomap :: u16

text \<open>
  \<open>idtHandler\<close>, \<open>tssAddress\<close>, \<open>interruptStack\<close>, \<open>idtAddress\<close> and \<open>syscallStub\<close> are addresses of symbols of the
  kernel image; \<open>taskRegister\<close>, \<open>idtPointer\<close>, \<open>msr\<close> and \<open>interruptFlag\<close> are registers of the processor.
\<close>

record Machine =
  idtEntries :: "nat \<Rightarrow> IdtEntry"
  newGDT :: "nat \<Rightarrow> GDTEntry"
  tss :: TSS
  taskRegister :: u16
  idtPointer :: InterruptTablePointer
  msr :: "u32 \<Rightarrow> u64"
  interruptFlag :: bool
  idtHandler :: "nat \<Rightarrow> u32"
  tssAddress :: u32
  interruptStack :: u32
  idtAddress :: u32
  syscallStub :: u32

text \<open>The macro \<open>TIMES\<close> repeats a statement for the numbers from 0 to 255.\<close>

definition TIMES :: "(nat \<Rightarrow> 'a \<Rightarrow> 'a) \<Rightarrow> 'a \<Rightarrow> 'a" where
  "TIMES x s = fold x [0..<256] s"

definition IDT_ENTRY :: "nat \<Rightarrow> Machine \<Rightarrow> Machine" where
  "IDT_ENTRY i m = m\<lparr>idtEntries := (idtEntries m)(i := (idtEntries m i)
     \<lparr>offsetLow := ucast (idtHandler m i AND 0xFFFF), offsetHigh := ucast (drop_bit 16 (idtHandler m i))\<rparr>)\<rparr>"

definition prepareEntry :: "nat \<Rightarrow> Machine \<Rightarrow> Machine" where
  "prepareEntry i m = m\<lparr>idtEntries := (idtEntries m)(i := (idtEntries m i)
     \<lparr>idt_reserved := 0, idt_type := 0xEE, segment := 0x8\<rparr>)\<rparr>"

text \<open>The commands to the interrupt controllers, as pairs of port and value in their order.\<close>

definition setupPic :: "(u16 \<times> u8) list" where
  "setupPic = [(0x20, 0x11), (0xA0, 0x11), (0xA1, 32), (0x21, 40), (0xA1, 0x02), (0x21, 0x04), (0x21, 0x1),
     (0xA1, 0x1), (0x21, 0xFF), (0xA1, 0xFF)]"

definition registerInterrupts :: "Machine \<Rightarrow> Machine" where
  "registerInterrupts m =
     (let g = newGDT m;
          g = g(5 := (g 5)\<lparr>limit := 104, baseLow := ucast (tssAddress m), baseMid := ucast (drop_bit 16 (tssAddress m)),
                baseHigh := ucast (drop_bit 24 (tssAddress m)), access := 0xE9, granularity := 0\<rparr>);
          g = g(3 := (g 3)\<lparr>access := 0xFE\<rparr>);
          g = g(4 := (g 4)\<lparr>access := 0xF2\<rparr>);
          top = interruptStack m + 1024;
          m = m\<lparr>newGDT := g, tss := (tss m)\<lparr>tss_ss := 0x10, ss0 := 0x10, tss_esp := top, esp0 := top\<rparr>, taskRegister := 40\<rparr>;
          m = fold prepareEntry [0..<256] m;
          m = TIMES IDT_ENTRY m
      in m\<lparr>idtPointer := \<lparr>pointer_limit = 2047, pointer_base = idtAddress m\<rparr>, interruptFlag := True\<rparr>)"

text \<open>The upper half of the value is zero.\<close>

definition writeMsrRegister :: "u32 \<Rightarrow> u32 \<Rightarrow> Machine \<Rightarrow> Machine" where
  "writeMsrRegister reg value m = m\<lparr>msr := (msr m)(reg := ucast value)\<rparr>"

section \<open>The interrupt table\<close>

definition handlerOf :: "IdtEntry \<Rightarrow> u32" where
  "handlerOf e = ucast (offsetLow e) OR push_bit 16 (ucast (offsetHigh e))"

lemma fold_entries:
  assumes "\<And>i m. idtEntries (f i m) = (idtEntries m)(i := g i m (idtEntries m i))"
    and "\<And>i j m. g j (f i m) = g j m"
  shows "idtEntries (fold f [0..<n] m) i = (if i < n then g i m (idtEntries m i) else idtEntries m i)"
proof (induction n)
  case (Suc n)
  have "g j (fold f [0..<n] m) = g j m" for j
    by (induction n) (simp_all add: assms(2))
  then show ?case using Suc by (cases "i = n") (simp_all add: assms(1))
qed simp

lemma idtHandler_fold:
  "(\<And>i m. idtHandler (f i m) = idtHandler m) \<Longrightarrow> idtHandler (fold f xs m) = idtHandler m"
  by (induction xs arbitrary: m) simp_all

lemma prepared_entries:
  "idtEntries (fold prepareEntry [0..<256] m) i =
     (if i < 256 then (idtEntries m i)\<lparr>idt_reserved := 0, idt_type := 0xEE, segment := 0x8\<rparr> else idtEntries m i)"
  by (subst fold_entries [where g = "\<lambda>i m e. e\<lparr>idt_reserved := 0, idt_type := 0xEE, segment := 0x8\<rparr>"])
    (simp_all add: prepareEntry_def)

lemma TIMES_entries:
  "idtEntries (TIMES IDT_ENTRY m) i =
     (if i < 256 then (idtEntries m i)\<lparr>offsetLow := ucast (idtHandler m i AND 0xFFFF), offsetHigh := ucast (drop_bit 16 (idtHandler m i))\<rparr>
      else idtEntries m i)"
  unfolding TIMES_def
  by (subst fold_entries [where g = "\<lambda>i m e. e\<lparr>offsetLow := ucast (idtHandler m i AND 0xFFFF), offsetHigh := ucast (drop_bit 16 (idtHandler m i))\<rparr>"])
    (simp_all add: IDT_ENTRY_def)

lemma handler_halves: "handlerOf (e\<lparr>offsetLow := ucast (a AND 0xFFFF), offsetHigh := ucast (drop_bit 16 a)\<rparr>) = a"
proof -
  have "(0xFFFF :: u32) = mask 16" by (simp add: mask_eq_exp_minus_1)
  then show ?thesis unfolding handlerOf_def by (auto simp: bit_eq_iff bit_simps)
qed

text \<open>
  After \<open>registerInterrupts\<close> the 256 descriptors the processor is told about are all complete: each points to
  its own handler, in the kernel's code segment, is present and may be called from user mode.
\<close>

theorem interrupt_table_complete:
  assumes "i < 256"
  shows "handlerOf (idtEntries (registerInterrupts m) i) = idtHandler m i \<and>
    segment (idtEntries (registerInterrupts m) i) = 8 \<and> idt_type (idtEntries (registerInterrupts m) i) = 0xEE \<and>
    idtPointer (registerInterrupts m) = \<lparr>pointer_limit = 256 * 8 - 1, pointer_base = idtAddress m\<rparr>"
proof -
  have h: "idtHandler (fold prepareEntry xs m) = idtHandler m" "idtAddress (fold prepareEntry xs m) = idtAddress m"
    "idtAddress (TIMES IDT_ENTRY m) = idtAddress m" for xs m
  proof -
    show "idtHandler (fold prepareEntry xs m) = idtHandler m" "idtAddress (fold prepareEntry xs m) = idtAddress m"
      by (induction xs arbitrary: m) (simp_all add: prepareEntry_def)
    have "idtAddress (fold IDT_ENTRY ys m) = idtAddress m" for ys
      by (induction ys arbitrary: m) (simp_all add: IDT_ENTRY_def)
    then show "idtAddress (TIMES IDT_ENTRY m) = idtAddress m" by (simp add: TIMES_def)
  qed
  show ?thesis using assms
    by (simp add: registerInterrupts_def Let_def TIMES_entries prepared_entries h handler_halves del: upt_Suc)
qed

theorem interrupt_table_complete_witness:
  "\<forall>m. handlerOf (idtEntries (registerInterrupts m) 33) = idtHandler m 33"
  using interrupt_table_complete [of 33] by simp

end
