(* ===== verification/KernelState.thy ===== *)
theory KernelState
  imports Lists StringMap Machine
begin

text \<open>
  The state of the kernel behind its system calls: services, their functions and events, the calls that
  wait for something, and the queue \<open>callsToProcess\<close> of calls to handle or to resume. Objects live at
  the addresses \<open>malloc\<close> gave them, in one store per type. A linked list is the sequence of its elements,
  each with the address of the element and the data pointer; \<open>listAdd\<close>, \<open>listPopFirst\<close>, \<open>listGet\<close> and
  \<open>listCount\<close> of \<open>Lists\<close> are exactly \<open>klistAdd\<close>, \<open>klistPop\<close>, \<open>klistGet\<close> and \<open>klistCount\<close> on these sequences.
  Dereferencing a pointer to nothing is a fault (\<open>None\<close>).

  Bytes live in physical memory (\<open>ram\<close>); the kernel reads and writes them through its page tables.
\<close>

section \<open>Objects\<close>

type_synonym klist = "(u32 \<times> u32) list"

record Syscall =
  call_function :: u32
  parameters :: "nat \<Rightarrow> u32"
  returnValue :: u32
  call_esp :: u32
  call_cr3 :: u32
  respondingTo :: u32
  call_service :: u32
  call_resume :: bool
  avoidReschedule :: bool

record Service =
  pagingInfo :: PagingInfo
  directoryAddress :: u32
  service_name :: u32
  nameHash :: u32
  service_functions :: klist
  service_events :: klist
  symbolTable :: u32
  stringTable :: u32
  symbolTableSize :: u32
  service_id :: u32

record ServiceFunction =
  function_name :: u32
  function_address :: u32
  function_service :: u32

record Event =
  event_name :: u32
  subscriptions :: klist
  waitingSyscalls :: klist

text \<open>
  \<open>literal\<close> gives the addresses of the string literals in the kernel image, \<open>functionsStart\<close> and \<open>runEnd\<close>
  are symbols of the image. \<open>stackWords n\<close> are the words behind the variadic arguments of the call of
  \<open>scheduleFunction\<close> number \<open>n\<close>, \<open>portWords n\<close> is what the \<open>n\<close>-th \<open>in\<close> instruction leaves in \<open>eax\<close> for a size and
  a port; \<open>portWrites\<close> are the \<open>out\<close> instructions so far.
\<close>

record Kernel =
  kheap :: "KernelMemory Heap"
  ram :: bytes
  stringRoot :: "nat \<Rightarrow> u32"
  stringLayers :: "u32 \<Rightarrow> (nat \<Rightarrow> u32) option"
  serviceAt :: "u32 \<Rightarrow> Service option"
  functionAt :: "u32 \<Rightarrow> ServiceFunction option"
  eventAt :: "u32 \<Rightarrow> Event option"
  callAt :: "u32 \<Rightarrow> Syscall option"
  services :: klist
  callsToProcess :: klist
  kernelEvents :: klist
  interruptSubscriptions :: "nat \<Rightarrow> klist"
  currentSyscall :: u32
  hlib :: u32
  loadInitrdEvent :: u32
  crashEvent :: u32
  initrd :: u32
  initrdSize :: u32
  literal :: "string \<Rightarrow> u32"
  functionsStart :: u32
  runEnd :: u32
  stackWords :: "nat \<Rightarrow> nat \<Rightarrow> u32"
  scheduleCount :: nat
  portWords :: "nat \<Rightarrow> nat \<Rightarrow> u16 \<Rightarrow> u32"
  portReads :: nat
  portWrites :: "(nat \<times> u16 \<times> u32) list"
  machine :: Machine

text \<open>The objects in memory that \<open>malloc\<close> has cleared.\<close>

definition zeroSyscall :: Syscall where
  "zeroSyscall = \<lparr>call_function = 0, parameters = (\<lambda>_. 0), returnValue = 0, call_esp = 0, call_cr3 = 0,
     respondingTo = 0, call_service = 0, call_resume = False, avoidReschedule = False\<rparr>"

definition zeroService :: Service where
  "zeroService = \<lparr>pagingInfo = zeroPagingInfo, directoryAddress = 0, service_name = 0, nameHash = 0,
     service_functions = [], service_events = [], symbolTable = 0, stringTable = 0, symbolTableSize = 0, service_id = 0\<rparr>"

definition zeroEvent :: Event where
  "zeroEvent = \<lparr>event_name = 0, subscriptions = [], waitingSyscalls = []\<rparr>"

section \<open>Memory\<close>

definition kmalloc :: "Kernel \<Rightarrow> u32 \<Rightarrow> (u32 \<times> Kernel) option" where
  "kmalloc k count = do {
     (a, h) \<leftarrow> kernelMalloc (kheap k) count;
     Some (a, k\<lparr>kheap := h\<rparr>)
   }"

definition kfree :: "Kernel \<Rightarrow> u32 \<Rightarrow> Kernel option" where
  "kfree k a = do {
     h \<leftarrow> kernelFree (kheap k) a;
     Some (k\<lparr>kheap := h\<rparr>)
   }"

abbreviation kpages :: "Kernel \<Rightarrow> KernelMemory" where
  "kpages k \<equiv> pages (kheap k)"

definition setPages :: "Kernel \<Rightarrow> KernelMemory \<Rightarrow> Kernel" where
  "setPages k m = k\<lparr>kheap := (kheap k)\<lparr>pages := m\<rparr>\<rparr>"

text \<open>The bytes the kernel sees, and writing one of them.\<close>

definition kernelView :: "Kernel \<Rightarrow> bytes" where
  "kernelView k a = ram k (fst (getPhysicalAddressKernel (kpages k) a))"

definition poke :: "Kernel \<Rightarrow> u32 \<Rightarrow> u8 \<Rightarrow> Kernel" where
  "poke k a v = k\<lparr>ram := (ram k)(fst (getPhysicalAddressKernel (kpages k) a) := v)\<rparr>"

definition poke32 :: "Kernel \<Rightarrow> u32 \<Rightarrow> u32 \<Rightarrow> Kernel" where
  "poke32 k a v = poke (poke (poke (poke k a (ucast v)) (a + 1) (ucast (drop_bit 8 v)))
     (a + 2) (ucast (drop_bit 16 v))) (a + 3) (ucast (drop_bit 24 v))"

definition kmemcpy :: "Kernel \<Rightarrow> u32 \<Rightarrow> u32 \<Rightarrow> u32 \<Rightarrow> Kernel" where
  "kmemcpy k source destination count =
     foldl (\<lambda>k i. poke k (destination + of_nat i) (kernelView k (source + of_nat i))) k [0..<unat count]"

section \<open>Lists\<close>

definition klistAdd :: "Kernel \<Rightarrow> klist \<Rightarrow> u32 \<Rightarrow> (klist \<times> Kernel) option" where
  "klistAdd k list data = do {
     (element, k) \<leftarrow> kmalloc k 8;
     Some (list @ [(element, data)], k)
   }"

fun klistPop :: "Kernel \<Rightarrow> klist \<Rightarrow> (u32 \<times> klist \<times> Kernel) option" where
  "klistPop k [] = Some (0, [], k)"
| "klistPop k ((element, data) # list) = do {
     k \<leftarrow> kfree k element;
     Some (data, list, k)
   }"

definition klistCount :: "klist \<Rightarrow> u32" where
  "klistCount list = of_nat (length list)"

definition klistGet :: "klist \<Rightarrow> u32 \<Rightarrow> u32" where
  "klistGet list position = (if unat position < length list then snd (list ! unat position) else 0)"

text \<open>The queue of calls.\<close>

definition queueCall :: "Kernel \<Rightarrow> u32 \<Rightarrow> Kernel option" where
  "queueCall k call = do {
     (list, k) \<leftarrow> klistAdd k (callsToProcess k) call;
     Some (k\<lparr>callsToProcess := list\<rparr>)
   }"

section \<open>Objects in their stores\<close>

definition setCall :: "Kernel \<Rightarrow> u32 \<Rightarrow> Syscall \<Rightarrow> Kernel" where
  "setCall k a c = k\<lparr>callAt := (callAt k)(a \<mapsto> c)\<rparr>"

definition setService :: "Kernel \<Rightarrow> u32 \<Rightarrow> Service \<Rightarrow> Kernel" where
  "setService k a s = k\<lparr>serviceAt := (serviceAt k)(a \<mapsto> s)\<rparr>"

definition setFunction :: "Kernel \<Rightarrow> u32 \<Rightarrow> ServiceFunction \<Rightarrow> Kernel" where
  "setFunction k a f = k\<lparr>functionAt := (functionAt k)(a \<mapsto> f)\<rparr>"

definition setEvent :: "Kernel \<Rightarrow> u32 \<Rightarrow> Event \<Rightarrow> Kernel" where
  "setEvent k a e = k\<lparr>eventAt := (eventAt k)(a \<mapsto> e)\<rparr>"

definition freeCall :: "Kernel \<Rightarrow> u32 \<Rightarrow> Kernel option" where
  "freeCall k a = kfree (k\<lparr>callAt := (callAt k)(a := None)\<rparr>) a"

definition setReturn :: "Kernel \<Rightarrow> u32 \<Rightarrow> u32 \<Rightarrow> Kernel option" where
  "setReturn k a v = do {
     c \<leftarrow> callAt k a;
     Some (setCall k a (c\<lparr>returnValue := v\<rparr>))
   }"

section \<open>The string table\<close>

definition stringTableOf :: "Kernel \<Rightarrow> KernelMemory Heap StringMap" where
  "stringTableOf k = \<lparr>mapHeap = kheap k, rootLayer = stringRoot k, layers = stringLayers k\<rparr>"

definition putStringTable :: "Kernel \<Rightarrow> KernelMemory Heap StringMap \<Rightarrow> Kernel" where
  "putStringTable k st = k\<lparr>kheap := mapHeap st, stringRoot := rootLayer st, stringLayers := layers st\<rparr>"

definition kInsertString :: "Kernel \<Rightarrow> u32 \<Rightarrow> (u32 \<times> Kernel) option" where
  "kInsertString k string = do {
     (stringId, st) \<leftarrow> insertString kernelMalloc (kernelView k) (stringTableOf k) string;
     Some (stringId, putStringTable k st)
   }"

definition kRetrieveString :: "Kernel \<Rightarrow> u32 \<Rightarrow> u32 option" where
  "kRetrieveString k stringId = retrieveString (stringTableOf k) stringId"

definition kDiscardString :: "Kernel \<Rightarrow> u32 \<Rightarrow> Kernel option" where
  "kDiscardString k stringId = do {
     st \<leftarrow> discardString kernelFree (stringTableOf k) stringId;
     Some (putStringTable k st)
   }"

section \<open>Sequences implement the linked lists\<close>

lemma listAdd_heap:
  assumes "listAdd alloc st p d = Some (p', st')"
  shows "\<exists>e. alloc (heap st) 8 = Some (e, heap st')"
  using assms by (auto simp: listAdd_def setNext_def Let_def split: bind_splits if_splits)

text \<open>
  C14. Refinement: whenever the cells of memory hold a list with the elements of a sequence, the list functions
  of \<open>kernel/util/list.c\<close> give what the operations on the sequence give, with the same effect on the heap, and
  again hold the elements of the resulting sequence. Lists that share no element with it stay as they are.
\<close>

theorem sequences_refine_lists:
  assumes "kernel_store_ok st" and "heap st = kheap k" and "list_at (cells st) p xs"
  shows "(\<forall>ys k'. klistAdd k xs d = Some (ys, k') \<longrightarrow> (\<exists>p' st'. listAdd kernelMalloc st p d = Some (p', st') \<and>
       heap st' = kheap k' \<and> list_at (cells st') p' ys \<and> kernel_store_ok st' \<and> frame st st' (addresses xs))) \<and>
    (\<forall>v ys k'. klistPop k xs = Some (v, ys, k') \<longrightarrow> (\<exists>p' st'. listPopFirst kernelFree st p = Some (v, p', st') \<and>
       heap st' = kheap k' \<and> list_at (cells st') p' ys \<and> kernel_store_ok st' \<and> frame st st' (addresses xs))) \<and>
    listGet (cells st) p i = Some (klistGet xs i) \<and> listCount (cells st) p = Some (klistCount xs)"
proof (intro conjI allI impI)
  fix ys k' assume "klistAdd k xs d = Some (ys, k')"
  then obtain e h where e: "kernelMalloc (kheap k) 8 = Some (e, h)" "ys = xs @ [(e, d)]" "k' = k\<lparr>kheap := h\<rparr>"
    by (auto simp: klistAdd_def kmalloc_def split: bind_splits)
  obtain p' st' where run: "listAdd kernelMalloc st p d = Some (p', st')"
    using ka.listAdd_total [OF assms(1,3), of e h d] e(1) assms(2) by auto
  obtain e' where e': "e' \<notin> allocated (heap st)" "list_at (cells st') p' (xs @ [(e', d)])" "kernel_store_ok st'"
    "frame st st' (addresses xs)" "allocated (heap st') = insert e' (allocated (heap st))"
    using ka.listAdd_spec [OF assms(1,3) run] by blast
  have h: "heap st' = h" using listAdd_heap [OF run] e(1) assms(2) by simp
  have "kernel_heap_ok (kheap k)" using assms(1,2) by (simp add: store_ok_def)
  then have "e \<notin> allocated (kheap k)" "allocated h = insert e (allocated (kheap k))"
    using ka.alloc_law [OF _ _ _ e(1)] by simp_all
  then have "e' = e" using e'(1,5) h assms(2) by auto
  then show "\<exists>p' st'. listAdd kernelMalloc st p d = Some (p', st') \<and>
       heap st' = kheap k' \<and> list_at (cells st') p' ys \<and> kernel_store_ok st' \<and> frame st st' (addresses xs)"
    using run e(2,3) e'(2-4) h by auto
next
  fix v ys k' assume pop: "klistPop k xs = Some (v, ys, k')"
  show "\<exists>p' st'. listPopFirst kernelFree st p = Some (v, p', st') \<and>
       heap st' = kheap k' \<and> list_at (cells st') p' ys \<and> kernel_store_ok st' \<and> frame st st' (addresses xs)"
  proof (cases xs)
    case Nil
    then show ?thesis using pop assms by (auto simp: listPopFirst_def frame_def)
  next
    case (Cons x zs)
    obtain a w where x: "x = (a, w)" by fastforce
    with Cons assms(3) have l: "list_at (cells st) p ((a, w) # zs)" by simp
    obtain p' st' where P: "listPopFirst kernelFree st p = Some (w, p', st')" "list_at (cells st') p' zs"
      "kernel_store_ok st'" "frame st st' {a}" using ka.listPopFirst_spec [OF assms(1) l] by blast
    have "heap st' = kheap k'" "w = v" "zs = ys"
      using P(1) pop Cons x l assms(2) by (auto simp: listPopFirst_def freeAt_def kfree_def split: bind_splits if_splits)
    moreover have "frame st st' (addresses xs)" using P(4) Cons x by (auto simp: frame_def)
    ultimately show ?thesis using P by auto
  qed
next
  show "listGet (cells st) p i = Some (klistGet xs i)"
    using listGetLoop_at [OF assms(3)] by (simp add: listGet_def klistGet_def)
  show "listCount (cells st) p = Some (klistCount xs)"
    using countElements_at [OF assms(3), of 0] by (simp add: listCount_def klistCount_def)
qed

theorem sequences_refine_lists_witness:
  "\<exists>k' e p' st'. let k = undefined\<lparr>kheap := started_heap\<rparr>
     in klistAdd k [] 5 = Some ([(e, 5)], k') \<and> listAdd kernelMalloc started_store 0 5 = Some (p', st') \<and>
        heap st' = kheap k' \<and> list_at (cells st') p' [(e, 5)]"
proof -
  let ?k = "undefined\<lparr>kheap := started_heap\<rparr>"
  obtain e h where "kernelMalloc started_heap 8 = Some (e, h)" using started_malloc [of 8] by auto
  then have "klistAdd ?k [] 5 = Some ([(e, 5)], ?k\<lparr>kheap := h\<rparr>)" by (simp add: klistAdd_def kmalloc_def)
  moreover have "heap started_store = kheap ?k" "list_at (cells started_store) 0 []" by (simp_all add: started_store_def)
  ultimately show ?thesis
    using sequences_refine_lists [OF started_store_ok, of ?k 0 "[]" 5 0] unfolding Let_def by blast
qed

end
