(* ===== verification/Boot.thy ===== *)
theory Boot
  imports KernelState
begin

text \<open>
  What the kernel reads at boot: the boot loader's tags (\<open>kernel/multiboot/multiboot.c\<close>) and the tar
  archive with the programs (\<open>kernel/memory/tar.c\<close>). Both are walks over bytes the kernel sees.
\<close>

section \<open>The tar archive\<close>

text \<open>Characters are signed; the digit added last is shifted like all others before the loop ends.\<close>

partial_function (option) octalLoop :: "bytes \<Rightarrow> u32 \<Rightarrow> u32 \<Rightarrow> u32 option" where
  "octalLoop m string result =
     (if m string = 0 then Some result
      else octalLoop m (string + 1) (push_bit 3 (result + (scast (m string) - 48))))"

definition readOctal :: "bytes \<Rightarrow> u32 \<Rightarrow> u32 option" where
  "readOctal m string = octalLoop m string 0"

text \<open>
  The position moves on by one block of 512 bytes in every round, through the contents of the files too:
  the size is read and not used. \<open>fileSize\<close> is at offset 124 of the header.
\<close>

partial_function (option) tarLoop :: "bytes \<Rightarrow> u32 \<Rightarrow> u32 \<Rightarrow> u32 \<Rightarrow> u32 option" where
  "tarLoop m currentPosition fileEnd fileName =
     (if currentPosition \<le> fileEnd then do {
        fileSize \<leftarrow> readOctal m (currentPosition + 124);
        found \<leftarrow> stringEquals m currentPosition fileName;
        if found then Some (currentPosition + 512)
        else tarLoop m (currentPosition + 512) fileEnd fileName
      } else Some 0)"

definition findTarFile :: "bytes \<Rightarrow> u32 \<Rightarrow> u32 \<Rightarrow> u32 \<Rightarrow> u32 option" where
  "findTarFile m fileData tarFileSize fileName = tarLoop m fileData (fileData + tarFileSize) fileName"

section \<open>The boot loader's tags\<close>

definition PAGE_COUNT :: "u32 \<Rightarrow> u32" where
  "PAGE_COUNT x = (x - 1) div 4096 + 1"

text \<open>The types of tags; only modules are looked at.\<close>

datatype MultibootType = BootCommandLineType | MultibootModuleTagType | BasicMemoryInformationType | BiosBootDeviceType

fun multibootType :: "MultibootType \<Rightarrow> u32" where
  "multibootType BootCommandLineType = 1"
| "multibootType MultibootModuleTagType = 3"
| "multibootType BasicMemoryInformationType = 4"
| "multibootType BiosBootDeviceType = 5"

text \<open>
  A tag has its type and its size; a module tag goes on with the start and the end of the module and its
  command line, a string at offset 16.
\<close>

record MultibootModuleTag =
  tag_type :: u32
  tag_size :: u32
  moduleStart :: u32
  moduleEnd :: u32

definition readModuleTag :: "bytes \<Rightarrow> u32 \<Rightarrow> MultibootModuleTag" where
  "readModuleTag m a = \<lparr>tag_type = read32 m a, tag_size = read32 m (a + 4), moduleStart = read32 m (a + 8),
     moduleEnd = read32 m (a + 12)\<rparr>"

text \<open>
  The result is the place and the size of the archive, and null and the old size when there is none.
\<close>

partial_function (option) tagLoop :: "Kernel \<Rightarrow> u32 \<Rightarrow> u32 \<Rightarrow> (u32 \<times> u32 \<times> Kernel) option" where
  "tagLoop k tag fileSize =
     (let m = kernelView k; t = readModuleTag m tag in
      if tag_size t = 0 then Some (0, fileSize, k)
      else do {
        isInitrd \<leftarrow> (if tag_type t = multibootType MultibootModuleTagType
                      then stringEquals m (tag + 16) (literal k ''initrd'') else Some False);
        if isInitrd then do {
          let moduleSize = moduleEnd t - moduleStart t;
          (moduleLocation, pm) \<leftarrow> kernelMapPhysicalCount (kpages k) (moduleStart t) (PAGE_COUNT moduleSize);
          Some (moduleLocation, moduleSize, setPages k pm)
        } else tagLoop k (tag + ((tag_size t + 7) AND NOT 7)) fileSize
      })"

definition findInitrd :: "Kernel \<Rightarrow> u32 \<Rightarrow> u32 \<Rightarrow> (u32 \<times> u32 \<times> Kernel) option" where
  "findInitrd k information fileSize = tagLoop k (information + 8) fileSize"

section \<open>Properties\<close>

definition octalValue :: "u8 list \<Rightarrow> nat" where
  "octalValue s = foldl (\<lambda>v d. 8 * v + (unat d - 48)) 0 s"

lemma octal_digit: "48 \<le> unat (c :: u8) \<Longrightarrow> unat c \<le> 55 \<Longrightarrow> (scast c - 48 :: u32) = of_nat (unat c - 48)"
proof -
  assume c: "48 \<le> unat c" "unat c \<le> 55"
  then have "(scast c :: u32) = of_nat (unat c)" by (intro scast_ascii) simp
  then show "(scast c - 48 :: u32) = of_nat (unat c - 48)" using c by simp
qed

lemma octalLoop_digits:
  assumes "cstr m p s" and "\<forall>c \<in> set s. 48 \<le> unat c \<and> unat c \<le> 55"
  shows "octalLoop m p (of_nat (8 * v)) = Some (of_nat (8 * foldl (\<lambda>v d. 8 * v + (unat d - 48)) v s))"
  using assms
proof (induction s arbitrary: p v)
  case Nil
  then show ?case by (simp add: octalLoop.simps)
next
  case (Cons c s)
  have step: "push_bit 3 (of_nat (8 * v) + (scast c - 48 :: u32)) = of_nat (8 * (8 * v + (unat c - 48)))"
    using octal_digit [of c] Cons.prems(2) by (simp add: push_bit_eq_mult)
  have "m p = c" "c \<noteq> 0" "cstr m (p + 1) s" using Cons.prems(1) by auto
  then show ?case
    using Cons.prems(2) Cons.IH [of "p + 1" "8 * v + (unat c - 48)"]
    unfolding octalLoop.simps [of m p] \<open>m p = c\<close> step by simp
qed

text \<open>
  \<open>readOctal\<close> shifts after the last digit too: for a string of octal digits it gives eight times the number
  the string stands for.
\<close>

theorem readOctal_eightfold:
  assumes "cstr m p s" and "\<forall>c \<in> set s. 48 \<le> unat c \<and> unat c \<le> 55"
  shows "readOctal m p = Some (of_nat (8 * octalValue s))"
  using octalLoop_digits [OF assms, of 0] by (simp add: readOctal_def octalValue_def)

theorem readOctal_eightfold_witness:
  "readOctal ((\<lambda>_. 0)(100 := 49, 101 := 55)) 100 = Some 120"
proof -
  have "cstr ((\<lambda>_. 0)(100 := 49, 101 := 55)) 100 [49, 55]" by simp
  from readOctal_eightfold [OF this] show ?thesis by (simp add: octalValue_def)
qed

lemma tarLoop_blocks:
  assumes "\<And>i. j \<le> i \<Longrightarrow> i < j + n \<Longrightarrow> unat (base + of_nat (512 * i)) = unat base + 512 * i \<and>
      base + of_nat (512 * i) \<le> bound \<and> readOctal m (base + of_nat (512 * i) + 124) \<noteq> None \<and>
      stringEquals m (base + of_nat (512 * i)) name = Some (found i)"
    and "bound < base + of_nat (512 * (j + n))"
  shows "tarLoop m (base + of_nat (512 * j)) bound name =
    Some (case List.find found [j..<j + n] of None \<Rightarrow> 0 | Some i \<Rightarrow> base + of_nat (512 * i) + 512)"
  using assms
proof (induction n arbitrary: j)
  case 0
  then have "\<not> base + of_nat (512 * j) \<le> bound" by simp
  then show ?case by (subst tarLoop.simps) (simp only: if_False, simp)
next
  case (Suc n)
  have next_block: "base + of_nat (512 * j) + 512 = base + of_nat (512 * Suc j)" by simp
  have IH: "tarLoop m (base + of_nat (512 * Suc j)) bound name =
      Some (case List.find found [Suc j..<Suc j + n] of None \<Rightarrow> 0 | Some i \<Rightarrow> base + of_nat (512 * i) + 512)"
    using Suc.prems by (intro Suc.IH) simp_all
  obtain size where "readOctal m (base + of_nat (512 * j) + 124) = Some size"
    and "base + of_nat (512 * j) \<le> bound" and "stringEquals m (base + of_nat (512 * j)) name = Some (found j)"
    using Suc.prems(1) [of j] by auto
  moreover have "[j..<j + Suc n] = j # [Suc j..<Suc j + n]" by (simp add: upt_rec)
  ultimately show ?case by (subst tarLoop.simps) (simp only: next_block IH, simp)
qed

text \<open>
  Looking for a file ends: \<open>findTarFile\<close> looks at every block of 512 bytes of the archive, whether it is a header
  or lies inside a file, and returns the address behind the first one that starts with the name.
\<close>

theorem findTarFile_first_block:
  assumes "unat fileData + unat tarFileSize + 512 < 2 ^ 32"
    and "\<forall>i \<le> unat tarFileSize div 512. readOctal m (fileData + of_nat (512 * i) + 124) \<noteq> None \<and>
      stringEquals m (fileData + of_nat (512 * i)) fileName = Some (found i)"
  shows "findTarFile m fileData tarFileSize fileName =
    Some (case List.find found [0..<Suc (unat tarFileSize div 512)] of None \<Rightarrow> 0 | Some i \<Rightarrow> fileData + of_nat (512 * i) + 512)"
proof -
  let ?n = "Suc (unat tarFileSize div 512)"
  have un: "unat (fileData + of_nat (512 * i)) = unat fileData + 512 * i" if "i \<le> ?n" for i
  proof -
    have "512 * i \<le> unat tarFileSize + 512" using that by simp
    then have "512 * i < 4294967296" "unat fileData + 512 * i < 4294967296" using assms(1) by simp_all
    then show ?thesis using unat_add_small [of fileData "of_nat (512 * i)"] unat_of_nat32 [of "512 * i"] by metis
  qed
  have lim: "unat (fileData + tarFileSize) = unat fileData + unat tarFileSize"
    using assms(1) by (simp add: unat_word_ariths)
  have "fileData + of_nat (512 * i) \<le> fileData + tarFileSize" if "i < ?n" for i
  proof -
    have "512 * i \<le> unat tarFileSize" using that by (simp add: less_Suc_eq_le)
    then show ?thesis using un [of i] lim that by (simp add: word_le_nat_alt)
  qed
  moreover have "fileData + tarFileSize < fileData + of_nat (512 * (0 + ?n))"
  proof -
    have "unat tarFileSize < 512 * ?n" by (simp add: mult.commute)
    then show ?thesis using un [of ?n] lim by (simp add: word_less_nat_alt)
  qed
  ultimately have "tarLoop m (fileData + of_nat (512 * 0)) (fileData + tarFileSize) fileName =
      Some (case List.find found [0..<0 + ?n] of None \<Rightarrow> 0 | Some i \<Rightarrow> fileData + of_nat (512 * i) + 512)"
    using assms(2) un by (intro tarLoop_blocks) (auto simp: less_Suc_eq_le)
  then show ?thesis by (simp only: findTarFile_def mult_0_right semiring_1_class.of_nat_0 add_0_right add_0_left)
qed

theorem findTarFile_first_block_witness:
  "findTarFile ((\<lambda>_. 0)(512 := 97, 2048 := 97)) 0 1024 2048 = Some 1024"
proof -
  let ?m = "(\<lambda>_. 0)(512 := 97, 2048 := 97) :: bytes"
  have c: "cstr ?m 0 []" "cstr ?m 512 [97]" "cstr ?m 1024 []" "cstr ?m 2048 [97]"
    "cstr ?m 124 []" "cstr ?m 636 []" "cstr ?m 1148 []" by simp_all
  have eq: "stringEquals ?m 0 2048 = Some False" "stringEquals ?m 512 2048 = Some True" "stringEquals ?m 1024 2048 = Some False"
    using c(1-4) stringEquals_cstr by fastforce+
  have oc: "readOctal ?m 124 = Some 0" "readOctal ?m 636 = Some 0" "readOctal ?m 1148 = Some 0"
    by (simp_all add: readOctal_def octalLoop.simps)
  have "i = 0 \<or> i = 1 \<or> i = 2" if "i \<le> unat (1024 :: u32) div 512" for i :: nat using that by auto
  then have "\<forall>i \<le> unat (1024 :: u32) div 512. readOctal ?m (0 + of_nat (512 * i) + 124) \<noteq> None \<and>
      stringEquals ?m (0 + of_nat (512 * i)) 2048 = Some (i = 1)"
    using eq oc by fastforce
  from findTarFile_first_block [OF _ this] show ?thesis by (simp add: upt_rec)
qed

end
