(* ===== verification/Services.thy ===== *)
theory Services
  imports Boot
begin

text \<open>
  Services and events of the kernel (\<open>kernel/service/service.c\<close>, \<open>kernel/service/events.c\<close> and the parts of
  \<open>kernel/main.c\<close> that load programs): how a function of a service is scheduled, how an event wakes
  the calls waiting for it, and how a program is loaded from an ELF file.
\<close>

section \<open>Scheduling a function\<close>

text \<open>
  \<open>scheduleFunction\<close> takes a variable number of arguments and counts them itself: at least four, then up to
  the first that is zero, reading what lies on the stack behind the arguments that were passed.
\<close>

definition variadic :: "u32 list \<Rightarrow> (nat \<Rightarrow> u32) \<Rightarrow> nat \<Rightarrow> u32" where
  "variadic args rest i = (if i < length args then args ! i else rest (i - length args))"

partial_function (option) countParameters :: "(nat \<Rightarrow> u32) \<Rightarrow> nat \<Rightarrow> nat option" where
  "countParameters arg parameterCount =
     (if arg parameterCount \<noteq> 0 \<or> parameterCount \<le> 3 then countParameters arg (Suc parameterCount)
      else Some parameterCount)"

text \<open>The stack of the new call: the address of the function, the return address and the arguments.\<close>

definition writeFrame :: "Kernel \<Rightarrow> u32 \<Rightarrow> u32 \<Rightarrow> (nat \<Rightarrow> u32) \<Rightarrow> nat \<Rightarrow> Kernel" where
  "writeFrame k esp address arg parameterCount =
     (let k = poke32 k esp address;
          k = poke32 k (esp + 4) (runEnd k)
      in foldl (\<lambda>k i. poke32 k (esp + 8 + 4 * of_nat i) (arg i)) k [0..<parameterCount])"

definition scheduleFunction :: "Kernel \<Rightarrow> ServiceFunction \<Rightarrow> u32 \<Rightarrow> u32 list \<Rightarrow> Kernel option" where
  "scheduleFunction k provider responding args = do {
     let arg = variadic args (stackWords k (scheduleCount k));
     parameterCount \<leftarrow> countParameters arg 0;
     (runCall, k) \<leftarrow> kmalloc (k\<lparr>scheduleCount := Suc (scheduleCount k)\<rparr>) 44;
     (esp, k) \<leftarrow> kmalloc k 0x1000;
     service \<leftarrow> serviceAt k (function_service provider);
     let (cr3, pm) = getPhysicalAddressKernel (kpages k) (directoryAddress service);
     (_, info, pm) \<leftarrow> sharePage pm (pagingInfo service) esp esp;
     let k = setService (setPages k pm) (function_service provider) (service\<lparr>pagingInfo := info\<rparr>);
     let esp = esp + 0x1000 - 0x10 - of_nat parameterCount * 4;
     let k = writeFrame k esp (function_address provider) arg parameterCount;
     queueCall (setCall k runCall (zeroSyscall\<lparr>call_esp := esp, call_cr3 := cr3, respondingTo := responding,
       call_service := function_service provider, call_resume := True\<rparr>)) runCall
   }"

definition scheduleAt :: "Kernel \<Rightarrow> u32 \<Rightarrow> u32 \<Rightarrow> u32 list \<Rightarrow> Kernel option" where
  "scheduleAt k provider responding args = do {
     f \<leftarrow> functionAt k provider;
     scheduleFunction k f responding args
   }"

text \<open>The loops over subscriptions: each subscriber is scheduled with the same arguments.\<close>

definition scheduleAll :: "Kernel \<Rightarrow> klist \<Rightarrow> u32 \<Rightarrow> u32 list \<Rightarrow> Kernel option" where
  "scheduleAll k list responding args = ofold (\<lambda>provider k. scheduleAt k (snd provider) responding args) list k"

section \<open>Events\<close>

text \<open>
  The loop of \<open>fireEvent\<close> over the waiting calls. A call waits for the code in its parameter 2, for any code
  when that is zero.
\<close>

fun wakeLoop :: "Kernel \<Rightarrow> u32 \<Rightarrow> u32 \<Rightarrow> klist \<Rightarrow> klist \<Rightarrow> (klist \<times> Kernel) option" where
  "wakeLoop k data code [] newWaiting = Some (newWaiting, k)"
| "wakeLoop k data code ((old, call) # current) newWaiting = do {
     k \<leftarrow> kfree k old;
     c \<leftarrow> callAt k call;
     if parameters c 2 \<noteq> 0 \<and> parameters c 2 \<noteq> code then do {
       (newWaiting, k) \<leftarrow> klistAdd k newWaiting call;
       wakeLoop k data code current newWaiting
     } else do {
       k \<leftarrow> queueCall (setCall k call (c\<lparr>returnValue := data\<rparr>)) call;
       wakeLoop k data code current newWaiting
     }
   }"

definition fireEvent :: "Kernel \<Rightarrow> u32 \<Rightarrow> u32 \<Rightarrow> u32 \<Rightarrow> Kernel option" where
  "fireEvent k event data code = do {
     e \<leftarrow> eventAt k event;
     k \<leftarrow> scheduleAll k (subscriptions e) 0 [data];
     e \<leftarrow> eventAt k event;
     (newWaiting, k) \<leftarrow> wakeLoop k data code (waitingSyscalls e) [];
     e \<leftarrow> eventAt k event;
     Some (setEvent k event (e\<lparr>waitingSyscalls := newWaiting\<rparr>))
   }"

definition createKernelEvent :: "Kernel \<Rightarrow> string \<Rightarrow> (u32 \<times> Kernel) option" where
  "createKernelEvent k name = do {
     (event, k) \<leftarrow> kmalloc k 12;
     (stringId, k) \<leftarrow> kInsertString k (literal k name);
     let k = setEvent k event (zeroEvent\<lparr>event_name := stringId\<rparr>);
     (list, k) \<leftarrow> klistAdd k (kernelEvents k) event;
     Some (event, k\<lparr>kernelEvents := list\<rparr>)
   }"

definition installKernelEvents :: "Kernel \<Rightarrow> Kernel option" where
  "installKernelEvents k = do {
     (event, k) \<leftarrow> createKernelEvent k ''loadInitrd'';
     (event', k) \<leftarrow> createKernelEvent (k\<lparr>loadInitrdEvent := event\<rparr>) ''crash'';
     Some (k\<lparr>crashEvent := event'\<rparr>)
   }"

section \<open>Looking up services and functions\<close>

fun findNamed :: "bytes \<Rightarrow> (u32 \<Rightarrow> u32 option) \<Rightarrow> klist \<Rightarrow> u32 \<Rightarrow> u32 option" where
  "findNamed m nameOf [] name = Some 0"
| "findNamed m nameOf ((_, a) # list) name = do {
     other \<leftarrow> nameOf a;
     found \<leftarrow> stringEquals m other name;
     if found then Some a else findNamed m nameOf list name
   }"

definition findService :: "Kernel \<Rightarrow> u32 \<Rightarrow> u32 option" where
  "findService k name = findNamed (kernelView k) (\<lambda>a. map_option service_name (serviceAt k a)) (services k) name"

definition findFunction :: "Kernel \<Rightarrow> u32 \<Rightarrow> u32 \<Rightarrow> u32 option" where
  "findFunction k service name = do {
     s \<leftarrow> serviceAt k service;
     findNamed (kernelView k) (\<lambda>a. map_option function_name (functionAt k a)) (service_functions s) name
   }"

section \<open>Loading programs\<close>

text \<open>A page directory entry as the processor reads it from a word.\<close>

definition decodeDirectoryEntry :: "u32 \<Rightarrow> PageDirectoryEntry" where
  "decodeDirectoryEntry w = \<lparr>pde_present = bit w 0, pde_writable = bit w 1, pde_belongsToUserProcess = bit w 2,
     pde_reserved = ucast (drop_bit 3 w), pde_accessed = bit w 5, pde_dirty = bit w 6,
     pde_reserved2 = ucast (drop_bit 7 w), pde_available = ucast (drop_bit 9 w), pageTableID = ucast (drop_bit 12 w)\<rparr>"

text \<open>
  The structures of an ELF file as the kernel reads them, with every field at its offset. The segment type is
  declared with 16 bits; the fields behind it are aligned to four bytes.
\<close>

record ElfHeader =
  magic :: u32
  is64BitFile :: u8
  endianness :: u8
  elfHeaderVersion :: u8
  osABI :: u8
  elf_unused0 :: u32
  elf_unused1 :: u32
  elf_flags :: u16
  instructionSet :: u16
  elfVersion :: u32
  entryPosition :: u32
  programHeaderTablePosition :: u32
  sectionHeaderTablePosition :: u32
  architectureFlags :: u32
  headerSize :: u16
  programHeaderEntrySize :: u16
  programHeaderEntryCount :: u16
  sectionHeaderEntrySize :: u16
  sectionHeaderEntryCount :: u16
  sectionNamesHeaderTableIndex :: u16

record ProgramHeader =
  segmentType :: u16
  dataOffset :: u32
  virtualAddress :: u32
  segment_undefined :: u32
  segmentFileSize :: u32
  segmentMemorySize :: u32
  segment_flags :: u32
  segment_alignment :: u32

record SectionHeader =
  stringTableNameIndex :: u32
  section_type :: u32
  section_flags :: u32
  section_virtualAddress :: u32
  section_offset :: u32
  section_size :: u32
  section_link :: u32
  section_info :: u32
  section_alignment :: u32
  section_entrySize :: u32

record SymbolEntry =
  symbol_name :: u32
  symbol_value :: u32
  symbol_size :: u32
  symbol_info :: u8
  symbol_other :: u8
  sectionHeaderIndex :: u16

definition readElfHeader :: "bytes \<Rightarrow> u32 \<Rightarrow> ElfHeader" where
  "readElfHeader m a = \<lparr>magic = read32 m a, is64BitFile = m (a + 4), endianness = m (a + 5),
     elfHeaderVersion = m (a + 6), osABI = m (a + 7), elf_unused0 = read32 m (a + 8), elf_unused1 = read32 m (a + 12),
     elf_flags = read16 m (a + 16), instructionSet = read16 m (a + 18), elfVersion = read32 m (a + 20),
     entryPosition = read32 m (a + 24), programHeaderTablePosition = read32 m (a + 28),
     sectionHeaderTablePosition = read32 m (a + 32), architectureFlags = read32 m (a + 36),
     headerSize = read16 m (a + 40), programHeaderEntrySize = read16 m (a + 42),
     programHeaderEntryCount = read16 m (a + 44), sectionHeaderEntrySize = read16 m (a + 46),
     sectionHeaderEntryCount = read16 m (a + 48), sectionNamesHeaderTableIndex = read16 m (a + 50)\<rparr>"

definition readProgramHeader :: "bytes \<Rightarrow> u32 \<Rightarrow> ProgramHeader" where
  "readProgramHeader m a = \<lparr>segmentType = read16 m a, dataOffset = read32 m (a + 4), virtualAddress = read32 m (a + 8),
     segment_undefined = read32 m (a + 12), segmentFileSize = read32 m (a + 16), segmentMemorySize = read32 m (a + 20),
     segment_flags = read32 m (a + 24), segment_alignment = read32 m (a + 28)\<rparr>"

definition readSectionHeader :: "bytes \<Rightarrow> u32 \<Rightarrow> SectionHeader" where
  "readSectionHeader m a = \<lparr>stringTableNameIndex = read32 m a, section_type = read32 m (a + 4),
     section_flags = read32 m (a + 8), section_virtualAddress = read32 m (a + 12), section_offset = read32 m (a + 16),
     section_size = read32 m (a + 20), section_link = read32 m (a + 24), section_info = read32 m (a + 28),
     section_alignment = read32 m (a + 32), section_entrySize = read32 m (a + 36)\<rparr>"

definition readSymbolEntry :: "bytes \<Rightarrow> u32 \<Rightarrow> SymbolEntry" where
  "readSymbolEntry m a = \<lparr>symbol_name = read32 m a, symbol_value = read32 m (a + 4), symbol_size = read32 m (a + 8),
     symbol_info = m (a + 12), symbol_other = m (a + 13), sectionHeaderIndex = read16 m (a + 14)\<rparr>"

text \<open>
  The loop over the pages of one segment: a fresh page, the part of the file that belongs there, and the
  mapping into the service. A fresh page is not cleared: what the file does not fill keeps its old contents.
  The header stays in the file, which is read again in every round.
\<close>

definition shareInto :: "Kernel \<Rightarrow> u32 \<Rightarrow> u32 \<Rightarrow> u32 \<Rightarrow> Kernel option" where
  "shareInto k service source destination = do {
     s \<leftarrow> serviceAt k service;
     (_, info, pm) \<leftarrow> sharePage (kpages k) (pagingInfo s) source destination;
     Some (setService (setPages k pm) service (s\<lparr>pagingInfo := info\<rparr>))
   }"

partial_function (option) segmentLoop :: "Kernel \<Rightarrow> u32 \<Rightarrow> u32 \<Rightarrow> u32 \<Rightarrow> u32 \<Rightarrow> Kernel option" where
  "segmentLoop k service elfStart header page =
     (let ph = readProgramHeader (kernelView k) header in
      if page < segmentMemorySize ph then do {
        (data, k) \<leftarrow> kmalloc k 0x1000;
        let k = (if segmentFileSize ph > page
                 then kmemcpy k (elfStart + dataOffset ph + page) data (min 0x1000 (segmentFileSize ph - page)) else k);
        k \<leftarrow> shareInto k service data (virtualAddress ph + page);
        segmentLoop k service elfStart header (page + 0x1000)
      } else Some k)"

text \<open>The loop over the sections: the first symbol table and the first string table.\<close>

definition noteSection :: "u32 \<Rightarrow> SectionHeader \<Rightarrow> Service \<Rightarrow> Service" where
  "noteSection elfStart sh s =
     (let s = (if section_type sh = 2 \<and> symbolTable s = 0
               then s\<lparr>symbolTable := elfStart + section_offset sh, symbolTableSize := section_size sh\<rparr> else s)
      in if section_type sh = 3 \<and> stringTable s = 0 then s\<lparr>stringTable := elfStart + section_offset sh\<rparr> else s)"

definition loadElf :: "Kernel \<Rightarrow> u32 \<Rightarrow> u32 \<Rightarrow> (u32 \<times> Kernel) option" where
  "loadElf k elfStart serviceName = do {
     let header = readElfHeader (kernelView k) elfStart;
     (service, k) \<leftarrow> kmalloc k 266408;
     (directory, k) \<leftarrow> kmalloc k 0x1000;
     let k = setService k service (zeroService\<lparr>directoryAddress := directory, service_name := serviceName,
       pagingInfo := zeroPagingInfo\<lparr>pageDirectory := (\<lambda>i. decodeDirectoryEntry (read32 (kernelView k) (directory + 4 * of_nat i)))\<rparr>\<rparr>);
     (stringId, k) \<leftarrow> kInsertString k serviceName;
     s \<leftarrow> serviceAt k service;
     let k = setService k service (s\<lparr>nameHash := stringId, service_id := klistCount (services k)\<rparr>);
     k \<leftarrow> fireEvent k (loadInitrdEvent k) stringId 0;
     k \<leftarrow> (if hlib k \<noteq> 0 then do {
             lib \<leftarrow> serviceAt k (hlib k);
             s \<leftarrow> serviceAt k service;
             let info = pagingInfo s;
             let entry = (pageDirectory info 0x3FC)\<lparr>pageTableID := pageTableID (pageDirectory (pagingInfo lib) 0x3FC),
                   pde_belongsToUserProcess := True, pde_present := True, pde_writable := True\<rparr>;
             Some (setService k service (s\<lparr>pagingInfo := info\<lparr>pageDirectory := (pageDirectory info)(0x3FC := entry)\<rparr>\<rparr>))
           } else Some k);
     k \<leftarrow> ofold (\<lambda>i k. shareInto k service (functionsStart k + 0x1000 * of_nat i) (functionsStart k + 0x1000 * of_nat i)) [0..<3] k;
     s \<leftarrow> serviceAt k service;
     info \<leftarrow> reservePagesCount (pagingInfo s) 0 0x10;
     let k = setService k service (s\<lparr>pagingInfo := info\<rparr>);
     k \<leftarrow> ofold (\<lambda>i k. do {
             let programHeader = elfStart + programHeaderTablePosition header + of_nat i * ucast (programHeaderEntrySize header);
             if hlib k \<noteq> 0 \<and> virtualAddress (readProgramHeader (kernelView k) programHeader) \<ge> 0xF0000000 then Some k
             else segmentLoop k service elfStart programHeader 0
           }) [0..<unat (programHeaderEntryCount header)] k;
     s \<leftarrow> serviceAt k service;
     let s = foldl (\<lambda>s i. noteSection elfStart (readSectionHeader (kernelView k)
           (elfStart + sectionHeaderTablePosition header + of_nat i * ucast (sectionHeaderEntrySize header))) s)
         s [0..<unat (sectionHeaderEntryCount header)];
     (main, k) \<leftarrow> kmalloc (setService k service s) 12;
     let k = setFunction k main \<lparr>function_name = literal k ''main'', function_address = entryPosition header,
       function_service = service\<rparr>;
     (list, k) \<leftarrow> klistAdd k (services k) service;
     let k = k\<lparr>services := list\<rparr>;
     s \<leftarrow> serviceAt k service;
     (list, k) \<leftarrow> klistAdd k (service_functions s) main;
     Some (service, setService k service (s\<lparr>service_functions := list\<rparr>))
   }"

partial_function (option) kAppendLoop :: "Kernel \<Rightarrow> u32 \<Rightarrow> u32 \<Rightarrow> (u32 \<times> Kernel) option" where
  "kAppendLoop k string write =
     (if kernelView k string = 0 then Some (write, k)
      else kAppendLoop (poke k write (kernelView k string)) (string + 1) (write + 1))"

text \<open>\<open>combineStrings\<close> on the kernel's memory.\<close>

definition kCombineStrings :: "Kernel \<Rightarrow> u32 \<Rightarrow> u32 \<Rightarrow> (u32 \<times> Kernel) option" where
  "kCombineStrings k string1 string2 = do {
     n1 \<leftarrow> strlen (kernelView k) string1;
     n2 \<leftarrow> strlen (kernelView k) string2;
     (result, k) \<leftarrow> kmalloc k (n1 + n2 + 1);
     (write, k) \<leftarrow> kAppendLoop k string1 result;
     (write, k) \<leftarrow> kAppendLoop k string2 write;
     Some (result, poke k write 0)
   }"

definition readInitrdProgram :: "Kernel \<Rightarrow> u32 \<Rightarrow> (u32 \<times> Kernel) option" where
  "readInitrdProgram k name = do {
     (fileName, k) \<leftarrow> kCombineStrings k (literal k ''initrd/'') name;
     elfData \<leftarrow> findTarFile (kernelView k) (initrd k) (initrdSize k) fileName;
     k \<leftarrow> kfree k fileName;
     if elfData \<noteq> 0 then loadElf k elfData name else Some (0, k)
   }"

text \<open>The result of \<open>readInitrdProgram\<close> is used without asking whether the program was found.\<close>

definition loadProgram :: "Kernel \<Rightarrow> u32 \<Rightarrow> u32 \<Rightarrow> bool \<Rightarrow> (u32 \<times> Kernel) option" where
  "loadProgram k name responding initialize = do {
     (service, k) \<leftarrow> readInitrdProgram k name;
     k \<leftarrow> (if initialize then do {
             provider \<leftarrow> findFunction k service (literal k ''main'');
             scheduleAt k provider responding []
           } else Some k);
     Some (service, k)
   }"

definition loadAndScheduleSystemServices :: "Kernel \<Rightarrow> u32 \<Rightarrow> Kernel option" where
  "loadAndScheduleSystemServices k multibootInfo = do {
     k \<leftarrow> installKernelEvents k;
     (address, pm) \<leftarrow> kernelMapPhysicalCount (kpages k) multibootInfo 4;
     (location, fileSize, k) \<leftarrow> findInitrd (setPages k pm) address (initrdSize k);
     let k = k\<lparr>initrd := location, initrdSize := fileSize\<rparr>;
     (service, k) \<leftarrow> readInitrdProgram k (literal k ''hlib'');
     (_, k) \<leftarrow> loadProgram (k\<lparr>hlib := service\<rparr>) (literal k ''loader'') 0 True;
     Some k
   }"

end
