(* ===== verification/Syscalls.thy ===== *)
theory Syscalls
  imports Services
begin

text \<open>
  The system calls of the kernel, one definition per handler (\<open>kernel/service/*Syscalls.c\<close>,
  \<open>kernel/stringmap/stringmapSyscalls.c\<close>, \<open>kernel/util/IOSyscalls.c\<close>, \<open>kernel/multiboot/initrdSyscall.c\<close>), the
  table that dispatches them and the main loop (\<open>kernel/syscalls/syscall.c\<close>, \<open>kernel/main.c\<close>), and the entry
  points for interrupts and exceptions (\<open>kernel/interrupts/interrupts.c\<close>). A handler gets the address of
  the call. The index of the call's parameters is a number below four.
\<close>

section \<open>Services and functions\<close>

fun indexOf :: "klist \<Rightarrow> u32 \<Rightarrow> u32 \<Rightarrow> u32" where
  "indexOf [] search i = i"
| "indexOf ((_, a) # list) search i = (if a = search then i else indexOf list search (i + 1))"

definition getServiceId :: "Kernel \<Rightarrow> u32 \<Rightarrow> u32" where
  "getServiceId k searchService = indexOf (services k) searchService 0"

definition handleGetServiceIdSyscall :: "Kernel \<Rightarrow> u32 \<Rightarrow> Kernel option" where
  "handleGetServiceIdSyscall k call = do {
     c \<leftarrow> callAt k call;
     s \<leftarrow> serviceAt k (call_service c);
     setReturn k call (service_id s)
   }"

text \<open>The loops that look for a name: \<open>None\<close> as the inner result when it is not found.\<close>

fun indexOfName :: "bytes \<Rightarrow> (u32 \<Rightarrow> u32 option) \<Rightarrow> klist \<Rightarrow> u32 \<Rightarrow> u32 \<Rightarrow> u32 option option" where
  "indexOfName m nameOf [] name i = Some None"
| "indexOfName m nameOf ((_, a) # list) name i = do {
     other \<leftarrow> nameOf a;
     found \<leftarrow> stringEquals m other name;
     if found then Some (Some i) else indexOfName m nameOf list name (i + 1)
   }"

definition returnIndex :: "Kernel \<Rightarrow> u32 \<Rightarrow> u32 option \<Rightarrow> Kernel option" where
  "returnIndex k call index = (case index of None \<Rightarrow> Some k | Some i \<Rightarrow> setReturn k call i)"

definition handleGetServiceSyscall :: "Kernel \<Rightarrow> u32 \<Rightarrow> Kernel option" where
  "handleGetServiceSyscall k call = do {
     c \<leftarrow> callAt k call;
     name \<leftarrow> kRetrieveString k (parameters c 0);
     if name = 0 then Some k
     else do {
       index \<leftarrow> indexOfName (kernelView k) (\<lambda>a. map_option service_name (serviceAt k a)) (services k) name 0;
       returnIndex k call index
     }
   }"

definition handleGetFunctionSyscall :: "Kernel \<Rightarrow> u32 \<Rightarrow> Kernel option" where
  "handleGetFunctionSyscall k call = do {
     c \<leftarrow> callAt k call;
     name \<leftarrow> kRetrieveString k (parameters c 1);
     if name = 0 then Some k
     else do {
       s \<leftarrow> serviceAt k (klistGet (services k) (parameters c 0));
       index \<leftarrow> indexOfName (kernelView k) (\<lambda>a. map_option function_name (functionAt k a)) (service_functions s) name 0;
       returnIndex k call index
     }
   }"

definition handleCreateFunctionSyscall :: "Kernel \<Rightarrow> u32 \<Rightarrow> Kernel option" where
  "handleCreateFunctionSyscall k call = do {
     c \<leftarrow> callAt k call;
     name \<leftarrow> kRetrieveString k (parameters c 0);
     if name = 0 then Some k
     else do {
       (function, k) \<leftarrow> kmalloc k 12;
       let k = setFunction k function \<lparr>function_name = name, function_address = parameters c 1, function_service = call_service c\<rparr>;
       s \<leftarrow> serviceAt k (call_service c);
       k \<leftarrow> setReturn k call (klistCount (service_functions s));
       (list, k) \<leftarrow> klistAdd k (service_functions s) function;
       Some (setService k (call_service c) (s\<lparr>service_functions := list\<rparr>))
     }
   }"

definition setAvoidReschedule :: "Kernel \<Rightarrow> u32 \<Rightarrow> bool \<Rightarrow> Kernel option" where
  "setAvoidReschedule k call b = do {
     c \<leftarrow> callAt k call;
     Some (setCall k call (c\<lparr>avoidReschedule := b\<rparr>))
   }"

definition handleRequestSyscall :: "Kernel \<Rightarrow> u32 \<Rightarrow> Kernel option" where
  "handleRequestSyscall k call = do {
     c \<leftarrow> callAt k call;
     let providerService = klistGet (services k) (parameters c 0);
     if providerService = 0 then Some k
     else do {
       p \<leftarrow> serviceAt k providerService;
       let function = klistGet (service_functions p) (parameters c 1);
       if function = 0 then Some k
       else do {
         s \<leftarrow> serviceAt k (call_service c);
         k \<leftarrow> scheduleAt k function call [parameters c 2, parameters c 3, nameHash s, service_id s];
         setAvoidReschedule k call True
       }
     }
   }"

text \<open>
  The loop over the symbols, entries of 16 bytes, ends at the first that contains the location; its end
  counts as inside.
\<close>

definition lookupSymbol :: "bytes \<Rightarrow> Service \<Rightarrow> u32 \<Rightarrow> u32 option" where
  "lookupSymbol m s location =
     (let entry = (\<lambda>i. readSymbolEntry m (symbolTable s + 16 * of_nat i)) in
      map_option (\<lambda>i. stringTable s + symbol_name (entry i))
        (List.find (\<lambda>i. location \<ge> symbol_value (entry i) \<and> location \<le> symbol_value (entry i) + symbol_size (entry i))
          [0..<unat (symbolTableSize s div 16)]))"

definition handleLookupSymbolSyscall :: "Kernel \<Rightarrow> u32 \<Rightarrow> Kernel option" where
  "handleLookupSymbolSyscall k call = do {
     c \<leftarrow> callAt k call;
     s \<leftarrow> serviceAt k (klistGet (services k) (parameters c 0));
     (case lookupSymbol (kernelView k) s (parameters c 1) of
        None \<Rightarrow> Some k
      | Some name \<Rightarrow> do {
          (stringId, k) \<leftarrow> kInsertString k name;
          setReturn k call stringId
        })
   }"

partial_function (option) stackContains :: "Kernel \<Rightarrow> u32 \<Rightarrow> u32 \<Rightarrow> bool option" where
  "stackContains k currentCall serviceId =
     (if currentCall = 0 then Some False
      else do {
        c \<leftarrow> callAt k currentCall;
        s \<leftarrow> serviceAt k (call_service c);
        if service_id s = serviceId then Some True else stackContains k (respondingTo c) serviceId
      })"

definition handleStackContainsSyscall :: "Kernel \<Rightarrow> u32 \<Rightarrow> Kernel option" where
  "handleStackContainsSyscall k call = do {
     c \<leftarrow> callAt k call;
     found \<leftarrow> stackContains k call (parameters c 0);
     setReturn k call (if found then 1 else 0)
   }"

definition handleForkSyscall :: "Kernel \<Rightarrow> u32 \<Rightarrow> Kernel option" where
  "handleForkSyscall k call = do {
     c \<leftarrow> callAt k call;
     scheduleFunction k \<lparr>function_name = literal k ''forked function'', function_address = parameters c 0,
       function_service = call_service c\<rparr> 0 [parameters c 1, parameters c 2, parameters c 3]
   }"

section \<open>Events\<close>

definition handleCreateEventSyscall :: "Kernel \<Rightarrow> u32 \<Rightarrow> Kernel option" where
  "handleCreateEventSyscall k call = do {
     c \<leftarrow> callAt k call;
     if parameters c 0 = 0 then Some k
     else do {
       (event, k) \<leftarrow> kmalloc k 12;
       let k = setEvent k event (zeroEvent\<lparr>event_name := parameters c 0\<rparr>);
       s \<leftarrow> serviceAt k (call_service c);
       k \<leftarrow> setReturn k call (klistCount (service_events s));
       (list, k) \<leftarrow> klistAdd k (service_events s) event;
       Some (setService k (call_service c) (s\<lparr>service_events := list\<rparr>))
     }
   }"

text \<open>Service 0 stands for the events of the kernel; a number without a service is not asked for.\<close>

definition eventsOf :: "Kernel \<Rightarrow> u32 \<Rightarrow> klist option" where
  "eventsOf k service =
     (if service = 0 then Some (kernelEvents k)
      else do {
        s \<leftarrow> serviceAt k (klistGet (services k) service);
        Some (service_events s)
      })"

fun indexOfEvent :: "Kernel \<Rightarrow> klist \<Rightarrow> u32 \<Rightarrow> u32 \<Rightarrow> u32 option option" where
  "indexOfEvent k [] name i = Some None"
| "indexOfEvent k ((_, a) # list) name i = do {
     e \<leftarrow> eventAt k a;
     if event_name e = name then Some (Some i) else indexOfEvent k list name (i + 1)
   }"

definition handleGetEventSyscall :: "Kernel \<Rightarrow> u32 \<Rightarrow> Kernel option" where
  "handleGetEventSyscall k call = do {
     c \<leftarrow> callAt k call;
     if parameters c 1 = 0 then Some k
     else do {
       events \<leftarrow> eventsOf k (parameters c 0);
       index \<leftarrow> indexOfEvent k events (parameters c 1) 0;
       returnIndex k call index
     }
   }"

definition handleFireEventSyscall :: "Kernel \<Rightarrow> u32 \<Rightarrow> Kernel option" where
  "handleFireEventSyscall k call = do {
     c \<leftarrow> callAt k call;
     s \<leftarrow> serviceAt k (call_service c);
     let event = klistGet (service_events s) (parameters c 0);
     if event \<noteq> 0 then fireEvent k event (parameters c 1) (parameters c 2) else Some k
   }"

definition handleSubscribeEventSyscall :: "Kernel \<Rightarrow> u32 \<Rightarrow> Kernel option" where
  "handleSubscribeEventSyscall k call = do {
     c \<leftarrow> callAt k call;
     list \<leftarrow> eventsOf k (parameters c 0);
     let event = klistGet list (parameters c 1);
     (provider, k) \<leftarrow> kmalloc k 12;
     let k = setFunction k provider \<lparr>function_name = literal k ''event subscription'',
       function_address = parameters c 2, function_service = call_service c\<rparr>;
     e \<leftarrow> eventAt k event;
     (list, k) \<leftarrow> klistAdd k (subscriptions e) provider;
     Some (setEvent k event (e\<lparr>subscriptions := list\<rparr>))
   }"

definition handleAwaitSyscall :: "Kernel \<Rightarrow> u32 \<Rightarrow> Kernel option" where
  "handleAwaitSyscall k call = do {
     k \<leftarrow> setAvoidReschedule k call True;
     c \<leftarrow> callAt k call;
     list \<leftarrow> eventsOf k (parameters c 0);
     let event = klistGet list (parameters c 1);
     e \<leftarrow> eventAt k event;
     (list, k) \<leftarrow> klistAdd k (waitingSyscalls e) call;
     Some (setEvent k event (e\<lparr>waitingSyscalls := list\<rparr>))
   }"

section \<open>Memory\<close>

text \<open>The two loops of \<open>handleRequestMemorySyscall\<close>, with fresh frames or with given ones.\<close>

definition mapFresh :: "u32 \<Rightarrow> nat \<Rightarrow> PagingInfo \<times> KernelMemory \<Rightarrow> (PagingInfo \<times> KernelMemory) option" where
  "mapFresh virtualStart i = (\<lambda>(info, m). do {
     physicalPage \<leftarrow> findPage (kernelPhysicalPages m);
     physicalPages \<leftarrow> reservePagesCount (kernelPhysicalPages m) physicalPage 1;
     mapPage info (m\<lparr>kernelPhysicalPages := physicalPages\<rparr>) (ADDRESS physicalPage) (ADDRESS (virtualStart + of_nat i)) True False
   })"

definition mapGiven :: "u32 \<Rightarrow> u32 \<Rightarrow> nat \<Rightarrow> PagingInfo \<times> KernelMemory \<Rightarrow> (PagingInfo \<times> KernelMemory) option" where
  "mapGiven physicalPage virtualStart i = (\<lambda>(info, m).
     mapPage info m (ADDRESS (physicalPage + of_nat i)) (ADDRESS (virtualStart + of_nat i)) True True)"

definition requestPages :: "PagingInfo \<Rightarrow> KernelMemory \<Rightarrow> u32 \<Rightarrow> u32 \<Rightarrow> u32 \<Rightarrow> (u32 \<times> PagingInfo \<times> KernelMemory) option" where
  "requestPages info m pageCount target physical = do {
     virtualStart \<leftarrow> (if PAGE_ID target = 0 then findMultiplePages info pageCount else Some (PAGE_ID target));
     info \<leftarrow> reservePagesCount info virtualStart pageCount;
     (info, m) \<leftarrow> (if physical = 0 then ofold (mapFresh virtualStart) [0..<unat pageCount] (info, m)
       else do {
         physicalPages \<leftarrow> reservePagesCount (kernelPhysicalPages m) (PAGE_ID physical) pageCount;
         ofold (mapGiven (PAGE_ID physical) virtualStart) [0..<unat pageCount] (info, m\<lparr>kernelPhysicalPages := physicalPages\<rparr>)
       });
     Some (ADDRESS virtualStart + PAGE_OFFSET physical, info, m)
   }"

definition handleRequestMemorySyscall :: "Kernel \<Rightarrow> u32 \<Rightarrow> Kernel option" where
  "handleRequestMemorySyscall k call = do {
     c \<leftarrow> callAt k call;
     s \<leftarrow> serviceAt k (call_service c);
     (result, info, m) \<leftarrow> requestPages (pagingInfo s) (kpages k) (parameters c 0) (parameters c 1) (parameters c 2);
     setReturn (setService (setPages k m) (call_service c) (s\<lparr>pagingInfo := info\<rparr>)) call result
   }"

definition handleGetPhysicalSyscall :: "Kernel \<Rightarrow> u32 \<Rightarrow> Kernel option" where
  "handleGetPhysicalSyscall k call = do {
     c \<leftarrow> callAt k call;
     s \<leftarrow> serviceAt k (call_service c);
     let (physical, m) = getPhysicalAddress (kpages k) (pageDirectory (pagingInfo s)) (parameters c 0);
     setReturn (setPages k m) call physical
   }"

definition handleFreeSyscall :: "Kernel \<Rightarrow> u32 \<Rightarrow> Kernel option" where
  "handleFreeSyscall k call = do {
     c \<leftarrow> callAt k call;
     s \<leftarrow> serviceAt k (call_service c);
     (info, m) \<leftarrow> giveUpPage (pagingInfo s) (kpages k) (PAGE_ID (parameters c 0));
     Some (setService (setPages k m) (call_service c) (s\<lparr>pagingInfo := info\<rparr>))
   }"

section \<open>Strings\<close>

text \<open>The two pages of the caller from an address on, mapped into the kernel.\<close>

definition mapUserBuffer :: "Kernel \<Rightarrow> u32 \<Rightarrow> u32 \<Rightarrow> (u32 \<times> Kernel) option" where
  "mapUserBuffer k service address = do {
     s \<leftarrow> serviceAt k service;
     let (physical, m) = getPhysicalAddress (kpages k) (pageDirectory (pagingInfo s)) address;
     (buffer, m) \<leftarrow> kernelMapPhysicalCount m physical 2;
     Some (buffer, setPages k m)
   }"

definition kUnmapPage :: "Kernel \<Rightarrow> u32 \<Rightarrow> Kernel option" where
  "kUnmapPage k a = do {
     m \<leftarrow> unmapPage (kpages k) a;
     Some (setPages k m)
   }"

definition handleInsertStringSyscall :: "Kernel \<Rightarrow> u32 \<Rightarrow> Kernel option" where
  "handleInsertStringSyscall k call = do {
     c \<leftarrow> callAt k call;
     if parameters c 0 = 0 then Some k
     else do {
       (string, k) \<leftarrow> mapUserBuffer k (call_service c) (parameters c 0);
       count \<leftarrow> strlen (kernelView k) string;
       (savedString, k) \<leftarrow> kmalloc k (count + 1);
       let k = kmemcpy k string savedString (count + 1);
       (stringId, k) \<leftarrow> kInsertString k savedString;
       k \<leftarrow> setReturn k call stringId;
       kUnmapPage k string
     }
   }"

definition handleReadStringLengthSyscall :: "Kernel \<Rightarrow> u32 \<Rightarrow> Kernel option" where
  "handleReadStringLengthSyscall k call = do {
     c \<leftarrow> callAt k call;
     string \<leftarrow> kRetrieveString k (parameters c 0);
     count \<leftarrow> strlen (kernelView k) string;
     setReturn k call count
   }"

definition handleReadStringSyscall :: "Kernel \<Rightarrow> u32 \<Rightarrow> Kernel option" where
  "handleReadStringSyscall k call = do {
     c \<leftarrow> callAt k call;
     (buffer, k) \<leftarrow> mapUserBuffer k (call_service c) (parameters c 1);
     if parameters c 0 = 0 then Some (poke k buffer 0)
     else do {
       string \<leftarrow> kRetrieveString k (parameters c 0);
       k \<leftarrow> (if string \<noteq> 0 then do {
               count \<leftarrow> strlen (kernelView k) string;
               Some (kmemcpy k string buffer (count + 1))
             } else Some k);
       kUnmapPage k buffer
     }
   }"

definition handleDiscardStringSyscall :: "Kernel \<Rightarrow> u32 \<Rightarrow> Kernel option" where
  "handleDiscardStringSyscall k call = do {
     c \<leftarrow> callAt k call;
     kDiscardString k (parameters c 0)
   }"

section \<open>Ports\<close>

definition handleIOInSyscall :: "Kernel \<Rightarrow> u32 \<Rightarrow> Kernel option" where
  "handleIOInSyscall k call = do {
     c \<leftarrow> callAt k call;
     if parameters c 0 \<in> {1, 2, 4}
     then setReturn (k\<lparr>portReads := Suc (portReads k)\<rparr>) call
            (portWords k (portReads k) (unat (parameters c 0)) (ucast (parameters c 1)))
     else Some k
   }"

definition handleIOOutSyscall :: "Kernel \<Rightarrow> u32 \<Rightarrow> Kernel option" where
  "handleIOOutSyscall k call = do {
     c \<leftarrow> callAt k call;
     let port = (ucast (parameters c 1) :: u16);
     let value = parameters c 2;
     Some (if parameters c 0 = 1 then k\<lparr>portWrites := portWrites k @ [(1, port, value AND 0xFF)]\<rparr>
           else if parameters c 0 = 2 then k\<lparr>portWrites := portWrites k @ [(2, port, value AND 0xFFFF)]\<rparr>
           else if parameters c 0 = 4 then k\<lparr>portWrites := portWrites k @ [(4, port, value)]\<rparr>
           else k)
   }"

section \<open>Programs\<close>

definition handleLoadFromInitrdSyscall :: "Kernel \<Rightarrow> u32 \<Rightarrow> Kernel option" where
  "handleLoadFromInitrdSyscall k call = do {
     c \<leftarrow> callAt k call;
     name \<leftarrow> kRetrieveString k (parameters c 0);
     (result, k) \<leftarrow> loadProgram k name call (parameters c 1 \<noteq> 0);
     k \<leftarrow> (if result \<noteq> 0 then do {
             s \<leftarrow> serviceAt k result;
             setReturn k call (service_id s)
           } else Some k);
     c \<leftarrow> callAt k call;
     setAvoidReschedule k call (parameters c 1 \<noteq> 0)
   }"

section \<open>Interrupts\<close>

text \<open>There are subscriptions for 255 interrupts; the number 255 is behind the array.\<close>

definition onInterrupt :: "Kernel \<Rightarrow> u32 \<Rightarrow> Kernel option" where
  "onInterrupt k intNo = do {
     list \<leftarrow> aget 255 (interruptSubscriptions k) (unat intNo);
     scheduleAll k list 0 [intNo]
   }"

definition handleSubscribeInterruptSyscall :: "Kernel \<Rightarrow> u32 \<Rightarrow> Kernel option" where
  "handleSubscribeInterruptSyscall k call = do {
     (provider, k) \<leftarrow> kmalloc k 12;
     c \<leftarrow> callAt k call;
     let k = setFunction k provider \<lparr>function_name = literal k ''INTERRUPT'', function_address = parameters c 1,
       function_service = call_service c\<rparr>;
     list \<leftarrow> aget 255 (interruptSubscriptions k) (unat (parameters c 0));
     (list, k) \<leftarrow> klistAdd k list provider;
     Some (k\<lparr>interruptSubscriptions := (interruptSubscriptions k)(unat (parameters c 0) := list)\<rparr>)
   }"

text \<open>
  Every subscriber of interrupt 0 is told about an exception and answers the call the faulty function was to
  answer; then the current call is freed. \<open>processSyscall\<close> frees it again when it goes on.
\<close>

definition onException :: "Kernel \<Rightarrow> u32 \<Rightarrow> u32 \<Rightarrow> u32 \<Rightarrow> u32 \<Rightarrow> Kernel option" where
  "onException k ebp intNo errorCode eip = do {
     k \<leftarrow> ofold (\<lambda>provider k. do {
            c \<leftarrow> callAt k (currentSyscall k);
            s \<leftarrow> serviceAt k (call_service c);
            let (physical, m) = getPhysicalAddress (kpages k) (pageDirectory (pagingInfo s)) ebp;
            scheduleAt (setPages k m) (snd provider) (respondingTo c)
              [intNo, errorCode, eip, physical, nameHash s, getServiceId k (call_service c)]
          }) (interruptSubscriptions k 0) k;
     freeCall k (currentSyscall k)
   }"

section \<open>Entering and leaving the kernel\<close>

definition finalizeCall :: "Kernel \<Rightarrow> u32 \<Rightarrow> Kernel option" where
  "finalizeCall k returnCode = do {
     c \<leftarrow> callAt k (currentSyscall k);
     s \<leftarrow> serviceAt k (call_service c);
     let (_, m) = getPhysicalAddress (kpages k) (pageDirectory (pagingInfo s)) (call_esp c);
     m \<leftarrow> freePage m (call_esp c);
     let k = setPages k m;
     if respondingTo c \<noteq> 0 then do {
       r \<leftarrow> callAt k (respondingTo c);
       let k = (if call_function r = 2 then setCall k (respondingTo c) (r\<lparr>returnValue := returnCode\<rparr>) else k);
       queueCall k (respondingTo c)
     } else Some k
   }"

definition handleSyscall :: "Kernel \<Rightarrow> u32 \<Rightarrow> u32 \<Rightarrow> u32 \<Rightarrow> u32 \<Rightarrow> u32 \<Rightarrow> u32 \<Rightarrow> Kernel option" where
  "handleSyscall k esp function parameter0 parameter1 parameter2 parameter3 =
     (if function = 0 then finalizeCall k parameter0
      else do {
        (call, k) \<leftarrow> kmalloc k 44;
        c \<leftarrow> callAt k (currentSyscall k);
        s \<leftarrow> serviceAt k (call_service c);
        let (cr3, m) = getPhysicalAddressKernel (kpages k) (directoryAddress s);
        queueCall (setCall (setPages k m) call (zeroSyscall\<lparr>call_function := function, call_service := call_service c,
          call_esp := esp, respondingTo := respondingTo c, call_cr3 := cr3,
          parameters := (\<lambda>_. 0)(0 := parameter0, 1 := parameter1, 2 := parameter2, 3 := parameter3)\<rparr>)) call
      })"

text \<open>
  What the processor does in user mode is not part of the kernel: a run is the interrupts that arrive while
  it lasts and then the system call or the exception that ends it.
\<close>

datatype UserExit = SysEnter u32 u32 u32 u32 u32 u32 | Exception u32 u32 u32 u32

type_synonym UserRun = "u32 list \<times> UserExit"

fun leaveUser :: "Kernel \<Rightarrow> UserExit \<Rightarrow> Kernel option" where
  "leaveUser k (SysEnter esp function parameter0 parameter1 parameter2 parameter3) =
     handleSyscall k esp function parameter0 parameter1 parameter2 parameter3"
| "leaveUser k (Exception ebp intNo errorCode eip) = onException k ebp intNo errorCode eip"

text \<open>A call address below \<open>0x1000\<close> halts the processor.\<close>

definition resume :: "Kernel \<Rightarrow> u32 \<Rightarrow> UserRun \<Rightarrow> Kernel option" where
  "resume k syscall run =
     (if syscall < 0x1000 then None
      else do {
        k \<leftarrow> ofold (\<lambda>intNo k. onInterrupt k intNo) (fst run) (k\<lparr>currentSyscall := syscall\<rparr>);
        leaveUser k (snd run)
      })"

text \<open>The table of handlers; entry 0 is the null pointer.\<close>

definition syscallHandlers :: "(Kernel \<Rightarrow> u32 \<Rightarrow> Kernel option) list" where
  "syscallHandlers = [\<lambda>k call. None, handleCreateFunctionSyscall, handleRequestSyscall, handleIOInSyscall,
     handleIOOutSyscall, handleLoadFromInitrdSyscall, handleGetServiceSyscall, handleGetFunctionSyscall,
     handleSubscribeInterruptSyscall, handleCreateEventSyscall, handleGetEventSyscall, handleFireEventSyscall,
     handleSubscribeEventSyscall, handleGetServiceIdSyscall, handleInsertStringSyscall, handleReadStringLengthSyscall,
     handleReadStringSyscall, handleDiscardStringSyscall, handleRequestMemorySyscall, handleLookupSymbolSyscall,
     handleStackContainsSyscall, handleAwaitSyscall, handleGetPhysicalSyscall, handleForkSyscall, handleFreeSyscall]"

definition dispatch :: "Kernel \<Rightarrow> u32 \<Rightarrow> u32 \<Rightarrow> Kernel option" where
  "dispatch k function call =
     (if unat function < length syscallHandlers then (syscallHandlers ! unat function) k call else Some k)"

definition processSyscall :: "Kernel \<Rightarrow> u32 \<Rightarrow> UserRun \<Rightarrow> Kernel option" where
  "processSyscall k call run = do {
     c \<leftarrow> callAt k call;
     if call_resume c then do {
       k \<leftarrow> resume k call run;
       freeCall k call
     } else do {
       k \<leftarrow> dispatch k (call_function c) call;
       c \<leftarrow> callAt k call;
       let k = setCall k call (c\<lparr>call_resume := True\<rparr>);
       if avoidReschedule c then Some k else queueCall k call
     }
   }"

text \<open>
  One round of the main loop. With nothing to do the processor waits for an interrupt (\<open>sti; hlt; cli\<close>), the
  first one of the run.
\<close>

definition mainLoop :: "Kernel \<Rightarrow> UserRun \<Rightarrow> Kernel option" where
  "mainLoop k run = do {
     (call, list, k) \<leftarrow> klistPop k (callsToProcess k);
     let k = k\<lparr>callsToProcess := list\<rparr>;
     if call = 0 then (case fst run of [] \<Rightarrow> Some k | intNo # _ \<Rightarrow> onInterrupt k intNo)
     else processSyscall k call run
   }"

definition setupSyscalls :: "Kernel \<Rightarrow> Kernel option" where
  "setupSyscalls k = do {
     let k = k\<lparr>machine := writeMsrRegister 0x174 0x08 (machine k)\<rparr>;
     (stack, k) \<leftarrow> kmalloc k 0x1000;
     let k = k\<lparr>machine := writeMsrRegister 0x175 (stack + 0x1000) (machine k)\<rparr>;
     Some (k\<lparr>machine := writeMsrRegister 0x176 (syscallStub (machine k)) (machine k)\<rparr>)
   }"

text \<open>\<open>kernelMain\<close> up to its loop.\<close>

definition kernelMain :: "Kernel \<Rightarrow> u32 \<Rightarrow> Kernel option" where
  "kernelMain k multibootInfo = do {
     m \<leftarrow> reservePagesUntilPhysical (kpages k) 0x900;
     k \<leftarrow> loadAndScheduleSystemServices (setPages k m) multibootInfo;
     k \<leftarrow> setupSyscalls k;
     Some (k\<lparr>portWrites := portWrites k @ map (\<lambda>(port, value). (1, port, ucast value)) setupPic,
            machine := registerInterrupts (machine k)\<rparr>)
   }"

end
