(* ===== verification/EventProps.thy ===== *)
theory EventProps
  imports Syscalls
begin

text \<open>
  The queue of calls: what scheduling a function and firing an event do to it, which calls are woken and
  which keep waiting.
\<close>

section \<open>Scheduling\<close>

lemma kmalloc_SomeD: "kmalloc k n = Some (a, k') \<Longrightarrow> \<exists>h. kernelMalloc (kheap k) n = Some (a, h) \<and> k' = k\<lparr>kheap := h\<rparr>"
  by (auto simp: kmalloc_def split: bind_splits)

lemma kfree_SomeD: "kfree k a = Some k' \<Longrightarrow> \<exists>h. kernelFree (kheap k) a = Some h \<and> k' = k\<lparr>kheap := h\<rparr>"
  by (auto simp: kfree_def split: bind_splits)

lemma klistAdd_SomeD:
  "klistAdd k l d = Some (l', k') \<Longrightarrow> \<exists>e h. kernelMalloc (kheap k) 8 = Some (e, h) \<and> l' = l @ [(e, d)] \<and> k' = k\<lparr>kheap := h\<rparr>"
  by (auto simp: klistAdd_def split: bind_splits dest!: kmalloc_SomeD)

lemma queueCall_SomeD:
  "queueCall k c = Some k' \<Longrightarrow>
     \<exists>e h. kernelMalloc (kheap k) 8 = Some (e, h) \<and> k' = k\<lparr>kheap := h, callsToProcess := callsToProcess k @ [(e, c)]\<rparr>"
  by (auto simp: queueCall_def split: bind_splits dest!: klistAdd_SomeD)

lemma setPages_fields [simp]:
  "callAt (setPages k m) = callAt k" "callsToProcess (setPages k m) = callsToProcess k" "serviceAt (setPages k m) = serviceAt k"
  "eventAt (setPages k m) = eventAt k" "functionAt (setPages k m) = functionAt k" "services (setPages k m) = services k"
  "kheap (setPages k m) = (kheap k)\<lparr>pages := m\<rparr>"
  by (simp_all add: setPages_def)

lemma queueCall_eq:
  "kernelMalloc (kheap k) 8 = Some (e, h) \<Longrightarrow> queueCall k c = Some (k\<lparr>kheap := h, callsToProcess := callsToProcess k @ [(e, c)]\<rparr>)"
  by (simp add: queueCall_def klistAdd_def kmalloc_def)

text \<open>The parts of the state that reading and writing bytes leave alone.\<close>

definition same_objects :: "Kernel \<Rightarrow> Kernel \<Rightarrow> bool" where
  "same_objects k k' \<longleftrightarrow> stringRoot k' = stringRoot k \<and> stringLayers k' = stringLayers k \<and> functionAt k' = functionAt k \<and>
     eventAt k' = eventAt k \<and> services k' = services k \<and> kernelEvents k' = kernelEvents k \<and>
     interruptSubscriptions k' = interruptSubscriptions k \<and> currentSyscall k' = currentSyscall k"

lemma same_objects_trans: "same_objects k k1 \<Longrightarrow> same_objects k1 k2 \<Longrightarrow> same_objects k k2"
  by (simp add: same_objects_def)

lemma poke_state: "\<exists>r. poke k a v = k\<lparr>ram := r\<rparr>"
  by (auto simp: poke_def)

lemma poke32_state: "\<exists>r. poke32 k a v = k\<lparr>ram := r\<rparr>"
  by (auto simp: poke32_def poke_def)

lemma poke32_loop_state: "\<exists>r. foldl (\<lambda>k i. poke32 k (f i) (g i)) k xs = k\<lparr>ram := r\<rparr>"
proof (induction xs arbitrary: k)
  case Nil
  have "k = k\<lparr>ram := ram k\<rparr>" by simp
  then show ?case by (simp, blast)
next
  case (Cons x xs)
  obtain r where "poke32 k (f x) (g x) = k\<lparr>ram := r\<rparr>" using poke32_state by blast
  then show ?case using Cons.IH [of "k\<lparr>ram := r\<rparr>"] by simp
qed

lemma writeFrame_state: "\<exists>r. writeFrame k esp address arg n = k\<lparr>ram := r\<rparr>"
proof -
  obtain r where r: "poke32 k esp address = k\<lparr>ram := r\<rparr>" using poke32_state by blast
  obtain r' where r': "poke32 (k\<lparr>ram := r\<rparr>) (esp + 4) (runEnd k) = k\<lparr>ram := r'\<rparr>"
    using poke32_state [of "k\<lparr>ram := r\<rparr>"] by auto
  show ?thesis
    using poke32_loop_state [of "\<lambda>i. esp + 8 + 4 * of_nat i" arg "k\<lparr>ram := r'\<rparr>" "[0..<n]"] r r'
    by (simp add: writeFrame_def)
qed

lemma writeFrame_ram: "writeFrame k esp address arg n = k\<lparr>ram := ram (writeFrame k esp address arg n)\<rparr>"
  using writeFrame_state [of k esp address arg n] by auto

lemma kheap_writeFrame [simp]: "kheap (writeFrame k esp address arg n) = kheap k"
  using writeFrame_state [of k esp address arg n] by auto

text \<open>The bytes in physical memory, with the translation as an argument.\<close>

definition put32 :: "(u32 \<Rightarrow> u32) \<Rightarrow> bytes \<Rightarrow> u32 \<Rightarrow> u32 \<Rightarrow> bytes" where
  "put32 t r a v = r(t a := ucast v, t (a + 1) := ucast (drop_bit 8 v), t (a + 2) := ucast (drop_bit 16 v),
     t (a + 3) := ucast (drop_bit 24 v))"

lemma getPhysicalAddressKernel_eq: "fst (getPhysicalAddressKernel m a) = ktranslate m a"
  by (simp add: getPhysicalAddressKernel_def translate_def)

lemma ram_poke32: "ram (poke32 k a v) = put32 (ktranslate (kpages k)) (ram k) a v"
  by (simp add: poke32_def poke_def put32_def getPhysicalAddressKernel_eq)

lemma kpages_poke32 [simp]: "kheap (poke32 k a v) = kheap k" "runEnd (poke32 k a v) = runEnd k"
  using poke32_state [of k a v] by auto

lemma ram_poke32_loop:
  "ram (foldl (\<lambda>k i. poke32 k (f i) (g i)) k xs) = foldl (\<lambda>r i. put32 (ktranslate (kpages k)) r (f i) (g i)) (ram k) xs"
  by (induction xs arbitrary: k) (simp_all add: ram_poke32)

lemma ram_writeFrame:
  "ram (writeFrame k e b f n) = (let t = ktranslate (kpages k) in
     foldl (\<lambda>r i. put32 t r (e + 8 + 4 * of_nat i) (f i)) (put32 t (put32 t (ram k) e b) (e + 4) (runEnd k)) [0..<n])"
  by (simp add: writeFrame_def Let_def ram_poke32_loop ram_poke32)

text \<open>The call that \<open>scheduleFunction\<close> makes, and all it changes.\<close>

lemma scheduleFunction_SomeD:
  assumes "scheduleFunction k provider responding args = Some k'"
  shows "\<exists>n call h1 base h2 s ret info pm e h3 r.
    countParameters (variadic args (stackWords k (scheduleCount k))) 0 = Some n \<and>
    kernelMalloc (kheap k) 44 = Some (call, h1) \<and> kernelMalloc h1 0x1000 = Some (base, h2) \<and>
    serviceAt k (function_service provider) = Some s \<and>
    sharePage (snd (getPhysicalAddressKernel (pages h2) (directoryAddress s))) (pagingInfo s) base base = Some (ret, info, pm) \<and>
    kernelMalloc (h2\<lparr>pages := pm\<rparr>) 8 = Some (e, h3) \<and>
    r = ram (writeFrame (k\<lparr>kheap := h2\<lparr>pages := pm\<rparr>\<rparr>) (base + 0x1000 - 0x10 - of_nat n * 4) (function_address provider)
      (variadic args (stackWords k (scheduleCount k))) n) \<and>
    k' = k\<lparr>kheap := h3, ram := r, scheduleCount := Suc (scheduleCount k),
      serviceAt := (serviceAt k)(function_service provider \<mapsto> s\<lparr>pagingInfo := info\<rparr>),
      callAt := (callAt k)(call \<mapsto> zeroSyscall\<lparr>call_esp := base + 0x1000 - 0x10 - of_nat n * 4,
        call_cr3 := fst (getPhysicalAddressKernel (pages h2) (directoryAddress s)), respondingTo := responding,
        call_service := function_service provider, call_resume := True\<rparr>),
      callsToProcess := callsToProcess k @ [(e, call)]\<rparr>"
proof -
  let ?arg = "variadic args (stackWords k (scheduleCount k))"
  obtain n call h1 base h2 s ret info pm where
    n: "countParameters ?arg 0 = Some n" and al: "kernelMalloc (kheap k) 44 = Some (call, h1)" "kernelMalloc h1 0x1000 = Some (base, h2)"
    and s: "serviceAt k (function_service provider) = Some s"
    and sh: "sharePage (snd (getPhysicalAddressKernel (pages h2) (directoryAddress s))) (pagingInfo s) base base = Some (ret, info, pm)"
    and q: "queueCall (setCall (writeFrame (setService (setPages (k\<lparr>scheduleCount := Suc (scheduleCount k), kheap := h2\<rparr>) pm)
        (function_service provider) (s\<lparr>pagingInfo := info\<rparr>)) (base + 0x1000 - 0x10 - of_nat n * 4) (function_address provider) ?arg n) call
        (zeroSyscall\<lparr>call_esp := base + 0x1000 - 0x10 - of_nat n * 4,
        call_cr3 := fst (getPhysicalAddressKernel (pages h2) (directoryAddress s)), respondingTo := responding,
        call_service := function_service provider, call_resume := True\<rparr>)) call = Some k'"
    using assms by (auto simp: scheduleFunction_def Let_def split_def split: bind_splits dest!: kmalloc_SomeD)
  have "ram (writeFrame (setService (setPages (k\<lparr>scheduleCount := c, kheap := h2\<rparr>) pm) a x) e b f i) =
      ram (writeFrame (k\<lparr>kheap := h2\<lparr>pages := pm\<rparr>\<rparr>) e b f i)" for c a x e b f i
    by (simp add: ram_writeFrame setService_def setPages_def)
  then show ?thesis using n al s sh q
    by (subst (asm) writeFrame_ram) (auto simp: setCall_def setService_def setPages_def dest!: queueCall_SomeD)
qed

lemma scheduleFunction_queue:
  assumes "scheduleFunction k provider responding args = Some k'"
  shows "\<exists>e call c. callsToProcess k' = callsToProcess k @ [(e, call)] \<and> callAt k' = (callAt k)(call \<mapsto> c) \<and>
    call_resume c \<and> respondingTo c = responding \<and> call_service c = function_service provider \<and> same_objects k k'"
proof -
  obtain e call c r i h where k': "k' = k\<lparr>kheap := h, ram := r, scheduleCount := Suc (scheduleCount k), serviceAt := i,
      callAt := (callAt k)(call \<mapsto> c), callsToProcess := callsToProcess k @ [(e, call)]\<rparr>"
    and c: "call_resume c" "respondingTo c = responding" "call_service c = function_service provider"
    using scheduleFunction_SomeD [OF assms] by fastforce
  show ?thesis
    using c by (intro exI [of _ e] exI [of _ call] exI [of _ c]) (simp add: k' same_objects_def)
qed

lemma scheduleAll_queue:
  assumes "scheduleAll k list responding args = Some k'"
  shows "\<exists>new. callsToProcess k' = callsToProcess k @ new \<and> length new = length list \<and> same_objects k k' \<and>
    (\<forall>a. a \<notin> snd ` set new \<longrightarrow> callAt k' a = callAt k a) \<and> (\<forall>a \<in> snd ` set new. \<exists>c. callAt k' a = Some c \<and> call_resume c)"
  using assms unfolding scheduleAll_def
proof (induction list arbitrary: k)
  case Nil
  then show ?case by (simp add: same_objects_def)
next
  case (Cons provider list)
  obtain k1 where k1: "scheduleAt k (snd provider) responding args = Some k1"
    and rest: "ofold (\<lambda>provider k. scheduleAt k (snd provider) responding args) list k1 = Some k'"
    using Cons.prems by (auto split: bind_splits)
  obtain e call c where one: "callsToProcess k1 = callsToProcess k @ [(e, call)]" "callAt k1 = (callAt k)(call \<mapsto> c)"
    "call_resume c" "same_objects k k1"
    using k1 scheduleFunction_queue by (fastforce simp: scheduleAt_def split: bind_splits)
  obtain new where new: "callsToProcess k' = callsToProcess k1 @ new" "length new = length list" "same_objects k1 k'"
    "\<forall>a. a \<notin> snd ` set new \<longrightarrow> callAt k' a = callAt k1 a" "\<forall>a \<in> snd ` set new. \<exists>c. callAt k' a = Some c \<and> call_resume c"
    using Cons.IH [OF rest] by blast
  have "\<exists>c. callAt k' call = Some c \<and> call_resume c"
    using new(4,5) one(2,3) by (cases "call \<in> snd ` set new") auto
  then show ?case
    using one new same_objects_trans by (intro exI [of _ "(e, call) # new"]) auto
qed

section \<open>Firing an event\<close>

definition wakes :: "Kernel \<Rightarrow> u32 \<Rightarrow> u32 \<Rightarrow> bool" where
  "wakes k code a \<longleftrightarrow> (\<exists>c. callAt k a = Some c \<and> (parameters c 2 = 0 \<or> parameters c 2 = code))"

lemma wakeLoop_spec:
  assumes "wakeLoop k data code waiting newWaiting = Some (rest, k')" and "distinct (map snd waiting)"
  shows "(\<exists>es. callsToProcess k' = callsToProcess k @ es \<and> map snd es = filter (wakes k code) (map snd waiting)) \<and>
    map snd rest = map snd newWaiting @ filter (\<lambda>a. \<not> wakes k code a) (map snd waiting) \<and> same_objects k k' \<and>
    serviceAt k' = serviceAt k \<and>
    callAt k' = (\<lambda>a. if a \<in> snd ` set waiting \<and> wakes k code a then map_option (\<lambda>c. c\<lparr>returnValue := data\<rparr>) (callAt k a) else callAt k a)"
  using assms
proof (induction k data code waiting newWaiting rule: wakeLoop.induct)
  case (1 k data code newWaiting)
  then show ?case by (simp add: same_objects_def)
next
  case (2 k data code old call current newWaiting)
  obtain k1 c where k1: "kfree k old = Some k1" and c: "callAt k1 call = Some c"
    and run: "(if parameters c 2 \<noteq> 0 \<and> parameters c 2 \<noteq> code then do {
       (newWaiting, k) \<leftarrow> klistAdd k1 newWaiting call;
       wakeLoop k data code current newWaiting
     } else do {
       k \<leftarrow> queueCall (setCall k1 call (c\<lparr>returnValue := data\<rparr>)) call;
       wakeLoop k data code current newWaiting
     }) = Some (rest, k')"
    using "2.prems"(1) by (auto split: bind_splits)
  obtain h where h: "k1 = k\<lparr>kheap := h\<rparr>" using kfree_SomeD [OF k1] by blast
  have d: "distinct (map snd current)" "call \<notin> snd ` set current" using "2.prems"(2) by auto
  have ck: "callAt k call = Some c" using c h by simp
  show ?case
  proof (cases "parameters c 2 \<noteq> 0 \<and> parameters c 2 \<noteq> code")
    case True
    then obtain nw k2 where k2: "klistAdd k1 newWaiting call = Some (nw, k2)"
      and r: "wakeLoop k2 data code current nw = Some (rest, k')"
      using run by (auto split: bind_splits)
    obtain e h2 where nw: "nw = newWaiting @ [(e, call)]" and k2': "k2 = k\<lparr>kheap := h2\<rparr>"
      using klistAdd_SomeD [OF k2] h by auto
    have w: "wakes k2 code = wakes k code" by (simp add: fun_eq_iff wakes_def k2')
    have nwk: "\<not> wakes k code call" using True ck by (simp add: wakes_def)
    from "2.IH"(1) [OF k1 c True k2 _ r d(1)] show ?thesis
      unfolding w using nwk d(2) by (auto simp: nw k2' same_objects_def fun_eq_iff)
  next
    case False
    then obtain k2 where k2: "queueCall (setCall k1 call (c\<lparr>returnValue := data\<rparr>)) call = Some k2"
      and r: "wakeLoop k2 data code current newWaiting = Some (rest, k')"
      using run by (auto split: bind_splits)
    obtain e where k2': "callAt k2 = (callAt k)(call \<mapsto> c\<lparr>returnValue := data\<rparr>)" "same_objects k k2"
        "callsToProcess k2 = callsToProcess k @ [(e, call)]" "serviceAt k2 = serviceAt k"
      using queueCall_SomeD [OF k2] h by (auto simp: setCall_def same_objects_def)
    have w: "wakes k2 code a = wakes k code a" for a using ck by (simp add: wakes_def k2')
    then have w': "wakes k2 code = wakes k code" by (rule ext)
    have wk: "wakes k code call" using False ck by (auto simp: wakes_def)
    from "2.IH"(2) [OF k1 c False k2 r d(1)] obtain es where
      es: "callsToProcess k' = callsToProcess k2 @ es" "map snd es = filter (wakes k code) (map snd current)"
      and rest: "map snd rest = map snd newWaiting @ filter (\<lambda>a. \<not> wakes k code a) (map snd current)" "same_objects k2 k'"
        "serviceAt k' = serviceAt k2"
      and ca: "callAt k' = (\<lambda>a. if a \<in> snd ` set current \<and> wakes k code a then map_option (\<lambda>c. c\<lparr>returnValue := data\<rparr>) (callAt k2 a) else callAt k2 a)"
      unfolding w' by blast
    have "callsToProcess k' = callsToProcess k @ (e, call) # es" using es by (simp add: k2')
    moreover have "map snd ((e, call) # es) = filter (wakes k code) (map snd ((old, call) # current))" using es wk by simp
    moreover have "same_objects k k'" "serviceAt k' = serviceAt k"
      using same_objects_trans [OF k2'(2) rest(2)] rest(3) k2'(4) by simp_all
    moreover have "callAt k' = (\<lambda>a. if a \<in> snd ` set ((old, call) # current) \<and> wakes k code a
        then map_option (\<lambda>c. c\<lparr>returnValue := data\<rparr>) (callAt k a) else callAt k a)"
      unfolding ca using wk d(2) ck by (auto simp: k2' fun_eq_iff)
    ultimately show ?thesis using rest(1) wk by auto
  qed
qed

text \<open>
  C5. Firing an event first schedules one new call per subscription, in their order, and then takes the waiting
  calls in their order: those that wait for this code or for any code go to the end of the queue with the
  data as their result, the others keep waiting. No other call changes.
\<close>

theorem fireEvent_wakes:
  assumes "eventAt k event = Some e" and "distinct (map snd (waitingSyscalls e))" and "fireEvent k event data code = Some k'"
  shows "\<exists>k1 new e'. scheduleAll k (subscriptions e) 0 [data] = Some k1 \<and> length new = length (subscriptions e) \<and>
    map snd (callsToProcess k') = map snd (callsToProcess k) @ new @ filter (wakes k1 code) (map snd (waitingSyscalls e)) \<and>
    eventAt k' = (eventAt k)(event \<mapsto> e') \<and> subscriptions e' = subscriptions e \<and> event_name e' = event_name e \<and>
    map snd (waitingSyscalls e') = filter (\<lambda>a. \<not> wakes k1 code a) (map snd (waitingSyscalls e)) \<and>
    (\<forall>a. callAt k' a = (if a \<in> snd ` set (waitingSyscalls e) \<and> wakes k1 code a
       then map_option (\<lambda>c. c\<lparr>returnValue := data\<rparr>) (callAt k1 a) else callAt k1 a)) \<and>
    (\<forall>a. a \<notin> set new \<longrightarrow> callAt k1 a = callAt k a)"
proof -
  obtain k1 e1 k2 rest e2 where 1: "scheduleAll k (subscriptions e) 0 [data] = Some k1" "eventAt k1 event = Some e1"
    "wakeLoop k1 data code (waitingSyscalls e1) [] = Some (rest, k2)" "eventAt k2 event = Some e2"
    "k' = setEvent k2 event (e2\<lparr>waitingSyscalls := rest\<rparr>)"
    using assms(1,3) by (auto simp: fireEvent_def split: bind_splits)
  obtain new where new: "callsToProcess k1 = callsToProcess k @ new" "length new = length (subscriptions e)"
    "same_objects k k1" "\<forall>a. a \<notin> snd ` set new \<longrightarrow> callAt k1 a = callAt k a"
    using scheduleAll_queue [OF 1(1)] by blast
  have e1: "e1 = e" using new(3) 1(2) assms(1) by (simp add: same_objects_def)
  note w = wakeLoop_spec [OF 1(3), unfolded e1, OF assms(2)]
  have ev: "eventAt k2 = eventAt k" using w new(3) by (simp add: same_objects_def)
  then have e2: "e2 = e" using 1(4) assms(1) by simp
  obtain es where es: "callsToProcess k2 = callsToProcess k1 @ es" "map snd es = filter (wakes k1 code) (map snd (waitingSyscalls e))"
    using w by blast
  show ?thesis
  proof (intro exI [of _ k1] exI [of _ "map snd new"] exI [of _ "e\<lparr>waitingSyscalls := rest\<rparr>"] conjI)
    show "map snd (callsToProcess k') = map snd (callsToProcess k) @ map snd new @ filter (wakes k1 code) (map snd (waitingSyscalls e))"
      using es new(1) by (simp add: 1(5) setEvent_def)
    show "\<forall>a. callAt k' a = (if a \<in> snd ` set (waitingSyscalls e) \<and> wakes k1 code a
       then map_option (\<lambda>c. c\<lparr>returnValue := data\<rparr>) (callAt k1 a) else callAt k1 a)"
      using w by (simp add: 1(5) setEvent_def)
  qed (use 1(1) new w ev in \<open>simp_all add: 1(5) e2 setEvent_def\<close>)
qed

text \<open>A kernel after its start with one service, for the examples.\<close>

definition started_kernel :: Kernel where
  "started_kernel = \<lparr>kheap = started_heap, ram = (\<lambda>_. 0), stringRoot = (\<lambda>_. 0), stringLayers = Map.empty,
     serviceAt = [0x8000 \<mapsto> zeroService\<lparr>service_id := 0\<rparr>], functionAt = Map.empty, eventAt = Map.empty, callAt = Map.empty,
     services = [(0x7000, 0x8000)], callsToProcess = [], kernelEvents = [], interruptSubscriptions = (\<lambda>_. []),
     currentSyscall = 0, hlib = 0, loadInitrdEvent = 0, crashEvent = 0, initrd = 0, initrdSize = 0, literal = (\<lambda>_. 0x100),
     functionsStart = 0xF0000, runEnd = 0xF0010, stackWords = (\<lambda>_ _. 0), scheduleCount = 0, portWords = (\<lambda>_ _ _. 0),
     portReads = 0, portWrites = [], machine = undefined\<rparr>"

theorem fireEvent_wakes_witness:
  "let c = zeroSyscall\<lparr>parameters := (\<lambda>_. 0)(2 := 7)\<rparr>;
       k = started_kernel\<lparr>eventAt := [0x5000 \<mapsto> zeroEvent\<lparr>waitingSyscalls := [(0, 0x6000)]\<rparr>], callAt := [0x6000 \<mapsto> c]\<rparr>
   in \<exists>k'. fireEvent k 0x5000 42 7 = Some k' \<and> map snd (callsToProcess k') = [0x6000] \<and>
        callAt k' 0x6000 = Some (c\<lparr>returnValue := 42\<rparr>)"
proof -
  define c where "c = zeroSyscall\<lparr>parameters := (\<lambda>_. 0)(2 := 7)\<rparr>"
  define k where "k = started_kernel\<lparr>eventAt := [0x5000 \<mapsto> zeroEvent\<lparr>waitingSyscalls := [(0, 0x6000)]\<rparr>], callAt := [0x6000 \<mapsto> c]\<rparr>"
  obtain e h where al: "kernelMalloc started_heap 8 = Some (e, h)" using started_malloc [of 8] by auto
  have heap: "kheap k = started_heap" by (simp add: k_def started_kernel_def)
  have "\<exists>k'. fireEvent k 0x5000 42 7 = Some k'"
    using al by (simp add: fireEvent_def k_def c_def scheduleAll_def started_kernel_def zeroEvent_def kfree_def ka.release_null
        queueCall_def klistAdd_def kmalloc_def setCall_def)
  then obtain k' where run: "fireEvent k 0x5000 42 7 = Some k'" ..
  define E where "E = zeroEvent\<lparr>waitingSyscalls := [(0, 0x6000)]\<rparr>"
  have ev: "eventAt k 0x5000 = Some E" and E: "subscriptions E = []" "waitingSyscalls E = [(0, 0x6000)]"
    and d: "distinct (map snd (waitingSyscalls E))" by (simp_all add: k_def E_def zeroEvent_def)
  from fireEvent_wakes [OF ev d run, unfolded E] obtain k1 new where
    k1: "scheduleAll k [] 0 [42] = Some k1" and new: "length new = length ([] :: klist)" and
    q: "map snd (callsToProcess k') = map snd (callsToProcess k) @ new @ filter (wakes k1 7) (map snd [(0 :: u32, 0x6000)])" and
    ca: "\<forall>a. callAt k' a = (if a \<in> snd ` set [(0 :: u32, 0x6000)] \<and> wakes k1 7 a
       then map_option (\<lambda>c. c\<lparr>returnValue := 42\<rparr>) (callAt k1 a) else callAt k1 a)"
    by blast
  have kk: "k1 = k" using k1 by (simp add: scheduleAll_def)
  have w: "wakes k 7 0x6000" "callsToProcess k = []" "callAt k 0x6000 = Some c" "new = []"
    using new by (simp_all add: wakes_def k_def c_def started_kernel_def)
  have "map snd (callsToProcess k') = [0x6000] \<and> callAt k' 0x6000 = Some (c\<lparr>returnValue := 42\<rparr>)"
    using q ca [rule_format, of "0x6000"] w unfolding kk by simp
  with run show ?thesis unfolding Let_def k_def c_def by (intro exI [of _ k'] conjI) simp_all
qed

end
