(* ===== verification/Spaces.thy ===== *)
theory Spaces
  imports Malloc
begin

text \<open>
  Several address spaces at once: what the kernel's page and heap allocations leave of the page tables of
  others, how many pages they use up, and what mapping a page into another address space leaves of the
  kernel's own translation.
\<close>

section \<open>Spare pages\<close>

definition spare :: "PagingInfo \<Rightarrow> nat set" where
  "spare info = {q. q < PAGES \<and> search_start info \<le> q \<and> q \<notin> used_pages info}"

lemma finite_spare [simp]: "finite (spare info)"
  by (rule finite_subset [of _ "{..<PAGES}"]) (auto simp: spare_def)

lemma spare_insert:
  assumes "used_pages info' = insert p (used_pages info)" and "search_start info' = search_start info"
  shows "card (spare info) \<le> card (spare info') + 1"
proof -
  have "spare info' = spare info - {p}" using assms by (auto simp: spare_def)
  then show ?thesis using card_Diff1_le [of "spare info" p] card_Suc_Diff1 [of "spare info" p]
    by (cases "p \<in> spare info") auto
qed

lemma spare_exists: "0 < card (spare info) \<Longrightarrow> \<exists>q < PAGES. search_start info \<le> q \<and> q \<notin> used_pages info"
  by (metis (mono_tags, lifting) card.empty equals0I less_irrefl mem_Collect_eq spare_def)

section \<open>Growing memory\<close>

text \<open>
  \<open>grows i j m m'\<close>: the step from \<open>m\<close> to \<open>m'\<close> takes at most \<open>i\<close> frames and \<open>j\<close> kernel pages, gives none back, and
  leaves the page tables of other address spaces alone.
\<close>

definition grows :: "nat \<Rightarrow> nat \<Rightarrow> KernelMemory \<Rightarrow> KernelMemory \<Rightarrow> bool" where
  "grows i j m m' \<longleftrightarrow> kernel_ok m' \<and> used_frames m \<subseteq> used_frames m' \<and> used_virtual m \<subseteq> used_virtual m' \<and>
     card (spare (kernelPhysicalPages m)) \<le> card (spare (kernelPhysicalPages m')) + i \<and>
     card (spare (kernelVirtualPages m)) \<le> card (spare (kernelVirtualPages m')) + j \<and>
     (\<forall>g. unat g \<in> used_frames m \<and> g \<in> table_frames (kernelVirtualPages m') \<longrightarrow> g \<in> table_frames (kernelVirtualPages m)) \<and>
     (\<forall>f. unat f \<in> used_frames m \<and> f \<notin> table_frames (kernelVirtualPages m) \<longrightarrow> frames m' f = frames m f)"

lemma growsD:
  assumes "grows i j m m'"
  shows "kernel_ok m'" and "used_frames m \<subseteq> used_frames m'" and "used_virtual m \<subseteq> used_virtual m'"
    and "card (spare (kernelPhysicalPages m)) \<le> card (spare (kernelPhysicalPages m')) + i"
    and "card (spare (kernelVirtualPages m)) \<le> card (spare (kernelVirtualPages m')) + j"
  using assms by (simp_all add: grows_def)

lemma grows_refl: "kernel_ok m \<Longrightarrow> grows 0 0 m m"
  by (simp add: grows_def)

lemma grows_trans:
  assumes "grows i j m m1" and "grows i' j' m1 m2"
  shows "grows (i + i') (j + j') m m2"
  using assms unfolding grows_def by (auto 0 4)

lemma reservePhysical_grows:
  assumes "kernel_ok m" and "reservePhysical m p = Some m'" and "unat p < PAGES"
  shows "grows 1 0 m m'"
proof -
  note r = reservePhysical_spec [OF assms]
  show ?thesis using r spare_insert [OF r(2,5)] by (auto simp: grows_def)
qed

lemma reserveVirtual_grows:
  assumes "kernel_ok m" and "reserveVirtual m p = Some m'" and "unat p < PAGES"
  shows "grows 0 1 m m'"
proof -
  note r = reserveVirtual_spec [OF assms]
  obtain info where info: "reservePage (kernelVirtualPages m) p = Some info" "m' = m\<lparr>kernelVirtualPages := info\<rparr>"
    using assms(2) by (auto simp: reserveVirtual_def split: bind_splits)
  have "pageDirectory info = pageDirectory (kernelVirtualPages m)"
    using reservePage_same_space [OF info(1)] by (simp add: same_space_def)
  then have "table_frames info = table_frames (kernelVirtualPages m)" by (simp add: table_frames_def)
  then show ?thesis using r spare_insert [OF r(2,6)] info(2) by (auto simp: grows_def)
qed

lemma ensurePageTable_spare:
  assumes "bitmap_ok (kernelPhysicalPages m)" and "ensurePageTable info m d userPage = Some (info', m')"
  shows "card (spare (kernelPhysicalPages m)) \<le> card (spare (kernelPhysicalPages m')) + 1"
proof (cases "pde_present (pageDirectory info d)")
  case True
  then show ?thesis using assms(2) by (simp add: ensurePageTable_present)
next
  case False
  from ensurePageTable_new [OF this assms] show ?thesis using spare_insert by blast
qed

text \<open>Mapping a page, seen from outside of the address space it is mapped into.\<close>

lemma mapPage_outside:
  assumes ok: "bitmap_ok (kernelPhysicalPages m)" and sp: "space_ok m info"
    and run: "mapPage info m physical virtual userPage isVolatile = Some (info', m')"
  shows "card (spare (kernelPhysicalPages m)) \<le> card (spare (kernelPhysicalPages m')) + 1"
    and "unat g \<in> used_frames m \<Longrightarrow> g \<in> table_frames info' \<Longrightarrow> g \<in> table_frames info"
proof -
  obtain m1 where ens: "ensurePageTable info m (pageDirectoryIndex virtual) userPage = Some (info', m1)"
    and kp: "kernelPhysicalPages m' = kernelPhysicalPages m1"
    using mapPage_decompose [OF run] by blast
  show "card (spare (kernelPhysicalPages m)) \<le> card (spare (kernelPhysicalPages m')) + 1"
    using ensurePageTable_spare [OF ok ens] by (simp add: kp)
  show "g \<in> table_frames info" if "unat g \<in> used_frames m" "g \<in> table_frames info'"
    by (rule ensurePageTable_spec(10) [OF ok sp ens that])
qed

lemma spare_cong: "used_pages info' = used_pages info \<Longrightarrow> search_start info' = search_start info \<Longrightarrow> spare info' = spare info"
  by (simp add: spare_def)

lemma mapPageKernel_grows:
  assumes ok: "kernel_ok m" and run: "mapPageKernel m physical virtual = Some m'"
  shows "grows 1 0 m m'"
proof -
  obtain info m1 where map: "mapPage (kernelVirtualPages m) m physical virtual False False = Some (info, m1)"
    and m': "m' = m1\<lparr>kernelVirtualPages := info\<rparr>"
    using run by (auto simp: mapPageKernel_def onKernel_def split: bind_splits)
  have p: "bitmap_ok (kernelPhysicalPages m)" and s: "space_ok m (kernelVirtualPages m)"
    using ok by (simp_all add: kernel_ok_def)
  note k = mapPageKernel_spec [OF ok run]
  note o = mapPage_outside [OF p s map]
  have "spare (kernelVirtualPages m') = spare (kernelVirtualPages m)" using k(2,5) by (rule spare_cong)
  then show ?thesis
    using k(1-3) o mapPage_spec(8) [OF p s map] by (auto simp: grows_def m')
qed

lemma getPage_grows:
  assumes ok: "kernel_ok m" and run: "getPage m = Some (a, m')"
  shows "grows 2 1 m m'"
proof -
  obtain p m1 v m2 where p: "findPage (kernelPhysicalPages m) = Some p" and m1: "reservePhysical m p = Some m1"
    and v: "findPage (kernelVirtualPages m1) = Some v" and m2: "reserveVirtual m1 v = Some m2"
    and map: "mapPageKernel m2 (ADDRESS p) (ADDRESS v) = Some m'"
    using run by (auto simp: getPage_def split: bind_splits)
  have "unat p < PAGES" using bm.find_law [OF _ p] ok by (auto simp: kernel_ok_def)
  note g1 = reservePhysical_grows [OF ok m1 this]
  have "unat v < PAGES" using bm.find_law [OF _ v] growsD(1) [OF g1] by (auto simp: kernel_ok_def)
  note g2 = reserveVirtual_grows [OF growsD(1) [OF g1] m2 this]
  note g3 = mapPageKernel_grows [OF growsD(1) [OF g2] map]
  show ?thesis using grows_trans [OF grows_trans [OF g1 g2] g3] by (simp add: numeral_2_eq_2)
qed

lemma getPage_room:
  assumes "kernel_ok m" and "2 \<le> card (spare (kernelPhysicalPages m))" and "1 \<le> card (spare (kernelVirtualPages m))"
  shows "\<exists>a m'. getPage m = Some (a, m')"
proof -
  obtain q r where "q \<in> spare (kernelPhysicalPages m)" "r \<in> spare (kernelPhysicalPages m)" "q \<noteq> r"
    using assms(2) by (metis card_le_Suc0_iff_eq finite_spare not_less_eq_eq numeral_2_eq_2)
  moreover obtain w where "w < PAGES" "search_start (kernelVirtualPages m) \<le> w" "w \<notin> used_virtual m"
    using spare_exists [of "kernelVirtualPages m"] assms(3) by auto
  ultimately show ?thesis using getPage_returns [OF assms(1), of q r w] by (auto simp: spare_def)
qed

section \<open>Runs of pages\<close>

lemma pagesCountStep_grows:
  assumes ok: "kernel_ok m" and run: "pagesCountStep v i m = Some m'"
  shows "grows 2 0 m m'"
proof -
  obtain p m1 where p: "findPage (kernelPhysicalPages m) = Some p" and m1: "reservePhysical m p = Some m1"
    and map: "mapPageKernel m1 (ADDRESS p) (ADDRESS (v + of_nat i)) = Some m'"
    using run by (auto simp: pagesCountStep_def split: bind_splits)
  have "unat p < PAGES" using bm.find_law [OF _ p] ok by (auto simp: kernel_ok_def)
  note g1 = reservePhysical_grows [OF ok m1 this]
  show ?thesis using grows_trans [OF g1 mapPageKernel_grows [OF growsD(1) [OF g1] map]] by (simp add: numeral_2_eq_2)
qed

lemma pagesCount_loop_grows:
  assumes "kernel_ok m" and "ofold (pagesCountStep v) [0..<n] m = Some m'"
  shows "grows (2 * n) 0 m m'"
  using assms(2)
proof (induction n arbitrary: m')
  case 0
  then show ?case using grows_refl [OF assms(1)] by simp
next
  case (Suc n)
  then obtain m1 where m1: "ofold (pagesCountStep v) [0..<n] m = Some m1" and step: "pagesCountStep v n m1 = Some m'"
    by (auto simp: ofold_append split: bind_splits)
  note g = Suc.IH [OF m1]
  show ?case using grows_trans [OF g pagesCountStep_grows [OF growsD(1) [OF g] step]] by (simp add: add.commute)
qed

lemma spare_union:
  assumes "used_pages info' = used_pages info \<union> {p..<p + n}" and "search_start info' = search_start info"
  shows "card (spare info) \<le> card (spare info') + n"
proof -
  have "spare info \<subseteq> spare info' \<union> {p..<p + n}" using assms by (auto simp: spare_def)
  then have "card (spare info) \<le> card (spare info' \<union> {p..<p + n})" by (intro card_mono) simp_all
  also have "\<dots> \<le> card (spare info') + card {p..<p + n}" by (rule card_Un_le)
  finally show ?thesis by simp
qed

lemma getPagesCount_grows:
  assumes ok: "kernel_ok m" and count: "0 < unat count" and run: "getPagesCount m count = Some (a, m')"
  shows "grows (2 * unat count) (unat count) m m'" and "kpresent m' a"
proof -
  obtain v i where v: "findMultiplePages (kernelVirtualPages m) count = Some v"
    and i: "reservePagesCount (kernelVirtualPages m) v count = Some i"
    and loop: "ofold (pagesCountStep v) [0..<unat count] (m\<lparr>kernelVirtualPages := i\<rparr>) = Some m'"
    and a: "a = ADDRESS v"
    using run by (auto simp: getPagesCount_def split: bind_splits)
  have "free_run (kernelVirtualPages m) (unat v) (unat count)"
    by (rule findMultiplePages_free [OF v count])
  then have lt: "unat v + unat count \<le> PAGES" by (simp add: free_run_def)
  have "bitmap_ok (kernelVirtualPages m)" using ok by (simp add: kernel_ok_def)
  from reservePagesCount_spec [OF this lt] i
  have i_ok: "bitmap_ok i" "used_pages i = used_virtual m \<union> {unat v..<unat v + unat count}"
    "same_space (kernelVirtualPages m) i" by auto
  note up = virtual_bitmap_update [OF ok i_ok(1,3)]
  have "table_frames i = table_frames (kernelVirtualPages m)" using i_ok(3) by (simp add: table_frames_def same_space_def)
  then have g: "grows 0 (unat count) m (m\<lparr>kernelVirtualPages := i\<rparr>)"
    using up(1) i_ok(2) spare_union [OF i_ok(2) up(4)] by (auto simp: grows_def)
  show "grows (2 * unat count) (unat count) m m'"
    using grows_trans [OF g pagesCount_loop_grows [OF up(1) loop]] by simp
  show "kpresent m' a" using pagesCount_loop [OF up(1) lt loop] count by (auto simp: a)
qed

lemma pagesCountStep_room:
  assumes ok: "kernel_ok m" and two: "2 \<le> card (spare (kernelPhysicalPages m))"
  shows "\<exists>m'. pagesCountStep v i m = Some m'"
proof -
  obtain q where q: "q < PAGES" "search_start (kernelPhysicalPages m) \<le> q" "q \<notin> used_frames m"
    using spare_exists [of "kernelPhysicalPages m"] two by auto
  have ph: "bitmap_ok (kernelPhysicalPages m)" using ok by (simp add: kernel_ok_def)
  obtain p info where p: "findPage (kernelPhysicalPages m) = Some p" "reservePage (kernelPhysicalPages m) p = Some info"
    using bm.take_page_returns [OF ph q] by blast
  then have m1: "reservePhysical m p = Some (m\<lparr>kernelPhysicalPages := info\<rparr>)" by (simp add: reservePhysical_def)
  have "unat p < PAGES" using bm.find_law [OF ph p(1)] by simp
  note g = reservePhysical_grows [OF ok m1 this]
  have "\<exists>q < PAGES. search_start info \<le> q \<and> q \<notin> used_pages info"
    using spare_exists [of info] growsD(4) [OF g] two by simp
  then show ?thesis
    using mapPageKernel_returns [OF growsD(1) [OF g]] p(1) m1 by (auto simp: pagesCountStep_def)
qed

lemma getPagesCount_one_room:
  assumes ok: "kernel_ok m" and "2 \<le> card (spare (kernelPhysicalPages m))" and "1 \<le> card (spare (kernelVirtualPages m))"
  shows "\<exists>a m'. getPagesCount m 1 = Some (a, m')"
proof -
  have b: "bitmap_ok (kernelVirtualPages m)" using ok by (simp add: kernel_ok_def)
  obtain v where v: "findPage (kernelVirtualPages m) = Some v"
    using spare_exists [of "kernelVirtualPages m"] assms(3) bm.find_returns [OF b] by auto
  have "unat v + unat (1 :: u32) \<le> PAGES" using bm.find_law [OF b v] by simp
  from reservePagesCount_spec [OF b this] obtain i where i: "reservePagesCount (kernelVirtualPages m) v 1 = Some i"
    "bitmap_ok i" "same_space (kernelVirtualPages m) i" by auto
  note up = virtual_bitmap_update [OF ok i(2,3)]
  obtain m' where "pagesCountStep v 0 (m\<lparr>kernelVirtualPages := i\<rparr>) = Some m'"
    using pagesCountStep_room [OF up(1), of v 0] assms(2) by auto
  then show ?thesis using v i(1) by (simp add: getPagesCount_def findPage_def)
qed

section \<open>The heap\<close>

text \<open>A small allocation takes at most one page, one of a page takes exactly that.\<close>

lemma malloc_small_grows:
  assumes "kernel_heap_ok h" and "0 < unat n" and "unat n < 1024" and "kernelMalloc h n = Some (a, h')"
  shows "grows 2 1 (pages h) (pages h')"
proof -
  have ok: "kernel_ok (pages h)" using assms(1) by (simp add: heap_inv_def kernel_pages_ok_def)
  have "at_most_one getPage (pages h) (pages h')"
    using kp.malloc_small [OF assms(1-3), of getPagesCount] assms(4) by (simp add: kernelMalloc_def)
  then show ?thesis
    using getPage_grows [OF ok] grows_refl [OF ok] by (auto simp: at_most_one_def grows_def)
qed

lemma malloc_small_room:
  assumes "kernel_heap_ok h" and "0 < unat n" and "unat n < 1024"
    and "2 \<le> card (spare (kernelPhysicalPages (pages h)))" and "1 \<le> card (spare (kernelVirtualPages (pages h)))"
  shows "\<exists>a h'. kernelMalloc h n = Some (a, h')"
proof -
  have "kernel_ok (pages h)" using assms(1) by (simp add: heap_inv_def kernel_pages_ok_def)
  then have "heap_ready h" using getPage_room assms(4,5) by (auto simp: heap_ready_def)
  then show ?thesis by (rule ka.alloc_returns [OF assms(1-3)])
qed

lemma malloc_page_eq: "kernelMalloc h 0x1000 = do { (a, m) \<leftarrow> getPagesCount (pages h) 1; Some (a, h\<lparr>pages := m\<rparr>) }"
proof -
  have "floorLog 4096 = 12" by (simp add: floorLog.simps)
  then show ?thesis by (simp add: kernelMalloc_def malloc_def LOG2_def)
qed

lemma malloc_page_grows:
  assumes "kernel_heap_ok h" and "kernelMalloc h 0x1000 = Some (a, h')"
  shows "grows 2 1 (pages h) (pages h')" and "kpresent (pages h') a" and "kernel_heap_ok h'" and "a \<noteq> 0" and "PAGE_OFFSET a = 0"
    and "live h' = live h"
proof -
  have ok: "kernel_ok (pages h)" using assms(1) by (simp add: heap_inv_def kernel_pages_ok_def)
  obtain m where m: "getPagesCount (pages h) 1 = Some (a, m)" "h' = h\<lparr>pages := m\<rparr>"
    using assms(2) by (auto simp: malloc_page_eq split: bind_splits)
  show "grows 2 1 (pages h) (pages h')" "kpresent (pages h') a"
    using getPagesCount_grows [OF ok _ m(1)] m(2) by simp_all
  show "kernel_heap_ok h'" "a \<noteq> 0" "PAGE_OFFSET a = 0" "live h' = live h"
    using kp.malloc_large [OF assms(1), of "0x1000" a h'] assms(2) by (simp_all add: kernelMalloc_def)
qed

lemma malloc_page_room:
  assumes "kernel_heap_ok h"
    and "2 \<le> card (spare (kernelPhysicalPages (pages h)))" and "1 \<le> card (spare (kernelVirtualPages (pages h)))"
  shows "\<exists>a h'. kernelMalloc h 0x1000 = Some (a, h')"
proof -
  have "kernel_ok (pages h)" using assms(1) by (simp add: heap_inv_def kernel_pages_ok_def)
  from getPagesCount_one_room [OF this assms(2,3)] show ?thesis by (auto simp: malloc_page_eq)
qed

section \<open>Other address spaces\<close>

definition apart :: "KernelMemory \<Rightarrow> PagingInfo \<Rightarrow> bool" where
  "apart m info \<longleftrightarrow> space_ok m info \<and> table_frames info \<inter> table_frames (kernelVirtualPages m) = {}"

text \<open>The kernel's allocations keep other address spaces apart and their translations as they are.\<close>

lemma grows_apart:
  assumes "grows i j m m'" and "apart m info"
  shows "apart m' info" and "table_present info a \<Longrightarrow> translate m' info a = translate m info a"
proof -
  have used: "unat g \<in> used_frames m" if "g \<in> table_frames info" for g
    using assms(2) that by (auto simp: apart_def space_ok_def)
  show "apart m' info"
    using assms used by (fastforce simp: apart_def space_ok_def grows_def)
  assume "table_present info a"
  then have f: "pageTableID (pageDirectory info (pageDirectoryIndex a)) \<in> table_frames info" by (rule table_frames_I)
  then have "frames m' (pageTableID (pageDirectory info (pageDirectoryIndex a))) =
      frames m (pageTableID (pageDirectory info (pageDirectoryIndex a)))"
    using assms used [OF f] by (auto simp: grows_def apart_def)
  then show "translate m' info a = translate m info a" by (simp add: translate_eq page_entry_def)
qed

text \<open>Mapping a page into another address space keeps the kernel's own translation.\<close>

lemma mapPage_apart:
  assumes ok: "kernel_ok m" and ap: "apart m info"
    and run: "mapPage info m physical virtual userPage isVolatile = Some (info', m')"
  shows "apart m' info'" and "kernel_ok m'" and "kernelVirtualPages m' = kernelVirtualPages m"
    and "card (spare (kernelPhysicalPages m)) \<le> card (spare (kernelPhysicalPages m')) + 1"
    and "PAGE_ID a = PAGE_ID virtual \<Longrightarrow> table_present info' a \<and> translate m' info' a = ADDRESS (PAGE_ID physical) + PAGE_OFFSET a"
    and "kpresent m b \<Longrightarrow> ktranslate m' b = ktranslate m b"
    and "used_frames m \<subseteq> used_frames m'"
proof -
  have p: "bitmap_ok (kernelPhysicalPages m)" and s: "space_ok m info" and ks: "space_ok m (kernelVirtualPages m)"
    using ok ap by (simp_all add: kernel_ok_def apart_def)
  note sp = mapPage_spec [OF p s run] and o = mapPage_outside [OF p s run]
  show kv: "kernelVirtualPages m' = kernelVirtualPages m" and us: "used_frames m \<subseteq> used_frames m'" using sp(3,4) .
  show "kernel_ok m'" using ok sp(2) space_ok_mono [OF ks, of "kernelVirtualPages m" m'] us by (simp add: kernel_ok_def kv)
  show "card (spare (kernelPhysicalPages m)) \<le> card (spare (kernelPhysicalPages m')) + 1" by (rule o(1))
  have used: "unat g \<in> used_frames m" if "g \<in> table_frames (kernelVirtualPages m)" for g
    using ks that by (auto simp: space_ok_def)
  show "apart m' info'" using sp(1) ap o(2) used by (auto simp: apart_def kv)
  show "table_present info' a \<and> translate m' info' a = ADDRESS (PAGE_ID physical) + PAGE_OFFSET a" if "PAGE_ID a = PAGE_ID virtual"
    using sp(6) [OF that] by simp
  show "ktranslate m' b = ktranslate m b" if "kpresent m b"
  proof -
    let ?f = "pageTableID (pageDirectory (kernelVirtualPages m) (pageDirectoryIndex b))"
    have f: "?f \<in> table_frames (kernelVirtualPages m)" by (rule table_frames_I [OF that])
    then have "frames m' ?f = frames m ?f" using sp(8) [OF used [OF f]] ap by (auto simp: apart_def)
    then show ?thesis by (simp add: translate_eq page_entry_def kv)
  qed
qed

end
