(* ===== verification/ScheduleProps.thy ===== *)
theory ScheduleProps
  imports EventProps Spaces
begin

text \<open>
  The stack of a scheduled call: what the kernel writes through its own page tables is what the service
  finds at the same addresses through its page tables. And the condition under which scheduling returns:
  enough spare pages and frames.
\<close>

section \<open>Words in memory\<close>

lemma read32_write32: "read32 (write32 m p v) p = v"
proof -
  have "bytes_at (write32 m p v) p (le32 v)"
    by (simp add: write32_def le32_def add.assoc)
  then show ?thesis by (rule read32_le)
qed

lemma word_apart:
  assumes "w \<noteq> u" and "w < 2000" and "u < 2000" and "i < 4" and "j < 4"
  shows "(e :: u32) + 4 * of_nat w + of_nat i \<noteq> e + 4 * of_nat u + of_nat j"
proof
  assume "e + 4 * of_nat w + of_nat i = e + 4 * of_nat u + of_nat j"
  then have "(of_nat (4 * w + i) :: u32) = of_nat (4 * u + j)" by (simp add: add.assoc)
  then have "4 * w + i = 4 * u + j" using of_nat32_eq [of "4 * w + i" "4 * u + j"] assms by simp
  then have "(4 * w + i) div 4 = (4 * u + j) div 4" by simp
  then show False using assms by simp
qed

lemma read32_other_word:
  assumes "w \<noteq> u" and "w < 2000" and "u < 2000"
  shows "read32 (write32 m (e + 4 * of_nat u) v) (e + 4 * of_nat w) = read32 m (e + 4 * of_nat w)"
proof -
  have "write32 m (e + 4 * of_nat u) v (e + 4 * of_nat w + of_nat i) = m (e + 4 * of_nat w + of_nat i)" if "i < 4" for i
    using word_apart [OF assms that, of 0 e] word_apart [OF assms that, of 1 e] word_apart [OF assms that, of 2 e]
      word_apart [OF assms that, of 3 e] by (simp add: write32_def)
  from this [of 0] this [of 1] this [of 2] this [of 3] show ?thesis by (simp add: read32_def)
qed

lemma words_read:
  assumes "w < n" and "n \<le> 2000"
  shows "read32 (foldl (\<lambda>m w. write32 m (e + 4 * of_nat w) (W w)) m [0..<n]) (e + 4 * of_nat w) = W w"
  using assms
proof (induction n)
  case (Suc n)
  then show ?case
    by (cases "w = n") (simp_all add: read32_write32 read32_other_word del: of_nat_Suc)
qed simp

text \<open>Writing through a translation that is injective on a region is writing into the view of the region.\<close>

lemma put32_view:
  assumes "inj_on t A" and "{a, a + 1, a + 2, a + 3} \<subseteq> A" and "\<And>x. x \<in> A \<Longrightarrow> r (t x) = m x" and "x \<in> A"
  shows "put32 t r a v (t x) = write32 m a v x"
proof -
  have "t x = t y \<longleftrightarrow> x = y" if "y \<in> A" for y using assms(1,4) that by (meson inj_on_eq_iff)
  then show ?thesis using assms(2,3,4) by (simp add: put32_def write32_def)
qed

lemma put32_views:
  assumes "inj_on t A" and "\<And>w. w \<in> set ws \<Longrightarrow> {p w, p w + 1, p w + 2, p w + 3} \<subseteq> A"
    and "\<And>x. x \<in> A \<Longrightarrow> r (t x) = m x" and "x \<in> A"
  shows "foldl (\<lambda>r w. put32 t r (p w) (W w)) r ws (t x) = foldl (\<lambda>m w. write32 m (p w) (W w)) m ws x"
  using assms
proof (induction ws arbitrary: r m)
  case (Cons w ws)
  have "put32 t r (p w) (W w) (t y) = write32 m (p w) (W w) y" if "y \<in> A" for y
    by (rule put32_view [OF Cons.prems(1)]) (use Cons.prems that in auto)
  then show ?case using Cons.IH [of "put32 t r (p w) (W w)" "write32 m (p w) (W w)"] Cons.prems by simp
qed simp

section \<open>Pages\<close>

lemma page_and_offset: "PAGE_ID a = PAGE_ID b \<Longrightarrow> PAGE_OFFSET a = PAGE_OFFSET b \<Longrightarrow> a = b"
proof (rule bit_word_eqI)
  fix n assume e: "PAGE_ID a = PAGE_ID b" "PAGE_OFFSET a = PAGE_OFFSET b" and n: "n < LENGTH(32)"
  show "bit a n = bit b n"
  proof (cases "n < 12")
    case True
    have "bit (PAGE_OFFSET a) n = bit (PAGE_OFFSET b) n" using e(2) by simp
    then show ?thesis using True by (simp add: PAGE_OFFSET_take_bit bit_take_bit_iff)
  next
    case False
    have "bit (PAGE_ID a) (n - 12) = bit (PAGE_ID b) (n - 12)" using e(1) by simp
    then show ?thesis using False by (simp add: PAGE_ID_def bit_drop_bit_eq)
  qed
qed

lemma PAGE_ID_within:
  assumes "PAGE_OFFSET base = 0" and "j < 4096"
  shows "PAGE_ID (base + of_nat j) = PAGE_ID base"
proof -
  have "unat base mod 4096 = 0"
    using assms(1) by (simp add: PAGE_OFFSET_take_bit word_unat_eq_iff take_bit_eq_mod unat_mod)
  then obtain q where q: "unat base = 4096 * q" by auto
  then have "q < 1048576" using unat_u32_bound [of base] by simp
  then have "unat base + j < 4294967296" using q assms(2) by simp
  then have "unat (base + of_nat j) = 4096 * q + j" using q assms(2) by (simp add: unat_add_small)
  then show ?thesis using q assms(2) by (simp add: word_unat_eq_iff unat_PAGE_ID)
qed

lemma translate_inj: "inj_on (translate m info) {a. PAGE_ID a = p}"
proof (rule inj_onI)
  fix a b assume ab: "a \<in> {a. PAGE_ID a = p}" "b \<in> {a. PAGE_ID a = p}" "translate m info a = translate m info b"
  then have "page_entry m info a = page_entry m info b" by (intro page_entry_same_page) simp
  then have "PAGE_OFFSET a = PAGE_OFFSET b" using ab(3) by (simp add: translate_eq)
  then show "a = b" using ab page_and_offset by auto
qed

section \<open>The frame of a scheduled call\<close>

text \<open>The words of the frame: the function, the return address and the arguments.\<close>

definition frameWord :: "u32 \<Rightarrow> u32 \<Rightarrow> (nat \<Rightarrow> u32) \<Rightarrow> nat \<Rightarrow> u32" where
  "frameWord address return arg w = (if w = 0 then address else if w = 1 then return else arg (w - 2))"

lemma writeFrame_words:
  "ram (writeFrame k e b f n) =
     foldl (\<lambda>r w. put32 (ktranslate (kpages k)) r (e + 4 * of_nat w) (frameWord b (runEnd k) f w)) (ram k) [0..<n + 2]"
proof -
  let ?t = "ktranslate (kpages k)" and ?W = "frameWord b (runEnd k) f"
  have "foldl (\<lambda>r i. put32 ?t r (e + 8 + 4 * of_nat i) (f i)) r [0..<n] =
      foldl (\<lambda>r w. put32 ?t r (e + 4 * of_nat w) (?W w)) r [2..<n + 2]" for r
  proof -
    have "[2..<n + 2] = map (\<lambda>i. i + 2) [0..<n]" using map_add_upt [of 2 n] by (simp add: add.commute)
    then show ?thesis by (simp add: foldl_map frameWord_def algebra_simps)
  qed
  moreover have "[0..<n + 2] = 0 # 1 # [2..<n + 2]" by (simp add: upt_rec numeral_2_eq_2)
  ultimately show ?thesis by (simp add: ram_writeFrame Let_def frameWord_def)
qed

lemma physical_memory [simp]:
  "kernel_ok (snd (getPhysicalAddressKernel m a)) = kernel_ok m" "apart (snd (getPhysicalAddressKernel m a)) info = apart m info"
  "translate (snd (getPhysicalAddressKernel m a)) info b = translate m info b"
  "kernelVirtualPages (snd (getPhysicalAddressKernel m a)) = kernelVirtualPages m"
  "kernelPhysicalPages (snd (getPhysicalAddressKernel m a)) = kernelPhysicalPages m"
  by (simp_all add: getPhysicalAddressKernel_def kernel_ok_def apart_def space_ok_def translate_eq page_entry_def)

lemma sharePage_same:
  assumes ok: "kernel_ok m" and ap: "apart m info" and pres: "kpresent m base" and base: "base \<noteq> 0" "PAGE_OFFSET base = 0"
    and run: "sharePage m info base base = Some (ret, info', m')"
  shows "apart m' info'" and "kernel_ok m'" and "kernelVirtualPages m' = kernelVirtualPages m" and "used_frames m \<subseteq> used_frames m'"
    and "card (spare (kernelPhysicalPages m)) \<le> card (spare (kernelPhysicalPages m')) + 1"
    and "PAGE_ID a = PAGE_ID base \<Longrightarrow> table_present info' a \<and> translate m' info' a = ktranslate m' a"
proof -
  let ?m = "snd (getPhysicalAddressKernel m base)"
  have map: "mapPage info ?m (ktranslate m base) base True False = Some (info', m')"
    using run base(1) by (auto simp: sharePage_def split_def getPhysicalAddressKernel_eq split: bind_splits)
  note A = mapPage_apart [OF _ _ map]
  show "apart m' info'" "kernel_ok m'" "kernelVirtualPages m' = kernelVirtualPages m" "used_frames m \<subseteq> used_frames m'"
    "card (spare (kernelPhysicalPages m)) \<le> card (spare (kernelPhysicalPages m')) + 1"
    using A(1-4,7) ok ap by simp_all
  assume a: "PAGE_ID a = PAGE_ID base"
  have pa: "kpresent m a" using pres a by (simp add: table_present_def same_page_iff)
  have "page_entry m (kernelVirtualPages m) a = page_entry m (kernelVirtualPages m) base" by (rule page_entry_same_page [OF a])
  then have "ktranslate m a = ADDRESS (PAGE_ID (ktranslate m base)) + PAGE_OFFSET a" by (simp add: translate_eq base(2))
  then show "table_present info' a \<and> translate m' info' a = ktranslate m' a"
    using A(5) [OF _ _ a] A(6) [of a] A(3) ok ap pa by simp
qed

text \<open>What the service reads at an address.\<close>

definition serviceView :: "Kernel \<Rightarrow> Service \<Rightarrow> bytes" where
  "serviceView k s a = ram k (translate (kpages k) (pagingInfo s) a)"

lemma heap_pages_update:
  assumes "kernel_heap_ok h" and "kernel_ok m" and "kernelVirtualPages m = kernelVirtualPages (pages h)"
  shows "kernel_heap_ok (h\<lparr>pages := m\<rparr>)" and "allocated (h\<lparr>pages := m\<rparr>) = allocated h"
proof -
  obtain cs where cs: "heap_rep (kernel_used (pages h)) h cs" "kernel_pages_ok (pages h)"
    using assms(1) by (auto simp: heap_inv_def)
  have "heap_rep (kernel_used m) (h\<lparr>pages := m\<rparr>) cs"
    using kp.heap_rep_mono [OF cs(1), of "kernel_used m" m] by (simp add: kernel_used_def assms(3))
  then show "kernel_heap_ok (h\<lparr>pages := m\<rparr>)"
    using assms(2,3) cs(2) by (auto simp: heap_inv_def kernel_pages_ok_def)
  show "allocated (h\<lparr>pages := m\<rparr>) = allocated h" by (simp add: allocated_def live_def blocks_of_def)
qed

lemma frame_in_page:
  assumes "PAGE_OFFSET base = 0" and "n \<le> 1000" and "w < n + 2" and "i < 4"
  shows "PAGE_ID (base + 0x1000 - 0x10 - of_nat n * 4 + 4 * of_nat w + of_nat i) = PAGE_ID base"
proof -
  have "(of_nat (4080 - 4 * n + 4 * w + i) :: u32) = 4080 - 4 * of_nat n + 4 * of_nat w + of_nat i"
    using assms(2) by (simp add: of_nat_diff)
  then have eq: "base + 0x1000 - 0x10 - of_nat n * 4 + 4 * of_nat w + of_nat i = base + of_nat (4080 - 4 * n + 4 * w + i)"
    by (simp add: algebra_simps)
  show ?thesis unfolding eq by (rule PAGE_ID_within [OF assms(1)]) (use assms(2-4) in simp)
qed

text \<open>The words of the frame through any translation that agrees with the kernel's on the page of the stack.\<close>

lemma frame_read:
  assumes base: "PAGE_OFFSET base = 0" and n: "n \<le> 1000" and w: "w < n + 2" and e: "e = base + 0x1000 - 0x10 - of_nat n * 4"
    and t: "\<And>a. PAGE_ID a = PAGE_ID base \<Longrightarrow> t a = ktranslate (kpages k) a"
  shows "read32 (\<lambda>a. ram (writeFrame k e b f n) (t a)) (e + 4 * of_nat w) = frameWord b (runEnd k) f w"
proof -
  let ?A = "{a. PAGE_ID a = PAGE_ID base}" and ?W = "frameWord b (runEnd k) f"
  let ?m = "foldl (\<lambda>m w. write32 m (e + 4 * of_nat w) (?W w)) (\<lambda>x. ram k (ktranslate (kpages k) x)) [0..<n + 2]"
  have A: "e + 4 * of_nat u + of_nat i \<in> ?A" if "u < n + 2" "i < 4" for u i
    using frame_in_page [OF base n that] by (simp only: e mem_Collect_eq)
  have sub: "{e + 4 * of_nat u, e + 4 * of_nat u + 1, e + 4 * of_nat u + 2, e + 4 * of_nat u + 3} \<subseteq> ?A" if "u < n + 2" for u
    using A [OF that, of 0] A [OF that, of 1] A [OF that, of 2] A [OF that, of 3] by simp
  have "ram (writeFrame k e b f n) (t x) = ?m x" if x: "x \<in> ?A" for x
  proof -
    have eq: "t x = ktranslate (kpages k) x" using t x by simp
    show ?thesis unfolding writeFrame_words eq
    proof (rule put32_views [where A = ?A])
      show "inj_on (ktranslate (kpages k)) ?A" by (rule translate_inj)
      show "{e + 4 * of_nat w, e + 4 * of_nat w + 1, e + 4 * of_nat w + 2, e + 4 * of_nat w + 3} \<subseteq> ?A" if "w \<in> set [0..<n + 2]" for w
        by (rule sub) (use that in auto)
    qed (use x in simp_all)
  qed
  then have "read32 (\<lambda>a. ram (writeFrame k e b f n) (t a)) (e + 4 * of_nat w) = read32 ?m (e + 4 * of_nat w)"
    using sub [OF w] by (simp add: read32_def)
  then show ?thesis using words_read [OF w] n by simp
qed

text \<open>The state after scheduling, and the frame as the service sees it.\<close>

lemma scheduleFunction_spec:
  assumes ok: "kernel_heap_ok (kheap k)" and calls: "dom (callAt k) \<subseteq> allocated (kheap k)"
    and s: "serviceAt k (function_service provider) = Some s" and ap: "apart (kpages k) (pagingInfo s)"
    and n: "countParameters (variadic args (stackWords k (scheduleCount k))) 0 = Some n" "n \<le> 1000"
    and run: "scheduleFunction k provider responding args = Some k'"
  shows "\<exists>e call c s'. callAt k call = None \<and> callAt k' = (callAt k)(call \<mapsto> c) \<and> callsToProcess k' = callsToProcess k @ [(e, call)] \<and>
    call_resume c \<and> respondingTo c = responding \<and> call_service c = function_service provider \<and>
    serviceAt k' (function_service provider) = Some s' \<and> kernel_heap_ok (kheap k') \<and> dom (callAt k') \<subseteq> allocated (kheap k') \<and>
    apart (kpages k') (pagingInfo s') \<and>
    card (spare (kernelPhysicalPages (kpages k))) \<le> card (spare (kernelPhysicalPages (kpages k'))) + 7 \<and>
    card (spare (kernelVirtualPages (kpages k))) \<le> card (spare (kernelVirtualPages (kpages k'))) + 3 \<and>
    (\<forall>w < n + 2. read32 (serviceView k' s') (call_esp c + 4 * of_nat w) =
       frameWord (function_address provider) (runEnd k) (variadic args (stackWords k (scheduleCount k))) w)"
proof -
  let ?arg = "variadic args (stackWords k (scheduleCount k))"
  obtain call h1 base h2 ret info pm e h3 where
    al: "kernelMalloc (kheap k) 44 = Some (call, h1)" "kernelMalloc h1 0x1000 = Some (base, h2)" "kernelMalloc (h2\<lparr>pages := pm\<rparr>) 8 = Some (e, h3)"
    and sh: "sharePage (snd (getPhysicalAddressKernel (pages h2) (directoryAddress s))) (pagingInfo s) base base = Some (ret, info, pm)"
    and k': "k' = k\<lparr>kheap := h3, ram := ram (writeFrame (k\<lparr>kheap := h2\<lparr>pages := pm\<rparr>\<rparr>) (base + 0x1000 - 0x10 - of_nat n * 4)
        (function_address provider) ?arg n), scheduleCount := Suc (scheduleCount k),
      serviceAt := (serviceAt k)(function_service provider \<mapsto> s\<lparr>pagingInfo := info\<rparr>),
      callAt := (callAt k)(call \<mapsto> zeroSyscall\<lparr>call_esp := base + 0x1000 - 0x10 - of_nat n * 4,
        call_cr3 := fst (getPhysicalAddressKernel (pages h2) (directoryAddress s)), respondingTo := responding,
        call_service := function_service provider, call_resume := True\<rparr>),
      callsToProcess := callsToProcess k @ [(e, call)]\<rparr>"
    using scheduleFunction_SomeD [OF run] unfolding n(1) s option.inject by blast
  have h1: "kernel_heap_ok h1" "call \<notin> allocated (kheap k)" "allocated h1 = insert call (allocated (kheap k))"
    using ka.alloc_law [OF ok _ _ al(1)] by simp_all
  have g1: "grows 2 1 (kpages k) (pages h1)" using malloc_small_grows [OF ok _ _ al(1)] by simp
  note p = malloc_page_grows [OF h1(1) al(2)]
  have ok2: "kernel_ok (pages h2)" "apart (pages h2) (pagingInfo s)"
    using growsD(1) [OF p(1)] grows_apart(1) [OF p(1)] grows_apart(1) [OF g1 ap] by blast+
  note S = sharePage_same [OF _ _ _ p(4,5) sh, simplified, OF ok2 p(2)]
  have h2: "kernel_heap_ok (h2\<lparr>pages := pm\<rparr>)" "allocated (h2\<lparr>pages := pm\<rparr>) = allocated h1"
    using heap_pages_update [OF p(3) S(2,3)] p(6) by (simp_all add: allocated_def)
  have h3: "kernel_heap_ok h3" "allocated h3 = insert e (allocated h1)"
    using ka.alloc_law [OF h2(1) _ _ al(3)] h2(2) by simp_all
  have g3: "grows 2 1 pm (pages h3)" using malloc_small_grows [OF h2(1) _ _ al(3)] by simp
  have view: "translate (pages h3) info a = ktranslate pm a" if "PAGE_ID a = PAGE_ID base" for a
    using grows_apart(2) [OF g3 S(1), of a] S(6) [OF that] by simp
  have "card (spare (kernelPhysicalPages (kpages k))) \<le> card (spare (kernelPhysicalPages (pages h3))) + 7"
    "card (spare (kernelVirtualPages (kpages k))) \<le> card (spare (kernelVirtualPages (pages h3))) + 3"
    using growsD(4,5) [OF g1] growsD(4,5) [OF p(1)] S(3,5) growsD(4,5) [OF g3] by simp_all
  moreover have "\<forall>w < n + 2. read32 (serviceView k' (s\<lparr>pagingInfo := info\<rparr>)) (base + 0x1000 - 0x10 - of_nat n * 4 + 4 * of_nat w) =
       frameWord (function_address provider) (runEnd k) ?arg w"
    using frame_read [OF p(5) n(2) _ refl, of _ "translate (pages h3) info" "k\<lparr>kheap := h2\<lparr>pages := pm\<rparr>\<rparr>"] view
    by (simp add: serviceView_def [abs_def] k')
  moreover have "callAt k call = None" using calls h1(2) by auto
  moreover have "dom (callAt k') \<subseteq> allocated h3" using calls h1(3) h3(2) by (auto simp: k')
  ultimately show ?thesis
    using h3(1) grows_apart(1) [OF g3 S(1)]
    by (intro exI [of _ e] exI [of _ call] exI [of _ "zeroSyscall\<lparr>call_esp := base + 0x1000 - 0x10 - of_nat n * 4,
        call_cr3 := fst (getPhysicalAddressKernel (pages h2) (directoryAddress s)), respondingTo := responding,
        call_service := function_service provider, call_resume := True\<rparr>"] exI [of _ "s\<lparr>pagingInfo := info\<rparr>"]) (simp add: k')
qed

lemma countParameters_at: "\<forall>i. 4 \<le> i \<and> i < n \<longrightarrow> arg i \<noteq> 0 \<Longrightarrow> 4 \<le> n \<Longrightarrow> arg n = 0 \<Longrightarrow> i \<le> n \<Longrightarrow> countParameters arg i = Some n"
proof (induction "n - i" arbitrary: i)
  case 0
  then show ?case by (simp add: countParameters.simps)
next
  case (Suc d)
  then have "arg i \<noteq> 0 \<or> i \<le> 3" by (cases "i \<le> 3") auto
  then have "countParameters arg i = countParameters arg (Suc i)" by (subst countParameters.simps) simp
  then show ?case using Suc by simp
qed

text \<open>Scheduling returns when there are seven spare frames and three spare kernel pages.\<close>

lemma scheduleFunction_returns:
  assumes ok: "kernel_heap_ok (kheap k)" and s: "serviceAt k (function_service provider) = Some s" and ap: "apart (kpages k) (pagingInfo s)"
    and n: "countParameters (variadic args (stackWords k (scheduleCount k))) 0 = Some n"
    and room: "7 \<le> card (spare (kernelPhysicalPages (kpages k)))" "3 \<le> card (spare (kernelVirtualPages (kpages k)))"
  shows "\<exists>k'. scheduleFunction k provider responding args = Some k'"
proof -
  obtain call h1 where al1: "kernelMalloc (kheap k) 44 = Some (call, h1)"
    using malloc_small_room [OF ok, of 44] room by auto
  have h1: "kernel_heap_ok h1" using ka.alloc_law [OF ok _ _ al1] by simp
  have g1: "grows 2 1 (kpages k) (pages h1)" using malloc_small_grows [OF ok _ _ al1] by simp
  obtain base h2 where al2: "kernelMalloc h1 0x1000 = Some (base, h2)"
    using malloc_page_room [OF h1] growsD(4,5) [OF g1] room by auto
  note p = malloc_page_grows [OF h1 al2]
  have ok2: "kernel_ok (pages h2)" "apart (pages h2) (pagingInfo s)"
    using growsD(1) [OF p(1)] grows_apart(1) [OF p(1)] grows_apart(1) [OF g1 ap] by blast+
  let ?m = "snd (getPhysicalAddressKernel (snd (getPhysicalAddressKernel (pages h2) (directoryAddress s))) base)"
  have "0 < card (spare (kernelPhysicalPages ?m))" using growsD(4) [OF g1] growsD(4) [OF p(1)] room by simp
  from spare_exists [OF this] obtain info pm where
    map: "mapPage (pagingInfo s) ?m (ktranslate (pages h2) base) base True False = Some (info, pm)"
    using mapPage_returns [of ?m "pagingInfo s" base "ktranslate (pages h2) base" True False] ok2(1) by (auto simp: kernel_ok_def)
  then have sh: "sharePage (snd (getPhysicalAddressKernel (pages h2) (directoryAddress s))) (pagingInfo s) base base = Some (base, info, pm)"
    using p(4) by (simp add: sharePage_def split_def getPhysicalAddressKernel_eq)
  note S = sharePage_same [OF _ _ _ p(4,5) sh, simplified, OF ok2 p(2)]
  have h2: "kernel_heap_ok (h2\<lparr>pages := pm\<rparr>)" by (rule heap_pages_update(1) [OF p(3) S(2,3)])
  obtain e h3 where al3: "kernelMalloc (h2\<lparr>pages := pm\<rparr>) 8 = Some (e, h3)"
    using malloc_small_room [OF h2, of 8] growsD(4,5) [OF g1] growsD(4,5) [OF p(1)] S(3,5) room by auto
  have "\<exists>k'. queueCall (setCall (writeFrame (setService (setPages (k\<lparr>scheduleCount := i, kheap := h2\<rparr>) pm) a t) x y z u) c d) c = Some k'"
    for i a t x y z u c d
    by (rule exI, rule queueCall_eq [of _ e h3]) (simp add: al3 setCall_def setService_def setPages_def)
  then show ?thesis
    using n s al1 al2 sh by (simp add: scheduleFunction_def kmalloc_def Let_def split_def)
qed

text \<open>
  C6. Scheduling a function of a service returns when seven frames and three kernel pages are spare. The new call
  is at an address no other call has and is last in the queue, and through the page tables of the service
  its stack holds the address of the function, the return address and the arguments. The invariants of the
  heap and of the address spaces hold again.
\<close>

theorem scheduled_call:
  assumes "kernel_heap_ok (kheap k)" and "dom (callAt k) \<subseteq> allocated (kheap k)"
    and "serviceAt k (function_service provider) = Some s" and "apart (kpages k) (pagingInfo s)"
    and "countParameters (variadic args (stackWords k (scheduleCount k))) 0 = Some n" and "n \<le> 1000"
    and "7 \<le> card (spare (kernelPhysicalPages (kpages k)))" and "3 \<le> card (spare (kernelVirtualPages (kpages k)))"
  shows "\<exists>k' e call c s'. scheduleFunction k provider responding args = Some k' \<and> callAt k call = None \<and>
    callAt k' = (callAt k)(call \<mapsto> c) \<and> callsToProcess k' = callsToProcess k @ [(e, call)] \<and>
    call_resume c \<and> respondingTo c = responding \<and> serviceAt k' (function_service provider) = Some s' \<and>
    read32 (serviceView k' s') (call_esp c) = function_address provider \<and>
    read32 (serviceView k' s') (call_esp c + 4) = runEnd k \<and>
    (\<forall>i < n. read32 (serviceView k' s') (call_esp c + 8 + 4 * of_nat i) = variadic args (stackWords k (scheduleCount k)) i) \<and>
    kernel_heap_ok (kheap k') \<and> dom (callAt k') \<subseteq> allocated (kheap k') \<and> apart (kpages k') (pagingInfo s')"
proof -
  let ?arg = "variadic args (stackWords k (scheduleCount k))"
  obtain k' where run: "scheduleFunction k provider responding args = Some k'"
    using scheduleFunction_returns [OF assms(1,3,4,5,7,8)] by blast
  from scheduleFunction_spec [OF assms(1-6) run] obtain e call c s' where
    f: "callAt k call = None" "callAt k' = (callAt k)(call \<mapsto> c)" "callsToProcess k' = callsToProcess k @ [(e, call)]"
      "call_resume c" "respondingTo c = responding" "serviceAt k' (function_service provider) = Some s'"
      "kernel_heap_ok (kheap k')" "dom (callAt k') \<subseteq> allocated (kheap k')" "apart (kpages k') (pagingInfo s')"
    and W: "\<forall>w < n + 2. read32 (serviceView k' s') (call_esp c + 4 * of_nat w) =
       frameWord (function_address provider) (runEnd k) ?arg w"
    by blast
  have "read32 (serviceView k' s') (call_esp c + 8 + 4 * of_nat i) = ?arg i" if "i < n" for i
    using W [rule_format, of "i + 2"] that by (simp add: frameWord_def algebra_simps)
  moreover have "read32 (serviceView k' s') (call_esp c) = function_address provider"
    "read32 (serviceView k' s') (call_esp c + 4) = runEnd k"
    using W [rule_format, of 0] W [rule_format, of 1] by (simp_all add: frameWord_def)
  ultimately show ?thesis using run f by blast
qed

lemma started_room: "7 \<le> card (spare (kernelPhysicalPages started_memory))" "3 \<le> card (spare (kernelVirtualPages started_memory))"
proof -
  have "{0x900, 0x901, 0x902, 0x903, 0x904, 0x905, 0x906} \<subseteq> spare (kernelPhysicalPages started_memory)"
    "{1, 2, 3} \<subseteq> spare (kernelVirtualPages started_memory)"
    by (simp_all add: spare_def started_memory_facts)
  from this [THEN card_mono [OF finite_spare]]
  show "7 \<le> card (spare (kernelPhysicalPages started_memory))" "3 \<le> card (spare (kernelVirtualPages started_memory))" by simp_all
qed

lemma empty_space_apart: "apart m zeroPagingInfo"
  by (simp add: apart_def space_ok_def table_frames_def zeroPagingInfo_def zeroPageDirectoryEntry_def)

theorem scheduled_call_witness:
  "\<exists>k' (c :: Syscall) s'. scheduleFunction started_kernel \<lparr>function_name = 0x100, function_address = 0x1234, function_service = 0x8000\<rparr> 0 [1, 2, 3, 5] = Some k' \<and>
    read32 (serviceView k' s') (call_esp c) = 0x1234 \<and> read32 (serviceView k' s') (call_esp c + 8) = 1"
proof -
  let ?f = "\<lparr>function_name = 0x100, function_address = 0x1234, function_service = 0x8000\<rparr> :: ServiceFunction"
  have heap: "kernel_heap_ok (kheap started_kernel)" "dom (callAt started_kernel) \<subseteq> allocated (kheap started_kernel)"
    "7 \<le> card (spare (kernelPhysicalPages (kpages started_kernel)))" "3 \<le> card (spare (kernelVirtualPages (kpages started_kernel)))"
    using started_heap_ok started_room by (simp_all add: started_kernel_def started_heap_def)
  have s: "serviceAt started_kernel (function_service ?f) = Some (zeroService\<lparr>service_id := 0\<rparr>)" by (simp add: started_kernel_def)
  have ap: "apart (kpages started_kernel) (pagingInfo (zeroService\<lparr>service_id := 0\<rparr>))"
    using empty_space_apart by (simp add: zeroService_def)
  have n: "countParameters (variadic [1, 2, 3, 5] (stackWords started_kernel (scheduleCount started_kernel))) 0 = Some 4"
    by (rule countParameters_at) (auto simp: variadic_def started_kernel_def)
  have n': "(4 :: nat) \<le> 1000" by simp
  obtain k' s' and c :: Syscall where r: "scheduleFunction started_kernel ?f 0 [1, 2, 3, 5] = Some k'"
    "read32 (serviceView k' s') (call_esp c) = function_address ?f" "\<forall>i < 4. read32 (serviceView k' s') (call_esp c + 8 + 4 * of_nat i) =
       variadic [1, 2, 3, 5] (stackWords started_kernel (scheduleCount started_kernel)) i"
    using scheduled_call [OF heap(1,2) s ap n n' heap(3,4), of 0] by blast
  from r(3) [rule_format, of 0] have "read32 (serviceView k' s') (call_esp c + 8) = 1" by (simp add: variadic_def)
  with r(1,2) show ?thesis by (intro exI [of _ k'] exI [of _ c] exI [of _ s']) simp
qed

end
