(* ===== verification/SyscallProps.thy ===== *)
theory SyscallProps
  imports ScheduleProps
begin

text \<open>
  The system calls: how a request reaches the function of another service and how its result comes back,
  which numbers are ignored, which arguments make the kernel follow a null pointer, and what the handlers
  for events, functions and memory do.
\<close>

section \<open>Dispatching\<close>

lemma processSyscall_new:
  assumes "callAt k call = Some c" and "\<not> call_resume c"
  shows "processSyscall k call run = do {
     k \<leftarrow> dispatch k (call_function c) call;
     c \<leftarrow> callAt k call;
     let k = setCall k call (c\<lparr>call_resume := True\<rparr>);
     if avoidReschedule c then Some k else queueCall k call
   }"
  using assms by (simp add: processSyscall_def)

lemma length_syscallHandlers [simp]: "length syscallHandlers = 25"
  by (simp add: syscallHandlers_def)

text \<open>
  A call with a number the kernel does not know is not dispatched; its caller goes back to the end of the
  queue, to be resumed with the unchanged return value.
\<close>

theorem unknown_call_resumed:
  assumes "callAt k call = Some c" and "\<not> call_resume c" and "\<not> avoidReschedule c" and "25 \<le> unat (call_function c)"
  shows "processSyscall k call run = queueCall (setCall k call (c\<lparr>call_resume := True\<rparr>)) call"
  using assms by (simp add: processSyscall_new dispatch_def)

theorem unknown_call_resumed_witness:
  "let c = zeroSyscall\<lparr>call_function := 25\<rparr>; k = started_kernel\<lparr>callAt := [0x6000 \<mapsto> c]\<rparr>
   in \<forall>run. \<exists>k'. processSyscall k 0x6000 run = Some k' \<and> map snd (callsToProcess k') = [0x6000] \<and>
        callAt k' 0x6000 = Some (c\<lparr>call_resume := True\<rparr>)"
proof -
  obtain e h where al: "kernelMalloc started_heap 8 = Some (e, h)" using started_malloc [of 8] by auto
  let ?c = "zeroSyscall\<lparr>call_function := 25\<rparr>"
  let ?k = "started_kernel\<lparr>callAt := [0x6000 \<mapsto> ?c]\<rparr>"
  have "processSyscall ?k 0x6000 run = queueCall (setCall ?k 0x6000 (?c\<lparr>call_resume := True\<rparr>)) 0x6000" for run
    by (rule unknown_call_resumed) (simp_all add: zeroSyscall_def)
  then show ?thesis using queueCall_eq [of "setCall ?k 0x6000 (?c\<lparr>call_resume := True\<rparr>)" e h "0x6000"] al
    by (simp add: Let_def setCall_def started_kernel_def)
qed

section \<open>Requests\<close>

lemma handleRequest_eq:
  assumes "callAt k call = Some c"
  shows "handleRequestSyscall k call =
    (let p = klistGet (services k) (parameters c 0) in if p = 0 then Some k else do {
       ps \<leftarrow> serviceAt k p;
       let f = klistGet (service_functions ps) (parameters c 1);
       if f = 0 then Some k else do {
         s \<leftarrow> serviceAt k (call_service c);
         k \<leftarrow> scheduleAt k f call [parameters c 2, parameters c 3, nameHash s, service_id s];
         setAvoidReschedule k call True
       }
     })"
  using assms by (simp add: handleRequestSyscall_def Let_def)

lemma dispatch_request: "dispatch k 2 call = handleRequestSyscall k call"
  by (simp add: dispatch_def syscallHandlers_def)


text \<open>A started kernel with one allocated call, for the examples.\<close>

lemma started_call:
  "\<exists>a h. kernelMalloc started_heap 44 = Some (a, h) \<and> kernel_heap_ok h \<and> a \<in> allocated h \<and>
     5 \<le> card (spare (kernelPhysicalPages (pages h))) \<and> 2 \<le> card (spare (kernelVirtualPages (pages h)))"
proof -
  obtain a h where al: "kernelMalloc started_heap 44 = Some (a, h)" using started_malloc [of 44] by auto
  have "kernel_heap_ok h" "a \<in> allocated h" using ka.alloc_law [OF started_heap_ok _ _ al] by simp_all
  moreover have "grows 2 1 started_memory (pages h)"
    using malloc_small_grows [OF started_heap_ok _ _ al] by (simp add: started_heap_def)
  ultimately show ?thesis using al growsD(4,5) started_room by fastforce
qed


section \<open>Results of functions\<close>

text \<open>
  C8. When a function ends with a value, the call it answers goes to the end of the queue; it receives the value
  if it was a request, and keeps its return value if it was the loading of a program. A function that answers
  nobody wakes nobody.
\<close>

theorem result_reaches_caller:
  assumes "callAt k (currentSyscall k) = Some c" and "finalizeCall k v = Some k'"
  shows "if respondingTo c = 0 then callsToProcess k' = callsToProcess k \<and> callAt k' = callAt k
    else \<exists>e r. callAt k (respondingTo c) = Some r \<and> callsToProcess k' = callsToProcess k @ [(e, respondingTo c)] \<and>
      callAt k' (respondingTo c) = Some (if call_function r = 2 then r\<lparr>returnValue := v\<rparr> else r) \<and>
      (\<forall>a. a \<noteq> respondingTo c \<longrightarrow> callAt k' a = callAt k a)"
proof -
  let ?m = "\<lambda>s. snd (getPhysicalAddress (kpages k) (pageDirectory (pagingInfo s)) (call_esp c))"
  obtain s m where "serviceAt k (call_service c) = Some s" "freePage (?m s) (call_esp c) = Some m"
    using assms by (auto simp: finalizeCall_def Let_def split_def bind_eq_Some_conv)
  then have fin: "(if respondingTo c \<noteq> 0 then do {
       r \<leftarrow> callAt k (respondingTo c);
       queueCall (if call_function r = 2 then setCall (setPages k m) (respondingTo c) (r\<lparr>returnValue := v\<rparr>) else setPages k m) (respondingTo c)
     } else Some (setPages k m)) = Some k'"
    using assms by (simp add: finalizeCall_def Let_def split_def split: if_splits)
  show ?thesis
  proof (cases "respondingTo c = 0")
    case True
    then show ?thesis using fin by auto
  next
    case False
    then obtain r where r: "callAt k (respondingTo c) = Some r"
      "queueCall (if call_function r = 2 then setCall (setPages k m) (respondingTo c) (r\<lparr>returnValue := v\<rparr>) else setPages k m) (respondingTo c) = Some k'"
      using fin by (auto split: bind_splits)
    let ?k = "if call_function r = 2 then setCall (setPages k m) (respondingTo c) (r\<lparr>returnValue := v\<rparr>) else setPages k m"
    have q: "callsToProcess ?k = callsToProcess k" by (simp add: setCall_def)
    obtain e h where "k' = ?k\<lparr>kheap := h, callsToProcess := callsToProcess ?k @ [(e, respondingTo c)]\<rparr>"
      using queueCall_SomeD [OF r(2)] by blast
    then have "callAt k (respondingTo c) = Some r \<and> callsToProcess k' = callsToProcess k @ [(e, respondingTo c)] \<and>
      callAt k' (respondingTo c) = Some (if call_function r = 2 then r\<lparr>returnValue := v\<rparr> else r) \<and>
      (\<forall>a. a \<noteq> respondingTo c \<longrightarrow> callAt k' a = callAt k a)"
      unfolding q using r(1) by (simp add: setCall_def)
    then show ?thesis unfolding if_not_P [OF False] by blast
  qed
qed

text \<open>Freeing a low kernel page whose frame is no page table keeps the invariant.\<close>

lemma freePage_low:
  assumes ok: "kernel_ok m" and low: "unat (PAGE_ID a) < 1024"
    and nt: "\<And>f. f \<in> table_frames (kernelVirtualPages m) \<Longrightarrow> unat f \<noteq> unat (PAGE_ID (ktranslate m (ADDRESS (PAGE_ID a))))"
  shows "\<exists>m'. freePage m a = Some m' \<and> kernel_ok m' \<and> used_virtual m' = used_virtual m - {unat (PAGE_ID a)} \<and>
    spare (kernelPhysicalPages m) \<subseteq> spare (kernelPhysicalPages m') \<and> spare (kernelVirtualPages m) \<subseteq> spare (kernelVirtualPages m')"
proof -
  let ?p = "PAGE_ID a"
  let ?f = "PAGE_ID (fst (getPhysicalAddress m (pageDirectory (kernelVirtualPages m)) (ADDRESS ?p)))"
  obtain pages where p: "freePhysicalPage (kernelPhysicalPages m) ?f = Some pages" "bitmap_ok pages"
    "used_pages pages = used_frames m - {unat ?f}" "search_start pages = search_start (kernelPhysicalPages m)"
    using bm.release_law [OF _ PAGE_ID_lt] ok unfolding kernel_ok_def by blast
  obtain info where i: "freePhysicalPage (kernelVirtualPages m) ?p = Some info" "bitmap_ok info"
    "used_pages info = used_virtual m - {unat ?p}" "search_start info = search_start (kernelVirtualPages m)"
    using bm.release_law [OF _ PAGE_ID_lt] ok unfolding kernel_ok_def by blast
  have d: "pageDirectory info = pageDirectory (kernelVirtualPages m)"
    using markPageFree_disconnects(3) [OF i(1) [unfolded freePhysicalPage_def]] .
  let ?m = "unmapSinglePageFrom info ((snd (getPhysicalAddress m (pageDirectory (kernelVirtualPages m)) (ADDRESS ?p)))
     \<lparr>kernelPhysicalPages := pages\<rparr>) (ADDRESS ?p)\<lparr>kernelVirtualPages := info\<rparr>"
  have run: "freePage m a = Some ?m"
    using p(1) i(1) by (simp add: freePage_def onKernel_def freePageFrom_def freePageFromLoop_low [OF low] Let_def split_def)
  have "table_frames info = table_frames (kernelVirtualPages m)" by (simp add: table_frames_def d)
  then have "kernel_ok ?m"
    using ok nt p(2,3) i(2) by (auto simp: kernel_ok_def space_ok_def d translate_def)
  with run p(3,4) i(3,4) show ?thesis by (auto simp: spare_def)
qed

theorem result_reaches_caller_witness:
  "\<exists>h k' e r. let k = started_kernel\<lparr>kheap := h, currentSyscall := 0x8000, serviceAt := [0x7000 \<mapsto> zeroService],
       callAt := [0x8000 \<mapsto> zeroSyscall\<lparr>call_esp := 0x5000, call_service := 0x7000, respondingTo := 0x9000\<rparr>,
                  0x9000 \<mapsto> zeroSyscall\<lparr>call_function := 2\<rparr>]\<rparr>
     in finalizeCall k 42 = Some k' \<and> callsToProcess k' = callsToProcess k @ [(e, 0x9000)] \<and>
        callAt k' 0x9000 = Some (r :: Syscall) \<and> returnValue r = 42"
proof -
  let ?m = "started_memory\<lparr>frames := \<lambda>_ _. zeroPageTableEntry\<lparr>targetAddress := 0xFFFFF\<rparr>\<rparr>"
  let ?h = "started_heap\<lparr>pages := ?m\<rparr>"
  let ?c = "zeroSyscall\<lparr>call_esp := 0x5000, call_service := 0x7000, respondingTo := 0x9000\<rparr>"
  let ?r = "zeroSyscall\<lparr>call_function := 2\<rparr>"
  let ?k = "started_kernel\<lparr>kheap := ?h, currentSyscall := 0x8000, serviceAt := [0x7000 \<mapsto> zeroService],
       callAt := [0x8000 \<mapsto> ?c, 0x9000 \<mapsto> ?r]\<rparr>"
  let ?n = "snd (getPhysicalAddress ?m (pageDirectory (pagingInfo zeroService)) 0x5000)"
  have t: "PAGE_ID (ktranslate ?n (ADDRESS (PAGE_ID 0x5000))) = 0xFFFFF"
    by (simp add: translate_eq page_entry_def)
  have ok: "kernel_ok ?n" using started_memory_facts(1) by (simp add: kernel_ok_def space_ok_def)
  have nt: "unat f \<noteq> unat (PAGE_ID (ktranslate ?n (ADDRESS (PAGE_ID 0x5000))))" if "f \<in> table_frames (kernelVirtualPages ?n)" for f
    using that ok started_memory_facts(2) unfolding t by (auto simp: kernel_ok_def space_ok_def)
  obtain m where fp: "freePage ?n 0x5000 = Some m" "kernel_ok m" "used_virtual m = used_virtual ?n - {5}"
    "spare (kernelPhysicalPages ?n) \<subseteq> spare (kernelPhysicalPages m)" "spare (kernelVirtualPages ?n) \<subseteq> spare (kernelVirtualPages m)"
    using freePage_low [OF ok, of "0x5000"] nt by (auto simp: PAGE_ID_def)
  have "heap_rep (kernel_used m) (?h\<lparr>pages := m\<rparr>) (\<lambda>_. [])"
    by (simp add: heap_rep_def started_heap_def)
  then have "kernel_heap_ok (?h\<lparr>pages := m\<rparr>)"
    using fp(2,3) started_memory_facts(3) by (auto simp: heap_inv_def kernel_pages_ok_def)
  moreover have "2 \<le> card (spare (kernelPhysicalPages m))" "1 \<le> card (spare (kernelVirtualPages m))"
    using card_mono [OF _ fp(4)] card_mono [OF _ fp(5)] started_room by (simp_all add: started_heap_def)
  ultimately obtain e h where al: "kernelMalloc (?h\<lparr>pages := m\<rparr>) 8 = Some (e, h)"
    using malloc_small_room [of "?h\<lparr>pages := m\<rparr>" 8] by auto
  have "\<exists>k'. finalizeCall ?k 42 = Some k'"
    using fp(1) queueCall_eq [of _ e h] al
    by (simp add: finalizeCall_def split_def Let_def zeroSyscall_def setCall_def)
  then obtain k' where run: "finalizeCall ?k 42 = Some k'" ..
  have c: "callAt ?k (currentSyscall ?k) = Some ?c" by simp
  from result_reaches_caller [OF c run] run show ?thesis
    by (fastforce simp: zeroSyscall_def)
qed

end
