(* ===== verification/HandlerProps.thy ===== *)
theory HandlerProps
  imports SyscallProps
begin

text \<open>
  Properties of the single system calls: memory for a service, events and functions by number, and what
  happens for numbers that name nothing.
\<close>

section \<open>Memory for a service\<close>

lemma mapFresh_spec:
  assumes ok: "kernel_ok m" and ap: "apart m info" and v: "unat (v + of_nat i) < PAGES"
    and run: "mapFresh v i (info, m) = Some (info', m')"
  shows "kernel_ok m'" and "apart m' info'" and "info' = info\<lparr>pageDirectory := pageDirectory info'\<rparr>"
    and "used_frames m \<subseteq> used_frames m'" and "kernelVirtualPages m' = kernelVirtualPages m"
    and "table_present info' (ADDRESS (v + of_nat i))"
    and "unat (PAGE_ID (translate m' info' (ADDRESS (v + of_nat i)))) \<notin> used_frames m"
    and "unat (PAGE_ID (translate m' info' (ADDRESS (v + of_nat i)))) \<in> used_frames m'"
    and "table_present info b \<Longrightarrow> PAGE_ID b \<noteq> v + of_nat i \<Longrightarrow>
      table_present info' b \<and> translate m' info' b = translate m info b"
    and "kpresent m b \<Longrightarrow> ktranslate m' b = ktranslate m b"
proof -
  obtain p m1 where p: "findPage (kernelPhysicalPages m) = Some p" and m1: "reservePhysical m p = Some m1"
    and map: "mapPage info m1 (ADDRESS p) (ADDRESS (v + of_nat i)) True False = Some (info', m')"
    using run by (auto simp: mapFresh_def reservePhysical_def reservePagesCount_def split: bind_splits)
  have pf: "unat p < PAGES" "unat p \<notin> used_frames m"
    using bm.find_law [OF _ p] ok by (auto simp: kernel_ok_def)
  note r = reservePhysical_spec [OF ok m1 pf(1)]
  have ap1: "apart m1 info"
    using ap r(2,3) space_ok_mono [of m info info m1] by (auto simp: apart_def)
  note a = mapPage_apart [OF r(1) ap1 map]
  have bp: "bitmap_ok (kernelPhysicalPages m1)" and s1: "space_ok m1 info" using r(1) ap1 by (simp_all add: kernel_ok_def apart_def)
  note sp = mapPage_spec [OF bp s1 map]
  show "kernel_ok m'" "apart m' info'" using a(2,1) .
  show "info' = info\<lparr>pageDirectory := pageDirectory info'\<rparr>" by (rule sp(9))
  show "used_frames m \<subseteq> used_frames m'" "kernelVirtualPages m' = kernelVirtualPages m" using a(7,3) r(2,3) by auto
  have t: "table_present info' (ADDRESS (v + of_nat i))" "PAGE_ID (translate m' info' (ADDRESS (v + of_nat i))) = p"
    using a(5) [of "ADDRESS (v + of_nat i)"] pf(1) by simp_all
  show "table_present info' (ADDRESS (v + of_nat i))" by (rule t)
  show "unat (PAGE_ID (translate m' info' (ADDRESS (v + of_nat i)))) \<notin> used_frames m"
    "unat (PAGE_ID (translate m' info' (ADDRESS (v + of_nat i)))) \<in> used_frames m'"
    using t(2) pf(2) a(7) r(2) by auto
  show "table_present info' b \<and> translate m' info' b = translate m info b" if "table_present info b" "PAGE_ID b \<noteq> v + of_nat i"
    using sp(7) [of b] that v r(4) by (simp add: translate_eq) (simp add: page_entry_def)
  show "ktranslate m' b = ktranslate m b" if "kpresent m b"
    using a(6) [of b] that r(3,4) by (simp add: translate_eq page_entry_def)
qed

lemma info_directory_twice:
  fixes info :: PagingInfo
  assumes "info1 = info\<lparr>pageDirectory := d\<rparr>" and "info2 = info1\<lparr>pageDirectory := pageDirectory info2\<rparr>"
  shows "info2 = info\<lparr>pageDirectory := pageDirectory info2\<rparr>"
  using assms by (metis (no_types, lifting) PagingInfo.surjective PagingInfo.update_convs(1))

lemma mapFresh_loop:
  assumes ok: "kernel_ok m" and ap: "apart m info" and lt: "unat v + n \<le> PAGES"
    and run: "ofold (mapFresh v) [0..<n] (info, m) = Some (info', m')"
  shows "kernel_ok m' \<and> apart m' info' \<and> info' = info\<lparr>pageDirectory := pageDirectory info'\<rparr> \<and> used_frames m \<subseteq> used_frames m' \<and>
    kernelVirtualPages m' = kernelVirtualPages m \<and>
    (\<forall>i < n. table_present info' (ADDRESS (v + of_nat i)) \<and>
       unat (PAGE_ID (translate m' info' (ADDRESS (v + of_nat i)))) \<in> used_frames m' - used_frames m) \<and>
    (\<forall>i < n. \<forall>j < i. PAGE_ID (translate m' info' (ADDRESS (v + of_nat i))) \<noteq>
       PAGE_ID (translate m' info' (ADDRESS (v + of_nat j)))) \<and>
    (\<forall>b. table_present info b \<and> (\<forall>i < n. PAGE_ID b \<noteq> v + of_nat i) \<longrightarrow>
       table_present info' b \<and> translate m' info' b = translate m info b) \<and>
    (\<forall>b. kpresent m b \<longrightarrow> ktranslate m' b = ktranslate m b)"
  using lt run
proof (induction n arbitrary: info' m')
  case 0
  then show ?case using ok ap by simp
next
  case (Suc n)
  obtain info1 m1 where m1: "ofold (mapFresh v) [0..<n] (info, m) = Some (info1, m1)"
    and step: "mapFresh v n (info1, m1) = Some (info', m')"
    using Suc.prems(2) by (auto simp: ofold_append split: bind_splits)
  have lt: "unat v + n \<le> PAGES" using Suc.prems(1) by simp
  note IH = Suc.IH [OF lt m1]
  have un: "unat (v + of_nat i) = unat v + i" if "i \<le> n" for i
    using Suc.prems(1) that by (simp add: unat_add_small)
  have differ: "v + of_nat i \<noteq> v + of_nat n" if "i < n" for i
    using un [of i] un [of n] that by auto
  have vn: "unat (v + of_nat n) < PAGES" using un [of n] Suc.prems(1) by simp
  have ok1: "kernel_ok m1" "apart m1 info1" using IH by blast+
  note st = mapFresh_spec [OF ok1 vn step]
  have kept: "table_present info' (ADDRESS (v + of_nat i)) \<and>
      translate m' info' (ADDRESS (v + of_nat i)) = translate m1 info1 (ADDRESS (v + of_nat i))" if "i < n" for i
    using st(9) [of "ADDRESS (v + of_nat i)"] IH that differ [OF that] un [of i] Suc.prems(1) by auto
  have pages: "table_present info' (ADDRESS (v + of_nat i)) \<and>
       unat (PAGE_ID (translate m' info' (ADDRESS (v + of_nat i)))) \<in> used_frames m' - used_frames m"
    if "i < Suc n" for i
    using that IH kept st(4,6-8) by (cases "i = n") auto
  have distinct: "PAGE_ID (translate m' info' (ADDRESS (v + of_nat i))) \<noteq>
       PAGE_ID (translate m' info' (ADDRESS (v + of_nat j)))" if "i < Suc n" "j < i" for i j
    using that IH kept st(7) by (cases "i = n") fastforce+
  have "table_present info' b \<and> translate m' info' b = translate m info b"
    if "table_present info b" "\<forall>i < Suc n. PAGE_ID b \<noteq> v + of_nat i" for b
    using IH that st(9) [of b] by simp
  moreover have "ktranslate m' b = ktranslate m b" if "kpresent m b" for b
    using IH that st(10) [of b] by metis
  moreover have "info' = info\<lparr>pageDirectory := pageDirectory info'\<rparr>" using IH st(3) by (metis info_directory_twice)
  moreover have "used_frames m \<subseteq> used_frames m'" "kernelVirtualPages m' = kernelVirtualPages m" using IH st(4,5) by auto
  ultimately show ?case
    using st(1,2) pages distinct by blast
qed


lemma mapFresh_returns:
  assumes ok: "kernel_ok m" and room: "2 \<le> card (spare (kernelPhysicalPages m))"
  shows "\<exists>info' m'. mapFresh v i (info, m) = Some (info', m')"
proof -
  have bp: "bitmap_ok (kernelPhysicalPages m)" using ok by (simp add: kernel_ok_def)
  obtain q where "q < PAGES" "search_start (kernelPhysicalPages m) \<le> q" "q \<notin> used_frames m"
    using spare_exists [of "kernelPhysicalPages m"] room by auto
  then obtain p pages where p: "findPage (kernelPhysicalPages m) = Some p" "reservePage (kernelPhysicalPages m) p = Some pages"
    using bm.take_page_returns [OF bp] by blast
  have m1: "reservePhysical m p = Some (m\<lparr>kernelPhysicalPages := pages\<rparr>)" using p(2) by (simp add: reservePhysical_def)
  have "unat p < PAGES" using bm.find_law [OF bp p(1)] by simp
  note r = reservePhysical_spec [OF ok m1 this]
  have "card (spare (kernelPhysicalPages m)) \<le> card (spare pages) + 1"
    using spare_insert r(2,5) by auto
  then have "\<exists>q < PAGES. search_start pages \<le> q \<and> q \<notin> used_pages pages" using spare_exists room by simp
  then have "\<exists>info' m'. mapPage info (m\<lparr>kernelPhysicalPages := pages\<rparr>) (ADDRESS p) (ADDRESS (v + of_nat i)) True False = Some (info', m')"
    using mapPage_returns [of "m\<lparr>kernelPhysicalPages := pages\<rparr>"] r(1) by (simp add: kernel_ok_def)
  then show ?thesis using p by (simp add: mapFresh_def reservePagesCount_def)
qed


section \<open>Numbers of events and functions\<close>

lemma indexOfEvent_append:
  assumes "\<And>p. p \<in> set list \<Longrightarrow> \<exists>e. eventAt k (snd p) = Some e \<and> event_name e \<noteq> name"
    and "eventAt k a = Some e" and "event_name e = name"
  shows "indexOfEvent k (list @ [(x, a)]) name i = Some (Some (i + of_nat (length list)))"
  using assms(1)
proof (induction list arbitrary: i)
  case Nil
  then show ?case using assms(2,3) by simp
next
  case (Cons p list)
  then show ?case by (cases p) (fastforce simp: algebra_simps)
qed

lemma createEvent_SomeD:
  assumes "callAt k call = Some c" and "parameters c 0 = name" and "name \<noteq> 0" and "serviceAt k (call_service c) = Some s"
    and "handleCreateEventSyscall k call = Some k'"
  shows "\<exists>ev h el h'. kernelMalloc (kheap k) 12 = Some (ev, h) \<and> kernelMalloc h 8 = Some (el, h') \<and>
    k' = setService (setCall (setEvent (k\<lparr>kheap := h\<rparr>) ev (zeroEvent\<lparr>event_name := name\<rparr>)) call
        (c\<lparr>returnValue := klistCount (service_events s)\<rparr>)\<lparr>kheap := h'\<rparr>) (call_service c)
        (s\<lparr>service_events := service_events s @ [(el, ev)]\<rparr>)"
  using assms
  by (auto simp: handleCreateEventSyscall_def kmalloc_def klistAdd_def setReturn_def setEvent_def setCall_def setService_def
      split: bind_splits)

text \<open>
  C15. A service that creates an event under a new name gets the number of the event, and whoever asks for that
  name afterwards gets the same number.
\<close>

theorem created_event_found:
  assumes "kernel_heap_ok (kheap k)" and "dom (eventAt k) \<subseteq> allocated (kheap k)"
    and "callAt k call = Some c" and "parameters c 0 = name" and "name \<noteq> 0"
    and "serviceAt k (call_service c) = Some s"
    and "\<forall>p \<in> set (service_events s). \<exists>e. eventAt k (snd p) = Some e \<and> event_name e \<noteq> name"
    and "handleCreateEventSyscall k call = Some k'"
    and "callAt k' asking = Some d" and "parameters d 1 = name" and "parameters d 0 \<noteq> 0"
    and "klistGet (services k) (parameters d 0) = call_service c"
  shows "\<exists>c' d' k''. callAt k' call = Some (c' :: Syscall) \<and> returnValue c' = of_nat (length (service_events s)) \<and>
    handleGetEventSyscall k' asking = Some k'' \<and> callAt k'' asking = Some (d' :: Syscall) \<and> returnValue d' = returnValue c'"
proof -
  obtain ev h el h' where al: "kernelMalloc (kheap k) 12 = Some (ev, h)" and al': "kernelMalloc h 8 = Some (el, h')"
    and k': "k' = setService (setCall (setEvent (k\<lparr>kheap := h\<rparr>) ev (zeroEvent\<lparr>event_name := name\<rparr>)) call
        (c\<lparr>returnValue := klistCount (service_events s)\<rparr>)\<lparr>kheap := h'\<rparr>) (call_service c)
        (s\<lparr>service_events := service_events s @ [(el, ev)]\<rparr>)"
    using createEvent_SomeD [OF assms(3-6,8)] by blast
  have "ev \<notin> allocated (kheap k)" using ka.alloc_law [OF assms(1) _ _ al] by simp
  then have new: "eventAt k ev = None" using assms(2) by blast
  have ev': "eventAt k' = (eventAt k)(ev \<mapsto> zeroEvent\<lparr>event_name := name\<rparr>)" by (simp add: k' setService_def setCall_def setEvent_def)
  have sv: "serviceAt k' (call_service c) = Some (s\<lparr>service_events := service_events s @ [(el, ev)]\<rparr>)" "services k' = services k"
    by (simp_all add: k' setService_def setCall_def setEvent_def)
  have "\<exists>e. eventAt k' (snd p) = Some e \<and> event_name e \<noteq> name" if "p \<in> set (service_events s)" for p
    using assms(7) that new by (auto simp: ev')
  then have ix: "indexOfEvent k' (service_events s @ [(el, ev)]) name 0 = Some (Some (of_nat (length (service_events s))))"
    using indexOfEvent_append [of "service_events s" k' name ev _ el 0] by (simp add: ev')
  have "eventsOf k' (parameters d 0) = Some (service_events s @ [(el, ev)])"
    using assms(11,12) sv by (simp add: eventsOf_def)
  then have "handleGetEventSyscall k' asking = Some (setCall k' asking (d\<lparr>returnValue := of_nat (length (service_events s))\<rparr>))"
    using assms(5,9,10) ix by (simp add: handleGetEventSyscall_def returnIndex_def setReturn_def)
  moreover have "callAt k' call = Some (c\<lparr>returnValue := klistCount (service_events s)\<rparr>)"
    by (simp add: k' setService_def setCall_def setEvent_def)
  ultimately show ?thesis by (simp add: setCall_def klistCount_def)
qed

lemma started_two:
  assumes "0 < unat n" and "unat n < 1024"
  shows "\<exists>a h e h'. kernelMalloc started_heap n = Some (a, h) \<and> kernelMalloc h 8 = Some (e, h')"
proof -
  obtain a h where al: "kernelMalloc started_heap n = Some (a, h)" using started_malloc [OF assms] by blast
  have ok: "kernel_heap_ok h" using ka.alloc_law [OF started_heap_ok assms al] by simp
  have g: "grows 2 1 started_memory (pages h)"
    using malloc_small_grows [OF started_heap_ok assms al] by (simp add: started_heap_def)
  have "2 \<le> card (spare (kernelPhysicalPages (pages h)))" "1 \<le> card (spare (kernelVirtualPages (pages h)))"
    using growsD(4) [OF g] growsD(5) [OF g] started_room by simp_all
  then show ?thesis using al malloc_small_room [OF ok, of 8] by fastforce
qed

theorem created_event_found_witness:
  "\<exists>k' k'' d. let k = started_kernel\<lparr>services := [(0, 0x7000), (0, 0x8000)],
       callAt := [0x6000 \<mapsto> zeroSyscall\<lparr>call_service := 0x8000, parameters := (\<lambda>_. 0)(0 := 77)\<rparr>,
                  0x6100 \<mapsto> zeroSyscall\<lparr>parameters := (\<lambda>_. 0)(0 := 1, 1 := 77)\<rparr>]\<rparr>
     in handleCreateEventSyscall k 0x6000 = Some k' \<and> handleGetEventSyscall k' 0x6100 = Some k'' \<and>
        callAt k'' 0x6100 = Some (d :: Syscall) \<and> returnValue d = 0"
proof -
  let ?c = "zeroSyscall\<lparr>call_service := 0x8000, parameters := (\<lambda>_. 0)(0 := 77)\<rparr>"
  let ?d = "zeroSyscall\<lparr>parameters := (\<lambda>_. 0)(0 := 1, 1 := 77)\<rparr>"
  let ?k = "started_kernel\<lparr>services := [(0, 0x7000), (0, 0x8000)], callAt := [0x6000 \<mapsto> ?c, 0x6100 \<mapsto> ?d]\<rparr>"
  let ?s = "zeroService\<lparr>service_id := 0\<rparr>"
  obtain a h e h' where al: "kernelMalloc started_heap 12 = Some (a, h)" "kernelMalloc h 8 = Some (e, h')"
    using started_two [of 12] by auto
  then have "\<exists>k'. handleCreateEventSyscall ?k 0x6000 = Some k' \<and> callAt k' 0x6100 = Some ?d"
    by (simp add: handleCreateEventSyscall_def kmalloc_def klistAdd_def setReturn_def setEvent_def setCall_def setService_def
        started_kernel_def zeroSyscall_def)
  then obtain k' where run: "handleCreateEventSyscall ?k 0x6000 = Some k'" and d: "callAt k' 0x6100 = Some ?d" by blast
  have pre: "kernel_heap_ok (kheap ?k)" "dom (eventAt ?k) \<subseteq> allocated (kheap ?k)" "callAt ?k 0x6000 = Some ?c" "parameters ?c 0 = 77"
    "(77 :: u32) \<noteq> 0" "serviceAt ?k (call_service ?c) = Some ?s"
    "\<forall>p \<in> set (service_events ?s). \<exists>e. eventAt ?k (snd p) = Some e \<and> event_name e \<noteq> 77"
    using started_heap_ok by (simp_all add: started_kernel_def zeroService_def)
  have post: "parameters ?d 1 = 77" "parameters ?d 0 \<noteq> 0" "klistGet (services ?k) (parameters ?d 0) = call_service ?c"
    by (simp_all add: klistGet_def)
  have "of_nat (length (service_events ?s)) = (0 :: u32)" by (simp add: zeroService_def)
  with created_event_found [OF pre run d post] run show ?thesis unfolding Let_def by metis
qed

text \<open>
  The number a service gets for a new function is the position of that function: a request with this number
  reaches the address and the service it was created with, and the functions before keep their numbers.
\<close>

theorem created_function_number:
  assumes "callAt k call = Some c" and "kRetrieveString k (parameters c 0) = Some name" and "name \<noteq> 0"
    and "serviceAt k (call_service c) = Some s" and "length (service_functions s) < 2 ^ 32"
    and "handleCreateFunctionSyscall k call = Some k'"
  shows "\<exists>c' s' f. callAt k' call = Some (c' :: Syscall) \<and> serviceAt k' (call_service c) = Some (s' :: Service) \<and>
    functionAt k' (klistGet (service_functions s') (returnValue c')) = Some f \<and>
    function_address f = parameters c 1 \<and> function_service f = call_service c \<and> function_name f = name \<and>
    (\<forall>i. unat i < length (service_functions s) \<longrightarrow> klistGet (service_functions s') i = klistGet (service_functions s) i)"
proof -
  obtain fn h el h' where "k' = setService (setCall (setFunction (k\<lparr>kheap := h\<rparr>) fn
        \<lparr>function_name = name, function_address = parameters c 1, function_service = call_service c\<rparr>) call
        (c\<lparr>returnValue := klistCount (service_functions s)\<rparr>)\<lparr>kheap := h'\<rparr>) (call_service c)
        (s\<lparr>service_functions := service_functions s @ [(el, fn)]\<rparr>)"
    using assms(1-4,6)
    by (auto simp: handleCreateFunctionSyscall_def kmalloc_def klistAdd_def setReturn_def setFunction_def setCall_def setService_def
        split: bind_splits)
  moreover have "unat (klistCount (service_functions s)) = length (service_functions s)"
    using assms(5) by (simp add: klistCount_def unat_of_nat take_bit_nat_eq_self)
  ultimately show ?thesis
    by (simp add: setService_def setCall_def setFunction_def klistGet_def nth_append)
qed

theorem created_function_number_witness:
  "\<exists>k' c s f. let k = started_kernel\<lparr>stringRoot := (\<lambda>_. 0x10), stringLayers := [0x10 \<mapsto> (\<lambda>_. 0x10)],
       callAt := [0x6000 \<mapsto> zeroSyscall\<lparr>call_service := 0x8000, parameters := (\<lambda>_. 0)(0 := 77, 1 := 0x1234)\<rparr>]\<rparr>
     in handleCreateFunctionSyscall k 0x6000 = Some k' \<and> callAt k' 0x6000 = Some (c :: Syscall) \<and>
        serviceAt k' 0x8000 = Some (s :: Service) \<and>
        functionAt k' (klistGet (service_functions s) (returnValue c)) = Some f \<and> function_address f = 0x1234"
proof -
  let ?c = "zeroSyscall\<lparr>call_service := 0x8000, parameters := (\<lambda>_. 0)(0 := 77, 1 := 0x1234)\<rparr>"
  let ?k = "started_kernel\<lparr>stringRoot := (\<lambda>_. 0x10), stringLayers := [0x10 \<mapsto> (\<lambda>_. 0x10)], callAt := [0x6000 \<mapsto> ?c]\<rparr>"
  let ?s = "zeroService\<lparr>service_id := 0\<rparr>"
  obtain a h e h' where al: "kernelMalloc started_heap 12 = Some (a, h)" "kernelMalloc h 8 = Some (e, h')"
    using started_two [of 12] by auto
  have pre: "callAt ?k 0x6000 = Some ?c" "kRetrieveString ?k (parameters ?c 0) = Some 0x10" "(0x10 :: u32) \<noteq> 0"
    "serviceAt ?k (call_service ?c) = Some ?s" "length (service_functions ?s) < 2 ^ 32"
    by (simp_all add: started_kernel_def zeroService_def kRetrieveString_def retrieveString_def stringTableOf_def
        startBits_def digit_def topDigit_def)
  have "\<exists>k'. handleCreateFunctionSyscall ?k 0x6000 = Some k'"
    using al pre(2) by (simp add: handleCreateFunctionSyscall_def kmalloc_def klistAdd_def setReturn_def setFunction_def setCall_def setService_def)
      (simp add: started_kernel_def)
  then obtain k' where run: "handleCreateFunctionSyscall ?k 0x6000 = Some k'" ..
  have f: "parameters ?c 1 = 0x1234" "call_service ?c = 0x8000" by simp_all
  from created_function_number [OF pre run] run show ?thesis unfolding Let_def f by metis
qed

section \<open>Numbers that name nothing\<close>

text \<open>
  Four handlers look a service up by number and use the result without asking whether there is one. With
  nothing at address zero the kernel faults when the number is too large.
\<close>

theorem unknown_service_faults:
  assumes "callAt k call = Some c" and "parameters c 0 \<noteq> 0" and "length (services k) \<le> unat (parameters c 0)"
    and "serviceAt k 0 = None"
  shows "handleLookupSymbolSyscall k call = None \<and> handleSubscribeEventSyscall k call = None \<and>
    handleAwaitSyscall k call = None \<and> (parameters c 1 \<noteq> 0 \<longrightarrow> handleGetEventSyscall k call = None)"
proof -
  have none: "klistGet (services k) (parameters c 0) = 0" using assms(3) by (simp add: klistGet_def)
  then have ev: "eventsOf k (parameters c 0) = None" using assms(2,4) by (simp add: eventsOf_def)
  then have "eventsOf (setCall k call c') (parameters c 0) = None" for c'
    by (auto simp: eventsOf_def setCall_def split: if_splits)
  then have "handleAwaitSyscall k call = None"
    using assms(1) by (simp add: handleAwaitSyscall_def setAvoidReschedule_def) (simp add: setCall_def)
  then show ?thesis
    using assms(1,4) none ev
    by (simp add: handleLookupSymbolSyscall_def handleSubscribeEventSyscall_def handleGetEventSyscall_def)
qed

theorem unknown_service_faults_witness:
  "let k = started_kernel\<lparr>callAt := [0x6000 \<mapsto> zeroSyscall\<lparr>parameters := (\<lambda>_. 9)\<rparr>]\<rparr>
   in handleAwaitSyscall k 0x6000 = None \<and> handleGetEventSyscall k 0x6000 = None"
  using unknown_service_faults [of "started_kernel\<lparr>callAt := [0x6000 \<mapsto> zeroSyscall\<lparr>parameters := (\<lambda>_. 9)\<rparr>]\<rparr>" "0x6000"]
  by (simp add: started_kernel_def Let_def)



end
