(* ===== verification/Stdio.thy ===== *)
theory Stdio
  imports Strings
begin

text \<open>
  Formatted output of \<open>hlib/stdio.c\<close>: numbers as text, the inserts of a format string, and the two passes over a
  format, one for the size of the buffer and one that writes. The target is the memory and the place of the next
  byte. The reference texts \<open>hexText\<close>, \<open>decimalText\<close> and \<open>formatText\<close> are lists of bytes.
\<close>

section \<open>Operations\<close>

type_synonym writer = "bytes \<times> u32"

definition HEX_CHARS :: "u8 list" where
  "HEX_CHARS = [48, 49, 50, 51, 52, 53, 54, 55, 56, 57, 65, 66, 67, 68, 69, 70]"

definition addChar :: "u8 \<Rightarrow> writer \<Rightarrow> writer" where
  "addChar c = (\<lambda>(m, write). (m(write := c), write + 1))"

text \<open>One round of the loops over the bytes of a number; the flag says that a digit was written.\<close>

definition putHexStep :: "u32 \<Rightarrow> nat \<Rightarrow> bool \<times> writer \<Rightarrow> bool \<times> writer" where
  "putHexStep x position = (\<lambda>(alreadyWriting, out).
     let byte = (ucast (drop_bit (position * 8) x AND 0xFF) :: u8);
         alreadyWriting = (byte \<noteq> 0 \<or> alreadyWriting)
     in (alreadyWriting, if alreadyWriting
         then addChar (HEX_CHARS ! unat (byte AND 0x0F)) (addChar (HEX_CHARS ! unat (drop_bit 4 byte)) out) else out))"

definition putHex :: "u32 \<Rightarrow> writer \<Rightarrow> writer" where
  "putHex x out =
     (if x = 0 then addChar (HEX_CHARS ! unat x) (addChar (HEX_CHARS ! unat x) out)
      else snd (fold (putHexStep x) [3, 2, 1, 0] (False, out)))"

text \<open>
  \<open>hexLength\<close> starts one byte too high: it shifts by 32 bits, for which the language gives no value. What the
  machine gives is the argument \<open>over\<close>.
\<close>

definition hexLengthStep :: "(u32 \<Rightarrow> u32) \<Rightarrow> u32 \<Rightarrow> nat \<Rightarrow> bool \<times> u8 \<Rightarrow> bool \<times> u8" where
  "hexLengthStep over x position = (\<lambda>(alreadyWriting, count).
     let byte = (ucast ((if position < 4 then drop_bit (position * 8) x else over x) AND 0xFF) :: u8);
         alreadyWriting = (byte \<noteq> 0 \<or> alreadyWriting)
     in (alreadyWriting, if alreadyWriting then count + 2 else count))"

definition hexLength :: "(u32 \<Rightarrow> u32) \<Rightarrow> u32 \<Rightarrow> u8" where
  "hexLength over x = max (snd (fold (hexLengthStep over x) [4, 3, 2, 1, 0] (False, 0))) 2"

definition power32 :: "u32 \<Rightarrow> u32 \<Rightarrow> u32" where
  "power32 x y = fold (\<lambda>i result. result * x) [0..<unat y] 1"

text \<open>The division is unsigned, because \<open>power\<close> is.\<close>

definition intLength :: "u32 \<Rightarrow> u32" where
  "intLength x =
     (if x = 0 then 1
      else case List.find (\<lambda>i. x div power32 10 (of_nat i) > 0) [10, 9, 8, 7, 6, 5, 4, 3, 2, 1, 0] of
             Some i \<Rightarrow> of_nat i + 1 | None \<Rightarrow> 1)"

definition putIntStep :: "u32 \<Rightarrow> nat \<Rightarrow> writer \<Rightarrow> writer" where
  "putIntStep x i out =
     (let n = x div power32 10 (of_nat i) in if n \<noteq> 0 then addChar (HEX_CHARS ! unat (n mod 10)) out else out)"

definition putInt :: "u32 \<Rightarrow> writer \<Rightarrow> writer" where
  "putInt x out =
     (if x = 0 then addChar 48 out
      else (let (x, out) = (if sint x < 0 then (- x, addChar 45 out) else (x, out))
            in fold (putIntStep x) [10, 9, 8, 7, 6, 5, 4, 3, 2, 1, 0] out))"

definition putPadding :: "u32 \<Rightarrow> writer \<Rightarrow> writer" where
  "putPadding x out = fold (\<lambda>i. addChar 32) [0..<unat (min x 10)] out"

definition getInsertLength :: "(u32 \<Rightarrow> u32) \<Rightarrow> bytes \<Rightarrow> u8 \<Rightarrow> u32 \<Rightarrow> u32 option" where
  "getInsertLength over m insertType x =
     (if insertType = 115 then strlen m x
      else if insertType = 120 then Some (ucast (hexLength over x))
      else if insertType = 99 then Some 1
      else if insertType = 105 then Some (intLength x + (if sint x < 0 then 1 else 0))
      else if insertType = 112 then Some x
      else Some 0)"

definition stringInsert :: "u32 \<Rightarrow> writer \<Rightarrow> writer option" where
  "stringInsert x out = do {
     count \<leftarrow> strlen (fst out) x;
     Some (fold (\<lambda>position out. addChar (fst out (x + of_nat position)) out) [0..<unat count] out)
   }"

definition handleInsert :: "u8 \<Rightarrow> u32 \<Rightarrow> writer \<Rightarrow> writer option" where
  "handleInsert insertType x out =
     (if insertType = 115 then stringInsert x out
      else if insertType = 120 then Some (putHex x out)
      else if insertType = 99 then Some (addChar (ucast x) out)
      else if insertType = 105 then Some (putInt x out)
      else if insertType = 112 then Some (putPadding x out)
      else Some out)"

text \<open>
  \<open>printfSize\<close> counts with the variable that also walks over the format: after an insert it goes on as many bytes
  further in the format as the insert is long. \<open>args n\<close> is the \<open>n\<close>-th variadic argument.
\<close>

partial_function (option) sizeLoop :: "(u32 \<Rightarrow> u32) \<Rightarrow> bytes \<Rightarrow> u32 \<Rightarrow> (nat \<Rightarrow> u32) \<Rightarrow> nat \<Rightarrow> u32 \<Rightarrow> u32 option" where
  "sizeLoop over m format args n count =
     (if m (format + count) = 0 then Some count
      else if m (format + count) = 37 then do {
        insert \<leftarrow> getInsertLength over m (m (format + (count + 1))) (args n);
        sizeLoop over m format args (Suc n) (count + 1 + insert + 1)
      } else sizeLoop over m format args n (count + 1))"

definition printfSize :: "(u32 \<Rightarrow> u32) \<Rightarrow> bytes \<Rightarrow> u32 \<Rightarrow> (nat \<Rightarrow> u32) \<Rightarrow> u32 option" where
  "printfSize over m format args = sizeLoop over m format args 0 0"

partial_function (option) sprintfLoop :: "u32 \<Rightarrow> (nat \<Rightarrow> u32) \<Rightarrow> nat \<Rightarrow> writer \<Rightarrow> bytes option" where
  "sprintfLoop format args n out =
     (if fst out format = 0 then Some ((fst out)(snd out := 0))
      else if fst out format = 37 then do {
        out \<leftarrow> handleInsert (fst out (format + 1)) (args n) out;
        sprintfLoop (format + 2) args (Suc n) out
      } else sprintfLoop (format + 1) args n (addChar (fst out format) out))"

definition sprintf :: "bytes \<Rightarrow> u32 \<Rightarrow> u32 \<Rightarrow> (nat \<Rightarrow> u32) \<Rightarrow> bytes option" where
  "sprintf m data format args = sprintfLoop format args 0 (m, data)"

definition asprintf ::
  "('s \<Rightarrow> u32 \<Rightarrow> (u32 \<times> 's) option) \<Rightarrow> (u32 \<Rightarrow> u32) \<Rightarrow> 's \<Rightarrow> bytes \<Rightarrow> u32 \<Rightarrow> (nat \<Rightarrow> u32) \<Rightarrow> (u32 \<times> 's \<times> bytes) option" where
  "asprintf alloc over h m format args = do {
     count \<leftarrow> printfSize over m format args;
     (data, h) \<leftarrow> alloc h count;
     m \<leftarrow> sprintf m data format args;
     Some (data, h, m)
   }"

section \<open>Writing a text\<close>

definition emit :: "u8 list \<Rightarrow> writer \<Rightarrow> writer" where
  "emit text out = fold addChar text out"

lemma emit_simps [simp]: "emit [] out = out" "emit (c # s) out = emit s (addChar c out)"
  by (simp_all add: emit_def)

lemma emit_append [simp]: "emit (s @ t) out = emit t (emit s out)"
  by (simp add: emit_def)

lemma emit_end: "snd (emit s (m, w)) = w + of_nat (length s)"
  by (induction s arbitrary: m w) (simp_all add: addChar_def algebra_simps)

lemma emit_outside: "a \<notin> span w (length s) \<Longrightarrow> fst (emit s (m, w)) a = m a"
  by (induction s arbitrary: m w) (auto simp: addChar_def span_Suc)

lemma emit_bytes: "length s < 4294967296 \<Longrightarrow> bytes_at (fst (emit s (m, w))) w s"
proof (induction s arbitrary: m w)
  case (Cons c s)
  have "w \<notin> span (w + 1) (length s)"
  proof
    assume "w \<in> span (w + 1) (length s)"
    then obtain i where "i < length s" "w + of_nat 0 = w + of_nat (Suc i)" by (auto simp: span_def add_ac)
    then show False using Cons.prems of_nat32_eq [of 0 "Suc i"] by (auto simp del: of_nat_Suc of_nat_0)
  qed
  then show ?case using Cons emit_outside [of w "w + 1" s "m(w := c)"] by (simp add: addChar_def)
qed simp

section \<open>Numbers as text\<close>

definition hexByte :: "u8 \<Rightarrow> u8 list" where
  "hexByte b = [HEX_CHARS ! unat (drop_bit 4 b), HEX_CHARS ! unat (b AND 0x0F)]"

definition byteOf :: "u32 \<Rightarrow> nat \<Rightarrow> u8" where
  "byteOf x position = ucast (drop_bit (position * 8) x AND 0xFF)"

definition hexText :: "u32 \<Rightarrow> u8 list" where
  "hexText x = (if x = 0 then [48, 48] else concat (map hexByte (dropWhile ((=) 0) (map (byteOf x) [3, 2, 1, 0]))))"

fun decimalText :: "nat \<Rightarrow> u8 list" where
  "decimalText n = (if n < 10 then [48 + of_nat n] else decimalText (n div 10) @ [48 + of_nat (n mod 10)])"

declare decimalText.simps [simp del]

lemma putHex_fold:
  "snd (fold (putHexStep x) ps (flag, out)) =
     emit (concat (map hexByte (if flag then map (byteOf x) ps else dropWhile ((=) 0) (map (byteOf x) ps)))) out"
proof (induction ps arbitrary: flag out)
  case (Cons p ps)
  then show ?case by (cases "byteOf x p = 0"; cases flag) (simp_all add: putHexStep_def Let_def byteOf_def hexByte_def)
qed simp

lemma putHex_emit: "putHex x out = emit (hexText x) out"
proof (cases "x = 0")
  case False
  then show ?thesis unfolding putHex_def hexText_def putHex_fold by (simp only: if_False simp_thms)
qed (simp add: putHex_def hexText_def HEX_CHARS_def)

lemma hexLength_fold:
  assumes "\<And>p. p \<in> set ps \<Longrightarrow> p < 4"
  shows "snd (fold (hexLengthStep over x) ps (flag, n)) =
     n + of_nat (2 * length (if flag then ps else dropWhile (\<lambda>p. byteOf x p = 0) ps))"
  using assms
proof (induction ps arbitrary: flag n)
  case (Cons p ps)
  have "p < 4" "\<And>q. q \<in> set ps \<Longrightarrow> q < 4" using Cons.prems by simp_all
  then show ?case
    using Cons.IH by (cases "byteOf x p = 0"; cases flag) (simp_all add: hexLengthStep_def Let_def byteOf_def algebra_simps)
qed simp

lemma power32_eq: "power32 x y = x ^ unat y"
proof -
  have "fold (\<lambda>i result. result * x) [0..<n] 1 = x ^ n" for n by (induction n) simp_all
  then show ?thesis by (simp add: power32_def)
qed

lemma unat_power10: "i \<le> 9 \<Longrightarrow> unat ((10 :: u32) ^ i) = 10 ^ i"
proof -
  assume "i \<le> 9"
  then have "i = 0 \<or> i = 1 \<or> i = 2 \<or> i = 3 \<or> i = 4 \<or> i = 5 \<or> i = 6 \<or> i = 7 \<or> i = 8 \<or> i = 9" by presburger
  then show ?thesis by (elim disjE) simp_all
qed

lemma putIntStep_digit:
  assumes "i \<le> 9"
  shows "putIntStep x i out = (let q = unat x div 10 ^ i in if q = 0 then out else addChar (48 + of_nat (q mod 10)) out)"
proof -
  have "unat (of_nat i :: u32) = i" using assms by simp
  then have q: "unat (x div power32 10 (of_nat i)) = unat x div 10 ^ i"
    using unat_power10 [OF assms] by (simp add: power32_eq unat_div)
  have digit: "HEX_CHARS ! d = 48 + of_nat d" if "d < 10" for d
  proof -
    have "d = 0 \<or> d = 1 \<or> d = 2 \<or> d = 3 \<or> d = 4 \<or> d = 5 \<or> d = 6 \<or> d = 7 \<or> d = 8 \<or> d = 9" using that by presburger
    then show ?thesis by (elim disjE) (simp_all add: HEX_CHARS_def)
  qed
  have "unat (x div power32 10 (of_nat i) mod 10) = unat x div 10 ^ i mod 10" by (simp add: unat_mod q)
  moreover have "x div power32 10 (of_nat i) = 0 \<longleftrightarrow> unat x div 10 ^ i = 0" by (metis q unat_eq_0)
  ultimately show ?thesis by (simp add: putIntStep_def Let_def digit)
qed

lemma putInt_digits:
  assumes "j \<le> 10"
  shows "fold (putIntStep x) (rev [j..<10]) out =
    emit (if unat x div 10 ^ j = 0 then [] else decimalText (unat x div 10 ^ j)) out"
  using assms
proof (induction "10 - j" arbitrary: j)
  case 0
  have "unat x < 10 ^ 10" by (rule less_trans [OF unat_u32_bound]) simp
  then show ?case using 0 by simp
next
  case (Suc d)
  then have j: "j \<le> 9" "rev [j..<10] = rev [Suc j..<10] @ [j]" by (simp_all add: upt_rec)
  have IH: "fold (putIntStep x) (rev [Suc j..<10]) out =
      emit (if unat x div 10 ^ Suc j = 0 then [] else decimalText (unat x div 10 ^ Suc j)) out"
    using Suc by (intro Suc.hyps) simp_all
  have q: "unat x div 10 ^ Suc j = unat x div 10 ^ j div 10" by (metis div_mult2_eq power_Suc2)
  have last_digit: "q div 10 = 0 \<longleftrightarrow> q < 10" for q :: nat by auto
  show ?case
    unfolding j(2) fold_append o_apply IH q
    using decimalText.simps [of "unat x div 10 ^ j"]
      last_digit [of "unat x div 10 ^ j"]
    by (cases "unat x div 10 ^ j < 10"; cases "unat x div 10 ^ j = 0") (simp_all add: putIntStep_digit [OF j(1)] Let_def)
qed

definition magnitude :: "u32 \<Rightarrow> nat" where
  "magnitude x = unat (if sint x < 0 then - x else x)"

definition intText :: "u32 \<Rightarrow> u8 list" where
  "intText x = (if sint x < 0 then [45] else []) @ (if magnitude x \<ge> 1410065408 then [49] else []) @ decimalText (magnitude x)"

lemma putInt_emit: "putInt x out = emit (intText x) out"
proof (cases "x = 0")
  case True
  then show ?thesis by (simp add: putInt_def intText_def magnitude_def decimalText.simps)
next
  case False
  have "0 < unat x" using False by (simp add: unat_gt_0)
  moreover have "unat (- x) = 4294967296 - unat x"
  proof -
    have "(unat x + unat (- x)) mod 4294967296 = 0" using unat_word_ariths(1) [of x "- x"] by simp
    then obtain q where "unat x + unat (- x) = 4294967296 * q" by (auto simp: mod_eq_0_iff_dvd)
    moreover have "unat x + unat (- x) < 4294967296 * 2" using unat_u32_bound [of x] unat_u32_bound [of "- x"] by linarith
    ultimately have "q = 1" using \<open>0 < unat x\<close> by (cases q) auto
    then show ?thesis using \<open>unat x + unat (- x) = 4294967296 * q\<close> by simp
  qed
  ultimately have small: "magnitude x \<le> 2147483648" "magnitude x \<noteq> 0"
    unfolding magnitude_def using negative_iff [of x] unat_u32_bound [of x] by auto
  define y where "y = (if sint x < 0 then - x else x)"
  have y: "unat y = magnitude x" by (simp add: y_def magnitude_def)
  have p: "power32 10 (of_nat 10) = 1410065408" by (simp add: power32_eq)
  have "unat (y div 1410065408) = magnitude x div 1410065408" by (simp add: unat_div y)
  then have top: "y div 1410065408 = (if magnitude x \<ge> 1410065408 then 1 else 0)"
    using small(1) by (auto simp: word_unat_eq_iff div_nat_eqI)
  then have ten: "putIntStep y 10 out' = emit (if magnitude x \<ge> 1410065408 then [49] else []) out'" for out'
    using p by (simp add: putIntStep_def Let_def HEX_CHARS_def)
  have list: "[10, 9, 8, 7, 6, 5, 4, 3, 2, 1, 0] = 10 # rev [0..<10 :: nat]" by (simp add: upt_rec)
  have rest: "fold (putIntStep y) (rev [0..<10]) out' = emit (decimalText (magnitude x)) out'" for out'
    using putInt_digits [of 0 y out'] small(2) y by simp
  have "putInt x out = fold (putIntStep y) (10 # rev [0..<10]) (if sint x < 0 then addChar 45 out else out)"
    using False unfolding putInt_def list [symmetric] by (simp add: y_def)
  then show ?thesis by (simp add: ten rest intText_def del: upt_Suc)
qed

text \<open>Reading a text as a number.\<close>

definition digitValue :: "u8 \<Rightarrow> nat" where
  "digitValue c = (if unat c \<le> 57 then unat c - 48 else unat c - 55)"

definition textValue :: "nat \<Rightarrow> u8 list \<Rightarrow> nat" where
  "textValue base s = foldl (\<lambda>v c. base * v + digitValue c) 0 s"

lemma digitValue_hex: "d < 16 \<Longrightarrow> digitValue (HEX_CHARS ! d) = d"
proof -
  assume "d < 16"
  then have "d = 0 \<or> d = 1 \<or> d = 2 \<or> d = 3 \<or> d = 4 \<or> d = 5 \<or> d = 6 \<or> d = 7 \<or> d = 8 \<or> d = 9 \<or> d = 10 \<or> d = 11 \<or>
    d = 12 \<or> d = 13 \<or> d = 14 \<or> d = 15" by presburger
  then show ?thesis by (elim disjE) (simp_all add: HEX_CHARS_def digitValue_def)
qed

lemma hexByte_value: "foldl (\<lambda>v c. 16 * v + digitValue c) v (hexByte b) = 256 * v + unat b"
proof -
  have lo: "unat (b AND 0x0F) = unat b mod 16"
    using unat_mod [of b 16] word_mod_2p_is_mask [of 4 b] by (simp add: mask_eq_exp_minus_1)
  have hi: "unat (drop_bit 4 b) = unat b div 16" by (simp add: drop_bit_eq_div unat_div)
  have "unat b < 256" using unat_lt [of b] by simp
  then have "unat (drop_bit 4 b) < 16" "unat (b AND 0x0F) < 16" using lo hi by simp_all
  then show ?thesis using lo hi by (simp add: hexByte_def digitValue_hex)
qed

lemma hexBytes_value:
  "foldl (\<lambda>v c. 16 * v + digitValue c) v (concat (map hexByte bs)) = foldl (\<lambda>v b. 256 * v + unat b) v bs"
  by (induction bs arbitrary: v) (simp_all add: hexByte_value)

lemma skip_zero_bytes: "foldl (\<lambda>v b. 256 * v + unat b) 0 (dropWhile ((=) (0 :: u8)) bs) = foldl (\<lambda>v b. 256 * v + unat b) 0 bs"
  by (induction bs) auto

lemma unat_byteOf: "unat (byteOf x p) = unat x div 2 ^ (p * 8) mod 256"
proof -
  have "byteOf x p = ucast (drop_bit (p * 8) x)"
  proof -
    have "(0xFF :: u32) = mask 8" by (simp add: mask_eq_exp_minus_1)
    then show ?thesis unfolding byteOf_def by (auto simp: bit_eq_iff bit_simps)
  qed
  then show ?thesis by (simp add: unsigned_ucast_eq unat_drop_bit take_bit_eq_mod)
qed

lemma hexText_value: "textValue 16 (hexText x) = unat x"
proof (cases "x = 0")
  case True
  then show ?thesis by (simp add: textValue_def hexText_def digitValue_def)
next
  case False
  define a where "a = unat x div 256"
  define b where "b = a div 256"
  have s: "unat x = 256 * a + unat x mod 256" "a = 256 * b + a mod 256" "b = 256 * (b div 256) + b mod 256"
    by (simp_all add: a_def b_def)
  have "b div 256 < 256" using unat_u32_bound [of x] unfolding a_def b_def by (simp add: div_mult2_eq [symmetric] less_mult_imp_div_less)
  then have top: "b div 256 mod 256 = b div 256" by simp
  have ds: "unat x div 16777216 = b div 256" "unat x div 65536 = b" "unat x div 256 = a"
    unfolding a_def b_def by (simp_all add: div_mult2_eq [symmetric])
  have "textValue 16 (hexText x) = foldl (\<lambda>v b. 256 * v + unat b) 0 (map (byteOf x) [3, 2, 1, 0])"
    using False unfolding textValue_def hexText_def hexBytes_value skip_zero_bytes by (simp only: if_False hexBytes_value skip_zero_bytes)
  also have "\<dots> = 256 * (256 * (256 * (b div 256) + b mod 256) + a mod 256) + unat x mod 256"
    by (simp add: unat_byteOf ds top)
  also have "\<dots> = unat x" using s by presburger
  finally show ?thesis .
qed

lemma decimalText_value: "textValue 10 (decimalText n) = n"
proof (induction n rule: decimalText.induct)
  case (1 n)
  have d: "digitValue (48 + of_nat d) = d" if "d < 10" for d
  proof -
    have "unat (48 + of_nat d :: u8) = 48 + d" using that by (simp add: unat_word_ariths unat_of_nat)
    then show ?thesis using that by (simp add: digitValue_def)
  qed
  show ?case
  proof (cases "n < 10")
    case True
    then show ?thesis using d by (simp add: decimalText.simps [of n] textValue_def)
  next
    case False
    then show ?thesis using 1 d [of "n mod 10"] by (simp add: decimalText.simps [of n] textValue_def)
  qed
qed

lemma decimalText_length: "n < 10 ^ Suc k \<Longrightarrow> length (decimalText n) \<le> Suc k"
proof (induction k arbitrary: n)
  case 0
  then show ?case by (simp add: decimalText.simps [of n])
next
  case (Suc k)
  then have "n div 10 < 10 ^ Suc k" by (simp add: less_mult_imp_div_less mult.commute)
  then show ?case using Suc.IH [of "n div 10"] by (simp add: decimalText.simps [of n])
qed

lemma hexLength_covers: "length (hexText x) \<le> unat (hexLength over x)"
proof -
  let ?n = "length (dropWhile (\<lambda>p. byteOf x p = 0) [3, 2, 1, 0 :: nat])"
  have n: "?n \<le> 4" using length_dropWhile_le [of "\<lambda>p. byteOf x p = 0" "[3, 2, 1, 0 :: nat]"] by simp
  have len: "length (hexText x) \<le> max (2 * ?n) 2"
  proof (cases "x = 0")
    case False
    have dw: "dropWhile ((=) 0) (map (byteOf x) ps) = map (byteOf x) (dropWhile (\<lambda>p. byteOf x p = 0) ps)" for ps
      by (induction ps) auto
    have l2: "length (concat (map hexByte bs)) = 2 * length bs" for bs by (induction bs) (simp_all add: hexByte_def)
    have "length (hexText x) = 2 * ?n" by (simp only: hexText_def if_not_P [OF False] dw l2 length_map)
    then show ?thesis by simp
  qed (simp add: hexText_def)
  have "hexLength over x = max (if (ucast (over x AND 0xFF) :: u8) \<noteq> 0 then 10 else of_nat (2 * ?n)) 2"
  proof -
    have "hexLengthStep over x 4 (False, 0) = (if (ucast (over x AND 0xFF) :: u8) \<noteq> 0 then (True, 2) else (False, 0))"
      by (simp add: hexLengthStep_def Let_def)
    moreover have "fold (hexLengthStep over x) [4, 3, 2, 1, 0] (False, 0) =
        fold (hexLengthStep over x) [3, 2, 1, 0] (hexLengthStep over x 4 (False, 0))"
      by (simp only: fold_simps comp_apply)
    moreover have "snd (fold (hexLengthStep over x) [3, 2, 1, 0] (True, 2)) = 10"
      by (subst hexLength_fold) auto
    moreover have "snd (fold (hexLengthStep over x) [3, 2, 1, 0] (False, 0)) = of_nat (2 * ?n)"
      by (subst hexLength_fold) auto
    ultimately show ?thesis unfolding hexLength_def by (simp only: split: if_split) simp
  qed
  moreover have "l \<le> unat (max (if c then 10 else of_nat (2 * n)) 2 :: u8)" if "n \<le> 4" "l \<le> max (2 * n) 2" for c and l n :: nat
  proof -
    have "unat (of_nat (2 * n) :: u8) = 2 * n" using that(1) by (subst unat_of_nat_small) simp_all
    moreover have "max (2 * n) 2 \<le> 10" using that(1) by simp
    ultimately show ?thesis using that(2) by (auto simp: max_def word_le_nat_alt split: if_splits)
  qed
  ultimately show ?thesis using n len by metis
qed

lemma intLength_covers: "length (intText x) \<le> unat (intLength x) + (if sint x < 0 then 1 else 0)"
proof (cases "x = 0")
  case True
  then show ?thesis by (simp add: intLength_def intText_def magnitude_def decimalText.simps)
next
  case False
  have p: "0 < x div power32 10 (of_nat i) \<longleftrightarrow> 10 ^ i \<le> unat x" if "i \<le> 9" for i
  proof -
    have "unat (of_nat i :: u32) = i" using that by simp
    then have "unat (x div power32 10 (of_nat i)) = unat x div 10 ^ i" using unat_power10 [OF that] by (simp add: power32_eq unat_div)
    then have "x div power32 10 (of_nat i) = 0 \<longleftrightarrow> unat x < 10 ^ i" by (metis div_eq_0_iff power_not_zero unat_eq_0 zero_neq_numeral)
    then show ?thesis by (auto simp: word_gt_0 not_less)
  qed
  have ten: "0 < x div power32 10 (of_nat 10) \<longleftrightarrow> 1410065408 \<le> unat x"
  proof -
    have "unat (x div power32 10 (of_nat 10)) = unat x div 1410065408" by (simp add: power32_eq unat_div)
    then have "x div power32 10 (of_nat 10) = 0 \<longleftrightarrow> unat x < 1410065408" by (metis div_eq_0_iff unat_eq_0 zero_neq_numeral)
    then show ?thesis by (auto simp: word_gt_0 not_less)
  qed
  let ?P = "\<lambda>i. 0 < x div power32 10 (of_nat i)"
  have list: "[10, 9, 8, 7, 6, 5, 4, 3, 2, 1, 0] = 10 # rev [0..<10 :: nat]" by (simp add: upt_rec)
  have def10: "intLength x = (case List.find ?P (10 # rev [0..<10]) of Some i \<Rightarrow> of_nat i + 1 | None \<Rightarrow> 1)"
    using False unfolding intLength_def list by (simp only: if_False)
  have "unat x < 10 ^ Suc 9" by (rule less_trans [OF unat_u32_bound]) simp
  moreover have mx: "magnitude x < 10 ^ Suc 9" unfolding magnitude_def by (rule less_trans [OF unat_u32_bound]) simp
  ultimately have len: "length (decimalText (magnitude x)) \<le> 10" using decimalText_length [of "magnitude x" 9] by simp
  show ?thesis
  proof (cases "1410065408 \<le> unat x")
    case True
    then have "intLength x = 11" using ten unfolding def10 by simp
    then show ?thesis using len by (auto simp: intText_def)
  next
    case small: False
    then have pos: "\<not> sint x < 0" using negative_iff [of x] by simp
    then have mag: "magnitude x = unat x" by (simp add: magnitude_def)
    have "List.find ?P (rev [0..<10]) \<noteq> None" using p [of 0] False unfolding find_None_iff not_not by (intro exI [of _ 0]) (simp add: unat_gt_0 Suc_le_eq)
    then obtain i where i: "List.find ?P (rev [0..<10]) = Some i" by blast
    then obtain k where k: "k < 10" "i = 9 - k" "\<forall>j < k. \<not> ?P (9 - j)"
      unfolding find_Some_iff by (auto simp: rev_nth)
    have "unat x < 10 ^ Suc i"
    proof (cases k)
      case 0
      then show ?thesis using \<open>unat x < 10 ^ Suc 9\<close> k(2) by simp
    next
      case (Suc j)
      then have "\<not> ?P (Suc i)" "Suc i \<le> 9" using k by (auto simp: Suc_diff_Suc)
      then show ?thesis using p [of "Suc i"] by simp
    qed
    then have "length (decimalText (unat x)) \<le> Suc i" by (rule decimalText_length)
    moreover have "intLength x = of_nat i + 1" using ten small i unfolding def10 by simp
    moreover have "i < 10" using k(1,2) by simp
    then have "unat (of_nat i + 1 :: u32) = Suc i" using unat_of_nat32 [of "Suc i"] by (simp add: add.commute)
    ultimately show ?thesis using pos small mag by (simp add: intText_def)
  qed
qed

text \<open>
  Numbers as text: \<open>putHex\<close> writes hexadecimal digits and \<open>putInt\<close> a sign and decimal digits that read as the
  number, but for magnitudes from 1410065408 on \<open>putInt\<close> writes a digit 1 in front, because the tenth power of
  ten wraps around. The lengths computed for the two inserts are never too small.
\<close>

theorem numbers_as_text:
  "putHex x out = emit (hexText x) out \<and> textValue 16 (hexText x) = unat x \<and>
   putInt x out = emit (intText x) out \<and> textValue 10 (decimalText (magnitude x)) = magnitude x \<and>
   length (hexText x) \<le> unat (hexLength over x) \<and> length (intText x) \<le> unat (intLength x) + (if sint x < 0 then 1 else 0)"
  using putHex_emit putInt_emit hexText_value decimalText_value hexLength_covers intLength_covers by blast

lemma cstr_nth: "cstr m p s \<Longrightarrow> i < length s \<Longrightarrow> m (p + of_nat i) = s ! i"
proof (induction s arbitrary: p i)
  case (Cons c s)
  then show ?case using Cons.IH [of "p + 1" "i - 1"] by (cases i) (auto simp: add_ac)
qed simp

lemma stringInsert_emit:
  assumes "cstr (fst out) x s" and "x \<noteq> 0" and "length s < 4294967296"
    and "span x (length s) \<inter> span (snd out) (length s) = {}"
  shows "stringInsert x out = Some (emit s out)"
proof -
  have loop: "fold (\<lambda>position out. addChar (fst out (x + of_nat position)) out) [0..<n] out = emit (take n s) out" if "n \<le> length s" for n
    using that
  proof (induction n)
    case (Suc n)
    let ?o = "emit (take n s) out"
    have "x + of_nat n \<in> span x (length s)" using Suc.prems by (intro span_in) simp
    moreover have "span (snd out) (length (take n s)) \<subseteq> span (snd out) (length s)" using Suc.prems by (auto simp: span_def)
    ultimately have "x + of_nat n \<notin> span (snd out) (length (take n s))" using assms(4) by blast
    then have "fst ?o (x + of_nat n) = fst out (x + of_nat n)"
      using emit_outside [of "x + of_nat n" "snd out" "take n s" "fst out"] by simp
    also have "\<dots> = s ! n" using cstr_nth [OF assms(1)] Suc.prems by simp
    finally show ?case using Suc by (simp add: take_Suc_conv_app_nth)
  qed simp
  then show ?thesis
    using loop [of "length s"] strlen_cstr [OF assms(1,2)] assms(3) by (simp add: stringInsert_def)
qed

section \<open>Formats\<close>

text \<open>The types of the inserts of a format, and the text with every insert replaced.\<close>

fun inserts :: "u8 list \<Rightarrow> u8 list" where
  "inserts [] = []"
| "inserts [c] = []"
| "inserts (c # d # f) = (if c = 37 then d # inserts f else inserts (d # f))"

fun complete :: "u8 list \<Rightarrow> bool" where
  "complete [] \<longleftrightarrow> True"
| "complete [c] \<longleftrightarrow> c \<noteq> 37"
| "complete (c # d # f) \<longleftrightarrow> (if c = 37 then complete f else complete (d # f))"

definition insertText :: "u8 list \<Rightarrow> u8 \<Rightarrow> u32 \<Rightarrow> u8 list" where
  "insertText string insertType x =
     (if insertType = 115 then string
      else if insertType = 120 then hexText x
      else if insertType = 99 then [ucast x]
      else if insertType = 105 then intText x
      else if insertType = 112 then replicate (unat (min x 10)) 32
      else [])"

fun formatText :: "(nat \<Rightarrow> u8 list) \<Rightarrow> (nat \<Rightarrow> u32) \<Rightarrow> nat \<Rightarrow> u8 list \<Rightarrow> u8 list" where
  "formatText strings args n [] = []"
| "formatText strings args n [c] = [c]"
| "formatText strings args n (c # d # f) =
     (if c = 37 then insertText (strings n) d (args n) @ formatText strings args (Suc n) f
      else c # formatText strings args n (d # f))"

lemma handleInsert_emit:
  assumes "insertType = 115 \<longrightarrow> cstr (fst out) x string \<and> x \<noteq> 0 \<and> span x (Suc (length string)) \<inter> span (snd out) (length string) = {}"
    and "length string < 4294967296"
  shows "handleInsert insertType x out = Some (emit (insertText string insertType x) out)"
proof -
  have pad: "putPadding x out = emit (replicate (unat (min x 10)) 32) out"
  proof -
    have "fold (\<lambda>i. addChar 32) [0..<n] out = emit (replicate n 32) out" for n
      by (induction n) (simp_all add: replicate_append_same [symmetric])
    then show ?thesis by (simp add: putPadding_def)
  qed
  have "span x (length string) \<subseteq> span x (Suc (length string))" by (auto simp: span_def)
  then show ?thesis
    using assms stringInsert_emit [of out x string] by (auto simp: handleInsert_def insertText_def putHex_emit putInt_emit pad)
qed

text \<open>The strings among the arguments from number \<open>n\<close> on stand in memory outside of the target \<open>R\<close>.\<close>

definition stringsOutside :: "bytes \<Rightarrow> (nat \<Rightarrow> u8 list) \<Rightarrow> (nat \<Rightarrow> u32) \<Rightarrow> nat \<Rightarrow> u8 list \<Rightarrow> u32 set \<Rightarrow> bool" where
  "stringsOutside m strings args n types R \<longleftrightarrow> (\<forall>i < length types. types ! i = 115 \<longrightarrow> args (n + i) \<noteq> 0 \<and>
     cstr m (args (n + i)) (strings (n + i)) \<and> span (args (n + i)) (Suc (length (strings (n + i)))) \<inter> R = {})"

lemma stringsOutside_Cons:
  "stringsOutside m strings args n (t # types) R \<longleftrightarrow>
     (t = 115 \<longrightarrow> args n \<noteq> 0 \<and> cstr m (args n) (strings n) \<and> span (args n) (Suc (length (strings n))) \<inter> R = {}) \<and>
     stringsOutside m strings args (Suc n) types R"
proof -
  have "(\<forall>i < Suc l. P i) \<longleftrightarrow> P 0 \<and> (\<forall>i < l. P (Suc i))" for P l by (auto simp: less_Suc_eq_0_disj)
  then show ?thesis unfolding stringsOutside_def by simp
qed

lemma cstr_outside: "cstr m p s \<Longrightarrow> span p (Suc (length s)) \<inter> R = {} \<Longrightarrow> (\<And>a. a \<notin> R \<Longrightarrow> m' a = m a) \<Longrightarrow> cstr m' p s"
  using cstr_cong [of p s m' m] by blast

lemma stringsOutside_cong:
  "stringsOutside m strings args n types R \<Longrightarrow> (\<And>a. a \<notin> R \<Longrightarrow> m' a = m a) \<Longrightarrow> stringsOutside m' strings args n types R"
  unfolding stringsOutside_def by (meson cstr_outside)

lemma span_add: "span w (a + b) = span w a \<union> span (w + of_nat a) b"
proof (induction a arbitrary: w)
  case (Suc a)
  then show ?case using Suc.IH [of "w + 1"] by (simp add: span_Suc add_ac)
qed simp

lemma sprintfLoop_text:
  assumes "cstr m fmt f" and "complete f" and "span fmt (Suc (length f)) \<inter> R = {}"
    and "stringsOutside m strings args n (inserts f) R" and "\<forall>i. length (strings i) < 4294967296"
    and "span w (Suc (length (formatText strings args n f))) \<subseteq> R"
  shows "sprintfLoop fmt args n (m, w) = Some (fst (emit (formatText strings args n f @ [0]) (m, w)))"
  using assms
proof (induction strings args n f arbitrary: m fmt w rule: formatText.induct)
  case (1 strings args n)
  then show ?case by (simp add: sprintfLoop.simps addChar_def fun_upd_def)
next
  case (2 strings args n c)
  then have "fmt \<noteq> w" "fmt + 1 \<noteq> w" by (auto simp: span_Suc)
  with 2 show ?case by (simp add: sprintfLoop.simps [of fmt] sprintfLoop.simps [of "fmt + 1"] addChar_def fun_upd_def)
next
  case (3 strings args n c d f)
  have c: "m fmt = c" "c \<noteq> 0" "m (fmt + 1) = d" "cstr m (fmt + 1) (d # f)" using 3(3) by simp_all
  show ?case
  proof (cases "c = 37")
    case True
    let ?t = "insertText (strings n) d (args n)" and ?r = "formatText strings args (Suc n) f"
    obtain m' w' where o: "emit ?t (m, w) = (m', w')" by fastforce
    have w': "w' = w + of_nat (length ?t)" using emit_end [of ?t m w] o by simp
    have sub: "span w (length ?t) \<subseteq> R" "span w' (Suc (length ?r)) \<subseteq> R"
      using 3(8) True span_add [of w "length ?t" "Suc (length ?r)"] by (auto simp: w')
    then have keep: "m' a = m a" if "a \<notin> R" for a using emit_outside [of a w ?t m] o that by auto
    have so: "stringsOutside m strings args n (d # inserts f) R" using 3(6) True by simp
    have "handleInsert d (args n) (m, w) = Some (m', w')"
      unfolding o [symmetric]
    proof (rule handleInsert_emit)
      show "d = 115 \<longrightarrow> cstr (fst (m, w)) (args n) (strings n) \<and> args n \<noteq> 0 \<and>
          span (args n) (Suc (length (strings n))) \<inter> span (snd (m, w)) (length (strings n)) = {}"
        using so sub(1) by (auto simp: stringsOutside_Cons insertText_def)
    qed (use 3(7) in simp)
    moreover have "sprintfLoop (fmt + 2) args (Suc n) (m', w') = Some (fst (emit (?r @ [0]) (m', w')))"
    proof (rule 3(1) [OF True])
      have "cstr m (fmt + 2) f" using c(4) by (simp add: add_ac)
      moreover show "span (fmt + 2) (Suc (length f)) \<inter> R = {}" using 3(5) by (auto simp: span_Suc add_ac)
      ultimately show "cstr m' (fmt + 2) f" using cstr_outside keep by blast
      show "stringsOutside m' strings args (Suc n) (inserts f) R"
        using so stringsOutside_cong [OF _ keep] by (auto simp: stringsOutside_Cons)
    qed (use 3(4,7) True sub in auto)
    ultimately show ?thesis using c True o by (simp add: sprintfLoop.simps [of fmt])
  next
    case False
    let ?r = "formatText strings args n (d # f)"
    have sub: "w \<in> R" "span (w + 1) (Suc (length ?r)) \<subseteq> R" using 3(8) False by (auto simp: span_Suc)
    then have keep: "(m(w := c)) a = m a" if "a \<notin> R" for a using that by auto
    have "sprintfLoop (fmt + 1) args n (m(w := c), w + 1) = Some (fst (emit (?r @ [0]) (m(w := c), w + 1)))"
    proof (rule 3(2) [OF False])
      show "span (fmt + 1) (Suc (length (d # f))) \<inter> R = {}" using 3(5) by (auto simp: span_Suc)
      then show "cstr (m(w := c)) (fmt + 1) (d # f)" using cstr_outside [OF c(4)] keep by blast
      show "stringsOutside (m(w := c)) strings args n (inserts (d # f)) R"
        using 3(6) False by (intro stringsOutside_cong [where m' = "m(w := c)", OF _ keep]) simp_all
    qed (use 3(4,7) False sub in auto)
    then show ?thesis using c False by (simp add: sprintfLoop.simps [of fmt] addChar_def)
  qed
qed

section \<open>Properties\<close>

text \<open>
  C26. \<open>sprintf\<close> writes the text of the format with every insert replaced, then a zero, and nothing else. The format
  and the strings among the arguments have to lie outside of the bytes that are written.
\<close>

theorem sprintf_writes_text:
  assumes "cstr m format f" and "complete f" and "\<forall>i. length (strings i) < 2 ^ 32"
    and "length (formatText strings args 0 f) + 1 < 2 ^ 32"
    and "span format (Suc (length f)) \<inter> span data (Suc (length (formatText strings args 0 f))) = {}"
    and "stringsOutside m strings args 0 (inserts f) (span data (Suc (length (formatText strings args 0 f))))"
  shows "\<exists>m'. sprintf m data format args = Some m' \<and> bytes_at m' data (formatText strings args 0 f @ [0]) \<and>
    (\<forall>a. a \<notin> span data (Suc (length (formatText strings args 0 f))) \<longrightarrow> m' a = m a)"
proof -
  let ?t = "formatText strings args 0 f"
  have "sprintf m data format args = Some (fst (emit (?t @ [0]) (m, data)))"
    unfolding sprintf_def
    by (rule sprintfLoop_text [OF assms(1,2,5,6) _ subset_refl]) (use assms(3) in simp)
  moreover have "bytes_at (fst (emit (?t @ [0]) (m, data))) data (?t @ [0])" using assms(4) by (intro emit_bytes) simp
  moreover have "fst (emit (?t @ [0]) (m, data)) a = m a" if "a \<notin> span data (Suc (length ?t))" for a
    using emit_outside [of a data "?t @ [0]" m] that by simp
  ultimately show ?thesis by blast
qed

theorem sprintf_writes_text_witness:
  "\<exists>m'. sprintf ((\<lambda>_. 0)(100 := 37, 101 := 120, 102 := 33)) 200 100 (\<lambda>_. 0xAB) = Some m' \<and>
     bytes_at m' 200 [65, 66, 33, 0]"
proof -
  let ?m = "(\<lambda>_. 0)(100 := 37, 101 := 120, 102 := 33) :: bytes"
  have c: "cstr ?m 100 [37, 120, 33]" "complete [37, 120, 33]" "\<forall>i. length (([] :: u8 list)) < (2 :: nat) ^ 32" by simp_all
  have "hexText 0xAB = [65, 66]"
    by (simp add: hexText_def byteOf_def hexByte_def HEX_CHARS_def)
  then have t: "formatText (\<lambda>_. []) (\<lambda>_. 0xAB) 0 [37, 120, 33] = [65, 66, 33]" by (simp add: insertText_def)
  have n: "length (formatText (\<lambda>_. []) (\<lambda>_. 0xAB) 0 [37, 120, 33]) + 1 < 2 ^ 32" unfolding t by simp
  have d: "span 100 (Suc (length [37, 120, 33 :: u8])) \<inter> span 200 (Suc (length (formatText (\<lambda>_. []) (\<lambda>_. 0xAB) 0 [37, 120, 33]))) = {}"
    unfolding t by (simp add: span_Suc)
  have s: "stringsOutside ?m (\<lambda>_. []) (\<lambda>_. 0xAB) 0 (inserts [37, 120, 33]) (span 200 (Suc (length (formatText (\<lambda>_. []) (\<lambda>_. 0xAB) 0 [37, 120, 33]))))"
    by (simp add: stringsOutside_def)
  from sprintf_writes_text [OF c n d s] show ?thesis unfolding t by auto
qed

lemma sizeLoop_plain:
  assumes "cstr m (format + count) f" and "37 \<notin> set f"
  shows "sizeLoop over m format args n count = Some (count + of_nat (length f))"
  using assms
proof (induction f arbitrary: count)
  case (Cons c f)
  then show ?case using Cons.IH [of "count + 1"] by (simp add: sizeLoop.simps [of _ _ _ _ _ count] add_ac)
qed (simp add: sizeLoop.simps)

lemma plain_text: "37 \<notin> set f \<Longrightarrow> formatText strings args n f = f \<and> inserts f = [] \<and> complete f"
  by (induction strings args n f rule: formatText.induct) auto

text \<open>
  The buffer of \<open>asprintf\<close> is one byte too small: for a format without inserts it has as many bytes as the
  format, and the zero behind the text is written to the byte behind the buffer.
\<close>

theorem asprintf_overruns:
  assumes "cstr m format f" and "37 \<notin> set f" and "length f + 1 < 2 ^ 32" and "alloc h (of_nat (length f)) = Some (data, h')"
    and "span format (Suc (length f)) \<inter> span data (Suc (length f)) = {}"
  shows "\<exists>m'. asprintf alloc over h m format args = Some (data, h', m') \<and> bytes_at m' data (f @ [0]) \<and>
    m' (data + of_nat (length f)) = 0 \<and> data + of_nat (length f) \<notin> span data (length f)"
proof -
  have p: "formatText (\<lambda>_. []) args 0 f = f" "inserts f = []" "complete f" using plain_text [OF assms(2)] by auto
  have "printfSize over m format args = Some (of_nat (length f))"
    using sizeLoop_plain [of m format 0 f over args 0] assms(1,2) by (simp add: printfSize_def)
  moreover have "sprintf m data format args = Some (fst (emit (f @ [0]) (m, data)))"
    unfolding sprintf_def using assms(1,5) p sprintfLoop_text [of m format f "span data (Suc (length f))" "\<lambda>_. []" args 0 data]
    by (simp add: stringsOutside_def)
  moreover have b: "bytes_at (fst (emit (f @ [0]) (m, data))) data (f @ [0])" using assms(3) by (intro emit_bytes) simp
  moreover have "data + of_nat (length f) \<notin> span data (length f)"
  proof
    assume "data + of_nat (length f) \<in> span data (length f)"
    then obtain i where "i < length f" "(of_nat i :: u32) = of_nat (length f)" by (auto simp: span_def)
    then show False using of_nat32_eq [of i "length f"] assms(3) by simp
  qed
  ultimately show ?thesis using assms(4) b by (simp add: asprintf_def bytes_at_append)
qed

theorem asprintf_overruns_witness:
  "\<exists>m'. asprintf (\<lambda>h n. Some (200, h)) (\<lambda>_. 0) () ((\<lambda>_. 0)(100 := 104, 101 := 105)) 100 (\<lambda>_. 0) = Some (200, (), m') \<and>
     m' 202 = 0 \<and> (202 :: u32) \<notin> span 200 2"
proof -
  let ?m = "(\<lambda>_. 0)(100 := 104, 101 := 105) :: bytes"
  let ?alloc = "\<lambda>h n. Some (200, h) :: (u32 \<times> unit) option"
  have side: "cstr ?m 100 [104, 105]" "37 \<notin> set [104, 105 :: u8]" "length [104, 105 :: u8] + 1 < 2 ^ 32"
    "?alloc () (of_nat (length [104, 105 :: u8])) = Some (200, ())"
    "span 100 (Suc (length [104, 105 :: u8])) \<inter> span 200 (Suc (length [104, 105 :: u8])) = {}"
    by (simp_all add: span_Suc)
  from asprintf_overruns [of ?m 100 "[104, 105]" ?alloc "()" 200 "()" "\<lambda>_. 0" "\<lambda>_. 0", OF side]
  obtain m' where m': "asprintf ?alloc (\<lambda>_. 0) () ?m 100 (\<lambda>_. 0) = Some (200, (), m')" "bytes_at m' 200 ([104, 105] @ [0])"
    "200 + of_nat (length [104, 105 :: u8]) \<notin> span (200 :: u32) (length [104, 105 :: u8])" by blast
  then have "m' 202 = 0" "(202 :: u32) \<notin> span 200 2" by (simp_all add: numeral_2_eq_2)
  then show ?thesis using m'(1) by blast
qed

end
