(* ===== verification/Hlib.thy ===== *)
theory Hlib
  imports HandlerProps Stdio
begin

text \<open>
  The library programs are linked with (\<open>hlib/main.c\<close>, \<open>hlib/io.c\<close>, \<open>hlib/strings.c\<close>, \<open>hlib/service/*.c\<close>, the request macros
  of \<open>include/hlib.h\<close> and the printing functions of \<open>hlib/stdio.c\<close>): every function ends in system calls. The
  instruction that enters the kernel is the argument \<open>sys\<close>: given the number and the four parameters of a call, the
  memory of the program and the rest of the system, it gives the result and both afterwards, or nothing when the call
  never returns.
\<close>

section \<open>System calls by name\<close>

type_synonym 's sys = "u32 \<Rightarrow> u32 \<Rightarrow> u32 \<Rightarrow> u32 \<Rightarrow> u32 \<Rightarrow> bytes \<times> 's \<Rightarrow> (u32 \<times> bytes \<times> 's) option"

datatype SyscallIds = SYS_RUN | SYS_CREATE_FUNCTION | SYS_REQUEST | SYS_IO_IN | SYS_IO_OUT | SYS_LOAD_INITRD
  | SYS_GET_SERVICE | SYS_GET_FUNCTION | SYS_SUBSCRIBE_INTERRUPT | SYS_CREATE_EVENT | SYS_GET_EVENT | SYS_FIRE_EVENT
  | SYS_SUBSCRIBE_EVENT | SYS_GET_SERVICE_ID | SYS_INSERT_STRING | SYS_GET_STRING_LENGTH | SYS_READ_STRING
  | SYS_DISCARD_STRING | SYS_REQUEST_MEMORY | SYS_LOOKUP_SYMBOL | SYS_STACK_CONTAINS | SYS_AWAIT | SYS_GET_PHYSICAL
  | SYS_FORK | SYS_FREE_PAGE

fun sysNumber :: "SyscallIds \<Rightarrow> u32" where
  "sysNumber SYS_RUN = 0"
| "sysNumber SYS_CREATE_FUNCTION = 1"
| "sysNumber SYS_REQUEST = 2"
| "sysNumber SYS_IO_IN = 3"
| "sysNumber SYS_IO_OUT = 4"
| "sysNumber SYS_LOAD_INITRD = 5"
| "sysNumber SYS_GET_SERVICE = 6"
| "sysNumber SYS_GET_FUNCTION = 7"
| "sysNumber SYS_SUBSCRIBE_INTERRUPT = 8"
| "sysNumber SYS_CREATE_EVENT = 9"
| "sysNumber SYS_GET_EVENT = 10"
| "sysNumber SYS_FIRE_EVENT = 11"
| "sysNumber SYS_SUBSCRIBE_EVENT = 12"
| "sysNumber SYS_GET_SERVICE_ID = 13"
| "sysNumber SYS_INSERT_STRING = 14"
| "sysNumber SYS_GET_STRING_LENGTH = 15"
| "sysNumber SYS_READ_STRING = 16"
| "sysNumber SYS_DISCARD_STRING = 17"
| "sysNumber SYS_REQUEST_MEMORY = 18"
| "sysNumber SYS_LOOKUP_SYMBOL = 19"
| "sysNumber SYS_STACK_CONTAINS = 20"
| "sysNumber SYS_AWAIT = 21"
| "sysNumber SYS_GET_PHYSICAL = 22"
| "sysNumber SYS_FORK = 23"
| "sysNumber SYS_FREE_PAGE = 24"

definition syscall :: "'s sys \<Rightarrow> SyscallIds \<Rightarrow> u32 \<Rightarrow> u32 \<Rightarrow> u32 \<Rightarrow> u32 \<Rightarrow> bytes \<times> 's \<Rightarrow> (u32 \<times> bytes \<times> 's) option" where
  "syscall sys function parameter0 parameter1 parameter2 parameter3 s =
     sys (sysNumber function) parameter0 parameter1 parameter2 parameter3 s"

section \<open>Strings, ports and memory\<close>

definition hInsertString :: "'s sys \<Rightarrow> u32 \<Rightarrow> bytes \<times> 's \<Rightarrow> (u32 \<times> bytes \<times> 's) option" where
  "hInsertString sys string s = syscall sys SYS_INSERT_STRING string 0 0 0 s"

definition getStringLength :: "'s sys \<Rightarrow> u32 \<Rightarrow> bytes \<times> 's \<Rightarrow> (u32 \<times> bytes \<times> 's) option" where
  "getStringLength sys stringId s = syscall sys SYS_GET_STRING_LENGTH stringId 0 0 0 s"

definition readString :: "'s sys \<Rightarrow> u32 \<Rightarrow> u32 \<Rightarrow> bytes \<times> 's \<Rightarrow> (bytes \<times> 's) option" where
  "readString sys stringId buffer s = map_option snd (syscall sys SYS_READ_STRING stringId buffer 0 0 s)"

definition hDiscardString :: "'s sys \<Rightarrow> u32 \<Rightarrow> bytes \<times> 's \<Rightarrow> (bytes \<times> 's) option" where
  "hDiscardString sys stringId s = map_option snd (syscall sys SYS_DISCARD_STRING stringId 0 0 0 s)"

definition ioIn :: "'s sys \<Rightarrow> u16 \<Rightarrow> u8 \<Rightarrow> bytes \<times> 's \<Rightarrow> (u32 \<times> bytes \<times> 's) option" where
  "ioIn sys port count s = syscall sys SYS_IO_IN (ucast count) (ucast port) 0 0 s"

definition ioOut :: "'s sys \<Rightarrow> u16 \<Rightarrow> u32 \<Rightarrow> u8 \<Rightarrow> bytes \<times> 's \<Rightarrow> (bytes \<times> 's) option" where
  "ioOut sys port value count s = map_option snd (syscall sys SYS_IO_OUT (ucast count) (ucast port) value 0 s)"

definition subscribeInterrupt :: "'s sys \<Rightarrow> u32 \<Rightarrow> u32 \<Rightarrow> bytes \<times> 's \<Rightarrow> (bytes \<times> 's) option" where
  "subscribeInterrupt sys intNo handler s = map_option snd (syscall sys SYS_SUBSCRIBE_INTERRUPT intNo handler 0 0 s)"

definition requestMemory :: "'s sys \<Rightarrow> u32 \<Rightarrow> u32 \<Rightarrow> u32 \<Rightarrow> bytes \<times> 's \<Rightarrow> (u32 \<times> bytes \<times> 's) option" where
  "requestMemory sys pageCount wanted physical s =
     syscall sys SYS_REQUEST_MEMORY pageCount wanted physical 0 s"

definition hGetPage :: "'s sys \<Rightarrow> bytes \<times> 's \<Rightarrow> (u32 \<times> bytes \<times> 's) option" where
  "hGetPage sys s = requestMemory sys 1 0 0 s"

definition hGetPagesCount :: "'s sys \<Rightarrow> u32 \<Rightarrow> bytes \<times> 's \<Rightarrow> (u32 \<times> bytes \<times> 's) option" where
  "hGetPagesCount sys count s = requestMemory sys count 0 0 s"

definition hFreePage :: "'s sys \<Rightarrow> u32 \<Rightarrow> bytes \<times> 's \<Rightarrow> (bytes \<times> 's) option" where
  "hFreePage sys location s = map_option snd (syscall sys SYS_FREE_PAGE location 0 0 0 s)"

definition hGetPhysicalAddress :: "'s sys \<Rightarrow> u32 \<Rightarrow> bytes \<times> 's \<Rightarrow> (u32 \<times> bytes \<times> 's) option" where
  "hGetPhysicalAddress sys source s = do {
     (physical, s) \<leftarrow> syscall sys SYS_GET_PHYSICAL (source AND NOT 0xFFF) 0 0 0 s;
     Some (physical OR (source AND 0xFFF), s)
   }"

section \<open>Services, functions and events\<close>

definition request :: "'s sys \<Rightarrow> u32 \<Rightarrow> u32 \<Rightarrow> u32 \<Rightarrow> u32 \<Rightarrow> bytes \<times> 's \<Rightarrow> (u32 \<times> bytes \<times> 's) option" where
  "request sys service function data1 data2 s = syscall sys SYS_REQUEST service function data1 data2 s"

definition createFunction :: "'s sys \<Rightarrow> u32 \<Rightarrow> u32 \<Rightarrow> bytes \<times> 's \<Rightarrow> (u32 \<times> bytes \<times> 's) option" where
  "createFunction sys name handler s = do {
     (stringId, s) \<leftarrow> hInsertString sys name s;
     syscall sys SYS_CREATE_FUNCTION stringId handler 0 0 s
   }"

definition getService :: "'s sys \<Rightarrow> u32 \<Rightarrow> bytes \<times> 's \<Rightarrow> (u32 \<times> bytes \<times> 's) option" where
  "getService sys name s = do {
     (stringId, s) \<leftarrow> hInsertString sys name s;
     syscall sys SYS_GET_SERVICE stringId 0 0 0 s
   }"

definition getFunction :: "'s sys \<Rightarrow> u32 \<Rightarrow> u32 \<Rightarrow> bytes \<times> 's \<Rightarrow> (u32 \<times> bytes \<times> 's) option" where
  "getFunction sys module name s = do {
     (stringId, s) \<leftarrow> hInsertString sys name s;
     syscall sys SYS_GET_FUNCTION module stringId 0 0 s
   }"

definition hGetServiceId :: "'s sys \<Rightarrow> bytes \<times> 's \<Rightarrow> (u32 \<times> bytes \<times> 's) option" where
  "hGetServiceId sys s = syscall sys SYS_GET_SERVICE_ID 0 0 0 0 s"

definition hLookupSymbol :: "'s sys \<Rightarrow> u32 \<Rightarrow> u32 \<Rightarrow> bytes \<times> 's \<Rightarrow> (u32 \<times> bytes \<times> 's) option" where
  "hLookupSymbol sys serviceId address s = syscall sys SYS_LOOKUP_SYMBOL serviceId address 0 0 s"

definition fork :: "'s sys \<Rightarrow> u32 \<Rightarrow> u32 \<Rightarrow> u32 \<Rightarrow> u32 \<Rightarrow> bytes \<times> 's \<Rightarrow> (u32 \<times> bytes \<times> 's) option" where
  "fork sys f a b c s = syscall sys SYS_FORK f a b c s"

text \<open>The result of a call in a \<open>bool\<close>.\<close>

definition hStackContains :: "'s sys \<Rightarrow> u32 \<Rightarrow> bytes \<times> 's \<Rightarrow> (bool \<times> bytes \<times> 's) option" where
  "hStackContains sys serviceId s = do {
     (r, s) \<leftarrow> syscall sys SYS_STACK_CONTAINS serviceId 0 0 0 s;
     Some (r \<noteq> 0, s)
   }"

definition loadFromInitrd :: "'s sys \<Rightarrow> u32 \<Rightarrow> bytes \<times> 's \<Rightarrow> (u32 \<times> bytes \<times> 's) option" where
  "loadFromInitrd sys name s = do {
     (stringId, s) \<leftarrow> hInsertString sys name s;
     (service, s) \<leftarrow> syscall sys SYS_GET_SERVICE stringId 0 0 0 s;
     if service = 0 then syscall sys SYS_LOAD_INITRD stringId 1 0 0 s else Some (service, s)
   }"

definition loadFromInitrdUninitialized :: "'s sys \<Rightarrow> u32 \<Rightarrow> bytes \<times> 's \<Rightarrow> (u32 \<times> bytes \<times> 's) option" where
  "loadFromInitrdUninitialized sys name s = do {
     (stringId, s) \<leftarrow> hInsertString sys name s;
     syscall sys SYS_LOAD_INITRD stringId 0 0 0 s
   }"

definition requestName :: "'s sys \<Rightarrow> u32 \<Rightarrow> u32 \<Rightarrow> u32 \<Rightarrow> u32 \<Rightarrow> bytes \<times> 's \<Rightarrow> (bytes \<times> 's) option" where
  "requestName sys service provider data1 data2 s = do {
     (serviceId, s) \<leftarrow> getService sys service s;
     (providerId, s) \<leftarrow> getFunction sys serviceId provider s;
     map_option snd (request sys serviceId providerId data1 data2 s)
   }"

definition createEvent :: "'s sys \<Rightarrow> u32 \<Rightarrow> bytes \<times> 's \<Rightarrow> (u32 \<times> bytes \<times> 's) option" where
  "createEvent sys name s = do {
     (stringId, s) \<leftarrow> hInsertString sys name s;
     syscall sys SYS_CREATE_EVENT stringId 0 0 0 s
   }"

text \<open>\<open>getEvent\<close> computes the number of the name itself, with its own copy of \<open>hashString\<close>.\<close>

definition getEvent :: "'s sys \<Rightarrow> u32 \<Rightarrow> u32 \<Rightarrow> bytes \<times> 's \<Rightarrow> (u32 \<times> bytes \<times> 's) option" where
  "getEvent sys service name s = do {
     stringId \<leftarrow> hashString (fst s) name;
     syscall sys SYS_GET_EVENT service stringId 0 0 s
   }"

definition fireEventCode :: "'s sys \<Rightarrow> u32 \<Rightarrow> u32 \<Rightarrow> u32 \<Rightarrow> bytes \<times> 's \<Rightarrow> (bytes \<times> 's) option" where
  "fireEventCode sys eventNumber data code s = map_option snd (syscall sys SYS_FIRE_EVENT eventNumber data code 0 s)"

definition hFireEvent :: "'s sys \<Rightarrow> u32 \<Rightarrow> u32 \<Rightarrow> bytes \<times> 's \<Rightarrow> (bytes \<times> 's) option" where
  "hFireEvent sys eventNumber data s = fireEventCode sys eventNumber data 0 s"

definition subscribeEvent :: "'s sys \<Rightarrow> u32 \<Rightarrow> u32 \<Rightarrow> u32 \<Rightarrow> bytes \<times> 's \<Rightarrow> (bytes \<times> 's) option" where
  "subscribeEvent sys service event handler s = map_option snd (syscall sys SYS_SUBSCRIBE_EVENT service event handler 0 s)"

definition awaitCode :: "'s sys \<Rightarrow> u32 \<Rightarrow> u32 \<Rightarrow> u32 \<Rightarrow> bytes \<times> 's \<Rightarrow> (u32 \<times> bytes \<times> 's) option" where
  "awaitCode sys service event code s = syscall sys SYS_AWAIT service event code 0 s"

definition await :: "'s sys \<Rightarrow> u32 \<Rightarrow> u32 \<Rightarrow> bytes \<times> 's \<Rightarrow> (u32 \<times> bytes \<times> 's) option" where
  "await sys service event s = awaitCode sys service event 0 s"

definition getDirectEvent :: "'s sys \<Rightarrow> u32 \<Rightarrow> u32 \<Rightarrow> bytes \<times> 's \<Rightarrow> (u32 \<times> bytes \<times> 's) option" where
  "getDirectEvent sys serviceId eventId s = syscall sys SYS_GET_EVENT serviceId eventId 0 0 s"

definition createDirectEvent :: "'s sys \<Rightarrow> u32 \<Rightarrow> bytes \<times> 's \<Rightarrow> (u32 \<times> bytes \<times> 's) option" where
  "createDirectEvent sys eventId s = syscall sys SYS_CREATE_EVENT eventId 0 0 0 s"

definition createDirectEventSave :: "'s sys \<Rightarrow> u32 \<Rightarrow> bytes \<times> 's \<Rightarrow> (u32 \<times> bytes \<times> 's) option" where
  "createDirectEventSave sys eventId s = do {
     (me, s) \<leftarrow> hGetServiceId sys s;
     (existingEvent, s) \<leftarrow> getDirectEvent sys me eventId s;
     if existingEvent \<noteq> 0 then Some (existingEvent, s) else createDirectEvent sys eventId s
   }"

section \<open>Functions of other services\<close>

text \<open>
  The macros \<open>REQUEST\<close>, \<open>REQUEST0\<close> and \<open>REQUEST1\<close> define a function that asks another service. Its static
  variables remember the numbers of the service and of the function.
\<close>

record Numbers =
  serviceId :: u32
  functionId :: u32
  initialized :: bool

partial_function (option) serviceLoop :: "'s sys \<Rightarrow> u32 \<Rightarrow> u32 \<Rightarrow> bytes \<times> 's \<Rightarrow> (u32 \<times> bytes \<times> 's) option" where
  "serviceLoop sys service number s =
     (if number = 0 then do {
        (_, s) \<leftarrow> loadFromInitrd sys service s;
        (_, s) \<leftarrow> getService sys service s;
        (number, s) \<leftarrow> getService sys service s;
        serviceLoop sys service number s
      } else Some (number, s))"

partial_function (option) functionLoop :: "'s sys \<Rightarrow> u32 \<Rightarrow> u32 \<Rightarrow> u32 \<Rightarrow> bytes \<times> 's \<Rightarrow> (u32 \<times> bytes \<times> 's) option" where
  "functionLoop sys service function number s =
     (if number = 0 then do {
        (_, s) \<leftarrow> getFunction sys service function s;
        (number, s) \<leftarrow> getFunction sys service function s;
        functionLoop sys service function number s
      } else Some (number, s))"

definition REQUEST :: "'s sys \<Rightarrow> u32 \<Rightarrow> u32 \<Rightarrow> u32 \<Rightarrow> u32 \<Rightarrow> Numbers \<Rightarrow> bytes \<times> 's \<Rightarrow> (u32 \<times> Numbers \<times> bytes \<times> 's) option" where
  "REQUEST sys service function data1 data2 v s = do {
     (v, s) \<leftarrow> (if initialized v then Some (v, s)
       else do {
         (sid, s) \<leftarrow> serviceLoop sys service (serviceId v) s;
         (fid, s) \<leftarrow> functionLoop sys sid function (functionId v) s;
         Some (\<lparr>serviceId = sid, functionId = fid, initialized = True\<rparr>, s)
       });
     (r, s) \<leftarrow> request sys (serviceId v) (functionId v) data1 data2 s;
     Some (r, v, s)
   }"

text \<open>\<open>REQUEST0\<close> is the same with zero as the data.\<close>

definition REQUEST1 :: "'s sys \<Rightarrow> u32 \<Rightarrow> u32 \<Rightarrow> u32 \<Rightarrow> Numbers \<Rightarrow> bytes \<times> 's \<Rightarrow> (u32 \<times> Numbers \<times> bytes \<times> 's) option" where
  "REQUEST1 sys service function data v s = do {
     (v, s) \<leftarrow> (if serviceId v \<noteq> 0 then Some (v, s)
       else do {
         (_, s) \<leftarrow> getService sys service s;
         (sid, s) \<leftarrow> getService sys service s;
         Some (v\<lparr>serviceId := sid\<rparr>, s)
       });
     (v, s) \<leftarrow> (if functionId v \<noteq> 0 then Some (v, s)
       else do {
         (fid, s) \<leftarrow> getFunction sys (serviceId v) function s;
         Some (v\<lparr>functionId := fid\<rparr>, s)
       });
     (r, s) \<leftarrow> request sys (serviceId v) (functionId v) data 0 s;
     Some (r, v, s)
   }"

definition REQUEST0 :: "'s sys \<Rightarrow> u32 \<Rightarrow> u32 \<Rightarrow> Numbers \<Rightarrow> bytes \<times> 's \<Rightarrow> (u32 \<times> Numbers \<times> bytes \<times> 's) option" where
  "REQUEST0 sys service function v s = REQUEST1 sys service function 0 v s"

section \<open>Printing\<close>

text \<open>
  \<open>ioManager\<close> and \<open>logFunction\<close> are the numbers the start of the program stores. The allocator of the program works
  on the same state.
\<close>

definition printf ::
  "(bytes \<times> 's \<Rightarrow> u32 \<Rightarrow> (u32 \<times> bytes \<times> 's) option) \<Rightarrow> (bytes \<times> 's \<Rightarrow> u32 \<Rightarrow> (bytes \<times> 's) option) \<Rightarrow> (u32 \<Rightarrow> u32) \<Rightarrow> 's sys \<Rightarrow>
   u32 \<Rightarrow> u32 \<Rightarrow> u32 \<Rightarrow> (nat \<Rightarrow> u32) \<Rightarrow> bytes \<times> 's \<Rightarrow> (bytes \<times> 's) option" where
  "printf alloc release over sys ioManager logFunction format args s = do {
     (a, s) \<leftarrow> alloc s 1;
     s \<leftarrow> release s a;
     count \<leftarrow> printfSize over (fst s) format args;
     (data, s) \<leftarrow> alloc s count;
     m \<leftarrow> sprintf (fst s) data format args;
     (stringId, s) \<leftarrow> hInsertString sys data (m, snd s);
     (_, s) \<leftarrow> request sys ioManager logFunction stringId 0 s;
     s \<leftarrow> hDiscardString sys stringId s;
     release s data
   }"

text \<open>\<open>function\<close> is the static variable of \<open>gets\<close>, \<open>name\<close> the address of its string literal.\<close>

definition gets :: "'s sys \<Rightarrow> u32 \<Rightarrow> u32 \<Rightarrow> u32 \<Rightarrow> u32 \<Rightarrow> bytes \<times> 's \<Rightarrow> (u32 \<times> bytes \<times> 's) option" where
  "gets sys ioManager name function buffer s = do {
     (function, s) \<leftarrow> (if function \<noteq> 0 then Some (function, s) else getFunction sys ioManager name s);
     (stringId, s) \<leftarrow> request sys ioManager function 0 0 s;
     s \<leftarrow> readString sys stringId buffer s;
     Some (function, s)
   }"

section \<open>Numbers agree with the kernel\<close>


section \<open>Events by number\<close>

text \<open>
  What \<open>createDirectEventSave\<close> relies on: the kernel tells a service its number, gives a new event the position
  behind the others, and finds an event by its name, with zero for a name it does not know.
\<close>

fun position :: "u32 \<Rightarrow> u32 list \<Rightarrow> nat option" where
  "position x [] = None"
| "position x (y # ys) = (if x = y then Some 0 else map_option Suc (position x ys))"

locale event_numbers =
  fixes sys :: "'s sys" and good :: "'s \<Rightarrow> bool" and me :: u32 and names :: "'s \<Rightarrow> u32 list"
  assumes whoami: "good k \<Longrightarrow> sys 13 0 0 0 0 (m, k) = Some (r, m', k') \<Longrightarrow> r = me \<and> good k' \<and> names k' = names k"
    and known: "good k \<Longrightarrow> n \<noteq> 0 \<Longrightarrow> sys 10 me n 0 0 (m, k) = Some (r, m', k') \<Longrightarrow>
      r = (case position n (names k) of None \<Rightarrow> 0 | Some i \<Rightarrow> of_nat i) \<and> good k' \<and> names k' = names k"
    and create: "good k \<Longrightarrow> n \<noteq> 0 \<Longrightarrow> sys 9 n 0 0 0 (m, k) = Some (r, m', k') \<Longrightarrow>
      r = of_nat (length (names k)) \<and> good k' \<and> names k' = names k @ [n]"
begin

lemma save_outcome:
  assumes good: "good k" and n: "n \<noteq> 0" and run: "createDirectEventSave sys n (m, k) = Some (r, m', k')"
    and len: "length (names k) < 2 ^ 32"
  shows "good k' \<and> (case position n (names k) of
      Some (Suc i) \<Rightarrow> r = of_nat (Suc i) \<and> names k' = names k
    | _ \<Rightarrow> r = of_nat (length (names k)) \<and> names k' = names k @ [n])"
proof -
  obtain x1 m1 k1 x2 m2 k2 where
    1: "sys 13 0 0 0 0 (m, k) = Some (x1, m1, k1)" and 2: "sys 10 x1 n 0 0 (m1, k1) = Some (x2, m2, k2)"
    and 3: "if x2 \<noteq> 0 then (r, m', k') = (x2, m2, k2) else sys 9 n 0 0 0 (m2, k2) = Some (r, m', k')"
    using run by (auto simp: createDirectEventSave_def hGetServiceId_def getDirectEvent_def createDirectEvent_def syscall_def
        split: bind_splits if_splits)
  note w = whoami [OF good 1]
  have k: "x2 = (case position n (names k) of None \<Rightarrow> 0 | Some i \<Rightarrow> of_nat i)" "good k2" "names k2 = names k"
    using known [of k1 n m1 x2 m2 k2] w n 2 by auto
  have bound: "i < length ys" if "position x ys = Some i" for x i and ys :: "u32 list"
    using that by (induction ys arbitrary: i) (auto split: if_splits)
  have word: "(of_nat (Suc i) :: u32) \<noteq> 0" if "position n (names k) = Some (Suc i)" for i
    using bound [OF that] len of_nat32_eq [of "Suc i" 0] by (auto simp del: of_nat_Suc)
  show ?thesis
  proof (cases "position n (names k)")
    case None
    then show ?thesis using k 3 create [OF k(2) n] by auto
  next
    case (Some j)
    show ?thesis
    proof (cases j)
      case 0
      then show ?thesis using Some k 3 create [OF k(2) n] by auto
    next
      case (Suc i)
      then show ?thesis using Some k 3 word [of i] by auto
    qed
  qed
qed

end

text \<open>
  The kernel provides this. \<open>serviceCall service\<close> is a call of a service whose handler does not make it wait: the
  call as \<open>handleSyscall\<close> creates it, handled with nothing in between.
\<close>

definition serviceCall :: "u32 \<Rightarrow> Kernel sys" where
  "serviceCall service function parameter0 parameter1 parameter2 parameter3 = (\<lambda>(m, k). do {
     (call, k) \<leftarrow> kmalloc k 44;
     k \<leftarrow> dispatch (setCall k call (zeroSyscall\<lparr>call_function := function, call_service := service,
       parameters := (\<lambda>_. 0)(0 := parameter0, 1 := parameter1, 2 := parameter2, 3 := parameter3)\<rparr>)) function call;
     c \<leftarrow> callAt k call;
     Some (returnValue c, m, k)
   })"

definition eventName :: "Kernel \<Rightarrow> u32 \<times> u32 \<Rightarrow> u32" where
  "eventName k p = (case eventAt k (snd p) of None \<Rightarrow> 0 | Some e \<Rightarrow> event_name e)"

definition eventNames :: "u32 \<Rightarrow> Kernel \<Rightarrow> u32 list" where
  "eventNames service k = (case serviceAt k service of None \<Rightarrow> [] | Some s \<Rightarrow> map (eventName k) (service_events s))"

definition events_ok :: "u32 \<Rightarrow> u32 \<Rightarrow> Kernel \<Rightarrow> bool" where
  "events_ok me service k \<longleftrightarrow> kernel_heap_ok (kheap k) \<and> dom (eventAt k) \<subseteq> allocated (kheap k) \<and> me \<noteq> 0 \<and>
     klistGet (services k) me = service \<and>
     (\<exists>s. serviceAt k service = Some s \<and> service_id s = me \<and> snd ` set (service_events s) \<subseteq> dom (eventAt k))"

lemma eventName_cong: "eventAt k' = eventAt k \<Longrightarrow> eventName k' = eventName k"
  by (simp add: eventName_def fun_eq_iff)

lemma events_ok_call:
  assumes "events_ok me service k" and "kernelMalloc (kheap k) n = Some (a, h)" and "0 < unat n" and "unat n < 1024"
  shows "events_ok me service (setCall (k\<lparr>kheap := h\<rparr>) call c)" and "eventNames service (setCall (k\<lparr>kheap := h\<rparr>) call c) = eventNames service k"
proof -
  let ?k = "setCall (k\<lparr>kheap := h\<rparr>) call c"
  have "eventName ?k = eventName k" by (rule eventName_cong) (simp add: setCall_def)
  then show "eventNames service ?k = eventNames service k" by (simp add: eventNames_def setCall_def split: option.splits)
  show "events_ok me service ?k"
    using assms(1) ka.alloc_law [OF _ assms(3,4,2)] by (auto simp: events_ok_def setCall_def)
qed

lemma events_ok_setCall:
  "events_ok me service (setCall k a c) = events_ok me service k" "eventNames service (setCall k a c) = eventNames service k"
  using eventName_cong [of "setCall k a c" k] by (simp_all add: events_ok_def eventNames_def setCall_def split: option.splits)

lemma indexOfEvent_position:
  "snd ` set list \<subseteq> dom (eventAt k) \<Longrightarrow>
     indexOfEvent k list n i = Some (map_option (\<lambda>j. i + of_nat j) (position n (map (eventName k) list)))"
proof (induction list arbitrary: i)
  case (Cons p list)
  obtain x a where p: "p = (x, a)" by fastforce
  obtain e where e: "eventAt k a = Some e" using Cons.prems p by auto
  have "indexOfEvent k list n (i + 1) = Some (map_option (\<lambda>j. i + 1 + of_nat j) (position n (map (eventName k) list)))"
    using Cons by simp
  moreover have "eventName k p = event_name e" by (simp add: eventName_def p e)
  ultimately show ?case using p e by (auto simp: option.map_comp comp_def algebra_simps)
qed simp

lemma serviceCall_SomeD:
  assumes "serviceCall service f p0 p1 p2 p3 (m, k) = Some (r, m', k')"
  shows "\<exists>a h c. kernelMalloc (kheap k) 44 = Some (a, h) \<and> callAt k' a = Some (c :: Syscall) \<and> returnValue c = r \<and> m' = m \<and>
    dispatch (setCall (k\<lparr>kheap := h\<rparr>) a (zeroSyscall\<lparr>call_function := f, call_service := service,
       parameters := (\<lambda>_. 0)(0 := p0, 1 := p1, 2 := p2, 3 := p3)\<rparr>)) f a = Some k'"
  using assms by (auto simp: serviceCall_def kmalloc_def split: bind_splits)

interpretation kernel_events: event_numbers "serviceCall service" "events_ok me service" me "eventNames service" for service me
proof
  fix k m r m' k' assume ok: "events_ok me service k" and run: "serviceCall service 13 0 0 0 0 (m, k) = Some (r, m', k')"
  obtain a h c where call: "kernelMalloc (kheap k) 44 = Some (a, h)" "callAt k' a = Some (c :: Syscall)" "returnValue c = r"
    and d: "handleGetServiceIdSyscall (setCall (k\<lparr>kheap := h\<rparr>) a (zeroSyscall\<lparr>call_function := 13, call_service := service,
       parameters := (\<lambda>_. 0)(0 := 0, 1 := 0, 2 := 0, 3 := 0)\<rparr>)) a = Some k'"
    using serviceCall_SomeD [OF run] by (auto simp: dispatch_def syscallHandlers_def)
  let ?k = "\<lambda>c. setCall (k\<lparr>kheap := h\<rparr>) a c"
  note ok1 = events_ok_call [OF ok call(1)]
  have "k' = setCall (?k undefined) a c \<and> r = me"
    using d call(2,3) ok
    by (auto simp: handleGetServiceIdSyscall_def setReturn_def setCall_def events_ok_def split: bind_splits)
  then show "r = me \<and> events_ok me service k' \<and> eventNames service k' = eventNames service k"
    using ok1 by (simp add: events_ok_setCall)
next
  fix k n m r m' k' assume ok: "events_ok me service k" and n: "n \<noteq> 0"
    and run: "serviceCall service 10 me n 0 0 (m, k) = Some (r, m', k')"
  obtain a h c where call: "kernelMalloc (kheap k) 44 = Some (a, h)" "callAt k' a = Some (c :: Syscall)" "returnValue c = r"
    and d: "handleGetEventSyscall (setCall (k\<lparr>kheap := h\<rparr>) a (zeroSyscall\<lparr>call_function := 10, call_service := service,
       parameters := (\<lambda>_. 0)(0 := me, 1 := n, 2 := 0, 3 := 0)\<rparr>)) a = Some k'"
    using serviceCall_SomeD [OF run] by (auto simp: dispatch_def syscallHandlers_def)
  define k1 where "k1 = setCall (k\<lparr>kheap := h\<rparr>) a (zeroSyscall\<lparr>call_function := 10, call_service := service,
       parameters := (\<lambda>_. 0)(0 := me, 1 := n, 2 := 0, 3 := 0)\<rparr>)"
  have ok1: "events_ok me service k1" "eventNames service k1 = eventNames service k"
    unfolding k1_def using events_ok_call [OF ok call(1)] by simp_all
  obtain s where s: "serviceAt k1 service = Some s" "snd ` set (service_events s) \<subseteq> dom (eventAt k1)"
    and me: "me \<noteq> 0" "klistGet (services k1) me = service" using ok1(1) by (auto simp: events_ok_def)
  have ix: "indexOfEvent k1 (service_events s) n 0 = Some (map_option of_nat (position n (eventNames service k1)))"
    using indexOfEvent_position [OF s(2), of n 0] by (simp add: eventNames_def s(1))
  have c1: "callAt k1 a = Some (zeroSyscall\<lparr>call_function := 10, call_service := service,
       parameters := (\<lambda>_. 0)(0 := me, 1 := n, 2 := 0, 3 := 0)\<rparr>)" by (simp add: k1_def setCall_def)
  then have "returnIndex k1 a (map_option of_nat (position n (eventNames service k1))) = Some k'"
    using d [folded k1_def] n me s(1) ix by (simp add: handleGetEventSyscall_def eventsOf_def)
  with c1 show "r = (case position n (eventNames service k) of None \<Rightarrow> 0 | Some i \<Rightarrow> of_nat i) \<and>
      events_ok me service k' \<and> eventNames service k' = eventNames service k"
    using call(2,3) ok1 by (auto simp: returnIndex_def setReturn_def events_ok_setCall zeroSyscall_def split: option.splits) (auto simp: setCall_def)
next
  fix k n m r m' k' assume ok: "events_ok me service k" and n: "n \<noteq> 0"
    and run: "serviceCall service 9 n 0 0 0 (m, k) = Some (r, m', k')"
  obtain a h c where call: "kernelMalloc (kheap k) 44 = Some (a, h)" "callAt k' a = Some (c :: Syscall)" "returnValue c = r"
    and d: "handleCreateEventSyscall (setCall (k\<lparr>kheap := h\<rparr>) a (zeroSyscall\<lparr>call_function := 9, call_service := service,
       parameters := (\<lambda>_. 0)(0 := n, 1 := 0, 2 := 0, 3 := 0)\<rparr>)) a = Some k'"
    using serviceCall_SomeD [OF run] by (auto simp: dispatch_def syscallHandlers_def)
  define c1 where "c1 = zeroSyscall\<lparr>call_function := 9, call_service := service, parameters := (\<lambda>_. 0)(0 := n, 1 := 0, 2 := 0, 3 := 0)\<rparr>"
  define k1 where "k1 = setCall (k\<lparr>kheap := h\<rparr>) a c1"
  have ok1: "events_ok me service k1" "eventNames service k1 = eventNames service k"
    unfolding k1_def using events_ok_call [OF ok call(1)] by simp_all
  obtain s where s: "serviceAt k1 service = Some s" "snd ` set (service_events s) \<subseteq> dom (eventAt k1)" "service_id s = me"
    using ok1(1) by (auto simp: events_ok_def)
  have c1: "callAt k1 a = Some c1" "parameters c1 0 = n" "serviceAt k1 (call_service c1) = Some s"
    using s(1) by (simp_all add: k1_def setCall_def c1_def)
  have cs: "call_service c1 = service" by (simp add: c1_def)
  obtain ev h1 el h2 where al: "kernelMalloc (kheap k1) 12 = Some (ev, h1)" "kernelMalloc h1 8 = Some (el, h2)"
    and k': "k' = setService (setCall (setEvent (k1\<lparr>kheap := h1\<rparr>) ev (zeroEvent\<lparr>event_name := n\<rparr>)) a
        (c1\<lparr>returnValue := klistCount (service_events s)\<rparr>)\<lparr>kheap := h2\<rparr>) service (s\<lparr>service_events := service_events s @ [(el, ev)]\<rparr>)"
    using createEvent_SomeD [OF c1(1,2) n c1(3) d [folded c1_def, folded k1_def]] unfolding cs by blast
  have heap: "kernel_heap_ok h2" "ev \<notin> allocated (kheap k1)" "allocated h2 = insert el (insert ev (allocated (kheap k1)))"
    using ok1(1) ka.alloc_law [OF _ _ _ al(1)] ka.alloc_law [OF _ _ _ al(2)] by (auto simp: events_ok_def)
  have f: "eventAt k' = (eventAt k1)(ev \<mapsto> zeroEvent\<lparr>event_name := n\<rparr>)" "kheap k' = h2" "services k' = services k1"
    "serviceAt k' service = Some (s\<lparr>service_events := service_events s @ [(el, ev)]\<rparr>)"
    "callAt k' a = Some (c1\<lparr>returnValue := klistCount (service_events s)\<rparr>)"
    by (simp_all add: k' setService_def setCall_def setEvent_def)
  have fresh: "ev \<notin> dom (eventAt k1)" using ok1(1) heap(2) by (auto simp: events_ok_def)
  have "eventName k' p = eventName k1 p" if "p \<in> set (service_events s)" for p
    using that s(2) fresh by (auto simp: eventName_def f(1))
  then have "eventNames service k' = eventNames service k1 @ [n]"
    by (simp add: eventNames_def f(4) s(1)) (simp add: eventName_def f(1))
  moreover have "events_ok me service k'"
    using ok1(1) heap s(2,3) by (auto simp: events_ok_def f)
  moreover have "r = of_nat (length (eventNames service k1))"
    using call(2,3) f(5) by (auto simp: klistCount_def eventNames_def s(1))
  ultimately show "r = of_nat (length (eventNames service k)) \<and> events_ok me service k' \<and> eventNames service k' = eventNames service k @ [n]"
    using ok1(2) by simp
qed

text \<open>
  C24. \<open>createDirectEventSave\<close> on the kernel: a service gets one event per name, the one it has when it asks again, except
  for its first event: that has number zero, which the library takes for none, and asking for it again creates
  another event with the same name.
\<close>

theorem createDirectEventSave_once:
  assumes "events_ok me service k" and "n \<noteq> 0" and "length (eventNames service k) < 2 ^ 32"
    and "createDirectEventSave (serviceCall service) n (m, k) = Some (r, m', k')"
  shows "events_ok me service k' \<and> (case position n (eventNames service k) of
      Some (Suc i) \<Rightarrow> r = of_nat (Suc i) \<and> eventNames service k' = eventNames service k
    | _ \<Rightarrow> r = of_nat (length (eventNames service k)) \<and> eventNames service k' = eventNames service k @ [n])"
  using kernel_events.save_outcome [OF assms(1,2,4,3)] .

definition room :: "nat \<Rightarrow> KernelMemory Heap \<Rightarrow> bool" where
  "room i h \<longleftrightarrow> kernel_heap_ok h \<and> 2 * i \<le> card (spare (kernelPhysicalPages (pages h))) \<and> i \<le> card (spare (kernelVirtualPages (pages h)))"

lemma room_malloc:
  assumes "room (Suc i) h" and "0 < unat n" and "unat n < 1024"
  shows "\<exists>a h'. kernelMalloc h n = Some (a, h') \<and> room i h'"
proof -
  have h: "kernel_heap_ok h" using assms(1) by (simp add: room_def)
  obtain a h' where al: "kernelMalloc h n = Some (a, h')"
    using malloc_small_room [OF h assms(2,3)] assms(1) by (auto simp: room_def)
  have "kernel_heap_ok h'" using ka.alloc_law [OF h assms(2,3) al] by simp
  moreover note g = malloc_small_grows [OF h assms(2,3) al]
  ultimately show ?thesis using al growsD(4) [OF g] growsD(5) [OF g] assms(1) by (auto simp: room_def)
qed

lemma started_heap_room: "room 5 started_heap"
proof -
  have "{0x900, 0x901, 0x902, 0x903, 0x904, 0x905, 0x906, 0x907, 0x908, 0x909} \<subseteq> spare (kernelPhysicalPages started_memory)"
    "{1, 2, 3, 4, 5} \<subseteq> spare (kernelVirtualPages started_memory)"
    by (simp_all add: spare_def started_memory_facts)
  from this [THEN card_mono [OF finite_spare]] show ?thesis
    using started_heap_ok by (simp add: room_def started_heap_def)
qed

theorem createDirectEventSave_once_witness:
  "\<exists>m' k'. let k = started_kernel\<lparr>services := [(0, 0x7000), (0, 0x8000)], serviceAt := [0x8000 \<mapsto> zeroService\<lparr>service_id := 1\<rparr>]\<rparr>
     in createDirectEventSave (serviceCall 0x8000) 77 (\<lambda>_. 0, k) = Some (0, m', k') \<and> eventNames 0x8000 k' = [77]"
proof -
  let ?k = "started_kernel\<lparr>services := [(0, 0x7000), (0, 0x8000)], serviceAt := [0x8000 \<mapsto> zeroService\<lparr>service_id := 1\<rparr>]\<rparr>"
  obtain a1 h1 where 1: "kernelMalloc started_heap 44 = Some (a1, h1)" "room 4 h1"
    using room_malloc [of 4 started_heap 44] started_heap_room by auto
  obtain a2 h2 where 2: "kernelMalloc h1 44 = Some (a2, h2)" "room 3 h2" using room_malloc [of 3 h1 44] 1(2) by auto
  obtain a3 h3 where 3: "kernelMalloc h2 44 = Some (a3, h3)" "room 2 h3" using room_malloc [of 2 h2 44] 2(2) by auto
  obtain a4 h4 where 4: "kernelMalloc h3 12 = Some (a4, h4)" "room 1 h4" using room_malloc [OF 3(2) [unfolded numeral_2_eq_2], of 12] by auto
  obtain a5 h5 where 5: "kernelMalloc h4 8 = Some (a5, h5)" using room_malloc [of 0 h4 8] 4(2) by auto
  have ok: "events_ok 1 0x8000 ?k"
    using started_heap_ok by (simp add: events_ok_def started_kernel_def klistGet_def zeroService_def)
  have names: "eventNames 0x8000 ?k = []" by (simp add: eventNames_def zeroService_def)
  have "\<exists>r m' k'. createDirectEventSave (serviceCall 0x8000) 77 (\<lambda>_. 0, ?k) = Some (r, m', k')"
    using 1(1) 2(1) 3(1) 4(1) 5
    by (simp add: createDirectEventSave_def hGetServiceId_def getDirectEvent_def createDirectEvent_def syscall_def serviceCall_def
        kmalloc_def dispatch_def syscallHandlers_def handleGetServiceIdSyscall_def handleGetEventSyscall_def handleCreateEventSyscall_def
        setReturn_def setCall_def setEvent_def setService_def eventsOf_def returnIndex_def klistAdd_def klistGet_def
        zeroService_def zeroSyscall_def started_kernel_def)
  then obtain r m' k' where run: "createDirectEventSave (serviceCall 0x8000) 77 (\<lambda>_. 0, ?k) = Some (r, m', k')" by blast
  have "r = 0 \<and> eventNames 0x8000 k' = [77]"
    using createDirectEventSave_once [OF ok _ _ run] unfolding names by simp
  with run show ?thesis unfolding Let_def by blast
qed

section \<open>Requests\<close>

lemma functionLoop_zero:
  assumes "\<And>s r s'. P s \<Longrightarrow> getFunction sys service fname s = Some (r, s') \<Longrightarrow> r = 0 \<and> P s'" and "P s"
  shows "functionLoop sys service fname 0 s = None"
proof -
  have no: "functionLoop sys service fname n s = Some y \<Longrightarrow>
      \<forall>s r s'. P s \<and> getFunction sys service fname s = Some (r, s') \<longrightarrow> r = 0 \<and> P s' \<Longrightarrow> n = 0 \<Longrightarrow> P s \<Longrightarrow> False"
    for sys :: "'a sys" and service fname n s y
  proof (induction rule: functionLoop.raw_induct [rotated, consumes 1])
    case (1 rec sys service fname n s y)
    obtain r1 s1 r2 s2 where 2: "getFunction sys service fname s = Some (r1, s1)"
      "getFunction sys service fname s1 = Some (r2, s2)" "rec sys service fname r2 s2 = Some y"
      using 1(2,4) by (auto split: bind_splits)
    then have "r2 = 0" "P s2" using 1(3,5) by blast+
    then show ?case using 1(1) [OF 2(3) 1(3)] by blast
  qed
  have "\<forall>s r s'. P s \<and> getFunction sys service fname s = Some (r, s') \<longrightarrow> r = 0 \<and> P s'" using assms(1) by blast
  then show ?thesis using no [OF _ _ refl assms(2)] by (cases "functionLoop sys service fname 0 s") blast+
qed

text \<open>
  A function defined by \<open>REQUEST\<close> asks for the number of its function until it gets one that is not zero. Zero is
  the number of the first function of a service, its \<open>main\<close>, and the answer for a name it does not have: as long
  as the service answers zero, the call never returns.
\<close>

theorem zero_number_never_returns:
  assumes "\<forall>s r s'. P s \<and> getFunction sys sid fname s = Some (r, s') \<longrightarrow> r = 0 \<and> P s'" and "P s"
    and "sid \<noteq> 0"
  shows "REQUEST sys name fname data1 data2 \<lparr>serviceId = sid, functionId = 0, initialized = False\<rparr> s = None"
proof -
  have "functionLoop sys sid fname 0 s = None"
    by (rule functionLoop_zero [where P = P]) (use assms in blast)+
  then show ?thesis using assms(3) by (simp add: REQUEST_def serviceLoop.simps [of sys name sid])
qed

theorem zero_number_never_returns_witness:
  "REQUEST (\<lambda>f p0 p1 p2 p3 s. Some (0, s)) 100 200 1 2 \<lparr>serviceId = 5, functionId = 0, initialized = False\<rparr> (\<lambda>_. 0, ()) = None"
  using zero_number_never_returns [of "\<lambda>_. True" "\<lambda>f p0 p1 p2 p3 s. Some (0, s)" 5 200 "(\<lambda>_. 0, ())" 100 1 2]
  by (simp add: getFunction_def hInsertString_def syscall_def)

end
