(* ===== verification/Programs.thy ===== *)
theory Programs
  imports Prelude
begin

text \<open>
  The programs of \<open>userland/\<close> run in services of their own and act on the rest of the system through the library
  only. A program is modelled by the sequence of library calls it makes: the world of a program is the list of the
  calls made so far, with what the rest of the system (the kernel, the devices, the other services) answers to each
  of them as a function of the calls so far. Theorems hold for every such function. Every call returns; the calls
  that can wait forever are those of \<open>Hlib\<close>.
\<close>

text \<open>
  An argument of \<open>printf\<close>: a number, a string or the result of \<open>asprintf\<close>. Formats are written without the line
  feed at their end.
\<close>

datatype Arg = Num u32 | Text string | Formatted string "Arg list"

text \<open>
  \<open>Ask service f x y\<close> is the call of a function defined by \<open>REQUEST\<close>. Functions that are handed over by address
  appear by name.
\<close>

datatype Call =
    Print string "Arg list"
  | Ask string string u32 u32
  | Request u32 u32 u32 u32
  | CreateFunction string string
  | GetFunction u32 string
  | GetService string
  | GetServiceId
  | LoadFromInitrd string
  | CreateEvent string
  | GetEvent u32 string
  | FireEvent u32 u32 u32
  | SubscribeEvent u32 u32 string
  | SubscribeInterrupt u32 string
  | AwaitCode u32 u32 u32
  | Sleep u32
  | Fork string u32 u32
  | IoIn u16 u8
  | IoOut u16 u32 u8
  | RequestMemory u32 u32 u32
  | GetPhysicalAddress u32
  | GetStringLength u32
  | CheckFocus
  | Malloc u32
  | Free u32
  | InsertString "u8 list"
  | ReadString u32 u32
  | DiscardString u32
  | StackContains u32
  | LookupSymbol u32 u32
  | LoadUninitialized string
  | RequestName string string u32 u32
  | Yield
  | ReadRegister u32
  | WriteRegister u32 u32

record World =
  trace :: "Call list"
  answers :: "Call list \<Rightarrow> u32"

definition after :: "World \<Rightarrow> Call list \<Rightarrow> World" where
  "after w cs = w\<lparr>trace := trace w @ cs\<rparr>"

definition call :: "Call \<Rightarrow> World \<Rightarrow> (u32 \<times> World) option" where
  "call c w = Some (answers w (trace w @ [c]), after w [c])"

text \<open>A call whose result the program does not use.\<close>

definition perform :: "Call \<Rightarrow> World \<Rightarrow> World option" where
  "perform c w = Some (after w [c])"

lemma after_simps [simp]:
  "after w [] = w" "after (after w cs) ds = after w (cs @ ds)" "trace (after w cs) = trace w @ cs" "answers (after w cs) = answers w"
  by (simp_all add: after_def)

lemma after_inject [simp]: "after w cs = after w ds \<longleftrightarrow> cs = ds"
  by (cases w) (simp add: after_def)

lemma call_Some [simp]: "call c w = Some (answers w (trace w @ [c]), after w [c])"
  by (simp add: call_def)

lemma perform_Some [simp]: "perform c w = Some (after w [c])"
  by (simp add: perform_def)

text \<open>A loop that makes calls: the calls of the iterations follow each other.\<close>

lemma ofold_after:
  assumes "\<And>x w. x \<in> set xs \<Longrightarrow> f x w = Some (after w (g x))"
  shows "ofold f xs w = Some (after w (concat (map g xs)))"
  using assms by (induction xs arbitrary: w) auto

lemma ofold_count:
  assumes "P 0 s" and "\<And>i s. i < n \<Longrightarrow> P i s \<Longrightarrow> \<exists>t. f i s = Some t \<and> P (Suc i) t"
  shows "\<exists>t. ofold f [0..<n] s = Some t \<and> P n t"
  using assms
proof (induction n)
  case (Suc n)
  then obtain t where t: "ofold f [0..<n] s = Some t" "P n t" by fastforce
  then obtain u where "f n t = Some u" "P (Suc n) u" using Suc.prems(2) by blast
  then show ?case using t by (simp add: ofold_append)
qed simp

end
