(* ===== verification/Hid.thy ===== *)
theory Hid
  imports Programs Strings
begin

text \<open>
  The driver for human interface devices (\<open>userland/hid\<close>): the table of usage pages, the parser for report
  descriptors, and the evaluation of the reports of a device, which ends in calls of the keyboard and mouse services.
  A pointer to a usage page is its index in the table, \<open>None\<close> the null pointer. Lists are sequences, an allocation
  gives an object whose fields are zero; the contents of shared pages and of the report buffer are arguments.
\<close>

section \<open>Usage pages\<close>

text \<open>The functions the tables of the driver point to.\<close>

datatype PageHandler = HandleKeyboard | HandleButton
datatype UsageHandler = HandleX | HandleY

record Usage =
  usage_usagePage :: "nat option"
  usage_id :: u32
  usage_name :: string
  usage_handle :: "UsageHandler option"

record UsagePage =
  page_name :: string
  page_id :: u32
  usageCount :: u32
  page_usages :: "Usage list option"
  page_handle :: "PageHandler option"

definition handleButton :: "u32 \<Rightarrow> u32 \<Rightarrow> World \<Rightarrow> World option" where
  "handleButton usage data w = perform (Ask ''mouse'' ''updateButton'' usage data) w"

definition handleKeyboard :: "u32 \<Rightarrow> u32 \<Rightarrow> World \<Rightarrow> World option" where
  "handleKeyboard usage data w =
     (if data \<noteq> 0 then perform (Ask ''keyboard'' ''keyDown'' usage 0) w
      else perform (Ask ''keyboard'' ''keyUp'' usage 0) w)"

definition handleX :: "u32 \<Rightarrow> World \<Rightarrow> World option" where
  "handleX dx w = perform (Ask ''mouse'' ''moveRelative'' dx 0) w"

definition handleY :: "u32 \<Rightarrow> World \<Rightarrow> World option" where
  "handleY dy w = perform (Ask ''mouse'' ''moveRelative'' 0 dy) w"

fun runPageHandler :: "PageHandler \<Rightarrow> u32 \<Rightarrow> u32 \<Rightarrow> World \<Rightarrow> World option" where
  "runPageHandler HandleKeyboard usage data w = handleKeyboard usage data w"
| "runPageHandler HandleButton usage data w = handleButton usage data w"

fun runUsageHandler :: "UsageHandler \<Rightarrow> u32 \<Rightarrow> World \<Rightarrow> World option" where
  "runUsageHandler HandleX data w = handleX data w"
| "runUsageHandler HandleY data w = handleY data w"

definition genericDesktopControlsUsages :: "Usage list" where
  "genericDesktopControlsUsages =
     [\<lparr>usage_usagePage = None, usage_id = 0x30, usage_name = ''X'', usage_handle = Some HandleX\<rparr>,
      \<lparr>usage_usagePage = None, usage_id = 0x31, usage_name = ''Y'', usage_handle = Some HandleY\<rparr>,
      \<lparr>usage_usagePage = None, usage_id = - 1, usage_name = '''', usage_handle = None\<rparr>]"

definition newPage :: "string \<Rightarrow> UsagePage" where
  "newPage name = \<lparr>page_name = name, page_id = 0, usageCount = 0, page_usages = None, page_handle = None\<rparr>"

definition usagePages :: "UsagePage list" where
  "usagePages =
     [newPage ''Undefined'',
      (newPage ''Generic Desktop Controls'')\<lparr>page_usages := Some genericDesktopControlsUsages\<rparr>,
      newPage ''Simulation Controls'',
      newPage ''VR Controls'',
      newPage ''Sport Controls'',
      newPage ''Game Controls'',
      newPage ''Generic Device Controls'',
      (newPage ''Keyboard/Keypad'')\<lparr>page_handle := Some HandleKeyboard\<rparr>,
      newPage ''LEDs'',
      (newPage ''Button'')\<lparr>page_handle := Some HandleButton\<rparr>,
      newPage ''Ordinal'',
      newPage ''Telephony'',
      newPage ''Consumer'',
      newPage ''Digitizer'',
      newPage ''PID Page'']"

text \<open>The loop stops at the end tag; a table without one is read behind its end.\<close>

fun usagesLoop :: "nat \<Rightarrow> Usage list \<Rightarrow> u32 \<Rightarrow> (Usage list \<times> u32) option" where
  "usagesLoop page [] i = None"
| "usagesLoop page (u # us) i =
     (if usage_id u = - 1 then Some (u # us, i)
      else do {
        (us, i) \<leftarrow> usagesLoop page us (i + 1);
        Some (u\<lparr>usage_usagePage := Some page\<rparr> # us, i)
      })"

definition initializeUsages :: "nat \<Rightarrow> UsagePage \<Rightarrow> UsagePage option" where
  "initializeUsages page usagePage =
     (case page_usages usagePage of
        None \<Rightarrow> Some usagePage
      | Some us \<Rightarrow> do {
          (us, i) \<leftarrow> usagesLoop page us 0;
          Some (usagePage\<lparr>page_usages := Some us, usageCount := i\<rparr>)
        })"

definition initializeUsagePages :: "UsagePage list \<Rightarrow> UsagePage list option" where
  "initializeUsagePages pages =
     ofold (\<lambda>i pages. do {
        usagePage \<leftarrow> initializeUsages i ((pages ! i)\<lparr>page_id := of_nat i\<rparr>);
        Some (pages[i := usagePage])
      }) [0..<length pages] pages"

definition getUsagePage :: "u32 \<Rightarrow> nat" where
  "getUsagePage n = (if length usagePages \<le> unat n then 0 else unat n)"

fun usageLoop :: "Usage list \<Rightarrow> u32 \<Rightarrow> u32 \<Rightarrow> World \<Rightarrow> World option" where
  "usageLoop [] usage data w = Some w"
| "usageLoop (u # us) usage data w =
     (if usage_id u = usage then do {
        handle \<leftarrow> usage_handle u;
        runUsageHandler handle data w
      } else usageLoop us usage data w)"

definition handleUsage :: "UsagePage list \<Rightarrow> nat option \<Rightarrow> u32 \<Rightarrow> u32 \<Rightarrow> World \<Rightarrow> World option" where
  "handleUsage pages usagePage usage data w = do {
     page \<leftarrow> usagePage;
     let p = pages ! page;
     (case page_handle p of
        Some handle \<Rightarrow> runPageHandler handle usage data w
      | None \<Rightarrow> usageLoop (take (unat (usageCount p)) (case page_usages p of None \<Rightarrow> [] | Some us \<Rightarrow> us)) usage data w)
   }"

section \<open>Report descriptors\<close>

record ReportParserState =
  padding :: u32
  reportSize :: u32
  reportCount :: u32
  totalBits :: u32
  usageMin :: u32
  usageMax :: u32
  logicalMin :: u32
  logicalMax :: u32
  state_usagePage :: "nat option"
  state_usages :: "u32 list"

record InputReader =
  reader_usage :: u32
  previousState :: u32

record InputGroup =
  oldStates :: "u32 list option"
  group_size :: u8
  group_count :: u8
  group_min :: u32
  group_max :: u32
  discard :: bool
  relative :: bool
  isSigned :: bool
  array :: bool
  group_usagePage :: "nat option"
  readers :: "InputReader list"

definition collectionTypes :: "string list" where
  "collectionTypes = [''Physical'', ''Application'', ''Logical'', ''Report'', ''Named array'', ''Usage switch'', ''Usage modifier'']"

definition startCollection :: "u32 \<Rightarrow> u32 \<Rightarrow> World \<Rightarrow> World option" where
  "startCollection data pad w =
     (let collectionType = (if unat data < length collectionTypes then collectionTypes ! unat data
        else if data < 0x80 then ''Reserved'' else ''Vendor defined'')
      in perform (Print ''%pCollection(%s)'' [Num pad, Text collectionType]) w)"

definition insertInputReader :: "u32 \<Rightarrow> ReportParserState \<times> InputReader list \<Rightarrow> ReportParserState \<times> InputReader list" where
  "insertInputReader usage = (\<lambda>(state, inputReaders).
     (state\<lparr>totalBits := totalBits state + reportSize state\<rparr>,
      inputReaders @ [\<lparr>reader_usage = usage, previousState = 0\<rparr>]))"

definition ioParameter :: "u32 \<Rightarrow> Arg" where
  "ioParameter data =
     (let flag = (\<lambda>i. bit data (i :: nat)) in
      Formatted ''%x => %s, %s, %s, %s, %s, %s, %s, %s''
        [Num data,
         Text (if flag 0 then ''Constant'' else ''Data''),
         Text (if flag 1 then ''Variable'' else ''Array''),
         Text (if flag 2 then ''Relative'' else ''Absolute''),
         Text (if flag 3 then ''Wrap'' else ''NoWrap''),
         Text (if flag 4 then ''NonLinear'' else ''Linear''),
         Text (if flag 5 then ''NoPreferredState'' else ''PreferredState''),
         Text (if flag 6 then ''NullState'' else ''NoNullState''),
         Text (if flag 8 then ''BufferedBytes'' else ''BitField'')])"

text \<open>The loop from \<open>usageMin\<close> to \<open>usageMax\<close>, which never ends when the maximum is the largest number.\<close>

partial_function (option) rangeLoop ::
  "u32 \<Rightarrow> ReportParserState \<times> InputReader list \<Rightarrow> (ReportParserState \<times> InputReader list) option" where
  "rangeLoop usage sr =
     (if usage \<le> usageMax (fst sr) then rangeLoop (usage + 1) (insertInputReader usage sr) else Some sr)"

definition makeReaders :: "ReportParserState \<Rightarrow> (ReportParserState \<times> InputReader list) option" where
  "makeReaders state =
     (let count = of_nat (length (state_usages state)) in
      if count = (1 :: u32)
      then Some (fold (\<lambda>i. insertInputReader (state_usages state ! 0)) [0..<unat (reportCount state)] (state, []))
      else if count = reportCount state
      then Some (fold insertInputReader (state_usages state) (state, []))
      else if count = 0 \<and> usageMax state - usageMin state + 1 = reportCount state
      then rangeLoop (usageMin state) (state, [])
      else Some (fold (\<lambda>i. insertInputReader (of_nat i)) [0..<unat (reportCount state)] (state, [])))"

type_synonym parser = "ReportParserState \<times> InputGroup list \<times> World"

text \<open>An allocation of no bytes, for an array without elements, has no defined result.\<close>

definition input :: "u32 \<Rightarrow> parser \<Rightarrow> parser option" where
  "input data = (\<lambda>(state, inputGroups, w). do {
     w \<leftarrow> perform (Print ''%pInput(%s)'' [Num (padding state), ioParameter data]) w;
     let isArray = \<not> bit data 1;
     let count = (ucast (reportCount state) :: u8);
     states \<leftarrow> (if isArray then (if count = 0 then None else Some (Some (replicate (unat count) 0))) else Some None);
     let grp = \<lparr>oldStates = states,
       group_size = ucast (reportSize state), group_count = count,
       group_min = logicalMin state, group_max = logicalMax state,
       discard = bit data 0, relative = bit data 2, isSigned = logicalMax state < logicalMin state, array = isArray,
       group_usagePage = state_usagePage state, readers = []\<rparr>;
     (state, rs) \<leftarrow> makeReaders state;
     Some (state\<lparr>state_usages := []\<rparr>, inputGroups @ [grp\<lparr>readers := rs\<rparr>], w)
   })"

text \<open>One round of the loop of \<open>parseReportDescriptor\<close>: the \<open>switch\<close> over the tag of the item.\<close>

definition parseItem :: "UsagePage list \<Rightarrow> u8 \<Rightarrow> u32 \<Rightarrow> parser \<Rightarrow> parser option" where
  "parseItem pages tag data = (\<lambda>(state, inputGroups, w).
     let note = (\<lambda>text. perform (Print text [Num (padding state), Num data]) w);
         set = (\<lambda>text state. map_option (\<lambda>w. (state, inputGroups, w)) (note text)) in
     if tag = 1 then do {
       let page = getUsagePage data;
       w \<leftarrow> perform (Print ''%pUsagePage(%x: %s)'' [Num (padding state), Num data, Text (page_name (pages ! page))]) w;
       Some (state\<lparr>state_usagePage := Some page\<rparr>, inputGroups, w)
     }
     else if tag = 2 then set ''%pUsage(%x)'' (state\<lparr>state_usages := state_usages state @ [data]\<rparr>)
     else if tag = 0x05 then set ''%pLogicalMinimum(%x)'' (state\<lparr>logicalMin := data\<rparr>)
     else if tag = 0x09 then set ''%pLogicalMaximum(%x)'' (state\<lparr>logicalMax := data\<rparr>)
     else if tag = 0x06 then set ''%pUsageMinimum(%x)'' (state\<lparr>usageMin := data\<rparr>)
     else if tag = 0x0A then set ''%pUsageMaximum(%x)'' (state\<lparr>usageMax := data\<rparr>)
     else if tag = 0x1D then set ''%pReportSize(%x)'' (state\<lparr>reportSize := data\<rparr>)
     else if tag = 0x20 then input data (state, inputGroups, w)
     else if tag = 0x21 then set ''%pReportId(%x)'' state
     else if tag = 0x25 then set ''%pReportCount(%x)'' (state\<lparr>reportCount := data\<rparr>)
     else if tag = 0x28 then do {
       w \<leftarrow> startCollection data (padding state) w;
       Some (state\<lparr>padding := padding state + 2, state_usages := []\<rparr>, inputGroups, w)
     }
     else if tag = 0x30 then do {
       w \<leftarrow> perform (Print ''%pEnd collection'' [Num (padding state - 2)]) w;
       Some (state\<lparr>padding := padding state - 2, state_usages := []\<rparr>, inputGroups, w)
     }
     else do {
       w \<leftarrow> perform (Print ''%pUnknown Item %x with data %x'' [Num (padding state), Num (ucast tag), Num data]) w;
       Some (state, inputGroups, w)
     })"

text \<open>Shifts by 32 and more have no meaning in C; what the machine gives is the argument \<open>over\<close>.\<close>

definition itemData :: "(u32 \<Rightarrow> nat \<Rightarrow> u32) \<Rightarrow> bytes \<Rightarrow> u32 \<Rightarrow> u8 \<Rightarrow> u32" where
  "itemData over m read dataSize =
     read32 m read AND (if dataSize = 0 then over 0xFFFFFFFF 32 else drop_bit ((4 - unat dataSize) * 8) 0xFFFFFFFF)"

partial_function (option) parseLoop ::
  "(u32 \<Rightarrow> nat \<Rightarrow> u32) \<Rightarrow> UsagePage list \<Rightarrow> bytes \<Rightarrow> u32 \<Rightarrow> parser \<Rightarrow> (u32 \<times> InputGroup list \<times> World) option" where
  "parseLoop over pages m read s = do {
     let item = m read;
     let dataSize = item AND 0x3;
     let data = itemData over m (read + 1) dataSize;
     let tag = drop_bit 2 item;
     if tag = 0 then Some (totalBits (fst s), snd s)
     else do {
       s \<leftarrow> parseItem pages tag data s;
       parseLoop over pages m (read + 1 + ucast dataSize) s
     }
   }"

definition zeroState :: ReportParserState where
  "zeroState = \<lparr>padding = 0, reportSize = 0, reportCount = 0, totalBits = 0, usageMin = 0, usageMax = 0,
     logicalMin = 0, logicalMax = 0, state_usagePage = None, state_usages = []\<rparr>"

definition parseReportDescriptor ::
  "(u32 \<Rightarrow> nat \<Rightarrow> u32) \<Rightarrow> UsagePage list \<Rightarrow> bytes \<Rightarrow> u32 \<Rightarrow> InputGroup list \<Rightarrow> World \<Rightarrow> (u32 \<times> InputGroup list \<times> World) option" where
  "parseReportDescriptor over pages m read inputGroups w = parseLoop over pages m read (zeroState, inputGroups, w)"

section \<open>Reports\<close>

record HIDDevice =
  device_serviceId :: u32
  device_deviceId :: u32
  normalFunction :: u32
  interval :: u32
  device_buffer :: u32
  inputGroups :: "InputGroup list"

definition shl :: "(u32 \<Rightarrow> nat \<Rightarrow> u32) \<Rightarrow> u32 \<Rightarrow> u8 \<Rightarrow> u32" where
  "shl over x n = (if n < 32 then push_bit (unat n) x else over x (unat n))"

text \<open>
  The report buffer has 1024 words. The position of a read is the index of a word and a number of bits in it.
\<close>

type_synonym position = "nat \<times> u8"

definition consumeBits :: "(u32 \<Rightarrow> nat \<Rightarrow> u32) \<Rightarrow> (nat \<Rightarrow> u32) \<Rightarrow> position \<Rightarrow> u8 \<Rightarrow> (u32 \<times> position) option" where
  "consumeBits over report = (\<lambda>(index, b) count. do {
     let (index, b) = (if b \<ge> 32 then (index + 1, b - 32) else (index, b));
     let mask = shl over (shl over 1 count - 1) b;
     word \<leftarrow> aget 1024 report index;
     let result = (if b < 32 then drop_bit (unat b) (word AND mask) else over (word AND mask) (unat b));
     Some (result, index, b + count)
   })"

definition getValue :: "(u32 \<Rightarrow> nat \<Rightarrow> u32) \<Rightarrow> InputGroup \<Rightarrow> (nat \<Rightarrow> u32) \<Rightarrow> position \<Rightarrow> (u32 \<times> position) option" where
  "getValue over grp report pos = do {
     (raw, pos) \<leftarrow> consumeBits over report pos (group_size grp);
     Some (if isSigned grp \<and> group_size grp = 8 then scast (ucast raw :: u8)
           else if isSigned grp \<and> group_size grp = 16 then scast (ucast raw :: u16)
           else raw, pos)
   }"

fun fetchValues ::
  "(u32 \<Rightarrow> nat \<Rightarrow> u32) \<Rightarrow> InputGroup \<Rightarrow> (nat \<Rightarrow> u32) \<Rightarrow> InputReader list \<Rightarrow> position \<Rightarrow> (InputReader list \<times> position) option" where
  "fetchValues over grp report [] pos = Some ([], pos)"
| "fetchValues over grp report (reader # rs) pos = do {
     (value, pos) \<leftarrow> getValue over grp report pos;
     (rs, pos) \<leftarrow> fetchValues over grp report rs pos;
     Some (reader\<lparr>previousState := value\<rparr> # rs, pos)
   }"

definition activate :: "UsagePage list \<Rightarrow> InputGroup \<Rightarrow> u32 list \<Rightarrow> InputReader \<Rightarrow> World \<Rightarrow> World option" where
  "activate pages grp old reader w =
     (if previousState reader = 0 then Some w
      else if list_ex (\<lambda>state. state = previousState reader) old then Some w
      else handleUsage pages (group_usagePage grp) (previousState reader) 1 w)"

definition inactivate :: "UsagePage list \<Rightarrow> InputGroup \<Rightarrow> InputReader list \<Rightarrow> u32 \<Rightarrow> World \<Rightarrow> World option" where
  "inactivate pages grp rs state w =
     (if state = 0 then Some w
      else if list_ex (\<lambda>reader. state = previousState reader) rs then Some w
      else handleUsage pages (group_usagePage grp) state 0 w)"

text \<open>More readers than array elements are written behind the array.\<close>

definition copyStates :: "InputReader list \<Rightarrow> u32 list \<Rightarrow> u32 list option" where
  "copyStates rs old =
     ofold (\<lambda>i old. if i < length old then Some (old[i := previousState (rs ! i)]) else None) [0..<length rs] old"

definition handleArrayGroup ::
  "(u32 \<Rightarrow> nat \<Rightarrow> u32) \<Rightarrow> UsagePage list \<Rightarrow> (nat \<Rightarrow> u32) \<Rightarrow> InputGroup \<times> position \<times> World \<Rightarrow> (InputGroup \<times> position \<times> World) option" where
  "handleArrayGroup over pages report = (\<lambda>(grp, pos, w). do {
     (rs, pos) \<leftarrow> fetchValues over grp report (readers grp) pos;
     old \<leftarrow> oldStates grp;
     w \<leftarrow> ofold (activate pages grp old) rs w;
     w \<leftarrow> ofold (inactivate pages grp rs) old w;
     old \<leftarrow> copyStates rs old;
     Some (grp\<lparr>readers := rs, oldStates := Some old\<rparr>, pos, w)
   })"

fun variableLoop ::
  "(u32 \<Rightarrow> nat \<Rightarrow> u32) \<Rightarrow> UsagePage list \<Rightarrow> InputGroup \<Rightarrow> (nat \<Rightarrow> u32) \<Rightarrow> InputReader list \<Rightarrow> position \<Rightarrow> World \<Rightarrow>
   (InputReader list \<times> position \<times> World) option" where
  "variableLoop over pages grp report [] pos w = Some ([], pos, w)"
| "variableLoop over pages grp report (reader # rs) pos w = do {
     (data, pos) \<leftarrow> getValue over grp report pos;
     (reader, w) \<leftarrow> (if previousState reader = data \<and> \<not> relative grp then Some (reader, w)
       else do {
         w \<leftarrow> handleUsage pages (group_usagePage grp) (reader_usage reader) data w;
         Some (reader\<lparr>previousState := data\<rparr>, w)
       });
     (rs, pos, w) \<leftarrow> variableLoop over pages grp report rs pos w;
     Some (reader # rs, pos, w)
   }"

definition handleGroup ::
  "(u32 \<Rightarrow> nat \<Rightarrow> u32) \<Rightarrow> UsagePage list \<Rightarrow> (nat \<Rightarrow> u32) \<Rightarrow> InputGroup \<times> position \<times> World \<Rightarrow> (InputGroup \<times> position \<times> World) option" where
  "handleGroup over pages report = (\<lambda>(grp, pos, w).
     if discard grp then Some (grp, pos, w)
     else if array grp then handleArrayGroup over pages report (grp, pos, w)
     else do {
       (rs, pos, w) \<leftarrow> variableLoop over pages grp report (readers grp) pos w;
       Some (grp\<lparr>readers := rs\<rparr>, pos, w)
     })"

fun handleGroups ::
  "(u32 \<Rightarrow> nat \<Rightarrow> u32) \<Rightarrow> UsagePage list \<Rightarrow> (nat \<Rightarrow> u32) \<Rightarrow> InputGroup list \<Rightarrow> position \<Rightarrow> World \<Rightarrow>
   (InputGroup list \<times> position \<times> World) option" where
  "handleGroups over pages report [] pos w = Some ([], pos, w)"
| "handleGroups over pages report (grp # groups) pos w = do {
     (grp, pos, w) \<leftarrow> handleGroup over pages report (grp, pos, w);
     (groups, pos, w) \<leftarrow> handleGroups over pages report groups pos w;
     Some (grp # groups, pos, w)
   }"

text \<open>
  One round of the endless loop of \<open>hidListening\<close>; \<open>report\<close> is what the device puts into the buffer. The rounds for
  a sequence of reports are \<open>hidListening\<close>.
\<close>

definition listenRound ::
  "(u32 \<Rightarrow> nat \<Rightarrow> u32) \<Rightarrow> UsagePage list \<Rightarrow> (nat \<Rightarrow> u32) \<Rightarrow> HIDDevice \<times> World \<Rightarrow> (HIDDevice \<times> World) option" where
  "listenRound over pages report = (\<lambda>(device, w). do {
     (physical, w) \<leftarrow> call (GetPhysicalAddress (device_buffer device)) w;
     w \<leftarrow> perform (Request (device_serviceId device) (normalFunction device) (device_deviceId device) physical) w;
     (groups, _, w) \<leftarrow> handleGroups over pages report (inputGroups device) (0, 0) w;
     w \<leftarrow> perform (Sleep (interval device)) w;
     Some (device\<lparr>inputGroups := groups\<rparr>, w)
   })"

definition hidListening ::
  "(u32 \<Rightarrow> nat \<Rightarrow> u32) \<Rightarrow> UsagePage list \<Rightarrow> (nat \<Rightarrow> u32) list \<Rightarrow> HIDDevice \<times> World \<Rightarrow> (HIDDevice \<times> World) option" where
  "hidListening over pages reports s = ofold (listenRound over pages) reports s"

text \<open>
  \<open>contents\<close> gives the memory of the program with the page of the descriptor at the address where it was mapped,
  \<open>device\<close> and \<open>buffer\<close> are the addresses the allocator gives.
\<close>

definition registerHID ::
  "(u32 \<Rightarrow> nat \<Rightarrow> u32) \<Rightarrow> UsagePage list \<Rightarrow> (u32 \<Rightarrow> bytes) \<Rightarrow> u32 \<Rightarrow> u32 \<Rightarrow> u32 \<Rightarrow> u32 \<Rightarrow> u32 \<Rightarrow> World \<Rightarrow>
   (u32 \<times> HIDDevice \<times> World) option" where
  "registerHID over pages contents device buffer usbDevice reportDescriptor service w = do {
     (report, w) \<leftarrow> call (RequestMemory 1 0 reportDescriptor) w;
     (normal, w) \<leftarrow> call (GetFunction service ''hid_normal'') w;
     w \<leftarrow> perform (Print ''registered a new HID device, dumping report descriptor:'' []) w;
     (_, groups, w) \<leftarrow> parseReportDescriptor over pages (contents report) report [] w;
     (getInterval, w) \<leftarrow> call (GetFunction service ''hid_interval'') w;
     (millis, w) \<leftarrow> call (Request service getInterval usbDevice 0) w;
     w \<leftarrow> perform (Fork ''hidListening'' device 0) w;
     Some (0, \<lparr>device_serviceId = service, device_deviceId = usbDevice, normalFunction = normal, interval = millis,
       device_buffer = buffer, inputGroups = groups\<rparr>, w)
   }"

definition hidInitialize :: "UsagePage list \<Rightarrow> World \<Rightarrow> (UsagePage list \<times> World) option" where
  "hidInitialize pages w = do {
     w \<leftarrow> perform (CreateFunction ''registerHID'' ''registerHID'') w;
     pages \<leftarrow> initializeUsagePages pages;
     Some (pages, w)
   }"

definition hidMain :: "bool \<Rightarrow> UsagePage list \<Rightarrow> World \<Rightarrow> (bool \<times> UsagePage list \<times> World) option" where
  "hidMain initialized pages w = do {
     (pages, w) \<leftarrow> (if initialized then Some (pages, w) else hidInitialize pages w);
     (_, w) \<leftarrow> call CheckFocus w;
     Some (True, pages, w)
   }"

end
