(* ===== verification/HidProps.thy ===== *)
theory HidProps
  imports Hid
begin

text \<open>
  Properties of the driver for human interface devices: fields are read from the report at their bit position, an
  array of keys leads to exactly the key presses and releases between two reports, and a descriptor is parsed item
  by item up to its end.
\<close>

section \<open>Fields of a report\<close>

text \<open>The field of \<open>n\<close> bits at bit position \<open>off\<close>, within one word.\<close>

definition field :: "(nat \<Rightarrow> u32) \<Rightarrow> nat \<Rightarrow> nat \<Rightarrow> u32" where
  "field report off n = take_bit n (drop_bit (off mod 32) (report (off div 32)))"

definition position :: "position \<Rightarrow> nat" where
  "position = (\<lambda>(index, b). 32 * index + unat b)"

lemma masked_field:
  assumes "b + n \<le> 32" and "n < 32"
  shows "drop_bit b (x AND push_bit b (push_bit n 1 - 1)) = take_bit n (drop_bit b (x :: u32))"
proof -
  have "push_bit n 1 - 1 = (mask n :: u32)" by (simp add: mask_eq_exp_minus_1)
  moreover have "b + k < 32" if "k < n" for k using that assms by simp
  ultimately show ?thesis using assms by (auto intro!: bit_eqI simp: bit_simps)
qed

lemma consumeBits_field:
  assumes "unat b \<le> 32" and "unat n < 32" and "(32 * i + unat b) mod 32 + unat n \<le> 32" and "32 * i + unat b < 32768"
  shows "\<exists>pos. consumeBits over report (i, b) n = Some (field report (32 * i + unat b) (unat n), pos) \<and>
    position pos = 32 * i + unat b + unat n \<and> unat (snd pos) \<le> 32"
proof -
  have lt: "n < 32" using assms(2) by (simp add: word_less_nat_alt)
  show ?thesis
  proof (cases "b = 32")
    case True
    then have i: "Suc i < 1024" using assms(4) by simp
    have "drop_bit 0 (report (Suc i) AND push_bit 0 (push_bit (unat n) 1 - 1)) = take_bit (unat n) (drop_bit 0 (report (Suc i)))"
      using assms(2) by (intro masked_field) simp_all
    then show ?thesis using True i lt assms(2) by (simp add: consumeBits_def shl_def field_def position_def)
  next
    case False
    then have "unat b \<noteq> unat (32 :: u8)" by (simp only: word_unat_eq_iff [symmetric] not_False_eq_True)
    then have b: "unat b < 32" using assms(1) by simp
    then have lb: "b < 32" "\<not> 32 \<le> b" by (simp_all add: word_less_nat_alt word_le_nat_alt)
    have sum: "unat b + unat n \<le> 32" using assms(3) b by simp
    then have "unat (b + n) = unat b + unat n" by (simp add: unat_word_ariths)
    moreover have "i < 1024" using assms(4) by simp
    moreover have "drop_bit (unat b) (report i AND push_bit (unat b) (push_bit (unat n) 1 - 1)) = take_bit (unat n) (drop_bit (unat b) (report i))"
      using sum assms(2) by (rule masked_field)
    ultimately show ?thesis using lt lb b sum by (simp add: consumeBits_def shl_def field_def position_def)
  qed
qed

text \<open>Where the fields of a group start, and their values.\<close>

definition fieldsFit :: "nat \<Rightarrow> nat \<Rightarrow> nat \<Rightarrow> bool" where
  "fieldsFit off n k \<longleftrightarrow> 0 < n \<and> n < 32 \<and> off + n * k \<le> 32768 \<and> (\<forall>i < k. (off + n * i) mod 32 + n \<le> 32)"

definition fieldValues :: "(nat \<Rightarrow> u32) \<Rightarrow> nat \<Rightarrow> nat \<Rightarrow> nat \<Rightarrow> u32 list" where
  "fieldValues report off n k = map (\<lambda>i. field report (off + n * i) n) [0..<k]"

lemma fieldsFit_Suc: "fieldsFit off n (Suc k) \<Longrightarrow> off mod 32 + n \<le> 32 \<and> off < 32768 \<and> fieldsFit (off + n) n k"
  unfolding fieldsFit_def by (auto simp: algebra_simps elim: allE [of _ 0])

lemma fieldValues_Suc: "fieldValues report off n (Suc k) = field report off n # fieldValues report (off + n) n k"
  by (simp add: fieldValues_def upt_conv_Cons map_Suc_upt [symmetric] comp_def algebra_simps del: upt_Suc)

section \<open>Arrays of keys\<close>

lemma getValue_field:
  assumes "unat b \<le> 32" and "\<not> isSigned g" and "unat (group_size g) < 32"
    and "(32 * i + unat b) mod 32 + unat (group_size g) \<le> 32" and "32 * i + unat b < 32768"
  shows "\<exists>pos. getValue over g report (i, b) = Some (field report (32 * i + unat b) (unat (group_size g)), pos) \<and>
    position pos = 32 * i + unat b + unat (group_size g) \<and> unat (snd pos) \<le> 32"
  using consumeBits_field [OF assms(1,3,4,5), of over report] assms(2) by (auto simp: getValue_def)

definition withStates :: "InputReader list \<Rightarrow> u32 list \<Rightarrow> InputReader list" where
  "withStates rs vs = map (\<lambda>(r, v). r\<lparr>previousState := v\<rparr>) (zip rs vs)"

lemma withStates_simps [simp]:
  "withStates [] vs = []" "withStates (r # rs) (v # vs) = r\<lparr>previousState := v\<rparr> # withStates rs vs"
  "length rs = length vs \<Longrightarrow> length (withStates rs vs) = length vs"
  by (simp_all add: withStates_def)

lemma withStates_previous [simp]: "length rs = length vs \<Longrightarrow> map previousState (withStates rs vs) = vs"
  by (induction rs vs rule: list_induct2) simp_all

lemma fetchValues_fields:
  assumes "\<not> isSigned g" and "fieldsFit (position pos) (unat (group_size g)) (length rs)" and "unat (snd pos) \<le> 32"
  shows "\<exists>pos'. fetchValues over g report rs pos =
      Some (withStates rs (fieldValues report (position pos) (unat (group_size g)) (length rs)), pos') \<and>
    position pos' = position pos + unat (group_size g) * length rs \<and> unat (snd pos') \<le> 32"
  using assms(2,3)
proof (induction rs arbitrary: pos)
  case Nil
  then show ?case by simp
next
  case (Cons r rs)
  obtain i b where pos: "pos = (i, b)" by (cases pos)
  let ?n = "unat (group_size g)"
  note fit = fieldsFit_Suc [OF Cons.prems(1) [unfolded length_Cons]]
  have n: "?n < 32" using Cons.prems(1) by (simp add: fieldsFit_def)
  have off: "position pos = 32 * i + unat b" by (simp add: position_def pos)
  have bits: "unat b \<le> 32" using Cons.prems(2) by (simp add: pos)
  obtain pos1 where 1: "getValue over g report pos = Some (field report (position pos) ?n, pos1)"
    "position pos1 = position pos + ?n" "unat (snd pos1) \<le> 32"
    using getValue_field [OF bits assms(1) n _ _, of i over report, folded off] fit unfolding pos by auto
  obtain pos2 where 2: "fetchValues over g report rs pos1 = Some (withStates rs (fieldValues report (position pos + ?n) ?n (length rs)), pos2)"
    "position pos2 = position pos + ?n + ?n * length rs" "unat (snd pos2) \<le> 32"
    using Cons.IH [of pos1] 1 fit by auto
  show ?case using 1 2 by (simp add: fieldValues_Suc)
qed

lemma copyStates_all:
  assumes "length rs = length old"
  shows "copyStates rs old = Some (map previousState rs)"
proof -
  have "ofold (\<lambda>i old. if i < length old then Some (old[i := previousState (rs ! i)]) else None) [0..<k] old =
      Some (map previousState (take k rs) @ drop k old)" if "k \<le> length rs" for k
    using that
  proof (induction k)
    case (Suc k)
    then have "(map previousState (take k rs) @ drop k old)[k := previousState (rs ! k)] = map previousState (take (Suc k) rs) @ drop (Suc k) old"
      using assms by (simp add: take_Suc_conv_app_nth list_update_append Cons_nth_drop_Suc [symmetric])
    then show ?case using Suc assms by (simp add: ofold_append)
  qed simp
  from this [of "length rs"] show ?thesis using assms by (simp add: copyStates_def)
qed

definition pressCall :: "u32 \<Rightarrow> Call" where
  "pressCall key = Ask ''keyboard'' ''keyDown'' key 0"

definition releaseCall :: "u32 \<Rightarrow> Call" where
  "releaseCall key = Ask ''keyboard'' ''keyUp'' key 0"

definition changes :: "u32 list \<Rightarrow> u32 list \<Rightarrow> Call list" where
  "changes old new = map pressCall [v \<leftarrow> new. v \<noteq> 0 \<and> v \<notin> set old] @ map releaseCall [v \<leftarrow> old. v \<noteq> 0 \<and> v \<notin> set new]"

lemma initialized_pages: "\<exists>pages. initializeUsagePages usagePages = Some pages"
  by (simp add: initializeUsagePages_def usagePages_def newPage_def initializeUsages_def genericDesktopControlsUsages_def
      upt_conv_Cons)

lemma keyboard_page:
  "initializeUsagePages usagePages = Some pages \<Longrightarrow> handleUsage pages (Some 7) usage data w = handleKeyboard usage data w"
  by (auto simp: initializeUsagePages_def usagePages_def newPage_def initializeUsages_def genericDesktopControlsUsages_def
      upt_conv_Cons handleUsage_def)

lemma concat_filter: "concat (map (\<lambda>x. if P x then [g x] else []) xs) = map g (filter P xs)"
  by (induction xs) simp_all

lemma activate_changes:
  assumes "initializeUsagePages usagePages = Some pages" and "group_usagePage g = Some 7"
  shows "ofold (activate pages g old) rs w = Some (after w (map pressCall [v \<leftarrow> map previousState rs. v \<noteq> 0 \<and> v \<notin> set old]))"
proof -
  have "ofold (activate pages g old) rs w = Some (after w (concat (map (\<lambda>r. if previousState r \<noteq> 0 \<and> previousState r \<notin> set old
      then [pressCall (previousState r)] else []) rs)))"
    by (rule ofold_after) (auto simp: activate_def list_ex_iff assms(2) keyboard_page [OF assms(1)] handleKeyboard_def pressCall_def)
  then show ?thesis by (simp add: concat_filter filter_map comp_def)
qed

lemma inactivate_changes:
  assumes "initializeUsagePages usagePages = Some pages" and "group_usagePage g = Some 7"
  shows "ofold (inactivate pages g rs) old w = Some (after w (map releaseCall [v \<leftarrow> old. v \<noteq> 0 \<and> v \<notin> set (map previousState rs)]))"
proof -
  have "ofold (inactivate pages g rs) old w = Some (after w (concat (map (\<lambda>v. if v \<noteq> 0 \<and> v \<notin> set (map previousState rs)
      then [releaseCall v] else []) old)))"
    by (rule ofold_after) (auto simp: inactivate_def list_ex_iff assms(2) keyboard_page [OF assms(1)] handleKeyboard_def releaseCall_def)
  then show ?thesis by (simp add: concat_filter)
qed

text \<open>A group of keys: an array of unsigned fields on the keyboard page with as many readers as array elements.\<close>

definition keyArray :: "InputGroup \<Rightarrow> bool" where
  "keyArray g \<longleftrightarrow> array g \<and> \<not> discard g \<and> \<not> isSigned g \<and> group_usagePage g = Some 7 \<and>
     (\<exists>old. oldStates g = Some old \<and> length (readers g) = length old)"

definition groupValues :: "InputGroup \<Rightarrow> (nat \<Rightarrow> u32) \<Rightarrow> nat \<Rightarrow> u32 list" where
  "groupValues g report off = fieldValues report off (unat (group_size g)) (length (readers g))"

lemma handleGroup_keys:
  assumes pages: "initializeUsagePages usagePages = Some pages" and g: "keyArray g" and old: "oldStates g = Some old"
    and fit: "fieldsFit (position pos) (unat (group_size g)) (length (readers g))" "unat (snd pos) \<le> 32"
  shows "\<exists>pos'. handleGroup over pages report (g, pos, w) =
      Some (g\<lparr>readers := withStates (readers g) (groupValues g report (position pos)), oldStates := Some (groupValues g report (position pos))\<rparr>,
        pos', after w (changes old (groupValues g report (position pos)))) \<and>
    position pos' = position pos + unat (group_size g) * length (readers g)"
proof -
  let ?vs = "groupValues g report (position pos)"
  have l: "length (readers g) = length ?vs" "length ?vs = length old" using g old by (auto simp: keyArray_def groupValues_def fieldValues_def)
  obtain pos' where f: "fetchValues over g report (readers g) pos = Some (withStates (readers g) ?vs, pos')"
    "position pos' = position pos + unat (group_size g) * length (readers g)"
    using fetchValues_fields [OF _ fit, of over report] g by (auto simp: keyArray_def groupValues_def)
  have p: "group_usagePage g = Some 7" using g by (simp add: keyArray_def)
  have "copyStates (withStates (readers g) ?vs) old = Some ?vs" using copyStates_all [of "withStates (readers g) ?vs" old] l by simp
  moreover have "previousState ` set (withStates (readers g) ?vs) = set ?vs" using withStates_previous [OF l(1)] by (metis set_map)
  ultimately show ?thesis
    using f g old l by (simp add: handleGroup_def handleArrayGroup_def keyArray_def changes_def activate_changes [OF pages p] inactivate_changes [OF pages p])
qed

text \<open>The keys the keyboard service was told are down, after a sequence of calls.\<close>

fun keysStep :: "Call \<Rightarrow> u32 set \<Rightarrow> u32 set" where
  "keysStep (Ask service f key x) down =
     (if service = ''keyboard'' \<and> f = ''keyDown'' then insert key down
      else if service = ''keyboard'' \<and> f = ''keyUp'' then down - {key} else down)"
| "keysStep _ down = down"

definition keysDown :: "Call list \<Rightarrow> u32 set" where
  "keysDown cs = fold keysStep cs {}"

lemma fold_pressCall: "fold keysStep (map pressCall vs) down = down \<union> set vs"
  by (induction vs arbitrary: down) (auto simp: pressCall_def)

lemma fold_releaseCall: "fold keysStep (map releaseCall vs) down = down - set vs"
  by (induction vs arbitrary: down) (auto simp: releaseCall_def)

lemma fold_changes: "fold keysStep (changes old new) (set old - {0}) = set new - {0}"
  by (auto simp: changes_def fold_pressCall fold_releaseCall)

lemma keysDown_append: "keysDown (cs @ ds) = fold keysStep ds (keysDown cs)"
  by (simp add: keysDown_def)

definition keyDevice :: "HIDDevice \<Rightarrow> World \<Rightarrow> u32 list \<Rightarrow> bool" where
  "keyDevice device w old \<longleftrightarrow> (\<exists>g. inputGroups device = [g] \<and> keyArray g \<and> oldStates g = Some old \<and>
     fieldsFit 0 (unat (group_size g)) (length (readers g)) \<and> keysDown (trace w) = set old - {0})"

definition reportKeys :: "HIDDevice \<Rightarrow> (nat \<Rightarrow> u32) \<Rightarrow> u32 list" where
  "reportKeys device report = groupValues (inputGroups device ! 0) report 0"

lemma listenRound_keys:
  assumes "initializeUsagePages usagePages = Some pages" and "keyDevice device w old"
  shows "\<exists>device' w'. listenRound over pages report (device, w) = Some (device', w') \<and>
    keyDevice device' w' (reportKeys device report) \<and> reportKeys device' = reportKeys device"
proof -
  obtain g where g: "inputGroups device = [g]" "keyArray g" "oldStates g = Some old"
    "fieldsFit 0 (unat (group_size g)) (length (readers g))" "keysDown (trace w) = set old - {0}"
    using assms(2) by (auto simp: keyDevice_def)
  let ?vs = "reportKeys device report"
  have vs: "?vs = groupValues g report 0" by (simp add: reportKeys_def g(1))
  let ?p = "answers w (trace w @ [GetPhysicalAddress (device_buffer device)])"
  let ?w = "after w [GetPhysicalAddress (device_buffer device), Request (device_serviceId device) (normalFunction device) (device_deviceId device) ?p]"
  let ?g = "g\<lparr>readers := withStates (readers g) ?vs, oldStates := Some ?vs\<rparr>"
  have len: "length ?vs = length (readers g)" by (simp add: vs groupValues_def fieldValues_def)
  obtain pos where "handleGroup over pages report (g, (0, 0), ?w) = Some (?g, pos, after ?w (changes old ?vs))"
    using handleGroup_keys [OF assms(1) g(2,3), of "(0, 0)" over report ?w] g(4) unfolding vs by (auto simp: position_def)
  then have run: "listenRound over pages report (device, w) =
      Some (device\<lparr>inputGroups := [?g]\<rparr>, after (after ?w (changes old ?vs)) [Sleep (interval device)])"
    by (simp add: listenRound_def g(1))
  have "keyArray ?g" using g(2) len by (simp add: keyArray_def)
  moreover have "fieldsFit 0 (unat (group_size ?g)) (length (readers ?g))" using g(4) len by simp
  moreover have "keysDown (trace (after (after ?w (changes old ?vs)) [Sleep (interval device)])) = set ?vs - {0}"
    by (simp add: keysDown_append g(5) fold_changes)
  ultimately have "keyDevice (device\<lparr>inputGroups := [?g]\<rparr>) (after (after ?w (changes old ?vs)) [Sleep (interval device)]) ?vs"
    by (simp add: keyDevice_def)
  moreover have "reportKeys (device\<lparr>inputGroups := [?g]\<rparr>) = reportKeys device"
    using len by (simp add: reportKeys_def g(1) groupValues_def fun_eq_iff)
  ultimately show ?thesis using run by blast
qed

text \<open>
  C28. A device with one array of keys: for every sequence of reports, \<open>hidListening\<close> evaluates them all, and afterwards
  the keys the keyboard service was told are down are the keys of the last report, in whatever order keys are pressed
  and released and whatever place in the array they move to.
\<close>

theorem pressed_keys_tracked:
  assumes "initializeUsagePages usagePages = Some pages" and "keyDevice device w old"
  shows "\<exists>device' w'. hidListening over pages reports (device, w) = Some (device', w') \<and>
    keysDown (trace w') = set (if reports = [] then old else reportKeys device (last reports)) - {0}"
proof -
  have "\<exists>device' w'. hidListening over pages reports (device, w) = Some (device', w') \<and> reportKeys device' = reportKeys device \<and>
      keyDevice device' w' (if reports = [] then old else reportKeys device (last reports))"
    using assms(2)
  proof (induction reports arbitrary: device w old)
    case (Cons report reports)
    then show ?case
      using listenRound_keys [OF assms(1) Cons.prems, of over report] by (fastforce simp: hidListening_def)
  qed (simp add: hidListening_def)
  then show ?thesis by (auto simp: keyDevice_def)
qed

definition exampleKeys :: InputGroup where
  "exampleKeys = \<lparr>oldStates = Some [0, 0], group_size = 8, group_count = 2, group_min = 0, group_max = 101, discard = False,
     relative = False, isSigned = False, array = True, group_usagePage = Some 7,
     readers = [\<lparr>reader_usage = 0, previousState = 0\<rparr>, \<lparr>reader_usage = 1, previousState = 0\<rparr>]\<rparr>"

theorem pressed_keys_tracked_witness:
  "\<exists>pages device' w'. initializeUsagePages usagePages = Some pages \<and>
     hidListening (\<lambda>_ _. 0) pages [\<lambda>_. 0x0504, \<lambda>_. 0x0605]
       (\<lparr>device_serviceId = 3, device_deviceId = 1, normalFunction = 2, interval = 10, device_buffer = 0x5000, inputGroups = [exampleKeys]\<rparr>,
        \<lparr>trace = [], answers = \<lambda>_. 0\<rparr>) = Some (device', w') \<and> keysDown (trace w') = {5, 6}"
proof -
  let ?d = "\<lparr>device_serviceId = 3, device_deviceId = 1, normalFunction = 2, interval = 10, device_buffer = 0x5000, inputGroups = [exampleKeys]\<rparr>"
  let ?w = "\<lparr>trace = [], answers = \<lambda>_. 0 :: u32\<rparr>"
  obtain pages where pages: "initializeUsagePages usagePages = Some pages" using initialized_pages by blast
  have "keyDevice ?d ?w [0, 0]"
    by (auto simp: keyDevice_def exampleKeys_def keyArray_def fieldsFit_def keysDown_def less_Suc_eq)
  from pressed_keys_tracked [OF pages this, of "\<lambda>_ _. 0" "[\<lambda>_. 0x0504, \<lambda>_. 0x0605]"]
  have "\<exists>device' w'. hidListening (\<lambda>_ _. 0) pages [\<lambda>_. 0x0504, \<lambda>_. 0x0605] (?d, ?w) = Some (device', w') \<and>
      keysDown (trace w') = set (reportKeys ?d (\<lambda>_. 0x0605)) - {0}" by simp
  moreover have "reportKeys ?d (\<lambda>_. 0x0605) = [5, 6]"
    by (simp add: reportKeys_def exampleKeys_def groupValues_def fieldValues_def field_def upt_conv_Cons drop_bit_eq_div take_bit_eq_mod)
  ultimately show ?thesis using pages by auto
qed

section \<open>Descriptors\<close>

text \<open>
  An item of a descriptor is a tag of six bits and up to three bytes of data. Only the end of a collection comes
  without data: its data has no meaning.
\<close>

type_synonym item = "u8 \<times> nat \<times> u32"

definition properItem :: "item \<Rightarrow> bool" where
  "properItem = (\<lambda>(tag, n, data). 0 < tag \<and> tag < 64 \<and> n < 4 \<and> (n = 0 \<longrightarrow> tag = 0x30) \<and> data = take_bit (8 * n) data)"

definition encodeItem :: "item \<Rightarrow> u8 list" where
  "encodeItem = (\<lambda>(tag, n, data). (push_bit 2 tag OR of_nat n) # take n (le32 data))"

definition runItems :: "UsagePage list \<Rightarrow> item list \<Rightarrow> parser \<Rightarrow> parser option" where
  "runItems pages items s = ofold (\<lambda>(tag, n, data). parseItem pages tag data) items s"

lemma small_cases: "n < 4 \<longleftrightarrow> n = 0 \<or> n = 1 \<or> n = 2 \<or> n = (3 :: nat)"
  by arith

lemma item_head:
  assumes "tag < 64" and "n < 4"
  shows "(push_bit 2 tag OR of_nat n) AND 3 = (of_nat n :: u8)" and "drop_bit 2 (push_bit 2 tag OR of_nat n) = (tag :: u8)"
proof -
  have n: "of_nat n AND (3 :: u8) = of_nat n" "drop_bit 2 (of_nat n :: u8) = 0"
    using assms(2) unfolding small_cases by auto
  have three: "(3 :: u8) = mask 2" by (simp add: mask_eq_exp_minus_1)
  have low: "bit tag k \<Longrightarrow> k < 6" for k
  proof -
    have "take_bit 6 tag = tag" using less_mask_eq [of tag 6] assms(1) by (simp add: take_bit_eq_mask)
    then show "bit tag k \<Longrightarrow> k < 6" by (metis bit_take_bit_iff)
  qed
  have "push_bit 2 tag AND (3 :: u8) = 0" unfolding three by (rule bit_eqI) (auto simp: bit_simps)
  moreover have "drop_bit 2 (push_bit 2 tag) = tag" by (rule bit_eqI) (auto simp: bit_simps dest: low)
  ultimately show "(push_bit 2 tag OR of_nat n) AND 3 = (of_nat n :: u8)" and "drop_bit 2 (push_bit 2 tag OR of_nat n) = (tag :: u8)"
    using n by (simp_all add: bit.conj_disj_distrib2)
qed

lemma itemData_bytes:
  assumes "bytes_at m p (take n (le32 data))" and "0 < n" and "n < 4" and "data = take_bit (8 * n) data"
  shows "itemData over m p (of_nat n) = data"
proof -
  have data: "bit data k \<Longrightarrow> k < 8 * n" for k using assms(4) by (metis bit_take_bit_iff)
  have all: "(0xFFFFFFFF :: u32) = - 1" by simp
  have "bit (read32 m p AND drop_bit ((4 - n) * 8) (- 1)) k \<longleftrightarrow> bit data k" if "k < 32" for k
    using assms(1-3) data [of k] that unfolding small_cases
    by (elim disjE) (auto simp: read32_def le32_def bit_simps add.commute [of 2 p])
  then have "read32 m p AND drop_bit ((4 - n) * 8) 0xFFFFFFFF = data" unfolding all by (intro bit_eqI) simp
  then show ?thesis using assms(2,3) unfolding itemData_def small_cases by auto
qed

lemma parseItem_end: "parseItem pages 0x30 data = parseItem pages 0x30 0"
  by (auto simp: parseItem_def Let_def fun_eq_iff split: prod.splits)

lemma parseLoop_item:
  assumes "properItem (tag, n, data)" and "bytes_at m p (encodeItem (tag, n, data))"
  shows "parseLoop over pages m p s = Option.bind (parseItem pages tag data s) (parseLoop over pages m (p + of_nat (Suc n)))"
proof -
  have i: "tag < 64" "tag \<noteq> 0" "n < 4" "n = 0 \<longrightarrow> tag = 0x30" "data = take_bit (8 * n) data"
    using assms(1) by (auto simp: properItem_def)
  have head: "m p = push_bit 2 tag OR of_nat n" and rest: "bytes_at m (p + 1) (take n (le32 data))"
    using assms(2) by (simp_all add: encodeItem_def)
  have width: "ucast (of_nat n :: u8) = (of_nat n :: u32)" using i(3) unfolding small_cases by auto
  have "parseItem pages tag (itemData over m (p + 1) (of_nat n)) s = parseItem pages tag data s"
  proof (cases "n = 0")
    case True
    then show ?thesis using i(4) parseItem_end by (metis)
  next
    case False
    then show ?thesis using itemData_bytes [OF rest _ i(3,5)] by simp
  qed
  then show ?thesis
    using i(2) unfolding parseLoop.simps [of over pages m p] head item_head [OF i(1,3)] Let_def width
    by (simp add: add.assoc)
qed

lemma parseLoop_items:
  assumes "list_all properItem items" and "bytes_at m p (concat (map encodeItem items) @ [0])"
  shows "parseLoop over pages m p s = map_option (\<lambda>s. (totalBits (fst s), snd s)) (runItems pages items s)"
  using assms
proof (induction items arbitrary: p s)
  case Nil
  then show ?case by (simp add: runItems_def parseLoop.simps [of over pages m p])
next
  case (Cons i items)
  obtain tag n data where i: "i = (tag, n, data)" by (cases i) auto
  have ok: "properItem (tag, n, data)" using Cons.prems(1) by (simp add: i)
  then have "length (encodeItem i) = Suc n" by (auto simp: i properItem_def encodeItem_def le32_def)
  then have "bytes_at m (p + of_nat (Suc n)) (concat (map encodeItem items) @ [0])"
    using Cons.prems(2) by (simp add: bytes_at_append del: of_nat_Suc)
  then have "parseLoop over pages m (p + of_nat (Suc n)) s = map_option (\<lambda>s. (totalBits (fst s), snd s)) (runItems pages items s)" for s
    using Cons.IH Cons.prems(1) by simp
  moreover have "bytes_at m p (encodeItem (tag, n, data))" using Cons.prems(2) by (simp add: bytes_at_append i)
  ultimately show ?case
    using parseLoop_item [OF ok, of m p over pages s] by (cases "parseItem pages tag data s") (simp_all add: runItems_def i)
qed

text \<open>
  C29. A descriptor that is a sequence of items with up to three bytes of data each, followed by a zero, is read up to the
  zero: \<open>parseReportDescriptor\<close> has the effect of the items in their order, whatever lies behind.
\<close>

theorem descriptor_parsed:
  assumes "list_all properItem items" and "bytes_at m p (concat (map encodeItem items) @ [0])"
  shows "parseReportDescriptor over pages m p groups w =
    map_option (\<lambda>s. (totalBits (fst s), snd s)) (runItems pages items (zeroState, groups, w))"
  using parseLoop_items [OF assms] by (simp add: parseReportDescriptor_def)

lemma parseItem_simps:
  "parseItem pages 1 data (state, groups, w) = Some (state\<lparr>state_usagePage := Some (getUsagePage data)\<rparr>, groups, after w
     [Print ''%pUsagePage(%x: %s)'' [Num (padding state), Num data, Text (page_name (pages ! getUsagePage data))]])"
  "parseItem pages 2 data (state, groups, w) = Some (state\<lparr>state_usages := state_usages state @ [data]\<rparr>, groups, after w
     [Print ''%pUsage(%x)'' [Num (padding state), Num data]])"
  "parseItem pages 0x05 data (state, groups, w) = Some (state\<lparr>logicalMin := data\<rparr>, groups, after w
     [Print ''%pLogicalMinimum(%x)'' [Num (padding state), Num data]])"
  "parseItem pages 0x09 data (state, groups, w) = Some (state\<lparr>logicalMax := data\<rparr>, groups, after w
     [Print ''%pLogicalMaximum(%x)'' [Num (padding state), Num data]])"
  "parseItem pages 0x06 data (state, groups, w) = Some (state\<lparr>usageMin := data\<rparr>, groups, after w
     [Print ''%pUsageMinimum(%x)'' [Num (padding state), Num data]])"
  "parseItem pages 0x0A data (state, groups, w) = Some (state\<lparr>usageMax := data\<rparr>, groups, after w
     [Print ''%pUsageMaximum(%x)'' [Num (padding state), Num data]])"
  "parseItem pages 0x1D data (state, groups, w) = Some (state\<lparr>reportSize := data\<rparr>, groups, after w
     [Print ''%pReportSize(%x)'' [Num (padding state), Num data]])"
  "parseItem pages 0x20 data (state, groups, w) = input data (state, groups, w)"
  "parseItem pages 0x25 data (state, groups, w) = Some (state\<lparr>reportCount := data\<rparr>, groups, after w
     [Print ''%pReportCount(%x)'' [Num (padding state), Num data]])"
  "parseItem pages 0x30 data (state, groups, w) = Some (state\<lparr>padding := padding state - 2, state_usages := []\<rparr>, groups, after w
     [Print ''%pEnd collection'' [Num (padding state - 2)]])"
  by (simp_all add: parseItem_def Let_def)

text \<open>Memory with the given bytes at its start and zeros behind them.\<close>

definition memoryOf :: "u8 list \<Rightarrow> bytes" where
  "memoryOf bs a = (if unat a < length bs then bs ! unat a else 0)"

lemma bytes_at_memoryOf:
  assumes "length bs < 4294967296"
  shows "bytes_at (memoryOf bs) 0 bs"
proof -
  have "bytes_at (memoryOf (as @ bs)) (of_nat (length as)) bs" if "length (as @ bs) < 4294967296" for as bs
    using that
  proof (induction bs arbitrary: as)
    case (Cons b bs)
    then have "bytes_at (memoryOf ((as @ [b]) @ bs)) (of_nat (length (as @ [b]))) bs" by (intro Cons.IH) simp
    note tail = this
    have "unat (of_nat (length as) :: u32) = length as" using Cons.prems by (intro unat_of_nat32) simp
    then have "memoryOf (as @ b # bs) (of_nat (length as)) = b" by (simp add: memoryOf_def)
    then show ?case using tail by (simp add: add.commute)
  qed simp
  from this [of "[]" bs] assms show ?thesis by simp
qed

definition keyItems :: "item list" where
  "keyItems = [(1, 1, 7), (0x1D, 1, 8), (0x25, 1, 2), (0x20, 1, 0), (0x30, 0, 0)]"

theorem descriptor_parsed_witness:
  "\<exists>g w'. parseReportDescriptor (\<lambda>_ _. 0) usagePages (memoryOf (concat (map encodeItem keyItems) @ [0])) 0 []
     \<lparr>trace = [], answers = \<lambda>_. 0\<rparr> = Some (16, [g], w') \<and> length (readers g) = 2 \<and> group_usagePage g = Some 7"
proof -
  have items: "list_all properItem keyItems" by (simp add: keyItems_def properItem_def)
  have "bytes_at (memoryOf (concat (map encodeItem keyItems) @ [0])) 0 (concat (map encodeItem keyItems) @ [0])"
    by (rule bytes_at_memoryOf) (simp add: keyItems_def encodeItem_def)
  from descriptor_parsed [OF items this, of "\<lambda>_ _. 0" usagePages "[]" "\<lparr>trace = [], answers = \<lambda>_. 0\<rparr>"]
  show ?thesis
    by (simp add: runItems_def keyItems_def parseItem_simps input_def makeReaders_def insertInputReader_def zeroState_def getUsagePage_def
        usagePages_def upt_conv_Cons Let_def)
qed

section \<open>Constant fields\<close>

text \<open>
  The descriptor of a mouse: three buttons of one bit, five constant bits that fill the byte, and the two movements
  of eight bits.
\<close>

definition mouseItems :: "item list" where
  "mouseItems = [(1, 1, 1), (1, 1, 9), (0x06, 1, 1), (0x0A, 1, 3), (0x05, 1, 0), (0x09, 1, 1), (0x25, 1, 3), (0x1D, 1, 1), (0x20, 1, 2),
     (0x25, 1, 1), (0x1D, 1, 5), (0x20, 1, 3), (1, 1, 1), (2, 1, 0x30), (2, 1, 0x31), (0x05, 1, 0x81), (0x09, 1, 0x7F),
     (0x1D, 1, 8), (0x25, 1, 2), (0x20, 1, 6), (0x30, 0, 0)]"

definition reader :: "u32 \<Rightarrow> InputReader" where
  "reader usage = \<lparr>reader_usage = usage, previousState = 0\<rparr>"

definition mouseButtons :: InputGroup where
  "mouseButtons = \<lparr>oldStates = None, group_size = 1, group_count = 3, group_min = 0, group_max = 1, discard = False, relative = False,
     isSigned = False, array = False, group_usagePage = Some 9, readers = [reader 1, reader 2, reader 3]\<rparr>"

definition mousePadding :: InputGroup where
  "mousePadding = \<lparr>oldStates = None, group_size = 5, group_count = 1, group_min = 0, group_max = 1, discard = True, relative = False,
     isSigned = False, array = False, group_usagePage = Some 9, readers = [reader 0]\<rparr>"

definition mouseAxes :: InputGroup where
  "mouseAxes = \<lparr>oldStates = None, group_size = 8, group_count = 2, group_min = 0x81, group_max = 0x7F, discard = False, relative = True,
     isSigned = True, array = False, group_usagePage = Some 1, readers = [reader 0x30, reader 0x31]\<rparr>"

lemma usagePages_length: "length usagePages = 15"
  by (simp add: usagePages_def)

lemma rangeLoop_step:
  "rangeLoop usage sr = (if usage \<le> usageMax (fst sr) then rangeLoop (usage + 1) (insertInputReader usage sr) else Some sr)"
  by (rule rangeLoop.simps)

lemma mouse_parsed:
  "\<exists>st w'. runItems pages mouseItems (zeroState, [], w) = Some (st, [mouseButtons, mousePadding, mouseAxes], w') \<and> totalBits st = 24"
  by (simp add: runItems_def mouseItems_def parseItem_simps input_def makeReaders_def insertInputReader_def zeroState_def getUsagePage_def
      rangeLoop_step usagePages_length upt_conv_Cons Let_def mouseButtons_def mousePadding_def mouseAxes_def reader_def bit_numeral_rec)

lemma consumeBits_first:
  assumes "unat b < 32" and "unat n < 32" and "unat b + unat n \<le> 32"
  shows "consumeBits over report (0, b) n = Some (field report (unat b) (unat n), 0, b + n)"
proof -
  have "b < 32" "n < 32" "\<not> 32 \<le> b" using assms(1,2) by (simp_all add: word_less_nat_alt word_le_nat_alt)
  then show ?thesis using assms masked_field [OF assms(3,2), of "report 0"] by (simp add: consumeBits_def shl_def field_def)
qed

lemma other_pages:
  assumes "initializeUsagePages usagePages = Some pages"
  shows "handleUsage pages (Some 9) usage data w = handleButton usage data w"
    and "handleUsage pages (Some 1) 0x30 data w = handleX data w" and "handleUsage pages (Some 1) 0x31 data w = handleY data w"
  using assms by (auto simp: initializeUsagePages_def usagePages_def newPage_def initializeUsages_def genericDesktopControlsUsages_def
      upt_conv_Cons handleUsage_def)

definition signedByte :: "u32 \<Rightarrow> u32" where
  "signedByte x = scast (ucast x :: u8)"

definition buttonCalls :: "(nat \<Rightarrow> u32) \<Rightarrow> Call list" where
  "buttonCalls report = concat (map (\<lambda>i. if field report i 1 \<noteq> 0 then [Ask ''mouse'' ''updateButton'' (of_nat i + 1) (field report i 1)] else [])
     [0, 1, 2])"

lemma mouse_buttons:
  assumes "initializeUsagePages usagePages = Some pages"
  shows "\<exists>g. handleGroup over pages report (mouseButtons, (0, 0), w) = Some (g, (0, 3), after w (buttonCalls report))"
  by (auto simp: handleGroup_def mouseButtons_def reader_def getValue_def consumeBits_first other_pages [OF assms] handleButton_def buttonCalls_def)

lemma mouse_axes:
  assumes "initializeUsagePages usagePages = Some pages"
  shows "\<exists>g. handleGroup over pages report (mouseAxes, (0, 3), w) = Some (g, (0, 19), after w
    [Ask ''mouse'' ''moveRelative'' (signedByte (field report 3 8)) 0, Ask ''mouse'' ''moveRelative'' 0 (signedByte (field report 11 8))])"
  by (simp add: handleGroup_def mouseAxes_def reader_def getValue_def consumeBits_first other_pages [OF assms, unfolded One_nat_def] handleX_def handleY_def signedByte_def)

text \<open>
  The bits of a constant field are not skipped: the driver accepts the descriptor of a mouse, whose movements are in
  the second and third byte of a report, but takes them from the bits right behind the three buttons.
\<close>

theorem constant_bits_not_skipped:
  "\<exists>pages groups w1 groups' pos. initializeUsagePages usagePages = Some pages \<and>
     parseReportDescriptor over pages (memoryOf (concat (map encodeItem mouseItems) @ [0])) 0 [] w = Some (24, groups, w1) \<and>
     handleGroups over pages report groups (0, 0) w = Some (groups', pos, after w (buttonCalls report @
       [Ask ''mouse'' ''moveRelative'' (signedByte (field report 3 8)) 0, Ask ''mouse'' ''moveRelative'' 0 (signedByte (field report 11 8))]))"
proof -
  obtain pages where pages: "initializeUsagePages usagePages = Some pages" using initialized_pages by blast
  have items: "list_all properItem mouseItems" by (simp add: mouseItems_def properItem_def)
  have "bytes_at (memoryOf (concat (map encodeItem mouseItems) @ [0])) 0 (concat (map encodeItem mouseItems) @ [0])"
    by (rule bytes_at_memoryOf) (simp add: mouseItems_def encodeItem_def le32_def)
  note parse = parseLoop_items [OF items this, of over pages "(zeroState, [], w)"]
  obtain st w1 where "runItems pages mouseItems (zeroState, [], w) = Some (st, [mouseButtons, mousePadding, mouseAxes], w1)" "totalBits st = 24"
    using mouse_parsed by blast
  then have "parseReportDescriptor over pages (memoryOf (concat (map encodeItem mouseItems) @ [0])) 0 [] w =
      Some (24, [mouseButtons, mousePadding, mouseAxes], w1)"
    using parse by (simp add: parseReportDescriptor_def)
  moreover obtain g1 where 1: "handleGroup over pages report (mouseButtons, (0, 0), w) = Some (g1, (0, 3), after w (buttonCalls report))"
    using mouse_buttons [OF pages] by blast
  obtain g3 where 3: "handleGroup over pages report (mouseAxes, (0, 3), after w (buttonCalls report)) = Some (g3, (0, 19), after (after w (buttonCalls report))
      [Ask ''mouse'' ''moveRelative'' (signedByte (field report 3 8)) 0, Ask ''mouse'' ''moveRelative'' 0 (signedByte (field report 11 8))])"
    using mouse_axes [OF pages] by blast
  have "handleGroup over pages report (mousePadding, (0, 3), w) = Some (mousePadding, (0, 3), w)" for w
    by (simp add: handleGroup_def mousePadding_def)
  then have "\<exists>groups' pos. handleGroups over pages report [mouseButtons, mousePadding, mouseAxes] (0, 0) w = Some (groups', pos, after w (buttonCalls report @
       [Ask ''mouse'' ''moveRelative'' (signedByte (field report 3 8)) 0, Ask ''mouse'' ''moveRelative'' 0 (signedByte (field report 11 8))]))"
    using 1 3 by simp
  ultimately show ?thesis using pages by blast
qed

end
