(* ===== verification/Keyboard.thy ===== *)
theory Keyboard
  imports Programs
begin

text \<open>
  The keys (\<open>include/keycodes.h\<close>), the keyboard service (\<open>userland/keyboard\<close>), which turns key presses and releases into
  characters, and the driver of PS/2 keyboards (\<open>userland/ps2kb\<close>), which turns scan codes into presses and releases.
\<close>

section \<open>Keys\<close>

definition chars :: "string \<Rightarrow> u8 list option" where
  "chars s = Some (map (\<lambda>c. of_nat (of_char c)) s)"

definition MODIFIERS_SHIFT :: "u32 list" where
  "MODIFIERS_SHIFT = [225, 229]"

definition MODIFIERS_NONE :: "u32 list" where
  "MODIFIERS_NONE = []"

text \<open>
  The rows of the table: name, number, text without and with a modifier, and the modifiers, without the zero at their
  end. Texts are bytes; \<open>None\<close> is the null pointer.
\<close>

definition KEYS :: "(string \<times> u32 \<times> u8 list option \<times> u8 list option \<times> u32 list) list" where
  "KEYS = [
     (''KEY_NONE'', 0, chars '''', chars '''', MODIFIERS_SHIFT),
     (''KEY_ERROR'', 1, chars '''', chars '''', MODIFIERS_SHIFT),
     (''KEY_POST_FAIL'', 2, chars '''', chars '''', MODIFIERS_SHIFT),
     (''KEY_ERROR_UNDEFINED'', 3, chars '''', chars '''', MODIFIERS_SHIFT),
     (''KEY_A'', 4, chars ''a'', chars ''A'', MODIFIERS_SHIFT),
     (''KEY_B'', 5, chars ''b'', chars ''B'', MODIFIERS_SHIFT),
     (''KEY_C'', 6, chars ''c'', chars ''C'', MODIFIERS_SHIFT),
     (''KEY_D'', 7, chars ''d'', chars ''D'', MODIFIERS_SHIFT),
     (''KEY_E'', 8, chars ''e'', chars ''E'', MODIFIERS_SHIFT),
     (''KEY_F'', 9, chars ''f'', chars ''F'', MODIFIERS_SHIFT),
     (''KEY_G'', 10, chars ''g'', chars ''G'', MODIFIERS_SHIFT),
     (''KEY_H'', 11, chars ''h'', chars ''H'', MODIFIERS_SHIFT),
     (''KEY_I'', 12, chars ''i'', chars ''I'', MODIFIERS_SHIFT),
     (''KEY_J'', 13, chars ''j'', chars ''J'', MODIFIERS_SHIFT),
     (''KEY_K'', 14, chars ''k'', chars ''K'', MODIFIERS_SHIFT),
     (''KEY_L'', 15, chars ''l'', chars ''L'', MODIFIERS_SHIFT),
     (''KEY_M'', 16, chars ''m'', chars ''M'', MODIFIERS_SHIFT),
     (''KEY_N'', 17, chars ''n'', chars ''N'', MODIFIERS_SHIFT),
     (''KEY_O'', 18, chars ''o'', chars ''O'', MODIFIERS_SHIFT),
     (''KEY_P'', 19, chars ''p'', chars ''P'', MODIFIERS_SHIFT),
     (''KEY_Q'', 20, chars ''q'', chars ''Q'', MODIFIERS_SHIFT),
     (''KEY_R'', 21, chars ''r'', chars ''R'', MODIFIERS_SHIFT),
     (''KEY_S'', 22, chars ''s'', chars ''S'', MODIFIERS_SHIFT),
     (''KEY_T'', 23, chars ''t'', chars ''T'', MODIFIERS_SHIFT),
     (''KEY_U'', 24, chars ''u'', chars ''U'', MODIFIERS_SHIFT),
     (''KEY_V'', 25, chars ''v'', chars ''V'', MODIFIERS_SHIFT),
     (''KEY_W'', 26, chars ''w'', chars ''W'', MODIFIERS_SHIFT),
     (''KEY_X'', 27, chars ''x'', chars ''X'', MODIFIERS_SHIFT),
     (''KEY_Y'', 28, chars ''y'', chars ''Y'', MODIFIERS_SHIFT),
     (''KEY_Z'', 29, chars ''z'', chars ''Z'', MODIFIERS_SHIFT),
     (''KEY_1'', 30, chars ''1'', chars ''!'', MODIFIERS_SHIFT),
     (''KEY_2'', 31, chars ''2'', chars ''@'', MODIFIERS_SHIFT),
     (''KEY_3'', 32, chars ''3'', chars ''#'', MODIFIERS_SHIFT),
     (''KEY_4'', 33, chars ''4'', chars ''$'', MODIFIERS_SHIFT),
     (''KEY_5'', 34, chars ''5'', chars ''%'', MODIFIERS_SHIFT),
     (''KEY_6'', 35, chars ''6'', chars ''^'', MODIFIERS_SHIFT),
     (''KEY_7'', 36, chars ''7'', chars ''&'', MODIFIERS_SHIFT),
     (''KEY_8'', 37, chars ''8'', chars ''*'', MODIFIERS_SHIFT),
     (''KEY_9'', 38, chars ''9'', chars ''('', MODIFIERS_SHIFT),
     (''KEY_0'', 39, chars ''0'', chars '')'', MODIFIERS_SHIFT),
     (''KEY_RETURN'', 40, Some [0x0A], None, MODIFIERS_NONE),
     (''KEY_ESCAPE'', 41, chars '''', None, MODIFIERS_NONE),
     (''KEY_DELETE'', 42, Some [0x08], None, MODIFIERS_NONE),
     (''KEY_TAB'', 43, Some [0x09], None, MODIFIERS_NONE),
     (''KEY_SPACEBAR'', 44, chars '' '', None, MODIFIERS_NONE),
     (''KEY_MINUS'', 45, chars ''-'', chars ''_'', MODIFIERS_SHIFT),
     (''KEY_EQUALS'', 46, chars ''='', chars ''+'', MODIFIERS_SHIFT),
     (''KEY_BRACEOPEN'', 47, chars ''['', chars ''{'', MODIFIERS_SHIFT),
     (''KEY_BRACECLOSE'', 48, chars '']'', chars ''}'', MODIFIERS_SHIFT),
     (''KEY_BACKSLASH'', 49, Some [0x5C], chars ''|'', MODIFIERS_SHIFT),
     (''KEY_NON_US'', 50, chars '''', None, MODIFIERS_NONE),
     (''KEY_SEMICOLON'', 51, chars '';'', chars '':'', MODIFIERS_SHIFT),
     (''KEY_APOSTROPHE'', 52, Some [0xE2, 0x80, 0x98], Some [0xE2, 0x80, 0x9C], MODIFIERS_SHIFT),
     (''KEY_GRAVE'', 53, chars '''', None, MODIFIERS_NONE),
     (''KEY_DOT'', 55, chars ''.'', chars ''>'', MODIFIERS_SHIFT),
     (''KEY_SLASH'', 56, chars ''/'', chars ''?'', MODIFIERS_SHIFT),
     (''KEY_CAPS'', 57, chars '''', None, MODIFIERS_NONE),
     (''KEY_LEFT_SHIFT'', 225, None, None, MODIFIERS_NONE),
     (''KEY_RIGHT_SHIFT'', 229, None, None, MODIFIERS_NONE)
   ]"

text \<open>The number of a key, from the enumeration \<open>Key\<close>.\<close>

definition KEY :: "string \<Rightarrow> u32" where
  "KEY name = (case map_of KEYS name of Some (n, _) \<Rightarrow> n | None \<Rightarrow> 0)"

record KeyInfo =
  key :: u32
  normal :: "u8 list option"
  modified :: "u8 list option"
  modifierKeys :: "u32 list"

definition KEY_STRUCT :: "string \<times> u32 \<times> u8 list option \<times> u8 list option \<times> u32 list \<Rightarrow> KeyInfo" where
  "KEY_STRUCT = (\<lambda>(_, n, a, b, modifiers). \<lparr>key = n, normal = a, modified = b, modifierKeys = modifiers\<rparr>)"

definition keyInfos :: "KeyInfo list" where
  "keyInfos = map KEY_STRUCT KEYS"

section \<open>The keyboard service\<close>

text \<open>
  The array of pressed keys is declared with one element, but \<open>MAX_PRESSED\<close>, which is ten, are used: the nine words
  behind it belong to \<open>pressedKeys\<close> here.
\<close>

record Keyboard =
  repeatingThreadId :: u32
  repeatingKey :: u32
  pressedKeys :: "u32 list"

text \<open>The loops that replace the first occurrence of a value.\<close>

fun replaceFirst :: "u32 \<Rightarrow> u32 \<Rightarrow> u32 list \<Rightarrow> u32 list" where
  "replaceFirst old new [] = []"
| "replaceFirst old new (x # xs) = (if x = old then new # xs else x # replaceFirst old new xs)"

definition keyUp :: "u32 \<Rightarrow> Keyboard \<Rightarrow> Keyboard" where
  "keyUp keycode kb =
     (let kb = (if keycode = repeatingKey kb then kb\<lparr>repeatingThreadId := repeatingThreadId kb + 1\<rparr> else kb)
      in kb\<lparr>pressedKeys := replaceFirst keycode 0 (pressedKeys kb)\<rparr>)"

text \<open>
  The choice of the text. The loop also ends when the two texts of the key are the same, with the same text.
\<close>

fun chooseText :: "KeyInfo \<Rightarrow> u32 list \<Rightarrow> u8 list option" where
  "chooseText info [] = normal info"
| "chooseText info (pressed # rest) =
     (if pressed = 0 then chooseText info rest
      else if pressed \<in> set (modifierKeys info) then modified info
      else chooseText info rest)"

text \<open>A character is a signed byte; the null pointer is followed when the key has no text.\<close>

definition sendPress :: "u32 \<Rightarrow> Keyboard \<Rightarrow> World \<Rightarrow> World option" where
  "sendPress keycode kb w =
     (if length keyInfos \<le> unat keycode then Some w
      else do {
        let info = keyInfos ! unat keycode;
        data \<leftarrow> chooseText info (pressedKeys kb);
        ofold (\<lambda>c. perform (Ask ''ioManager'' ''keyCallback'' (scast c) 0)) data w
      })"

text \<open>
  The thread that repeats a key reads the state of the service before every round; \<open>seen\<close> are the states it finds.
  The flag says that the thread has ended.
\<close>

fun repeatLoop :: "u32 \<Rightarrow> u32 \<Rightarrow> Keyboard list \<Rightarrow> World \<Rightarrow> (bool \<times> World) option" where
  "repeatLoop keycode threadId [] w = Some (False, w)"
| "repeatLoop keycode threadId (kb # seen) w =
     (if threadId = repeatingThreadId kb then do {
        w \<leftarrow> sendPress keycode kb w;
        w \<leftarrow> perform (Sleep 50) w;
        repeatLoop keycode threadId seen w
      } else Some (True, w))"

definition keyRepeat :: "u32 \<Rightarrow> u32 \<Rightarrow> Keyboard list \<Rightarrow> World \<Rightarrow> (bool \<times> World) option" where
  "keyRepeat keycode threadId seen w = do {
     w \<leftarrow> perform (Sleep 500) w;
     repeatLoop keycode threadId seen w
   }"

definition keyDown :: "u32 \<Rightarrow> Keyboard \<times> World \<Rightarrow> (Keyboard \<times> World) option" where
  "keyDown keycode = (\<lambda>(kb, w). do {
     w \<leftarrow> sendPress keycode kb w;
     let kb = kb\<lparr>repeatingKey := keycode, pressedKeys := replaceFirst 0 keycode (pressedKeys kb)\<rparr>;
     if length keyInfos \<le> unat keycode then Some (kb, w)
     else do {
       let kb = kb\<lparr>repeatingThreadId := repeatingThreadId kb + 1\<rparr>;
       w \<leftarrow> perform (Fork ''keyRepeat'' keycode (repeatingThreadId kb)) w;
       Some (kb, w)
     }
   })"

definition keyboardInitialize :: "World \<Rightarrow> World option" where
  "keyboardInitialize w = do {
     w \<leftarrow> perform (CreateFunction ''keyDown'' ''keyDown'') w;
     perform (CreateFunction ''keyUp'' ''keyUp'') w
   }"

definition keyboardMain :: "bool \<Rightarrow> World \<Rightarrow> (bool \<times> World) option" where
  "keyboardMain initialized w = do {
     w \<leftarrow> (if initialized then Some w else keyboardInitialize w);
     Some (True, w)
   }"

section \<open>PS/2 keyboards\<close>

definition keycodes :: "u32 list" where
  "keycodes =
     (let codes = [0, 27, KEY ''KEY_1'', KEY ''KEY_2'', KEY ''KEY_3'', KEY ''KEY_4'', KEY ''KEY_5'', KEY ''KEY_6'', KEY ''KEY_7'',
      KEY ''KEY_8'', KEY ''KEY_9'', KEY ''KEY_0'', KEY ''KEY_MINUS'', KEY ''KEY_EQUALS'', KEY ''KEY_DELETE'', KEY ''KEY_TAB'',
      KEY ''KEY_Q'', KEY ''KEY_W'', KEY ''KEY_E'', KEY ''KEY_R'', KEY ''KEY_T'', KEY ''KEY_Y'', KEY ''KEY_U'', KEY ''KEY_I'',
      KEY ''KEY_O'', KEY ''KEY_P'', KEY ''KEY_BRACEOPEN'', KEY ''KEY_BRACECLOSE'', KEY ''KEY_RETURN'', 0, KEY ''KEY_A'',
      KEY ''KEY_S'', KEY ''KEY_D'', KEY ''KEY_F'', KEY ''KEY_G'', KEY ''KEY_H'', KEY ''KEY_J'', KEY ''KEY_K'', KEY ''KEY_L'',
      KEY ''KEY_SEMICOLON'', KEY ''KEY_APOSTROPHE'', 0, KEY ''KEY_LEFT_SHIFT'', KEY ''KEY_BACKSLASH'', KEY ''KEY_Z'',
      KEY ''KEY_X'', KEY ''KEY_C'', KEY ''KEY_V'', KEY ''KEY_B'', KEY ''KEY_N'', KEY ''KEY_M'', 0, KEY ''KEY_DOT'',
      KEY ''KEY_SLASH'', 0, 0, 0, KEY ''KEY_SPACEBAR'', 0, 0, 0, 0, 0, 0, 0, 0, 0, 0, 0, 0, 0, 0, 0, 0, KEY ''KEY_MINUS'', 0,
      0, 0, 0, 0, 0, 0, 0, 0, 0, 0, 0, 0, 0, 0]
      in codes @ replicate (128 - length codes) 0)"

definition onKey :: "World \<Rightarrow> World option" where
  "onKey w = do {
     (answer, w) \<leftarrow> call (Ask ''ps2'' ''read'' 0 0) w;
     let scancode = (ucast answer :: u8);
     if scancode = 0xE0 then do {
       w \<leftarrow> perform (Ask ''ps2'' ''read'' 0 0) w;
       Some w
     } else do {
       let keycode = keycodes ! unat (scancode AND 0x7F);
       if keycode = 0 then Some w
       else if scancode AND 0x80 \<noteq> 0 then perform (Ask ''keyboard'' ''keyUp'' keycode 0) w
       else perform (Ask ''keyboard'' ''keyDown'' keycode 0) w
     }
   }"

definition ps2kbRegister :: "u32 \<Rightarrow> u32 \<Rightarrow> World \<Rightarrow> World option" where
  "ps2kbRegister deviceType event w = do {
     (pic, w) \<leftarrow> call (GetService ''pic'') w;
     perform (SubscribeEvent pic event ''onKey'') w
   }"

definition ps2kbMain :: "World \<Rightarrow> World option" where
  "ps2kbMain w = perform (CreateFunction ''register'' ''doRegister'') w"

end
