(* ===== verification/KeyboardProps.thy ===== *)
theory KeyboardProps
  imports HidProps Keyboard
begin

text \<open>
  Properties of the keyboard service: which text a key sends, and that the presses and releases the driver for human
  interface devices reports arrive in its set of pressed keys.
\<close>

section \<open>Texts\<close>

definition callback :: "u8 \<Rightarrow> Call" where
  "callback c = Ask ''ioManager'' ''keyCallback'' (scast c) 0"

lemma chooseText_modifier:
  "0 \<notin> set (modifierKeys info) \<Longrightarrow>
   chooseText info pressed = (if set (modifierKeys info) \<inter> set pressed \<noteq> {} then modified info else normal info)"
  by (induction info pressed rule: chooseText.induct) auto

lemma sendPress_text:
  assumes "unat keycode < length keyInfos" and "chooseText (keyInfos ! unat keycode) (pressedKeys kb) = Some bs"
  shows "sendPress keycode kb w = Some (after w (map callback bs))"
proof -
  have "ofold (\<lambda>c. perform (Ask ''ioManager'' ''keyCallback'' (scast c) 0)) bs w = Some (after w (concat (map (\<lambda>c. [callback c]) bs)))"
    by (rule ofold_after) (simp add: callback_def)
  then show ?thesis using assms by (simp add: sendPress_def concat_map_singleton)
qed

text \<open>The rows up to number 53 stand at the index of their number; the five rows behind them do not.\<close>

definition goodRow :: "nat \<times> string \<times> u32 \<times> u8 list option \<times> u8 list option \<times> u32 list \<Rightarrow> bool" where
  "goodRow = (\<lambda>(i, name, n, a, b, modifiers).
     (if i < 54 then n = of_nat i else 54 \<le> n) \<and>
     (i < 57 \<longrightarrow> a \<noteq> None \<and> (modifiers \<noteq> [] \<longrightarrow> b \<noteq> None) \<and> 0 \<notin> set modifiers))"

lemma KEYS_length: "length KEYS = 59"
  by (simp add: KEYS_def)

lemma good_rows: "list_all goodRow (enumerate 0 KEYS)"
  by (simp add: KEYS_def goodRow_def chars_def MODIFIERS_SHIFT_def MODIFIERS_NONE_def)

lemma key_row:
  assumes "(name, n, a, b, modifiers) \<in> set KEYS" and "n < 54"
  shows "KEYS ! unat n = (name, n, a, b, modifiers) \<and> unat n < 54 \<and> a \<noteq> None \<and> (modifiers \<noteq> [] \<longrightarrow> b \<noteq> None) \<and> 0 \<notin> set modifiers"
proof -
  obtain i where i: "i < length KEYS" "KEYS ! i = (name, n, a, b, modifiers)" using assms(1) by (auto simp: in_set_conv_nth)
  then have "goodRow (i, name, n, a, b, modifiers)" using good_rows by (auto simp: list_all_length nth_enumerate_eq)
  moreover have "unat (of_nat i :: u32) = i" using i(1) unfolding KEYS_length by (intro unat_of_nat32) simp
  ultimately show ?thesis using assms(2) i by (auto simp: goodRow_def split: if_splits)
qed

text \<open>
  A key with a number below 54 sends its own text: the modified one exactly when one of its modifiers is pressed, and
  every byte of it in order.
\<close>

theorem key_sends_text:
  assumes "(name, n, a, b, modifiers) \<in> set KEYS" and "n < 54"
  shows "\<exists>bs. (if set modifiers \<inter> set (pressedKeys kb) \<noteq> {} then b else a) = Some bs \<and> sendPress n kb w = Some (after w (map callback bs))"
proof -
  have row: "KEYS ! unat n = (name, n, a, b, modifiers)" "unat n < 54" "a \<noteq> None" "modifiers \<noteq> [] \<longrightarrow> b \<noteq> None" "0 \<notin> set modifiers"
    using key_row [OF assms] by blast+
  have len: "unat n < length keyInfos" using row(2) by (simp add: keyInfos_def KEYS_length)
  have info: "keyInfos ! unat n = \<lparr>key = n, normal = a, modified = b, modifierKeys = modifiers\<rparr>"
    using row(1,2) by (simp add: keyInfos_def KEYS_length KEY_STRUCT_def)
  have "\<exists>bs. (if set modifiers \<inter> set (pressedKeys kb) \<noteq> {} then b else a) = Some bs" using row(3,4) by auto
  then obtain bs where "(if set modifiers \<inter> set (pressedKeys kb) \<noteq> {} then b else a) = Some bs" ..
  note bs = this
  then have "chooseText (keyInfos ! unat n) (pressedKeys kb) = Some bs"
    unfolding info using row(5) by (subst chooseText_modifier) (simp_all split: if_splits)
  then show ?thesis using bs sendPress_text [OF len] by blast
qed

theorem key_sends_text_witness:
  "sendPress 4 \<lparr>repeatingThreadId = 0, repeatingKey = 0, pressedKeys = [225, 0]\<rparr> \<lparr>trace = [], answers = \<lambda>_. 0\<rparr> =
     Some (after \<lparr>trace = [], answers = \<lambda>_. 0\<rparr> [Ask ''ioManager'' ''keyCallback'' 65 0])"
proof -
  have "(''KEY_A'', 4, chars ''a'', chars ''A'', MODIFIERS_SHIFT) \<in> set KEYS" by (simp add: KEYS_def)
  from key_sends_text [OF this, of "\<lparr>repeatingThreadId = 0, repeatingKey = 0, pressedKeys = [225, 0]\<rparr>"]
  show ?thesis by (auto simp: MODIFIERS_SHIFT_def chars_def callback_def)
qed

lemma misplaced_rows:
  "KEYS ! 55 = (''KEY_SLASH'', 56, chars ''/'', chars ''?'', MODIFIERS_SHIFT)" "KEYS ! 56 = (''KEY_CAPS'', 57, chars '''', None, MODIFIERS_NONE)"
  "KEYS ! 57 = (''KEY_LEFT_SHIFT'', 225, None, None, MODIFIERS_NONE)"
  by (simp_all add: KEYS_def)

lemma misplaced_numbers: "KEY ''KEY_DOT'' = 55" "KEY ''KEY_SLASH'' = 56" "KEY ''KEY_CAPS'' = 57"
  by (simp_all add: KEY_def KEYS_def)

lemma keyInfos_nth: "i < 59 \<Longrightarrow> keyInfos ! i = KEY_STRUCT (KEYS ! i)"
  by (simp add: keyInfos_def KEYS_length)

text \<open>
  The table has no row for number 54, so the keys behind it send the text of their neighbour: the period sends the
  slash, the slash sends nothing, and the caps lock key makes the service follow a null pointer.
\<close>

theorem misplaced_keys:
  "sendPress (KEY ''KEY_DOT'') kb w =
     Some (after w (map callback (if {225, 229} \<inter> set (pressedKeys kb) \<noteq> {} then [63] else [47]))) \<and>
   sendPress (KEY ''KEY_SLASH'') kb w = Some w \<and> sendPress (KEY ''KEY_CAPS'') kb w = None"
proof -
  have len: "length keyInfos = 59" by (simp add: keyInfos_def KEYS_length)
  have "chooseText (keyInfos ! 55) (pressedKeys kb) = Some (if {225, 229} \<inter> set (pressedKeys kb) \<noteq> {} then [63] else [47])"
    by (subst chooseText_modifier) (simp_all add: keyInfos_nth misplaced_rows KEY_STRUCT_def MODIFIERS_SHIFT_def chars_def)
  then have "sendPress 55 kb w = Some (after w (map callback (if {225, 229} \<inter> set (pressedKeys kb) \<noteq> {} then [63] else [47])))"
    using sendPress_text [of 55 kb] len by simp
  moreover have "chooseText (keyInfos ! 56) (pressedKeys kb) = Some []" "chooseText (keyInfos ! 57) (pressedKeys kb) = None"
    by (simp_all add: chooseText_modifier keyInfos_nth misplaced_rows KEY_STRUCT_def MODIFIERS_NONE_def chars_def)
  then have "sendPress 56 kb w = Some w" "sendPress 57 kb w = None" using len by (simp_all add: sendPress_def)
  ultimately show ?thesis by (simp only: misplaced_numbers)
qed

section \<open>Pressed keys\<close>

definition keysHeld :: "Keyboard \<Rightarrow> u32 set" where
  "keysHeld kb = set (pressedKeys kb) - {0}"

definition keyboard_ok :: "Keyboard \<Rightarrow> bool" where
  "keyboard_ok kb \<longleftrightarrow> length (pressedKeys kb) = 10 \<and> distinct (filter (\<lambda>k. k \<noteq> 0) (pressedKeys kb))"

lemma replaceFirst_length [simp]: "length (replaceFirst a b xs) = length xs"
  by (induction a b xs rule: replaceFirst.induct) auto

lemma replaceFirst_absent: "a \<notin> set xs \<Longrightarrow> replaceFirst a b xs = xs"
  by (induction a b xs rule: replaceFirst.induct) auto

lemma replaceFirst_zero:
  assumes "0 \<in> set xs" and "k \<noteq> 0" and "k \<notin> set xs" and "distinct (filter (\<lambda>k. k \<noteq> 0) xs)"
  shows "set (replaceFirst 0 k xs) - {0} = insert k (set xs - {0}) \<and> distinct (filter (\<lambda>k. k \<noteq> 0) (replaceFirst 0 k xs))"
  using assms
proof (induction xs)
  case (Cons x xs)
  show ?case
  proof (cases "x = 0")
    case False
    then have IH: "set (replaceFirst 0 k xs) - {0} = insert k (set xs - {0})" "distinct (filter (\<lambda>k. k \<noteq> 0) (replaceFirst 0 k xs))"
      using Cons by simp_all
    have "x \<notin> set (replaceFirst 0 k xs) - {0}" unfolding IH(1) using Cons.prems False by auto
    then show ?thesis using IH False by auto
  qed (use Cons.prems in auto)
qed simp

lemma replaceFirst_key:
  assumes "k \<noteq> 0" and "distinct (filter (\<lambda>k. k \<noteq> 0) xs)"
  shows "set (replaceFirst k 0 xs) - {0} = set xs - {0, k} \<and> distinct (filter (\<lambda>k. k \<noteq> 0) (replaceFirst k 0 xs))"
  using assms
proof (induction xs)
  case (Cons x xs)
  show ?case
  proof (cases "x = k")
    case False
    then have IH: "set (replaceFirst k 0 xs) - {0} = set xs - {0, k}" "distinct (filter (\<lambda>k. k \<noteq> 0) (replaceFirst k 0 xs))"
      using Cons by (simp_all split: if_splits)
    have "x \<notin> set (replaceFirst k 0 xs) - {0}" if "x \<noteq> 0" unfolding IH(1) using Cons.prems that by auto
    then show ?thesis using IH False by auto
  qed (use Cons.prems in auto)
qed simp

lemma zero_slot:
  assumes "keyboard_ok kb" and "card (keysHeld kb) < 10"
  shows "0 \<in> set (pressedKeys kb)"
proof (rule ccontr)
  assume no: "0 \<notin> set (pressedKeys kb)"
  then have "filter (\<lambda>k. k \<noteq> 0) (pressedKeys kb) = pressedKeys kb" by (auto simp: filter_id_conv)
  then have "distinct (pressedKeys kb)" using assms(1) by (simp add: keyboard_ok_def)
  then have "card (set (pressedKeys kb)) = 10" using assms(1) by (simp add: keyboard_ok_def distinct_card)
  then show False using assms(2) no by (simp add: keysHeld_def)
qed

lemma sendPress_returns:
  assumes "keycode \<noteq> 57" and "keycode \<noteq> 58"
  shows "\<exists>cs. sendPress keycode kb w = Some (after w cs)"
proof (cases "unat keycode < 59")
  case True
  moreover have "unat keycode \<noteq> unat (57 :: u32)" "unat keycode \<noteq> unat (58 :: u32)"
    using assms by (simp_all only: word_unat_eq_iff [symmetric] not_False_eq_True)
  ultimately have i: "unat keycode < 57" by simp
  obtain name n a b modifiers where row: "KEYS ! unat keycode = (name, n, a, b, modifiers)" by (cases "KEYS ! unat keycode") auto
  moreover have "goodRow (unat keycode, KEYS ! unat keycode)"
    using good_rows i by (simp add: list_all_length nth_enumerate_eq KEYS_length)
  ultimately have "goodRow (unat keycode, name, n, a, b, modifiers)" by simp
  then have ok: "a \<noteq> None" "modifiers \<noteq> [] \<longrightarrow> b \<noteq> None" "0 \<notin> set modifiers" using i by (auto simp: goodRow_def)
  have info: "keyInfos ! unat keycode = \<lparr>key = n, normal = a, modified = b, modifierKeys = modifiers\<rparr>"
    using i by (simp add: keyInfos_nth row KEY_STRUCT_def)
  have "chooseText (keyInfos ! unat keycode) (pressedKeys kb) \<noteq> None"
    unfolding info using ok by (subst chooseText_modifier) auto
  then show ?thesis using sendPress_text [of keycode kb] i by (auto simp: keyInfos_def KEYS_length)
next
  case False
  then have "sendPress keycode kb w = Some (after w [])" by (simp add: sendPress_def keyInfos_def KEYS_length)
  then show ?thesis ..
qed

lemma keyDown_held:
  assumes "keyboard_ok kb" and "card (keysHeld kb) < 10" and "k \<noteq> 0" and "k \<notin> keysHeld kb" and "k \<notin> {57, 58}"
  shows "\<exists>kb' w'. keyDown k (kb, w) = Some (kb', w') \<and> keyboard_ok kb' \<and> keysHeld kb' = insert k (keysHeld kb)"
proof -
  obtain cs where "sendPress k kb w = Some (after w cs)" using sendPress_returns [of k kb w] assms(5) by auto
  moreover have "set (replaceFirst 0 k (pressedKeys kb)) - {0} = insert k (keysHeld kb)" "distinct (filter (\<lambda>k. k \<noteq> 0) (replaceFirst 0 k (pressedKeys kb)))"
    using replaceFirst_zero [OF zero_slot [OF assms(1,2)] assms(3)] assms(1,3,4) by (auto simp: keyboard_ok_def keysHeld_def)
  ultimately show ?thesis using assms(1) by (simp add: keyDown_def keyboard_ok_def keysHeld_def Let_def)
qed

lemma keyUp_held:
  assumes "keyboard_ok kb" and "k \<noteq> 0"
  shows "keyboard_ok (keyUp k kb) \<and> keysHeld (keyUp k kb) = keysHeld kb - {k}"
  using replaceFirst_key [OF assms(2), of "pressedKeys kb"] assms(1) by (auto simp: keyUp_def keyboard_ok_def keysHeld_def Let_def)

text \<open>The service answers the calls of its two functions in the order they are made; other calls are not for it.\<close>

fun serve :: "Call \<Rightarrow> Keyboard \<times> World \<Rightarrow> (Keyboard \<times> World) option" where
  "serve (Ask service f keycode x) s =
     (if service = ''keyboard'' \<and> f = ''keyDown'' then keyDown keycode s
      else if service = ''keyboard'' \<and> f = ''keyUp'' then Some (keyUp keycode (fst s), snd s) else Some s)"
| "serve _ s = Some s"

lemma serve_presses:
  assumes "keyboard_ok kb" and "card (keysHeld kb) + length ks \<le> 10" and "distinct ks" and "set ks \<inter> keysHeld kb = {}" and "set ks \<inter> {0, 57, 58} = {}"
  shows "\<exists>kb' w'. ofold serve (map pressCall ks) (kb, w) = Some (kb', w') \<and> keyboard_ok kb' \<and> keysHeld kb' = keysHeld kb \<union> set ks"
  using assms
proof (induction ks arbitrary: kb w)
  case (Cons k ks)
  have k: "card (keysHeld kb) < 10" "k \<noteq> 0" "k \<notin> keysHeld kb" "k \<notin> {57, 58}" using Cons.prems by auto
  obtain kb1 w1 where 1: "keyDown k (kb, w) = Some (kb1, w1)" "keyboard_ok kb1" "keysHeld kb1 = insert k (keysHeld kb)"
    using keyDown_held [OF Cons.prems(1) k, of w] by blast
  have "card (keysHeld kb1) \<le> Suc (card (keysHeld kb))" unfolding 1(3) by (rule card_insert_le_m1) (use k(3) in \<open>simp_all add: keysHeld_def\<close>)
  then have "card (keysHeld kb1) + length ks \<le> 10" using Cons.prems(2) by simp
  then show ?case using Cons.IH [of kb1 w1] Cons.prems(3,4,5) 1 by (auto simp: pressCall_def)
qed simp

lemma serve_releases:
  assumes "keyboard_ok kb" and "0 \<notin> set ks"
  shows "\<exists>kb'. ofold serve (map releaseCall ks) (kb, w) = Some (kb', w) \<and> keyboard_ok kb' \<and> keysHeld kb' = keysHeld kb - set ks"
  using assms
proof (induction ks arbitrary: kb)
  case (Cons k ks)
  then have 1: "keyboard_ok (keyUp k kb)" "keysHeld (keyUp k kb) = keysHeld kb - {k}" using keyUp_held [of kb k] by auto
  show ?case using Cons.IH [OF 1(1)] Cons.prems(2) 1(2) by (auto simp: releaseCall_def)
qed simp



end
