(* ===== verification/Timers.thy ===== *)
theory Timers
  imports Programs
begin

text \<open>
  The interrupt controller service (\<open>userland/pic\<close>), which turns interrupts into events, and the timer service
  (\<open>userland/pit\<close>), which counts the events of the timer and lets programs sleep.
\<close>

section \<open>The interrupt controller\<close>

definition PIC1 :: u16 where "PIC1 = 0x20"
definition PIC2 :: u16 where "PIC2 = 0xA0"
definition PIC_READ_IRR :: u32 where "PIC_READ_IRR = 0x0A"
definition PIC_READ_ISR :: u32 where "PIC_READ_ISR = 0x0B"

definition eventNames :: "string list" where
  "eventNames = [''irq0'', ''irq1'', ''irq2'', ''irq3'', ''irq4'', ''irq5'', ''irq6'', ''irq7'',
     ''irq8'', ''irq9'', ''irq10'', ''irq11'', ''irq12'', ''irq13'', ''irq14'', ''irq15'']"

definition getIRR :: "World \<Rightarrow> (u16 \<times> World) option" where
  "getIRR w = do {
     w \<leftarrow> perform (IoOut PIC1 PIC_READ_IRR 1) w;
     w \<leftarrow> perform (IoOut PIC2 PIC_READ_IRR 1) w;
     (second, w) \<leftarrow> call (IoIn PIC2 1) w;
     (first, w) \<leftarrow> call (IoIn PIC1 1) w;
     Some (ucast (push_bit 8 second OR first), w)
   }"

definition getISR :: "World \<Rightarrow> (u16 \<times> World) option" where
  "getISR w = do {
     w \<leftarrow> perform (IoOut PIC1 PIC_READ_ISR 1) w;
     (first, w) \<leftarrow> call (IoIn PIC1 1) w;
     w \<leftarrow> perform (IoOut PIC2 PIC_READ_ISR 1) w;
     (second, w) \<leftarrow> call (IoIn PIC2 1) w;
     Some (ucast first OR ucast (push_bit 8 second), w)
   }"

text \<open>The loop of \<open>irqMaster\<close> over the sixteen lines, with the flag \<open>sendPic2EOI\<close>.\<close>

definition irqStep :: "u32 list \<Rightarrow> u16 \<Rightarrow> nat \<Rightarrow> bool \<times> World \<Rightarrow> (bool \<times> World) option" where
  "irqStep eventIds isr i = (\<lambda>(sendPic2EOI, w).
     if isr AND push_bit i 1 = 0 then Some (sendPic2EOI, w)
     else do {
       w \<leftarrow> perform (FireEvent (eventIds ! i) (of_nat i) 0) w;
       Some (sendPic2EOI \<or> 8 \<le> i, w)
     })"

definition irqMaster :: "u32 list \<Rightarrow> World \<Rightarrow> World option" where
  "irqMaster eventIds w = do {
     (isr, w) \<leftarrow> getISR w;
     (sendPic2EOI, w) \<leftarrow> ofold (irqStep eventIds isr) [0..<16] (False, w);
     if isr \<noteq> 0 then do {
       w \<leftarrow> perform (IoOut PIC1 0x20 1) w;
       if sendPic2EOI then perform (IoOut PIC2 0x20 1) w else Some w
     } else Some w
   }"

definition createEvents :: "nat \<Rightarrow> u32 list \<times> World \<Rightarrow> (u32 list \<times> World) option" where
  "createEvents i = (\<lambda>(eventIds, w). do {
     (event, w) \<leftarrow> call (CreateEvent (eventNames ! i)) w;
     Some (eventIds[i := event], w)
   })"

definition picMain :: "u32 list \<Rightarrow> World \<Rightarrow> (u32 list \<times> World) option" where
  "picMain eventIds w = do {
     w \<leftarrow> perform (Print ''setting up interrupt handlers for the PIC'' []) w;
     w \<leftarrow> ofold (\<lambda>i. perform (SubscribeInterrupt (of_nat i) ''irqMaster'')) [32..<48] w;
     w \<leftarrow> perform (IoOut 0x21 0 1) w;
     w \<leftarrow> perform (IoOut 0xA1 0 1) w;
     (x, w) \<leftarrow> call (IoIn 0x70 1) w;
     w \<leftarrow> perform (IoOut 0x70 (x OR 0x80) 1) w;
     w \<leftarrow> perform (IoIn 0x71 1) w;
     ofold createEvents [0..<length eventNames] (eventIds, w)
   }"

section \<open>The timer\<close>

record Timer =
  systemTime :: u32
  timer_serviceId :: u32
  timeEvent :: u32
  timer_initialized :: bool

definition interruptHandler :: "Timer \<times> World \<Rightarrow> (Timer \<times> World) option" where
  "interruptHandler = (\<lambda>(t, w). do {
     let t = t\<lparr>systemTime := systemTime t + 1\<rparr>;
     w \<leftarrow> perform (FireEvent (timeEvent t) (systemTime t) (systemTime t)) w;
     Some (t, w)
   })"

definition doSleep :: "u32 \<Rightarrow> Timer \<times> World \<Rightarrow> World option" where
  "doSleep millis = (\<lambda>(t, w). do {
     let targetTime = systemTime t + (millis - 1) div 10 + 1;
     perform (AwaitCode (timer_serviceId t) (timeEvent t) targetTime) w
   })"

definition PIT_A :: u16 where "PIT_A = 0x40"
definition PIT_CONTROL :: u16 where "PIT_CONTROL = 0x43"

definition pitMain :: "Timer \<times> World \<Rightarrow> (Timer \<times> World) option" where
  "pitMain = (\<lambda>(t, w).
     if \<not> timer_initialized t then do {
       (me, w) \<leftarrow> call GetServiceId w;
       (event, w) \<leftarrow> call (CreateEvent ''time_update'') w;
       w \<leftarrow> perform (CreateFunction ''sleep'' ''doSleep'') w;
       (service, w) \<leftarrow> call (GetService ''pic'') w;
       (irq, w) \<leftarrow> call (GetEvent service ''irq0'') w;
       w \<leftarrow> perform (SubscribeEvent service irq ''interruptHandler'') w;
       let divisor = 1193180 div (100 :: u32);
       w \<leftarrow> perform (IoOut PIT_CONTROL 0x36 1) w;
       w \<leftarrow> perform (IoOut PIT_A (ucast (ucast divisor :: u8)) 1) w;
       w \<leftarrow> perform (IoOut PIT_A (ucast (ucast (drop_bit 8 divisor) :: u8)) 1) w;
       w \<leftarrow> perform (Print ''timer handler installed'' []) w;
       Some (t\<lparr>timer_initialized := True, timer_serviceId := me, timeEvent := event\<rparr>, w)
     } else do {
       w \<leftarrow> perform (Print ''current uptime: %i.%is'' [Num (systemTime t div 100), Num (systemTime t mod 100)]) w;
       w \<leftarrow> perform (Print ''waiting one second to demonstrate sleeping'' []) w;
       w \<leftarrow> doSleep 1000 (t, w);
       Some (t, w)
     })"

section \<open>Interrupts become events\<close>

lemma irqStep_calls:
  assumes "\<forall>i \<in> set is. i < 16"
  shows "ofold (irqStep eventIds isr) is (flag, w) =
    Some (flag \<or> (\<exists>i \<in> set is. bit isr i \<and> 8 \<le> i), after w (map (\<lambda>i. FireEvent (eventIds ! i) (of_nat i) 0) [i \<leftarrow> is. bit isr i]))"
  using assms
proof (induction "is" arbitrary: flag w)
  case (Cons i "is")
  have "isr AND push_bit i 1 = 0 \<longleftrightarrow> \<not> bit isr i" using Cons.prems by (simp add: bit_iff_and_push_bit_not_eq_0)
  then show ?case using Cons by (auto simp: irqStep_def)
qed simp

text \<open>
  C31. For every value of the in-service registers, \<open>irqMaster\<close> fires exactly the events of the lines in service, in order,
  and then acknowledges the interrupt: at the first controller when any line is in service, at the second one only
  when one of its own lines is.
\<close>

theorem irqs_become_events:
  assumes "getISR w = Some (isr, w1)"
  shows "irqMaster eventIds w = Some (after w1 (map (\<lambda>i. FireEvent (eventIds ! i) (of_nat i) 0) [i \<leftarrow> [0..<16]. bit isr i] @
    (if isr = 0 then [] else [IoOut PIC1 0x20 1]) @ (if drop_bit 8 isr = 0 then [] else [IoOut PIC2 0x20 1])))"
proof -
  have "drop_bit 8 isr = 0 \<longleftrightarrow> \<not> (\<exists>i \<in> set [0..<16]. bit isr i \<and> 8 \<le> i)"
  proof
    assume high: "drop_bit 8 isr = 0"
    have "\<not> bit isr (8 + j)" for j
    proof -
      have "bit (drop_bit 8 isr) j \<longleftrightarrow> bit isr (8 + j)" by (simp add: bit_drop_bit_eq)
      then show ?thesis using high by simp
    qed
    then show "\<not> (\<exists>i \<in> set [0..<16]. bit isr i \<and> 8 \<le> i)" by (metis le_Suc_ex)
  next
    assume none: "\<not> (\<exists>i \<in> set [0..<16]. bit isr i \<and> 8 \<le> i)"
    have "\<not> bit isr (8 + j)" for j
    proof
      assume "bit isr (8 + j)"
      moreover from this have "8 + j < 16" using bit_imp_le_length [of isr "8 + j"] by simp
      ultimately show False using none by auto
    qed
    then show "drop_bit 8 isr = 0" by (intro bit_eqI) (simp add: bit_drop_bit_eq)
  qed
  moreover have "ofold (irqStep eventIds isr) [0..<16] (False, w1) =
      Some (\<exists>i \<in> set [0..<16]. bit isr i \<and> 8 \<le> i, after w1 (map (\<lambda>i. FireEvent (eventIds ! i) (of_nat i) 0) [i \<leftarrow> [0..<16]. bit isr i]))"
    by (subst irqStep_calls) simp_all
  moreover have "isr = 0 \<Longrightarrow> drop_bit 8 isr = 0" by simp
  ultimately show ?thesis using assms by (auto simp: irqMaster_def simp del: upt_rec_numeral)
qed

theorem irqs_become_events_witness:
  "\<exists>w1. irqMaster [5, 6, 7, 8, 9, 10, 11, 12, 13, 14, 15, 16, 17, 18, 19, 20] \<lparr>trace = [], answers = \<lambda>cs. if last cs = IoIn PIC2 1 then 0x10 else 1\<rparr> =
     Some (after w1 [FireEvent 5 0 0, FireEvent 17 12 0, IoOut PIC1 0x20 1, IoOut PIC2 0x20 1])"
proof -
  let ?w = "\<lparr>trace = [], answers = \<lambda>cs. if last cs = IoIn PIC2 1 then 0x10 else 1 :: u32\<rparr>"
  have "\<exists>w1. getISR ?w = Some (0x1001, w1)" by (simp add: getISR_def PIC1_def PIC2_def)
  then obtain w1 where "getISR ?w = Some (0x1001, w1)" ..
  from irqs_become_events [OF this, of "[5, 6, 7, 8, 9, 10, 11, 12, 13, 14, 15, 16, 17, 18, 19, 20]"]
  show ?thesis by (auto simp: upt_conv_Cons bit_numeral_rec)
qed

section \<open>Sleeping\<close>

lemma ticks_calls:
  "ofold (\<lambda>_. interruptHandler) [0..<n] (t, w) = Some (t\<lparr>systemTime := systemTime t + of_nat n\<rparr>,
     after w (map (\<lambda>i. FireEvent (timeEvent t) (systemTime t + of_nat (Suc i)) (systemTime t + of_nat (Suc i))) [0..<n]))"
  by (induction n) (simp_all add: ofold_append interruptHandler_def Let_def add.assoc)

definition sleepTicks :: "u32 \<Rightarrow> nat" where
  "sleepTicks millis = (if millis = 0 then 429496730 else (unat millis + 9) div 10)"

lemma sleepTicks_target: "of_nat (sleepTicks millis) = (millis - 1) div 10 + 1 \<and> 0 < sleepTicks millis \<and> sleepTicks millis < 2 ^ 32"
proof (cases "millis = 0")
  case False
  then have pos: "0 < unat millis" by (simp add: unat_gt_0)
  then have "unat (millis - 1) = unat millis - 1" by (metis False unat_minus_one)
  then have q: "unat ((millis - 1) div 10) = (unat millis - 1) div 10" by (simp add: unat_div)
  have k: "(unat millis + 9) div 10 = Suc ((unat millis - 1) div 10)" using pos by simp
  have "of_nat ((unat millis + 9) div 10) = (millis - 1) div 10 + (1 :: u32)"
    unfolding k q [symmetric] by simp
  moreover have "unat millis + 9 < 4294967296 * 10" using unat_u32_bound [of millis] by linarith
  then have "unat millis + 9 < 2 ^ 32 * 10" by simp
  then have "(unat millis + 9) div 10 < 2 ^ 32" by (rule less_mult_imp_div_less)
  ultimately show ?thesis using False pos by (simp add: sleepTicks_def)
qed (simp add: sleepTicks_def)

text \<open>
  C32. A program that sleeps waits for the code the timer fires after exactly as many ticks of ten milliseconds as cover
  the time asked for, and no tick before that fires it. Zero milliseconds, for which the subtraction wraps around, are
  429496730 ticks.
\<close>

theorem sleep_lasts:
  "\<exists>code. doSleep millis (t, w) = Some (after w [AwaitCode (timer_serviceId t) (timeEvent t) code]) \<and>
     (\<forall>n. \<exists>t' cs. ofold (\<lambda>_. interruptHandler) [0..<n] (t, w) = Some (t', after w cs) \<and>
        (FireEvent (timeEvent t) code code \<in> set cs \<longleftrightarrow> sleepTicks millis \<le> n))"
proof -
  let ?code = "systemTime t + (millis - 1) div 10 + 1"
  have "FireEvent (timeEvent t) ?code ?code \<in> set (map (\<lambda>i. FireEvent (timeEvent t) (systemTime t + of_nat (Suc i)) (systemTime t + of_nat (Suc i))) [0..<n]) \<longleftrightarrow>
      sleepTicks millis \<le> n" for n
  proof -
    have "?code = systemTime t + of_nat (Suc i) \<longleftrightarrow> of_nat (sleepTicks millis) = (of_nat (Suc i) :: u32)" for i
      using sleepTicks_target [of millis] by (simp add: add.assoc del: of_nat_Suc)
    then have "FireEvent (timeEvent t) ?code ?code \<in> set (map (\<lambda>i. FireEvent (timeEvent t) (systemTime t + of_nat (Suc i)) (systemTime t + of_nat (Suc i))) [0..<n]) \<longleftrightarrow>
        (\<exists>i < n. of_nat (sleepTicks millis) = (of_nat (Suc i) :: u32))"
      by (auto simp del: of_nat_Suc)
    also have "\<dots> \<longleftrightarrow> sleepTicks millis \<le> n"
    proof
      assume "\<exists>i < n. of_nat (sleepTicks millis) = (of_nat (Suc i) :: u32)"
      then obtain i where i: "i < n" "of_nat (sleepTicks millis) = (of_nat (Suc i) :: u32)" by blast
      show "sleepTicks millis \<le> n"
      proof (rule ccontr)
        assume "\<not> sleepTicks millis \<le> n"
        then have "sleepTicks millis = Suc i" using i sleepTicks_target [of millis] of_nat32_eq [of "sleepTicks millis" "Suc i"] by simp
        then show False using i(1) \<open>\<not> sleepTicks millis \<le> n\<close> by simp
      qed
    next
      assume "sleepTicks millis \<le> n"
      then show "\<exists>i < n. of_nat (sleepTicks millis) = (of_nat (Suc i) :: u32)"
        using sleepTicks_target [of millis] by (intro exI [of _ "sleepTicks millis - 1"]) auto
    qed
    finally show ?thesis .
  qed
  then show ?thesis unfolding ticks_calls by (simp add: doSleep_def Let_def)
qed

end
