(* ===== verification/Mouse.thy ===== *)
theory Mouse
  imports Programs
begin

text \<open>
  The mouse service (\<open>userland/mouse\<close>), which keeps the position and the buttons, and the driver of PS/2 mice
  (\<open>userland/ps2mouse\<close>), which collects packets of three bytes.
\<close>

section \<open>The mouse service\<close>

record Mouse =
  mouse_x :: u32
  mouse_y :: u32
  updateEvent :: u32
  buttons :: "bool list"
  mouse_initialized :: bool
  updated :: bool

definition moveAbsolute :: "u32 \<Rightarrow> u32 \<Rightarrow> Mouse \<times> World \<Rightarrow> (Mouse \<times> World) option" where
  "moveAbsolute newX newY = (\<lambda>(s, w). do {
     let s = s\<lparr>mouse_x := newX, mouse_y := newY\<rparr>;
     w \<leftarrow> perform (FireEvent (updateEvent s) 0 0) w;
     Some (s, w)
   })"

definition moveRelative :: "u32 \<Rightarrow> u32 \<Rightarrow> Mouse \<times> World \<Rightarrow> (Mouse \<times> World) option" where
  "moveRelative dX dY = (\<lambda>(s, w). do {
     let s = s\<lparr>mouse_x := mouse_x s + dX, mouse_y := mouse_y s + dY\<rparr>;
     w \<leftarrow> perform (FireEvent (updateEvent s) 0 0) w;
     Some (s, w)
   })"

text \<open>The arguments of a request are words; the function takes the lowest byte of both.\<close>

definition updateButton :: "u32 \<Rightarrow> u32 \<Rightarrow> Mouse \<times> World \<Rightarrow> (Mouse \<times> World) option" where
  "updateButton argument newState = (\<lambda>(s, w). do {
     let button = (ucast argument :: u8);
     if 5 < button \<or> button = 0 then Some (s, w)
     else do {
       let s = s\<lparr>buttons := (buttons s)[unat (button - 1) := ((ucast newState :: u8) \<noteq> 0)]\<rparr>;
       w \<leftarrow> perform (FireEvent (updateEvent s) 0 0) w;
       Some (s, w)
     }
   })"

definition onUpdate :: "Mouse \<Rightarrow> Mouse" where
  "onUpdate s = s\<lparr>updated := True\<rparr>"

definition mouseInitialize :: "Mouse \<times> World \<Rightarrow> (Mouse \<times> World) option" where
  "mouseInitialize = (\<lambda>(s, w). do {
     w \<leftarrow> perform (CreateFunction ''moveAbsolute'' ''moveAbsolute'') w;
     w \<leftarrow> perform (CreateFunction ''moveRelative'' ''moveRelative'') w;
     w \<leftarrow> perform (CreateFunction ''updateButton'' ''updateButton'') w;
     (event, w) \<leftarrow> call (CreateEvent ''update'') w;
     Some (s\<lparr>mouse_initialized := True, updateEvent := event\<rparr>, w)
   })"

text \<open>One round of the endless loop of \<open>main\<close>, and the start of \<open>main\<close> before it; the flag says that the loop is entered.\<close>

definition mouseRound :: "Mouse \<times> World \<Rightarrow> (Mouse \<times> World) option" where
  "mouseRound = (\<lambda>(s, w). do {
     let bits = (\<lambda>i. Num (of_bool (buttons s ! i)));
     (s, w) \<leftarrow> (if updated s then do {
         w \<leftarrow> perform (Print ''mouse info: x: %i, y: %i, buttons: %i %i %i         '' [Num (mouse_x s), Num (mouse_y s), bits 0, bits 1, bits 2]) w;
         Some (s\<lparr>updated := False\<rparr>, w)
       } else Some (s, w));
     w \<leftarrow> perform (Sleep 200) w;
     Some (s, w)
   })"

definition mouseMain :: "Mouse \<times> World \<Rightarrow> (bool \<times> Mouse \<times> World) option" where
  "mouseMain = (\<lambda>(s, w). do {
     (s, w) \<leftarrow> (if mouse_initialized s then Some (s, w) else mouseInitialize (s, w));
     (focus, w) \<leftarrow> call CheckFocus w;
     if focus = 0 then Some (False, s, w)
     else do {
       (me, w) \<leftarrow> call GetServiceId w;
       w \<leftarrow> perform (Print ''service: %i, event: %i'' [Num me, Num (updateEvent s)]) w;
       w \<leftarrow> perform (SubscribeEvent me (updateEvent s) ''onUpdate'') w;
       Some (True, s, w)
     }
   })"

section \<open>PS/2 mice\<close>

record Status =
  button1 :: bool
  button2 :: bool
  button3 :: bool
  one :: bool
  xSign :: bool
  ySign :: bool
  xOverflow :: bool
  yOverflow :: bool

definition statusOf :: "u8 \<Rightarrow> Status" where
  "statusOf b = \<lparr>button1 = bit b 0, button2 = bit b 1, button3 = bit b 2, one = bit b 3, xSign = bit b 4, ySign = bit b 5,
     xOverflow = bit b 6, yOverflow = bit b 7\<rparr>"

text \<open>The arrays have sixteen entries, the buffers five bytes.\<close>

record Ps2Mouse =
  deviceTypes :: "nat \<Rightarrow> u32"
  deviceBuffer :: "nat \<Rightarrow> nat \<Rightarrow> u8"
  deviceBufferPositions :: "nat \<Rightarrow> u8"

definition onMove :: "u8 \<Rightarrow> Ps2Mouse \<times> World \<Rightarrow> (Ps2Mouse \<times> World) option" where
  "onMove device = (\<lambda>(s, w). do {
     (answer, w) \<leftarrow> call (Ask ''ps2'' ''read'' 0 0) w;
     let d = unat device;
     p \<leftarrow> aget 16 (deviceBufferPositions s) d;
     buffer \<leftarrow> aset 5 (deviceBuffer s d) (unat p) (ucast answer);
     let s = s\<lparr>deviceBuffer := (deviceBuffer s)(d := buffer), deviceBufferPositions := (deviceBufferPositions s)(d := p + 1)\<rparr>;
     if p + 1 = 3 then do {
       let s = s\<lparr>deviceBufferPositions := (deviceBufferPositions s)(d := 0)\<rparr>;
       let status = statusOf (buffer 0);
       w \<leftarrow> perform (Ask ''mouse'' ''updateButton'' 1 (of_bool (button1 status))) w;
       w \<leftarrow> perform (Ask ''mouse'' ''updateButton'' 2 (of_bool (button2 status))) w;
       w \<leftarrow> perform (Ask ''mouse'' ''updateButton'' 3 (of_bool (button3 status))) w;
       let dx = ucast (buffer 2) - push_bit 8 (of_bool (xSign status));
       let dy = ucast (buffer 1) - push_bit 8 (of_bool (ySign status));
       w \<leftarrow> perform (Ask ''mouse'' ''moveRelative'' dx dy) w;
       Some (s, w)
     } else Some (s, w)
   })"

definition ps2mouseRegister :: "u32 \<Rightarrow> u32 \<Rightarrow> Ps2Mouse \<times> World \<Rightarrow> (Ps2Mouse \<times> World) option" where
  "ps2mouseRegister deviceType event = (\<lambda>(s, w). do {
     (pic, w) \<leftarrow> call (GetService ''pic'') w;
     w \<leftarrow> perform (SubscribeEvent pic event ''onMove'') w;
     types \<leftarrow> aset 16 (deviceTypes s) (unat event) deviceType;
     Some (s\<lparr>deviceTypes := types\<rparr>, w)
   })"

definition ps2mouseMain :: "World \<Rightarrow> World option" where
  "ps2mouseMain w = perform (CreateFunction ''register'' ''doRegister'') w"

section \<open>Packets\<close>

definition packetCalls :: "u8 \<Rightarrow> u8 \<Rightarrow> u8 \<Rightarrow> Call list" where
  "packetCalls status b1 b2 =
     [Ask ''mouse'' ''updateButton'' 1 (of_bool (bit status 0)), Ask ''mouse'' ''updateButton'' 2 (of_bool (bit status 1)),
      Ask ''mouse'' ''updateButton'' 3 (of_bool (bit status 2)),
      Ask ''mouse'' ''moveRelative'' (word_of_int (uint b2 - (if bit status 4 then 256 else 0)))
        (word_of_int (uint b1 - (if bit status 5 then 256 else 0)))]"

lemma nine_bits: "ucast b - push_bit 8 (of_bool c) = (word_of_int (uint b - (if c then 256 else 0)) :: u32)" for b :: u8
  by (simp add: word_of_int_uint of_int_uint)

lemma byte_of_word [simp]: "(ucast (ucast (b :: u8) :: u32) :: u8) = b"
  by (rule ucast_up_ucast_id) (simp add: is_up)

lemma three_times: "replicate 3 c = [c, c, c]"
  by (simp add: numeral_3_eq_3)

text \<open>
  Three interrupts of a device whose packet starts are one packet: the states of the three buttons and one movement,
  whose parts are nine-bit numbers with the sign in the status byte, and the next packet starts. \<open>bytes\<close> are what the
  controller answers. The horizontal movement is taken from the third byte.
\<close>

theorem packet_moves_mouse:
  assumes "device < 16" and "deviceBufferPositions s (unat device) = 0"
    and "answers w = (\<lambda>cs. ucast (bytes (length cs - length (trace w) - 1)))"
  shows "\<exists>s'. ofold (\<lambda>_. onMove device) [0..<3] (s, w) = Some (s', after w (replicate 3 (Ask ''ps2'' ''read'' 0 0) @ packetCalls (bytes 0) (bytes 1) (bytes 2))) \<and>
    deviceBufferPositions s' (unat device) = 0 \<and>
    (\<forall>d. d \<noteq> unat device \<longrightarrow> deviceBuffer s' d = deviceBuffer s d \<and> deviceBufferPositions s' d = deviceBufferPositions s d)"
proof -
  have d: "unat device < 16" using assms(1) by (simp add: word_less_nat_alt)
  show ?thesis
    using d assms(2) unfolding packetCalls_def nine_bits [symmetric]
    by (simp add: upt_conv_Cons numeral_3_eq_3 onMove_def statusOf_def assms(3) Let_def)
qed

theorem packet_moves_mouse_witness:
  "\<exists>s'. ofold (\<lambda>_. onMove 12) [0..<3] (\<lparr>deviceTypes = \<lambda>_. 0, deviceBuffer = \<lambda>_ _. 0, deviceBufferPositions = \<lambda>_. 0\<rparr>,
       \<lparr>trace = [], answers = \<lambda>cs. ucast ([0x19, 3, 0xFE] ! (length cs - 1) :: u8)\<rparr>) =
     Some (s', \<lparr>trace = [Ask ''ps2'' ''read'' 0 0, Ask ''ps2'' ''read'' 0 0, Ask ''ps2'' ''read'' 0 0,
       Ask ''mouse'' ''updateButton'' 1 1, Ask ''mouse'' ''updateButton'' 2 0, Ask ''mouse'' ''updateButton'' 3 0,
       Ask ''mouse'' ''moveRelative'' 0xFFFFFFFE 3], answers = \<lambda>cs. ucast ([0x19, 3, 0xFE] ! (length cs - 1) :: u8)\<rparr>)"
  using packet_moves_mouse [of 12 "\<lparr>deviceTypes = \<lambda>_. 0, deviceBuffer = \<lambda>_ _. 0, deviceBufferPositions = \<lambda>_. 0\<rparr>"
      "\<lparr>trace = [], answers = \<lambda>cs. ucast ([0x19, 3, 0xFE] ! (length cs - 1) :: u8)\<rparr>" "\<lambda>i. [0x19, 3, 0xFE] ! i"]
  by (auto simp: after_def packetCalls_def three_times bit_numeral_rec simp del: upt_rec_numeral)

end
