(* ===== verification/Vga.thy ===== *)
theory Vga
  imports Programs
begin

text \<open>
  The text screen (\<open>userland/vga\<close>): 25 lines of 80 characters in the first 2000 of the 4096 half-words of video memory
  the service maps, and the position of the cursor.
\<close>

definition COLOR :: "u8 \<Rightarrow> u8 \<Rightarrow> u8" where
  "COLOR foreground background = foreground OR push_bit 4 background"

definition black :: u8 where "black = 0"
definition white :: u8 where "white = 15"

definition WIDTH :: nat where "WIDTH = 80"
definition HEIGHT :: nat where "HEIGHT = 25"

definition setCursorOffset :: "u16 \<Rightarrow> World \<Rightarrow> World option" where
  "setCursorOffset offset w = do {
     w \<leftarrow> perform (IoOut 0x3D4 0x0F 1) w;
     w \<leftarrow> perform (IoOut 0x3D5 (ucast (ucast (offset AND 0xFF) :: u8)) 1) w;
     w \<leftarrow> perform (IoOut 0x3D4 0x0E 1) w;
     perform (IoOut 0x3D5 (ucast (ucast (drop_bit 8 offset AND 0xFF) :: u8)) 1) w
   }"

record Screen =
  videoSource :: "nat \<Rightarrow> u16"
  offset :: u32

definition setVideo :: "Screen \<Rightarrow> nat \<Rightarrow> u16 \<Rightarrow> Screen option" where
  "setVideo s i v = map_option (\<lambda>video. s\<lparr>videoSource := video\<rparr>) (aset 4096 (videoSource s) i v)"

text \<open>A character is a signed byte: one with the highest bit set also sets all bits of the colour.\<close>

definition cell :: "u8 \<Rightarrow> u8 \<Rightarrow> u16" where
  "cell character colorCode = push_bit 8 (scast colorCode) OR scast character"

definition writeChar :: "u8 \<Rightarrow> u8 \<Rightarrow> Screen \<times> World \<Rightarrow> (Screen \<times> World) option" where
  "writeChar character colorCode = (\<lambda>(s, w). do {
     s \<leftarrow> setVideo s (unat (offset s)) (cell character colorCode);
     let s = s\<lparr>offset := offset s + 1\<rparr>;
     w \<leftarrow> setCursorOffset (ucast (offset s)) w;
     Some (s, w)
   })"

definition scrollLine :: "nat \<Rightarrow> Screen \<Rightarrow> Screen option" where
  "scrollLine y = ofold (\<lambda>x s. setVideo s (x + (y - 1) * WIDTH) (videoSource s (x + y * WIDTH))) [0..<WIDTH]"

definition scrollUp :: "Screen \<Rightarrow> Screen option" where
  "scrollUp s = do {
     s \<leftarrow> ofold scrollLine [1..<HEIGHT] s;
     ofold (\<lambda>x s. setVideo s (x + (HEIGHT - 1) * WIDTH) 0) [0..<WIDTH] s
   }"

definition vgaWrite :: "u8 \<Rightarrow> Screen \<times> World \<Rightarrow> (Screen \<times> World) option" where
  "vgaWrite c = (\<lambda>(s, w).
     if c = 13 then do {
       let s = s\<lparr>offset := (offset s div of_nat WIDTH) * of_nat WIDTH\<rparr>;
       w \<leftarrow> setCursorOffset (ucast (offset s)) w;
       Some (s, w)
     }
     else if c = 10 then do {
       let s = s\<lparr>offset := (offset s div of_nat WIDTH + 1) * of_nat WIDTH\<rparr>;
       s \<leftarrow> (if offset s div of_nat WIDTH \<ge> of_nat HEIGHT then scrollUp (s\<lparr>offset := offset s - of_nat WIDTH\<rparr>) else Some s);
       w \<leftarrow> setCursorOffset (ucast (offset s)) w;
       Some (s, w)
     }
     else if c = 8 then do {
       let s = s\<lparr>offset := offset s - 1\<rparr>;
       s \<leftarrow> setVideo s (unat (offset s)) (cell 32 (COLOR white black));
       w \<leftarrow> setCursorOffset (ucast (offset s)) w;
       Some (s, w)
     }
     else writeChar c (COLOR white black) (s, w))"

text \<open>\<open>contents\<close> is what the system puts into the buffer for a string; the buffer is not freed.\<close>

definition writeBulk :: "(u32 \<Rightarrow> nat \<Rightarrow> u8) \<Rightarrow> u32 \<Rightarrow> Screen \<times> World \<Rightarrow> (Screen \<times> World) option" where
  "writeBulk contents stringId = (\<lambda>(s, w). do {
     (length, w) \<leftarrow> call (GetStringLength stringId) w;
     ofold (\<lambda>i. vgaWrite (contents stringId i)) [0..<unat length] (s, w)
   })"

text \<open>The video memory is at the address the system answers; the screen keeps what it shows.\<close>

definition vgaMain :: "World \<Rightarrow> World option" where
  "vgaMain w = do {
     w \<leftarrow> perform (RequestMemory 2 0 0xB8000) w;
     w \<leftarrow> perform (CreateFunction ''writeChar'' ''write'') w;
     perform (CreateFunction ''writeBulk'' ''writeBulk'') w
   }"

section \<open>Scrolling\<close>

lemma setVideo_in: "i < 4096 \<Longrightarrow> setVideo s i v = Some (s\<lparr>videoSource := (videoSource s)(i := v)\<rparr>)"
  by (simp add: setVideo_def)

lemma copyCells:
  assumes "a + n \<le> b" and "b + n \<le> 4096"
  shows "ofold (\<lambda>x s. setVideo s (x + a) (videoSource s (x + b))) [0..<n] s =
    Some (s\<lparr>videoSource := (\<lambda>i. if a \<le> i \<and> i < a + n then videoSource s (i - a + b) else videoSource s i)\<rparr>)"
  using assms
proof (induction n)
  case (Suc n)
  then have IH: "ofold (\<lambda>x s. setVideo s (x + a) (videoSource s (x + b))) [0..<n] s =
    Some (s\<lparr>videoSource := (\<lambda>i. if a \<le> i \<and> i < a + n then videoSource s (i - a + b) else videoSource s i)\<rparr>)" by simp
  have "n + a < 4096" "\<not> (a \<le> n + b \<and> n + b < a + n)" using Suc.prems by auto
  then show ?case by (auto simp: ofold_append IH setVideo_in fun_eq_iff intro!: arg_cong [of _ _ Some] Screen.equality)
qed (auto simp: fun_eq_iff intro!: Screen.equality)

lemma clearCells:
  assumes "a + n \<le> 4096"
  shows "ofold (\<lambda>x s. setVideo s (x + a) 0) [0..<n] s =
    Some (s\<lparr>videoSource := (\<lambda>i. if a \<le> i \<and> i < a + n then 0 else videoSource s i)\<rparr>)"
  using assms
proof (induction n)
  case (Suc n)
  then show ?case by (auto simp: ofold_append setVideo_in fun_eq_iff intro!: arg_cong [of _ _ Some] Screen.equality)
qed (auto simp: fun_eq_iff intro!: Screen.equality)

lemma scrollUp_lines:
  "scrollUp s = Some (s\<lparr>videoSource := (\<lambda>i. if i < 1920 then videoSource s (i + 80) else if i < 2000 then 0 else videoSource s i)\<rparr>)"
proof -
  have lines: "ofold scrollLine [1..<Suc k] s = Some (s\<lparr>videoSource := (\<lambda>i. if i < 80 * k then videoSource s (i + 80) else videoSource s i)\<rparr>)"
    if "k \<le> 24" for k
    using that
  proof (induction k)
    case (Suc k)
    have "scrollLine (Suc k) s = Some (s\<lparr>videoSource := (\<lambda>i. if k * 80 \<le> i \<and> i < k * 80 + 80 then videoSource s (i - k * 80 + Suc k * 80) else videoSource s i)\<rparr>)" for s
      using copyCells [of "k * 80" 80 "Suc k * 80" s] Suc.prems by (simp add: scrollLine_def WIDTH_def)
    with Suc show ?case by (auto simp: ofold_append fun_eq_iff intro!: Screen.equality)
  qed simp
  have "ofold (\<lambda>x s. setVideo s (x + 1920) 0) [0..<80] s = Some (s\<lparr>videoSource := (\<lambda>i. if 1920 \<le> i \<and> i < 2000 then 0 else videoSource s i)\<rparr>)" for s
    using clearCells [of 1920 80 s] by simp
  moreover have "ofold scrollLine [1..<25] s = Some (s\<lparr>videoSource := (\<lambda>i. if i < 1920 then videoSource s (i + 80) else videoSource s i)\<rparr>)"
    using lines [of 24] by simp
  ultimately show ?thesis by (auto simp: scrollUp_def WIDTH_def HEIGHT_def fun_eq_iff intro!: Screen.equality)
qed

definition cursorCalls :: "u16 \<Rightarrow> Call list" where
  "cursorCalls p = [IoOut 0x3D4 0x0F 1, IoOut 0x3D5 (ucast (ucast (p AND 0xFF) :: u8)) 1, IoOut 0x3D4 0x0E 1,
     IoOut 0x3D5 (ucast (ucast (drop_bit 8 p AND 0xFF) :: u8)) 1]"

lemma setCursorOffset_calls: "setCursorOffset p w = Some (after w (cursorCalls p))"
  by (simp add: setCursorOffset_def cursorCalls_def)

text \<open>
  A line feed with the cursor on the screen puts the cursor at the start of the next line. On the last line it stays
  there, every line moves up by one, and the last line is empty. Video memory behind the screen is left alone.
\<close>

theorem newline_scrolls:
  assumes "unat (offset s) < 2000"
  shows "\<exists>s'. vgaWrite 10 (s, w) = Some (s', after w (cursorCalls (ucast (offset s')))) \<and>
    unat (offset s') = min (unat (offset s) div 80 + 1) 24 * 80 \<and>
    (\<forall>i. videoSource s' i = (if unat (offset s) < 1920 \<or> 2000 \<le> i then videoSource s i
      else if i < 1920 then videoSource s (i + 80) else 0))"
proof -
  let ?line = "offset s div 80 + 1"
  have q: "unat (offset s div 80) = unat (offset s) div 80" "unat (offset s) div 80 < 25" using assms by (simp_all add: unat_div)
  have line: "unat ?line = unat (offset s) div 80 + 1" using q by (simp add: unat_word_ariths)
  have o: "unat (?line * 80) = (unat (offset s) div 80 + 1) * 80"
    using unat_mult_lem [of ?line 80] line q(2) by simp
  then have d: "unat (?line * 80 div 80) = unat (offset s) div 80 + 1" by (simp add: unat_div)
  show ?thesis
  proof (cases "unat (offset s) < 1920")
    case True
    then have lt: "unat (offset s) div 80 < 24" by simp
    then have "\<not> 25 \<le> ?line * 80 div 80" using d by (simp add: word_le_nat_alt)
    then show ?thesis using True lt o by (simp add: vgaWrite_def WIDTH_def HEIGHT_def setCursorOffset_calls Let_def)
  next
    case False
    then have eq: "unat (offset s) div 80 = 24" using q(2) by simp
    then have "25 \<le> ?line * 80 div 80" using d by (simp add: word_le_nat_alt)
    moreover have "?line * 80 = 2000" using o eq by (simp only: word_unat_eq_iff) simp
    then have "?line * 80 - 80 = 1920" by simp
    ultimately show ?thesis using False eq by (simp add: vgaWrite_def WIDTH_def HEIGHT_def setCursorOffset_calls scrollUp_lines Let_def)
  qed
qed

theorem newline_scrolls_witness:
  "\<exists>s'. vgaWrite 10 (\<lparr>videoSource = (\<lambda>i. of_nat i), offset = 1925\<rparr>, \<lparr>trace = [], answers = \<lambda>_. 0\<rparr>) =
     Some (s', after \<lparr>trace = [], answers = \<lambda>_. 0\<rparr> (cursorCalls 1920)) \<and> videoSource s' 0 = 80 \<and> videoSource s' 1925 = 0"
proof -
  let ?s = "\<lparr>videoSource = (\<lambda>i. of_nat i), offset = 1925\<rparr>" and ?w = "\<lparr>trace = [], answers = \<lambda>_. 0 :: u32\<rparr>"
  from newline_scrolls [of ?s ?w]
  obtain s' where s': "vgaWrite 10 (?s, ?w) = Some (s', after ?w (cursorCalls (ucast (offset s'))))" "unat (offset s') = 1920"
    "videoSource s' 0 = 80" "videoSource s' 1925 = 0" by auto
  have "offset s' = 1920" using s'(2) by (simp only: word_unat_eq_iff) simp
  then show ?thesis using s' by (intro exI [of _ s']) simp
qed

section \<open>Characters\<close>

definition printable :: "u8 \<Rightarrow> bool" where
  "printable c \<longleftrightarrow> c \<notin> {8, 10, 13}"

text \<open>
  Printable characters go to the cells from the cursor on. Nothing stops them at the end of the screen: as long as
  there is video memory behind it they are stored there, where nothing shows them, and then the service writes
  outside of its memory. The same happens in front of it, with a backspace at the first cell.
\<close>

theorem text_leaves_screen:
  assumes "list_all printable cs" and "unat (offset s) + length cs \<le> 4096" and "printable c"
  shows "\<exists>s' w'. ofold vgaWrite cs (s, w) = Some (s', w') \<and> unat (offset s') = unat (offset s) + length cs \<and>
    (\<forall>i. videoSource s' i = (if unat (offset s) \<le> i \<and> i < unat (offset s) + length cs
      then cell (cs ! (i - unat (offset s))) 15 else videoSource s i)) \<and>
    (unat (offset s') = 4096 \<longrightarrow> vgaWrite c (s', w') = None) \<and> (offset s = 0 \<longrightarrow> vgaWrite 8 (s, w) = None)"
proof -
  have step: "vgaWrite c (s, w) = Some (s\<lparr>videoSource := (videoSource s)(unat (offset s) := cell c 15), offset := offset s + 1\<rparr>,
      after w (cursorCalls (ucast (offset s + 1))))" if "printable c" "unat (offset s) < 4096" for c s w
    using that by (simp add: vgaWrite_def printable_def writeChar_def COLOR_def white_def black_def setVideo_in setCursorOffset_calls Let_def)
  have "\<exists>s' w'. ofold vgaWrite cs (s, w) = Some (s', w') \<and> unat (offset s') = unat (offset s) + length cs \<and>
      (\<forall>i. videoSource s' i = (if unat (offset s) \<le> i \<and> i < unat (offset s) + length cs
        then cell (cs ! (i - unat (offset s))) 15 else videoSource s i))"
    using assms(1,2)
  proof (induction cs arbitrary: s w)
    case (Cons c cs)
    let ?s = "s\<lparr>videoSource := (videoSource s)(unat (offset s) := cell c 15), offset := offset s + 1\<rparr>"
    have following: "unat (offset s + 1) = Suc (unat (offset s))" using Cons.prems(2) by (simp add: unat_word_ariths)
    have "\<exists>s' w'. ofold vgaWrite cs (?s, after w (cursorCalls (ucast (offset s + 1)))) = Some (s', w') \<and> unat (offset s') = unat (offset ?s) + length cs \<and>
      (\<forall>i. videoSource s' i = (if unat (offset ?s) \<le> i \<and> i < unat (offset ?s) + length cs
        then cell (cs ! (i - unat (offset ?s))) 15 else videoSource ?s i))"
      using Cons.prems following by (intro Cons.IH) simp_all
    moreover have "vgaWrite c (s, w) = Some (?s, after w (cursorCalls (ucast (offset s + 1))))" using Cons.prems by (intro step) simp_all
    ultimately show ?case using following by (fastforce simp: nth_Cons' split: if_splits)
  qed auto
  moreover have "vgaWrite c (s', w') = None" if "unat (offset s') = 4096" for s' w'
    using assms(3) that by (simp add: vgaWrite_def printable_def writeChar_def setVideo_def aset_def)
  moreover have "unat (- 1 :: u32) = 4294967295" by (simp add: unsigned_minus_1_eq_mask mask_eq_exp_minus_1)
  then have "vgaWrite 8 (s, w) = None" if "offset s = 0"
    using that by (simp add: vgaWrite_def setVideo_def aset_def Let_def)
  ultimately show ?thesis by blast
qed

theorem text_leaves_screen_witness:
  "\<exists>s' w'. ofold vgaWrite [72, 105] (\<lparr>videoSource = (\<lambda>_. 0), offset = 1999\<rparr>, \<lparr>trace = [], answers = \<lambda>_. 0\<rparr>) = Some (s', w') \<and>
     unat (offset s') = 2001 \<and> videoSource s' 2000 = 0x0F69"
  using text_leaves_screen [of "[72, 105]" "\<lparr>videoSource = (\<lambda>_. 0), offset = 1999\<rparr>" 32 "\<lparr>trace = [], answers = \<lambda>_. 0\<rparr>"]
  by (auto simp: printable_def cell_def)

end
