(* ===== verification/Pci.thy ===== *)
theory Pci
  imports Programs
begin

text \<open>
  The service for the PCI bus (\<open>userland/lspci\<close>): reading and writing configuration space through two ports, the search
  for devices, which follows bridges to further buses, and the functions other services use. Devices are numbered in
  the order they are found.
\<close>

section \<open>Configuration space\<close>

record PciDevice =
  pci_id :: u32
  pci_bus :: u8
  pci_device :: u8
  pci_function :: u8
  pci_class :: u8
  pci_subclass :: u8
  configuration :: u16
  pci_deviceId :: u16
  vendorId :: u16
  programmingInterface :: u16
  bar :: "u32 list"

definition pciConfigRead :: "u32 \<Rightarrow> u32 \<Rightarrow> u32 \<Rightarrow> u8 \<Rightarrow> World \<Rightarrow> (u32 \<times> World) option" where
  "pciConfigRead bus dev fn offset w = do {
     let address = push_bit 16 bus OR push_bit 11 dev OR push_bit 8 fn OR ucast (offset AND 0xFC) OR 0x80000000;
     w \<leftarrow> perform (IoOut 0xCF8 address 4) w;
     (x, w) \<leftarrow> call (IoIn 0xCFC 4) w;
     Some (drop_bit (unat (offset mod 4) * 8) x, w)
   }"

definition pciConfigWriteByte :: "u32 \<Rightarrow> u32 \<Rightarrow> u32 \<Rightarrow> u8 \<Rightarrow> u32 \<Rightarrow> World \<Rightarrow> World option" where
  "pciConfigWriteByte bus dev fn offset data w = do {
     let address = push_bit 16 bus OR push_bit 11 dev OR push_bit 8 fn OR ucast offset OR 0x80000000;
     w \<leftarrow> perform (IoOut 0xCF8 address 4) w;
     perform (IoOut 0xCFC data 2) w
   }"

definition pciConfigWriteWord :: "u8 \<Rightarrow> u8 \<Rightarrow> u8 \<Rightarrow> u8 \<Rightarrow> u16 \<Rightarrow> World \<Rightarrow> World option" where
  "pciConfigWriteWord bus dev fn offset data w = do {
     w \<leftarrow> pciConfigWriteByte (ucast bus) (ucast dev) (ucast fn) offset (ucast (ucast data :: u8)) w;
     pciConfigWriteByte (ucast bus) (ucast dev) (ucast fn) (offset + 1) (ucast (ucast (drop_bit 8 data) :: u8)) w
   }"

text \<open>The macros \<open>READ\<close>, \<open>READ16\<close>, \<open>READ8\<close> and \<open>VENDOR_ID\<close>.\<close>

definition READ :: "u8 \<Rightarrow> u8 \<Rightarrow> u8 \<Rightarrow> u8 \<Rightarrow> World \<Rightarrow> (u32 \<times> World) option" where
  "READ bus dev fn offset w = pciConfigRead (ucast bus) (ucast dev) (ucast fn) offset w"

definition READ16 :: "u8 \<Rightarrow> u8 \<Rightarrow> u8 \<Rightarrow> u8 \<Rightarrow> World \<Rightarrow> (u32 \<times> World) option" where
  "READ16 bus dev fn offset w = map_option (\<lambda>(x, w). (x AND 0xFFFF, w)) (READ bus dev fn offset w)"

definition READ8 :: "u8 \<Rightarrow> u8 \<Rightarrow> u8 \<Rightarrow> u8 \<Rightarrow> World \<Rightarrow> (u32 \<times> World) option" where
  "READ8 bus dev fn offset w = map_option (\<lambda>(x, w). (x AND 0xFF, w)) (READ bus dev fn offset w)"

definition VENDOR_ID :: "u8 \<Rightarrow> u8 \<Rightarrow> u8 \<Rightarrow> World \<Rightarrow> (u32 \<times> World) option" where
  "VENDOR_ID bus dev fn w = READ16 bus dev fn 0 w"

section \<open>The search for devices\<close>

record Pci =
  checkedBuses :: "u8 \<Rightarrow> bool"
  deviceCount :: u32
  pciDevices :: "PciDevice list"
  pci_initialized :: bool

fun readBars :: "u8 \<Rightarrow> u8 \<Rightarrow> u8 \<Rightarrow> nat list \<Rightarrow> World \<Rightarrow> (u32 list \<times> World) option" where
  "readBars bus dev fn [] w = Some ([], w)"
| "readBars bus dev fn (i # is) w = do {
     (x, w) \<leftarrow> READ bus dev fn (0x10 + 4 * of_nat i) w;
     (xs, w) \<leftarrow> readBars bus dev fn is w;
     Some (x # xs, w)
   }"

text \<open>\<open>check\<close> is \<open>checkBus\<close>, which is called for the bus behind a bridge.\<close>

definition checkFunction :: "(u8 \<Rightarrow> Pci \<times> World \<Rightarrow> (Pci \<times> World) option) \<Rightarrow> u8 \<Rightarrow> u8 \<Rightarrow> u8 \<Rightarrow> Pci \<times> World \<Rightarrow> (Pci \<times> World) option" where
  "checkFunction check bus dev fn = (\<lambda>(s, w). do {
     (x, w) \<leftarrow> READ8 bus dev fn 0xB w;
     let class = (ucast x :: u8);
     if class = 0 \<or> class = 0xFF then Some (s, w)
     else do {
       (vendor, w) \<leftarrow> READ16 bus dev fn 0x00 w;
       (device, w) \<leftarrow> READ16 bus dev fn 0x02 w;
       (config, w) \<leftarrow> READ16 bus dev fn 0x04 w;
       (interface, w) \<leftarrow> READ8 bus dev fn 0x09 w;
       (subclass, w) \<leftarrow> READ8 bus dev fn 0x0A w;
       (bars, w) \<leftarrow> readBars bus dev fn [0..<6] w;
       let pciDevice = \<lparr>pci_id = of_nat (length (pciDevices s)), pci_bus = bus, pci_device = dev, pci_function = fn, pci_class = class,
         pci_subclass = ucast subclass, configuration = ucast config, pci_deviceId = ucast device, vendorId = ucast vendor,
         programmingInterface = ucast interface, bar = bars\<rparr>;
       let s = s\<lparr>pciDevices := pciDevices s @ [pciDevice]\<rparr>;
       if class = 6 \<and> pci_subclass pciDevice = 4 then do {
         (secondary, w) \<leftarrow> READ8 bus dev fn 0x19 w;
         check (ucast secondary) (s, w)
       } else Some (s, w)
     }
   })"

definition checkPresent :: "(u8 \<Rightarrow> Pci \<times> World \<Rightarrow> (Pci \<times> World) option) \<Rightarrow> u8 \<Rightarrow> u8 \<Rightarrow> nat \<Rightarrow> Pci \<times> World \<Rightarrow> (Pci \<times> World) option" where
  "checkPresent check bus dev fn = (\<lambda>(s, w). do {
     (vendor, w) \<leftarrow> VENDOR_ID bus dev (of_nat fn) w;
     if vendor \<noteq> 0xFFFF then checkFunction check bus dev (of_nat fn) (s, w) else Some (s, w)
   })"

definition checkDevice :: "(u8 \<Rightarrow> Pci \<times> World \<Rightarrow> (Pci \<times> World) option) \<Rightarrow> u8 \<Rightarrow> nat \<Rightarrow> Pci \<times> World \<Rightarrow> (Pci \<times> World) option" where
  "checkDevice check bus d = (\<lambda>(s, w). do {
     let dev = of_nat d;
     (vendor, w) \<leftarrow> VENDOR_ID bus dev 0 w;
     if vendor = 0xFFFF then Some (s, w)
     else do {
       (header, w) \<leftarrow> READ8 bus dev 0 0x0E w;
       if header AND 0x80 \<noteq> 0 then ofold (checkPresent check bus dev) [0..<8] (s, w)
       else checkFunction check bus dev 0 (s, w)
     }
   })"

text \<open>The depth of the recursion is bounded by the first argument; 257 is always enough.\<close>

fun checkBus :: "nat \<Rightarrow> u8 \<Rightarrow> Pci \<times> World \<Rightarrow> (Pci \<times> World) option" where
  "checkBus 0 bus sw = None"
| "checkBus (Suc depth) bus (s, w) =
     (if checkedBuses s bus then Some (s, w)
      else ofold (checkDevice (checkBus depth) bus) [0..<32] (s\<lparr>checkedBuses := (checkedBuses s)(bus := True)\<rparr>, w))"

definition initializePci :: "Pci \<times> World \<Rightarrow> (Pci \<times> World) option" where
  "initializePci = (\<lambda>(s, w). do {
     w \<leftarrow> perform (CreateFunction ''getDeviceClass'' ''getDeviceClass'') w;
     w \<leftarrow> perform (CreateFunction ''getBaseAddress'' ''getBaseAddress'') w;
     w \<leftarrow> perform (CreateFunction ''enableBusMaster'' ''enableBusMaster'') w;
     w \<leftarrow> perform (CreateFunction ''getInterrupt'' ''getPCIInterrupt'') w;
     w \<leftarrow> perform (CreateFunction ''dump'' ''dump'') w;
     w \<leftarrow> perform (CreateFunction ''dumpAll'' ''dumpAll'') w;
     (header, w) \<leftarrow> pciConfigRead 0 0 0 0x0E w;
     (s, w) \<leftarrow> (if header AND 0x80 = 0 then checkBus 257 0 (s, w) else ofold (\<lambda>bus. checkBus 257 (of_nat bus)) [0..<8] (s, w));
     Some (s\<lparr>deviceCount := of_nat (length (pciDevices s)), pci_initialized := True\<rparr>, w)
   })"

section \<open>Functions for other services\<close>

text \<open>The macro \<open>GET_HEADER\<close>: \<open>None\<close> inside stands for the early return of zero.\<close>

definition GET_HEADER :: "u32 \<Rightarrow> Pci \<times> World \<Rightarrow> (PciDevice option \<times> Pci \<times> World) option" where
  "GET_HEADER deviceId = (\<lambda>(s, w). do {
     (s, w) \<leftarrow> (if pci_initialized s then Some (s, w) else initializePci (s, w));
     Some (if deviceCount s \<le> deviceId then None else Some (pciDevices s ! unat deviceId), s, w)
   })"

definition getDeviceClass :: "u32 \<Rightarrow> Pci \<times> World \<Rightarrow> (u32 \<times> Pci \<times> World) option" where
  "getDeviceClass deviceId sw = do {
     (header, s, w) \<leftarrow> GET_HEADER deviceId sw;
     (case header of
        None \<Rightarrow> Some (0, s, w)
      | Some d \<Rightarrow> Some (push_bit 16 (ucast (pci_class d)) OR push_bit 8 (ucast (pci_subclass d)) OR ucast (programmingInterface d), s, w))
   }"

definition getBaseAddress :: "u32 \<Rightarrow> u32 \<Rightarrow> Pci \<times> World \<Rightarrow> (u32 \<times> Pci \<times> World) option" where
  "getBaseAddress deviceId n sw = do {
     (header, s, w) \<leftarrow> GET_HEADER deviceId sw;
     (case header of
        None \<Rightarrow> Some (0, s, w)
      | Some d \<Rightarrow> if unat n < 6 then Some (bar d ! unat n, s, w) else None)
   }"

definition enableBusMaster :: "u32 \<Rightarrow> Pci \<times> World \<Rightarrow> (u32 \<times> Pci \<times> World) option" where
  "enableBusMaster deviceId sw = do {
     (header, s, w) \<leftarrow> GET_HEADER deviceId sw;
     (case header of
        None \<Rightarrow> Some (0, s, w)
      | Some d \<Rightarrow>
          if configuration d AND 0x04 = 0 then do {
            let d = d\<lparr>configuration := configuration d OR 0x0006\<rparr>;
            w \<leftarrow> pciConfigWriteByte (ucast (pci_bus d)) (ucast (pci_device d)) (ucast (pci_function d)) 0x04 (ucast (configuration d)) w;
            w \<leftarrow> ofold (\<lambda>i. perform (IoIn 0 1)) [0..<10000] w;
            (config, w) \<leftarrow> pciConfigRead (ucast (pci_bus d)) (ucast (pci_device d)) (ucast (pci_function d)) 0x04 w;
            let d = d\<lparr>configuration := ucast (config AND 0xFFFF)\<rparr>;
            Some (0, s\<lparr>pciDevices := (pciDevices s)[unat deviceId := d]\<rparr>, w)
          } else Some (0, s, w))
   }"

definition getPCIInterrupt :: "u32 \<Rightarrow> Pci \<times> World \<Rightarrow> (u32 \<times> Pci \<times> World) option" where
  "getPCIInterrupt deviceId sw = do {
     (header, s, w) \<leftarrow> GET_HEADER deviceId sw;
     (case header of
        None \<Rightarrow> Some (0, s, w)
      | Some d \<Rightarrow> do {
          (x, w) \<leftarrow> pciConfigRead (ucast (pci_bus d)) (ucast (pci_device d)) (ucast (pci_function d)) 0x3C w;
          Some (x AND 0xFF, s, w)
        })
   }"

definition classNames :: "string list" where
  "classNames = [''Unclassified'', ''Mass Storage Controller'', ''Network controller'', ''Display controller'', ''Multimedia controller'',
     ''Memory Controller'', ''Bridge'', ''Simple Communication controller'', ''Base System Peripheral'', ''Input Device controller'',
     ''Docking station'', ''Processor'', ''Serial bus controller'', ''Wireless controller'', ''intelligent controller'',
     ''sattelite communication controller'', ''encryption controller'', ''signal processing controller'', ''processing accelerator'',
     ''non-essential instrumentation'']"

definition showDevice :: "PciDevice \<Rightarrow> World \<Rightarrow> World option" where
  "showDevice d w =
     (if unat (pci_class d) < length classNames
      then perform (Print ''[%i:%i:%i]: %s'' [Num (ucast (pci_bus d)), Num (ucast (pci_device d)), Num (ucast (pci_function d)),
        Text (classNames ! unat (pci_class d))]) w
      else None)"

definition lspciMain :: "Pci \<times> World \<Rightarrow> (Pci \<times> World) option" where
  "lspciMain = (\<lambda>(s, w). do {
     (s, w) \<leftarrow> (if pci_initialized s then Some (s, w) else initializePci (s, w));
     (focus, w) \<leftarrow> call CheckFocus w;
     if focus = 0 then Some (s, w)
     else do {
       w \<leftarrow> ofold showDevice (pciDevices s) w;
       Some (s, w)
     }
   })"

end
