(* ===== verification/PciProps.thy ===== *)
theory PciProps
  imports Pci
begin

text \<open>
  The search for devices ends on every machine, whatever the bridges connect, and finds no function twice: a bus is
  marked before it is searched.
\<close>

definition place :: "PciDevice \<Rightarrow> u8 \<times> u8" where
  "place d = (pci_device d, pci_function d)"

definition key :: "PciDevice \<Rightarrow> u8 \<times> u8 \<times> u8" where
  "key d = (pci_bus d, place d)"

definition numbered :: "nat \<Rightarrow> PciDevice list \<Rightarrow> bool" where
  "numbered k ds \<longleftrightarrow> (\<forall>i < length ds. pci_id (ds ! i) = of_nat (k + i))"

definition known :: "Pci \<Rightarrow> u8 set" where
  "known s = {b. checkedBuses s b}"

text \<open>
  What the search of one bus may have done: further devices were found, on buses that were not known before. While a
  bus is searched, its own devices come from the places \<open>B\<close> tried so far.
\<close>

definition origin :: "u8 \<Rightarrow> (u8 \<times> u8) set \<Rightarrow> u8 set \<Rightarrow> PciDevice \<Rightarrow> bool" where
  "origin bus B new d \<longleftrightarrow> (if pci_bus d = bus then place d \<in> B else pci_bus d \<in> new)"

definition grown :: "u8 \<Rightarrow> (u8 \<times> u8) set \<Rightarrow> Pci \<Rightarrow> Pci \<Rightarrow> bool" where
  "grown bus B s t \<longleftrightarrow> known s \<subseteq> known t \<and> (\<exists>ds. pciDevices t = pciDevices s @ ds \<and> numbered (length (pciDevices s)) ds \<and> distinct (map key ds) \<and>
     (\<forall>d \<in> set ds. origin bus B (known t - known s) d))"

definition scanned :: "Pci \<Rightarrow> Pci \<Rightarrow> bool" where
  "scanned s t \<longleftrightarrow> known s \<subseteq> known t \<and> (\<exists>ds. pciDevices t = pciDevices s @ ds \<and> numbered (length (pciDevices s)) ds \<and> distinct (map key ds) \<and>
     pci_bus ` set ds \<subseteq> known t - known s)"

definition scans :: "(u8 \<Rightarrow> Pci \<times> World \<Rightarrow> (Pci \<times> World) option) \<Rightarrow> Pci \<Rightarrow> bool" where
  "scans check s \<longleftrightarrow> (\<forall>b t w. known s \<subseteq> known t \<longrightarrow> (\<exists>t' w'. check b (t, w) = Some (t', w') \<and> scanned t t'))"

lemma numbered_append: "numbered k (ds @ es) \<longleftrightarrow> numbered k ds \<and> numbered (k + length ds) es"
  unfolding numbered_def
proof (intro iffI conjI allI impI)
  assume all: "\<forall>i < length (ds @ es). pci_id ((ds @ es) ! i) = of_nat (k + i)"
  fix i show "i < length ds \<Longrightarrow> pci_id (ds ! i) = of_nat (k + i)" using all [rule_format, of i] by (simp add: nth_append)
  show "i < length es \<Longrightarrow> pci_id (es ! i) = of_nat (k + length ds + i)" using all [rule_format, of "length ds + i"] by (simp add: nth_append add.assoc)
qed (auto simp: nth_append add.assoc)

lemma scanned_refl: "scanned s s"
  by (auto simp: scanned_def numbered_def)

lemma scanned_trans:
  assumes "scanned s t" and "scanned t u"
  shows "scanned s u"
proof -
  obtain ds where ds: "pciDevices t = pciDevices s @ ds" "numbered (length (pciDevices s)) ds" "distinct (map key ds)" "pci_bus ` set ds \<subseteq> known t - known s"
    using assms(1) by (auto simp: scanned_def)
  obtain es where es: "pciDevices u = pciDevices t @ es" "numbered (length (pciDevices t)) es" "distinct (map key es)" "pci_bus ` set es \<subseteq> known u - known t"
    using assms(2) by (auto simp: scanned_def)
  have "known s \<subseteq> known t" "known t \<subseteq> known u" using assms by (auto simp: scanned_def)
  moreover have "key ` set ds \<inter> key ` set es = {}" using ds(4) es(4) by (fastforce simp: key_def)
  ultimately show ?thesis
    unfolding scanned_def using ds es by (intro conjI exI [of _ "ds @ es"]) (auto simp: numbered_append)
qed

lemma grown_scanned:
  assumes "grown bus B s t" and "bus \<in> known s" and "scanned t u"
  shows "grown bus B s u"
proof -
  obtain ds where ds: "pciDevices t = pciDevices s @ ds" "numbered (length (pciDevices s)) ds" "distinct (map key ds)"
    "\<And>d. d \<in> set ds \<Longrightarrow> origin bus B (known t - known s) d"
    using assms(1) by (auto simp: grown_def)
  obtain es where es: "pciDevices u = pciDevices t @ es" "numbered (length (pciDevices t)) es" "distinct (map key es)" "pci_bus ` set es \<subseteq> known u - known t"
    using assms(3) by (auto simp: scanned_def)
  have known: "known s \<subseteq> known t" "known t \<subseteq> known u" using assms(1,3) by (auto simp: grown_def scanned_def)
  have old: "pci_bus d \<in> known t" if "d \<in> set ds" for d using ds(4) [OF that] assms(2) known by (auto simp: origin_def split: if_splits)
  then have "key ` set ds \<inter> key ` set es = {}" using es(4) by (fastforce simp: key_def)
  moreover have "origin bus B (known u - known s) d" if "d \<in> set (ds @ es)" for d
    using that ds(4) [of d] es(4) known assms(2) by (auto simp: origin_def split: if_splits)
  ultimately show ?thesis
    unfolding grown_def using ds(1-3) es known by (intro conjI exI [of _ "ds @ es"]) (auto simp: numbered_append)
qed

lemma grown_mono: "grown bus B s t \<Longrightarrow> B \<subseteq> C \<Longrightarrow> grown bus C s t"
  unfolding grown_def origin_def by (meson subsetD)

lemma grown_add:
  assumes "grown bus B s t" and "p \<notin> B" and "pci_bus d = bus" and "place d = p" and "pci_id d = of_nat (length (pciDevices t))"
  shows "grown bus (insert p B) s (t\<lparr>pciDevices := pciDevices t @ [d]\<rparr>)"
proof -
  obtain ds where ds: "pciDevices t = pciDevices s @ ds" "numbered (length (pciDevices s)) ds" "distinct (map key ds)"
    "\<And>d. d \<in> set ds \<Longrightarrow> origin bus B (known t - known s) d"
    using assms(1) by (auto simp: grown_def)
  have "key d \<notin> key ` set ds" using ds(4) assms(2-4) by (fastforce simp: key_def origin_def)
  moreover have "numbered (length (pciDevices s)) (ds @ [d])" using ds(1,2) assms(5) by (simp add: numbered_append) (simp add: numbered_def)
  moreover have "known (t\<lparr>pciDevices := pciDevices t @ [d]\<rparr>) = known t" by (simp add: known_def)
  moreover have "known s \<subseteq> known t" using assms(1) by (simp add: grown_def)
  moreover have "origin bus (insert p B) (known t - known s) e" if "e \<in> set (ds @ [d])" for e
    using that ds(4) [of e] assms(3,4) by (auto simp: origin_def split: if_splits)
  ultimately show ?thesis unfolding grown_def using ds(1,3) by (intro conjI exI [of _ "ds @ [d]"]) auto
qed

section \<open>Reading never fails\<close>

lemma read_returns:
  "\<exists>x w'. READ bus dev fn offset w = Some (x, w')" "\<exists>x w'. READ8 bus dev fn offset w = Some (x, w')"
  "\<exists>x w'. READ16 bus dev fn offset w = Some (x, w')" "\<exists>x w'. VENDOR_ID bus dev fn w = Some (x, w')"
  by (simp_all add: READ_def READ8_def READ16_def VENDOR_ID_def pciConfigRead_def Let_def)

lemma readBars_returns: "\<exists>xs w'. readBars bus dev fn is w = Some (xs, w')"
proof (induction "is" arbitrary: w)
  case (Cons i "is")
  obtain x w1 where "READ bus dev fn (0x10 + 4 * of_nat i) w = Some (x, w1)" using read_returns(1) by blast
  moreover obtain xs w2 where "readBars bus dev fn is w1 = Some (xs, w2)" using Cons.IH by blast
  ultimately show ?case by simp
qed simp

section \<open>The search of a bus\<close>

lemma checkFunction_grown:
  assumes check: "scans check s" and t: "grown bus B s t" and bus: "bus \<in> known s" and new: "(dev, fn) \<notin> B"
  shows "\<exists>t' w'. checkFunction check bus dev fn (t, w) = Some (t', w') \<and> grown bus (insert (dev, fn) B) s t'"
proof -
  obtain x w1 where 1: "READ8 bus dev fn 0xB w = Some (x, w1)" using read_returns(2) by blast
  show ?thesis
  proof (cases "(ucast x :: u8) = 0 \<or> (ucast x :: u8) = 0xFF")
    case True
    then show ?thesis using 1 grown_mono [OF t] by (auto simp: checkFunction_def Let_def)
  next
    case False
    obtain vendor w2 where 2: "READ16 bus dev fn 0 w1 = Some (vendor, w2)" using read_returns(3) by blast
    obtain devId w3 where 3: "READ16 bus dev fn 2 w2 = Some (devId, w3)" using read_returns(3) by blast
    obtain cfg w4 where 4: "READ16 bus dev fn 4 w3 = Some (cfg, w4)" using read_returns(3) by blast
    obtain ifc w5 where 5: "READ8 bus dev fn 9 w4 = Some (ifc, w5)" using read_returns(2) by blast
    obtain sub w6 where 6: "READ8 bus dev fn 0x0A w5 = Some (sub, w6)" using read_returns(2) by blast
    obtain bars w7 where 7: "readBars bus dev fn [0..<6] w6 = Some (bars, w7)" using readBars_returns by blast
    obtain secondary w8 where 8: "READ8 bus dev fn 0x19 w7 = Some (secondary, w8)" using read_returns(2) by blast
    let ?d = "\<lparr>pci_id = of_nat (length (pciDevices t)), pci_bus = bus, pci_device = dev, pci_function = fn, pci_class = ucast x,
         pci_subclass = ucast sub, configuration = ucast cfg, pci_deviceId = ucast devId, vendorId = ucast vendor,
         programmingInterface = ucast ifc, bar = bars\<rparr>"
    let ?t = "t\<lparr>pciDevices := pciDevices t @ [?d]\<rparr>"
    have g: "grown bus (insert (dev, fn) B) s ?t" by (rule grown_add [OF t new]) (simp_all add: place_def)
    then have "known s \<subseteq> known ?t" by (simp add: grown_def)
    then obtain u w9 where 9: "check (ucast secondary) (?t, w8) = Some (u, w9)" "scanned ?t u" using check unfolding scans_def by blast
    have run: "checkFunction check bus dev fn (t, w) =
        (if (ucast x :: u8) = 6 \<and> (ucast sub :: u8) = 4 then check (ucast secondary) (?t, w8) else Some (?t, w7))"
      using False 1 2 3 4 5 6 7 8 by (simp add: checkFunction_def Let_def del: upt_rec_numeral)
    then show ?thesis using g 9 grown_scanned [OF g bus 9(2)] by auto
  qed
qed

lemma of_nat_u8_eq: "i < 256 \<Longrightarrow> j < 256 \<Longrightarrow> (of_nat i :: u8) = of_nat j \<longleftrightarrow> i = j"
  by (simp add: word_unat_eq_iff unat_of_nat)

definition placesOf :: "u8 \<Rightarrow> nat \<Rightarrow> (u8 \<times> u8) set" where
  "placesOf dev n = (\<lambda>i. (dev, of_nat i)) ` {..<n}"

lemma checkDevice_grown:
  assumes check: "scans check s" and t: "grown bus B s t" and bus: "bus \<in> known s" and new: "\<forall>p \<in> B. fst p \<noteq> of_nat d"
  shows "\<exists>t' w'. checkDevice check bus d (t, w) = Some (t', w') \<and> grown bus (B \<union> placesOf (of_nat d) 8) s t'"
proof -
  let ?dev = "of_nat d :: u8"
  obtain vendor w1 where 1: "VENDOR_ID bus ?dev 0 w = Some (vendor, w1)" using read_returns(4) by blast
  obtain header w2 where 2: "READ8 bus ?dev 0 0x0E w1 = Some (header, w2)" using read_returns(2) by blast
  have step: "\<exists>sw. checkPresent check bus ?dev i (u, v) = Some sw \<and> grown bus (B \<union> placesOf ?dev (Suc i)) s (fst sw)"
    if "i < 8" "grown bus (B \<union> placesOf ?dev i) s u" for i u v
  proof -
    obtain x w' where x: "VENDOR_ID bus ?dev (of_nat i) v = Some (x, w')" using read_returns(4) by blast
    have "(?dev, of_nat i) \<notin> B \<union> placesOf ?dev i" using new that(1) by (auto simp: placesOf_def of_nat_u8_eq)
    from checkFunction_grown [OF check that(2) bus this, of w']
    obtain u1 v1 where "checkFunction check bus ?dev (of_nat i) (u, w') = Some (u1, v1)" "grown bus (B \<union> placesOf ?dev (Suc i)) s u1"
      by (auto simp: placesOf_def lessThan_Suc)
    moreover have "grown bus (B \<union> placesOf ?dev (Suc i)) s u" using that(2) by (rule grown_mono) (auto simp: placesOf_def)
    ultimately show ?thesis using x by (auto simp: checkPresent_def)
  qed
  have "\<exists>sw. ofold (checkPresent check bus ?dev) [0..<8] (t, w2) = Some sw \<and> grown bus (B \<union> placesOf ?dev 8) s (fst sw)"
    by (rule ofold_count) (use t step in \<open>auto simp: placesOf_def\<close>)
  moreover have "\<exists>t' w'. checkFunction check bus ?dev 0 (t, w2) = Some (t', w') \<and> grown bus (B \<union> placesOf ?dev 8) s t'"
  proof -
    have "(?dev, 0) \<notin> B" using new by force
    from checkFunction_grown [OF check t bus this, of w2] obtain u v where "checkFunction check bus ?dev 0 (t, w2) = Some (u, v)"
      "grown bus (insert (?dev, 0) B) s u" by blast
    moreover have "(?dev, 0) \<in> placesOf ?dev 8" unfolding placesOf_def by (rule image_eqI [of _ _ 0]) simp_all
    ultimately show ?thesis using grown_mono [of bus "insert (?dev, 0) B" s u "B \<union> placesOf ?dev 8"] by auto
  qed
  moreover have "grown bus (B \<union> placesOf ?dev 8) s t" using t by (rule grown_mono) simp
  ultimately show ?thesis using 1 2 by (auto simp: checkDevice_def Let_def)
qed

definition tried :: "nat \<Rightarrow> (u8 \<times> u8) set" where
  "tried n = (\<Union>d < n. placesOf (of_nat d) 8)"

lemma checkBus_scanned:
  assumes "card (- known s) < depth"
  shows "\<exists>t w'. checkBus depth bus (s, w) = Some (t, w') \<and> scanned s t \<and> bus \<in> known t"
  using assms
proof (induction depth arbitrary: bus s w)
  case (Suc depth)
  show ?case
  proof (cases "checkedBuses s bus")
    case True
    then show ?thesis using scanned_refl by (auto simp: known_def)
  next
    case False
    define s1 where "s1 = s\<lparr>checkedBuses := (checkedBuses s)(bus := True)\<rparr>"
    have known: "known s1 = insert bus (known s)" "bus \<notin> known s" "pciDevices s1 = pciDevices s" using False by (auto simp: known_def s1_def)
    have small: "card (- known t) < depth" if "known s1 \<subseteq> known t" for t
    proof -
      have "- known t \<subset> - known s" using that known by auto
      then have "card (- known t) < card (- known s)" by (intro psubset_card_mono) simp_all
      then show ?thesis using Suc.prems by simp
    qed
    then have check: "scans (checkBus depth) s1" unfolding scans_def using Suc.IH by blast
    have bus: "bus \<in> known s1" by (simp add: known)
    have step: "\<exists>sw. checkDevice (checkBus depth) bus d tw = Some sw \<and> grown bus (tried (Suc d)) s1 (fst sw)"
      if "d < 32" "grown bus (tried d) s1 (fst tw)" for d tw
    proof -
      have "\<forall>p \<in> tried d. fst p \<noteq> of_nat d" using that(1) by (auto simp: tried_def placesOf_def of_nat_u8_eq)
      from checkDevice_grown [OF check that(2) bus this, of "snd tw"] show ?thesis
        by (auto simp: tried_def lessThan_Suc Un_commute)
    qed
    have start: "grown bus (tried 0) s1 s1" by (auto simp: grown_def numbered_def)
    have "\<exists>sw. ofold (checkDevice (checkBus depth) bus) [0..<32] (s1, w) = Some sw \<and> grown bus (tried 32) s1 (fst sw)"
      by (rule ofold_count) (use start step in auto)
    then obtain t w' where run: "ofold (checkDevice (checkBus depth) bus) [0..<32] (s1, w) = Some (t, w')" and g: "grown bus (tried 32) s1 t" by auto
    have "known s1 \<subseteq> known t" using g by (simp add: grown_def)
    moreover from g obtain ds where ds: "pciDevices t = pciDevices s @ ds" "numbered (length (pciDevices s)) ds" "distinct (map key ds)"
      "\<forall>d \<in> set ds. origin bus (tried 32) (known t - known s1) d" unfolding grown_def known(3) by blast
    moreover have "pci_bus ` set ds \<subseteq> known t - known s"
    proof
      fix b assume "b \<in> pci_bus ` set ds"
      then obtain d where "d \<in> set ds" "b = pci_bus d" by blast
      then show "b \<in> known t - known s" using ds(4) known \<open>known s1 \<subseteq> known t\<close> by (auto simp: origin_def split: if_splits)
    qed
    ultimately have "scanned s t" "bus \<in> known t" unfolding scanned_def using known by auto
    then show ?thesis using run False by (simp add: s1_def)
  qed
qed simp

section \<open>The whole search\<close>

definition pciStart :: Pci where
  "pciStart = \<lparr>checkedBuses = \<lambda>_. False, deviceCount = 0, pciDevices = [], pci_initialized = False\<rparr>"

lemma few_buses: "card (- known s) < 257"
proof -
  have "card (- known s) \<le> card (UNIV :: u8 set)" by (rule card_mono) simp_all
  then show ?thesis by (simp add: card_word)
qed

text \<open>
  C34. The search ends, for any answers of the hardware: no function is found twice, even when bridges lead back to a bus,
  and the number of every device is its position, so that the numbers below the count are exactly the valid ones.
\<close>

theorem devices_found_once:
  "\<exists>s w'. initializePci (pciStart, w) = Some (s, w') \<and> distinct (map (\<lambda>d. (pci_bus d, pci_device d, pci_function d)) (pciDevices s)) \<and>
     map pci_id (pciDevices s) = map of_nat [0..<length (pciDevices s)] \<and> deviceCount s = of_nat (length (pciDevices s)) \<and> pci_initialized s"
proof -
  have keys: "map key ds = map (\<lambda>d. (pci_bus d, pci_device d, pci_function d)) ds" for ds by (simp add: key_def place_def)
  have all: "\<exists>sw. ofold (\<lambda>bus. checkBus 257 (of_nat bus)) [0..<8] (pciStart, w) = Some sw \<and> scanned pciStart (fst sw)" for w
  proof (rule ofold_count)
    fix i :: nat and sw :: "Pci \<times> World" assume "scanned pciStart (fst sw)"
    moreover obtain t w' where "checkBus 257 (of_nat i) sw = Some (t, w')" "scanned (fst sw) t"
      using checkBus_scanned [OF few_buses, of "of_nat i" "fst sw" "snd sw"] by auto
    ultimately show "\<exists>t. checkBus 257 (of_nat i) sw = Some t \<and> scanned pciStart (fst t)" using scanned_trans by auto
  qed (simp add: scanned_refl)
  have one: "\<exists>sw. checkBus 257 0 (pciStart, w) = Some sw \<and> scanned pciStart (fst sw)" for w
    using checkBus_scanned [OF few_buses, of 0 pciStart w] by auto
  have "\<exists>s w'. initializePci (pciStart, w) = Some (s\<lparr>deviceCount := of_nat (length (pciDevices s)), pci_initialized := True\<rparr>, w') \<and> scanned pciStart s"
  proof -
    obtain h w1 where h: "pciConfigRead 0 0 0 0x0E (after w (map (\<lambda>(f, g). CreateFunction f g) [(''getDeviceClass'', ''getDeviceClass''),
        (''getBaseAddress'', ''getBaseAddress''), (''enableBusMaster'', ''enableBusMaster''), (''getInterrupt'', ''getPCIInterrupt''),
        (''dump'', ''dump''), (''dumpAll'', ''dumpAll'')])) = Some (h, w1)" by (simp add: pciConfigRead_def Let_def)
    obtain s2 w2 where "(if h AND 0x80 = 0 then checkBus 257 0 (pciStart, w1) else ofold (\<lambda>bus. checkBus 257 (of_nat bus)) [0..<8] (pciStart, w1)) = Some (s2, w2)"
      "scanned pciStart s2" using one [of w1] all [of w1] by (cases "h AND 0x80 = 0") auto
    then show ?thesis using h by (intro exI [of _ s2]) (simp add: initializePci_def del: checkBus.simps upt_rec_numeral)
  qed
  then obtain s w' where run: "initializePci (pciStart, w) = Some (s\<lparr>deviceCount := of_nat (length (pciDevices s)), pci_initialized := True\<rparr>, w')"
    and s: "scanned pciStart s" by blast
  have "distinct (map key (pciDevices s))" "numbered 0 (pciDevices s)" using s by (auto simp: scanned_def pciStart_def)
  moreover from this have "map pci_id (pciDevices s) = map of_nat [0..<length (pciDevices s)]"
    by (auto simp: numbered_def intro: nth_equalityI)
  ultimately show ?thesis using run unfolding keys by simp
qed

end
