(* ===== verification/Ps2.thy ===== *)
theory Ps2
  imports Programs
begin

text \<open>
  The driver of the PS/2 controller (\<open>userland/ps2\<close>): polling of the status register with a limit, commands to the
  controller and to its two devices, and the identification of the devices. The registers with bit fields are bytes.
\<close>

definition COMMAND :: u16 where "COMMAND = 0x64"
definition DATA :: u16 where "DATA = 0x60"

datatype DeviceType = UnknownPS2Device | ATKeyboard | StandardPS2Mouse | StandardPS2MouseWithScrollWheel | MouseWith5Buttons
  | IBMThinkpadKeyboard | NCDN97Keyboard | Keyboard122Keys | JapaneseGKeyboard | JapanesePKeyboard | JapaneseAKeyboard | QEMUKeyboard

fun typeNumber :: "DeviceType \<Rightarrow> u32" where
  "typeNumber UnknownPS2Device = 0"
| "typeNumber ATKeyboard = 1"
| "typeNumber StandardPS2Mouse = 2"
| "typeNumber StandardPS2MouseWithScrollWheel = 3"
| "typeNumber MouseWith5Buttons = 4"
| "typeNumber IBMThinkpadKeyboard = 5"
| "typeNumber NCDN97Keyboard = 6"
| "typeNumber Keyboard122Keys = 7"
| "typeNumber JapaneseGKeyboard = 8"
| "typeNumber JapanesePKeyboard = 9"
| "typeNumber JapaneseAKeyboard = 10"
| "typeNumber QEMUKeyboard = 11"

definition deviceTypeNames :: "string list" where
  "deviceTypeNames = [''Unknown PS2 Device'', ''AT Keyboard'', ''Standard PS2 Mouse'', ''Standard PS2 Mouse with Scroll Wheel'',
     ''Mouse with 5 Buttons'', ''IBM Thinkpad Keyboard'', ''NCD N97 Keyboard'', ''Keyboard 122 Keys'', ''Japanese G Keyboard'',
     ''Japanese P Keyboard'', ''Japanese A Keyboard'', ''QEMU keyboard'']"

section \<open>Registers\<close>

text \<open>Bit 0 of the status is \<open>outputBufferStatus\<close>, bit 1 is \<open>inputBufferStatus\<close>.\<close>

definition readStatus :: "World \<Rightarrow> (u8 \<times> World) option" where
  "readStatus w = do {
     (x, w) \<leftarrow> call (IoIn COMMAND 1) w;
     Some (ucast x, w)
   }"

text \<open>The polling loops, with the number of tries left.\<close>

fun waitForReadLoop :: "nat \<Rightarrow> World \<Rightarrow> (u8 \<times> World) option" where
  "waitForReadLoop timeout w = do {
     (status, w) \<leftarrow> readStatus w;
     if bit status 0 then Some (0, w)
     else if timeout \<le> 1 then do {
       w \<leftarrow> perform (Print ''PS/2 read timeout'' []) w;
       Some (1, w)
     } else waitForReadLoop (timeout - 1) w
   }"

definition waitForRead :: "World \<Rightarrow> (u8 \<times> World) option" where
  "waitForRead w = waitForReadLoop 100000 w"

fun waitForWriteLoop :: "nat \<Rightarrow> World \<Rightarrow> World option" where
  "waitForWriteLoop timeout w = do {
     (status, w) \<leftarrow> readStatus w;
     if \<not> bit status 1 then Some w
     else if timeout \<le> 1 then perform (Print ''PS/2 write timeout'' []) w
     else waitForWriteLoop (timeout - 1) w
   }"

definition waitForWrite :: "World \<Rightarrow> World option" where
  "waitForWrite w = waitForWriteLoop 100000 w"

definition ps2Read :: "World \<Rightarrow> (u8 \<times> World) option" where
  "ps2Read w = do {
     (failed, w) \<leftarrow> waitForRead w;
     if failed = 1 then Some (0xFF, w)
     else do {
       (x, w) \<leftarrow> call (IoIn DATA 1) w;
       Some (ucast x, w)
     }
   }"

definition writeController :: "u8 \<Rightarrow> World \<Rightarrow> World option" where
  "writeController command w = do {
     w \<leftarrow> waitForWrite w;
     perform (IoOut COMMAND (ucast command) 1) w
   }"

definition writeDevice :: "u8 \<Rightarrow> u8 \<Rightarrow> World \<Rightarrow> World option" where
  "writeDevice device data w = do {
     w \<leftarrow> (if device = 1 then writeController 0xD4 w else Some w);
     w \<leftarrow> waitForWrite w;
     perform (IoOut DATA (ucast data) 1) w
   }"

text \<open>A device that never stops sending keeps this loop busy forever.\<close>

partial_function (option) flushOutputBuffer :: "World \<Rightarrow> World option" where
  "flushOutputBuffer w = do {
     (status, w) \<leftarrow> readStatus w;
     if bit status 0 then do {
       w \<leftarrow> perform (IoIn DATA 1) w;
       flushOutputBuffer w
     } else Some w
   }"

definition readConfiguration :: "World \<Rightarrow> (u8 \<times> World) option" where
  "readConfiguration w = do {
     w \<leftarrow> flushOutputBuffer w;
     w \<leftarrow> writeController 0x20 w;
     ps2Read w
   }"

definition writeConfiguration :: "u8 \<Rightarrow> World \<Rightarrow> World option" where
  "writeConfiguration data w = do {
     w \<leftarrow> writeController 0x60 w;
     w \<leftarrow> writeDevice 0 data w;
     flushOutputBuffer w
   }"

section \<open>Devices\<close>

text \<open>The loops that wait for the acknowledgement of a device.\<close>

partial_function (option) awaitAck :: "World \<Rightarrow> World option" where
  "awaitAck w = do {
     (x, w) \<leftarrow> ps2Read w;
     if x \<noteq> 0xFA then awaitAck w else Some w
   }"

definition secondType :: "u8 \<Rightarrow> DeviceType" where
  "secondType x =
     (if x = 0x83 then QEMUKeyboard else if x = 0x84 then IBMThinkpadKeyboard else if x = 0x85 then NCDN97Keyboard
      else if x = 0x86 then Keyboard122Keys else if x = 0x90 then JapaneseGKeyboard else if x = 0x91 then JapanesePKeyboard
      else if x = 0x92 then JapaneseAKeyboard else UnknownPS2Device)"

definition getDeviceType :: "u8 \<Rightarrow> World \<Rightarrow> (DeviceType \<times> World) option" where
  "getDeviceType device w = do {
     w \<leftarrow> writeDevice device 0xF5 w;
     w \<leftarrow> awaitAck w;
     w \<leftarrow> writeDevice device 0xF2 w;
     w \<leftarrow> awaitAck w;
     (result1, w) \<leftarrow> ps2Read w;
     if result1 = 0xFF then Some (ATKeyboard, w)
     else if result1 = 0x00 then Some (StandardPS2Mouse, w)
     else if result1 = 0x03 then Some (StandardPS2MouseWithScrollWheel, w)
     else if result1 = 0x04 then Some (MouseWith5Buttons, w)
     else if result1 \<noteq> 0xAB \<and> result1 \<noteq> 0xAC then Some (UnknownPS2Device, w)
     else do {
       (result2, w) \<leftarrow> ps2Read w;
       Some (secondType result2, w)
     }
   }"

definition setupMouse :: "u8 \<Rightarrow> DeviceType \<Rightarrow> u32 \<Rightarrow> World \<Rightarrow> World option" where
  "setupMouse device deviceType event w = do {
     w \<leftarrow> perform (LoadFromInitrd ''ps2mouse'') w;
     w \<leftarrow> writeDevice device 0xF6 w;
     w \<leftarrow> awaitAck w;
     w \<leftarrow> flushOutputBuffer w;
     w \<leftarrow> writeDevice device 0xF3 w;
     w \<leftarrow> awaitAck w;
     w \<leftarrow> flushOutputBuffer w;
     w \<leftarrow> writeDevice device 10 w;
     w \<leftarrow> awaitAck w;
     w \<leftarrow> flushOutputBuffer w;
     perform (Ask ''ps2mouse'' ''register'' (typeNumber deviceType) event) w
   }"

definition setupKeyboard :: "u8 \<Rightarrow> DeviceType \<Rightarrow> u32 \<Rightarrow> World \<Rightarrow> World option" where
  "setupKeyboard device deviceType event w = do {
     w \<leftarrow> perform (LoadFromInitrd ''ps2kb'') w;
     w \<leftarrow> flushOutputBuffer w;
     w \<leftarrow> writeDevice device 0xF0 w;
     w \<leftarrow> writeDevice device 0x00 w;
     w \<leftarrow> awaitAck w;
     (result, w) \<leftarrow> ps2Read w;
     w \<leftarrow> perform (Print ''current scancode set: %i'' [Num (ucast result)]) w;
     w \<leftarrow> flushOutputBuffer w;
     w \<leftarrow> writeDevice device 0xF0 w;
     w \<leftarrow> writeDevice device 1 w;
     w \<leftarrow> awaitAck w;
     perform (Ask ''ps2kb'' ''register'' (typeNumber deviceType) event) w
   }"

definition initDevice :: "u8 \<Rightarrow> World \<Rightarrow> World option" where
  "initDevice device w = do {
     w \<leftarrow> flushOutputBuffer w;
     w \<leftarrow> writeController (if device = 0 then 0xAB else 0xA9) w;
     (deviceHealth, w) \<leftarrow> ps2Read w;
     if deviceHealth \<noteq> 0 then perform (Print ''device %i interface test failed: %i'' [Num (ucast device), Num (ucast deviceHealth)]) w
     else do {
       w \<leftarrow> writeController (if device = 0 then 0xAE else 0xA8) w;
       w \<leftarrow> flushOutputBuffer w;
       w \<leftarrow> writeDevice device 0xFF w;
       (ack, w) \<leftarrow> ps2Read w;
       (deviceHealth, w) \<leftarrow> ps2Read w;
       if ack \<noteq> 0xFA \<or> deviceHealth \<noteq> 0xAA
       then perform (Print ''device %i reset failed with response %x, %x'' [Num (ucast device), Num (ucast ack), Num (ucast deviceHealth)]) w
       else do {
         (deviceType, w) \<leftarrow> getDeviceType device w;
         if deviceType = UnknownPS2Device then perform (Print ''device %i is unknown'' [Num (ucast device)]) w
         else do {
           w \<leftarrow> perform (Print (''device %i has type '' @ [CHR 0x27] @ ''%s'' @ [CHR 0x27]) [Num (ucast device), Text (deviceTypeNames ! unat (typeNumber deviceType))]) w;
           (picService, w) \<leftarrow> call (GetService ''pic'') w;
           (event, w) \<leftarrow> call (GetEvent picService (if device = 0 then ''irq1'' else ''irq12'')) w;
           if deviceType = StandardPS2Mouse \<or> deviceType = StandardPS2MouseWithScrollWheel \<or> deviceType = MouseWith5Buttons
           then setupMouse device deviceType event w
           else setupKeyboard device deviceType event w
         }
       }
     }
   }"

text \<open>Bits 0 and 1 of the configuration enable the interrupts, bit 5 is the clock of the second port, bit 6 the translation.\<close>

definition startSecond :: "World \<Rightarrow> World option" where
  "startSecond w = do {
     w \<leftarrow> writeController 0xA8 w;
     (config, w) \<leftarrow> readConfiguration w;
     if bit config 5 then perform (Print ''controller has support for 2 ports, but the second port isn't in use'' []) w
     else do {
       w \<leftarrow> perform (Print ''controller has support for 2 ports, and the second port is in use'' []) w;
       w \<leftarrow> writeController 0xA7 w;
       w \<leftarrow> initDevice 1 w;
       writeDevice 1 0xF4 w
     }
   }"

definition ps2Start :: "World \<Rightarrow> World option" where
  "ps2Start w = do {
     w \<leftarrow> writeController 0xAD w;
     w \<leftarrow> writeController 0xA7 w;
     w \<leftarrow> flushOutputBuffer w;
     (config, w) \<leftarrow> readConfiguration w;
     w \<leftarrow> writeConfiguration (config AND NOT 0x43) w;
     (config, w) \<leftarrow> readConfiguration w;
     w \<leftarrow> writeController 0xAA w;
     (result, w) \<leftarrow> ps2Read w;
     if result \<noteq> 0x55 then perform (Print ''controller self test failed: %x'' [Num (ucast result)]) w
     else do {
       w \<leftarrow> initDevice 0 w;
       w \<leftarrow> (if bit config 5 then startSecond w else Some w);
       w \<leftarrow> writeDevice 0 0xF4 w;
       (config, w) \<leftarrow> readConfiguration w;
       writeConfiguration (config OR 3) w
     }
   }"

definition ps2Main :: "World \<Rightarrow> World option" where
  "ps2Main w = do {
     w \<leftarrow> perform (CreateFunction ''read'' ''read'') w;
     w \<leftarrow> perform (CreateFunction ''flush'' ''flushOutputBuffer'') w;
     perform (Fork ''start'' 0 0) w
   }"

section \<open>Polling\<close>

declare waitForReadLoop.simps [simp del]
declare waitForWriteLoop.simps [simp del]

definition polls :: "nat \<Rightarrow> Call list" where
  "polls n = replicate n (IoIn COMMAND 1)"

definition statusAt :: "World \<Rightarrow> nat \<Rightarrow> u8" where
  "statusAt w i = ucast (answers w (trace w @ polls (Suc i)))"

lemma statusAt_after: "statusAt (after w (polls k)) i = statusAt w (k + i)"
  by (simp add: statusAt_def polls_def replicate_add [symmetric] flip: replicate_Suc)

lemma waitForReadLoop_outcome:
  assumes "0 < n"
  shows "waitForReadLoop n w = (if \<exists>i < n. bit (statusAt w i) 0
    then Some (0, after w (polls (Suc (LEAST i. bit (statusAt w i) 0))))
    else Some (1, after w (polls n @ [Print ''PS/2 read timeout'' []])))"
  using assms
proof (induction n arbitrary: w)
  case (Suc n)
  show ?case
  proof (cases "bit (statusAt w 0) 0")
    case True
    then have "(LEAST i. bit (statusAt w i) 0) = 0" by (intro Least_eq_0)
    then show ?thesis using True by (auto simp: waitForReadLoop.simps [of "Suc n"] readStatus_def statusAt_def polls_def)
  next
    case False
    then have step: "waitForReadLoop (Suc n) w = (if n = 0 then Some (1, after w (polls (Suc 0) @ [Print ''PS/2 read timeout'' []]))
        else waitForReadLoop n (after w (polls (Suc 0))))"
      by (simp add: waitForReadLoop.simps [of "Suc n"] readStatus_def statusAt_def polls_def)
    show ?thesis
    proof (cases "n = 0")
      case True
      then show ?thesis using step False by simp
    next
      case n: False
      have shift: "statusAt (after w (polls (Suc 0))) i = statusAt w (Suc i)" for i using statusAt_after [of w 1 i] by simp
      have ex: "(\<exists>i < Suc n. bit (statusAt w i) 0) \<longleftrightarrow> (\<exists>i < n. bit (statusAt w (Suc i)) 0)" using False by (auto simp: less_Suc_eq_0_disj)
      have least: "(LEAST i. bit (statusAt w i) 0) = Suc (LEAST i. bit (statusAt w (Suc i)) 0)" if "\<exists>i. bit (statusAt w i) 0"
        using that False by (auto intro: Least_Suc)
      have "waitForReadLoop (Suc n) w = (if \<exists>i < n. bit (statusAt w (Suc i)) 0
          then Some (0, after w (polls (Suc (Suc (LEAST i. bit (statusAt w (Suc i)) 0)))))
          else Some (1, after w (polls (Suc n) @ [Print ''PS/2 read timeout'' []])))"
        using step n Suc.IH [of "after w (polls (Suc 0))"] by (simp add: shift) (simp add: polls_def)
      moreover have "\<exists>i < n. bit (statusAt w (Suc i)) 0 \<Longrightarrow> (LEAST i. bit (statusAt w i) 0) = Suc (LEAST i. bit (statusAt w (Suc i)) 0)"
        using least by blast
      ultimately show ?thesis unfolding ex by (auto split: if_splits)
    qed
  qed
qed simp

text \<open>
  A read polls the status until data is there, takes the data right after the first poll that shows it, and gives up
  with 0xFF after exactly a hundred thousand polls.
\<close>

theorem read_polls:
  "ps2Read w = (if \<exists>i < 100000. bit (statusAt w i) 0
     then let calls = polls (Suc (LEAST i. bit (statusAt w i) 0)) @ [IoIn DATA 1] in Some (ucast (answers w (trace w @ calls)), after w calls)
     else Some (0xFF, after w (polls 100000 @ [Print ''PS/2 read timeout'' []])))"
proof -
  note loop = waitForReadLoop_outcome [of 100000 w, unfolded waitForRead_def [symmetric]]
  show ?thesis
  proof (cases "\<exists>i < 100000. bit (statusAt w i) 0")
    case True
    then have "waitForRead w = Some (0, after w (polls (Suc (LEAST i. bit (statusAt w i) 0))))" using loop by simp
    then show ?thesis using True by (simp add: ps2Read_def Let_def)
  next
    case False
    then have "waitForRead w = Some (1, after w (polls 100000 @ [Print ''PS/2 read timeout'' []]))" using loop by simp
    then show ?thesis using False by (subst if_not_P) (auto simp: ps2Read_def)
  qed
qed

section \<open>Devices that do not answer\<close>

definition silent :: "World \<Rightarrow> bool" where
  "silent w \<longleftrightarrow> (\<forall>cs. \<not> bit (answers w cs) 0)"

lemma silent_after [simp]: "silent (after w cs) = silent w"
  by (simp add: silent_def)

lemma silent_status: "silent w \<Longrightarrow> \<not> bit (statusAt w i) 0"
  by (simp add: silent_def statusAt_def bit_simps)

lemma silent_read: "silent w \<Longrightarrow> \<exists>w'. ps2Read w = Some (0xFF, w') \<and> silent w'"
proof -
  assume s: "silent w"
  have "waitForReadLoop 100000 w = Some (1, after w (polls 100000 @ [Print ''PS/2 read timeout'' []]))"
    using waitForReadLoop_outcome [of 100000 w] silent_status [OF s] by simp
  then show ?thesis using s by (simp add: ps2Read_def waitForRead_def)
qed

lemma silent_ack: "silent w \<Longrightarrow> awaitAck w = None"
proof -
  have no: "awaitAck w = Some y \<Longrightarrow> silent w \<Longrightarrow> False" for w y
  proof (induction rule: awaitAck.raw_induct [rotated, consumes 1])
    case (1 rec w y)
    obtain w' where "ps2Read w = Some (0xFF, w')" "silent w'" using silent_read [OF 1(3)] by blast
    then show ?case using 1(1) [of w' y] 1(2) by simp
  qed
  assume "silent w"
  then show ?thesis using no [of w] by (cases "awaitAck w") auto
qed

lemma waitForWrite_returns: "\<exists>cs. waitForWrite w = Some (after w cs)"
proof -
  have "\<exists>cs. waitForWriteLoop n w = Some (after w cs)" for n w
  proof (induction n arbitrary: w)
    case 0
    then show ?case by (auto simp: waitForWriteLoop.simps [of 0] readStatus_def)
  next
    case (Suc n)
    then show ?case using Suc.IH [of "after w [IoIn COMMAND 1]"] by (auto simp: waitForWriteLoop.simps [of "Suc n"] readStatus_def)
  qed
  then show ?thesis by (simp add: waitForWrite_def)
qed

lemma writeDevice_returns: "\<exists>cs. writeDevice device data w = Some (after w cs)"
proof -
  have controller: "\<exists>cs. writeController c w = Some (after w cs)" for c w
    using waitForWrite_returns [of w] by (auto simp: writeController_def)
  obtain cs where "(if device = 1 then writeController 0xD4 w else Some w) = Some (after w cs)"
    using controller [of "0xD4" w] by (cases "device = 1") (auto intro: that [of "[]"])
  then show ?thesis using waitForWrite_returns [of "after w cs"] by (auto simp: writeDevice_def)
qed

text \<open>
  Every write returns, but the identification of a device waits for an acknowledgement without a limit: when the
  controller never has data, it never returns, because a read that gives up counts as a wrong answer.
\<close>

theorem absent_device_hangs:
  assumes "silent w"
  shows "(\<exists>cs. writeDevice device 0xF5 w = Some (after w cs)) \<and> getDeviceType device w = None"
proof -
  obtain cs where "writeDevice device 0xF5 w = Some (after w cs)" using writeDevice_returns by blast
  moreover have "awaitAck (after w cs) = None" using assms by (intro silent_ack) simp
  ultimately show ?thesis by (simp add: getDeviceType_def)
qed

theorem absent_device_hangs_witness: "getDeviceType 0 \<lparr>trace = [], answers = \<lambda>_. 0\<rparr> = None"
  using absent_device_hangs [of "\<lparr>trace = [], answers = \<lambda>_. 0\<rparr>" 0] by (simp add: silent_def)

end
