(* ===== verification/Shared.thy ===== *)
theory Shared
  imports Programs Strings
begin

text \<open>
  Programs that share memory with devices and other programs. The state has the memory of the program beside the
  calls made so far, each with the memory at that moment; the rest of the system answers a call and may change the
  memory while it does. \<open>query\<close> makes a call that leaves the memory alone, \<open>new\<close> allocates cleared memory, which
  \<open>Malloc\<close> shows of the allocator of the library, at an address the rest of the system chooses.
\<close>

type_synonym log = "(Call \<times> bytes) list"

record Shared =
  mem :: bytes
  sent :: log
  reply :: "log \<Rightarrow> u32"
  memory_after :: "log \<Rightarrow> bytes"

definition logged :: "Shared \<Rightarrow> Call \<Rightarrow> log" where
  "logged s c = sent s @ [(c, mem s)]"

definition ask :: "Call \<Rightarrow> Shared \<Rightarrow> (u32 \<times> Shared) option" where
  "ask c s = Some (reply s (logged s c), s\<lparr>mem := memory_after s (logged s c), sent := logged s c\<rparr>)"

definition query :: "Call \<Rightarrow> Shared \<Rightarrow> (u32 \<times> Shared) option" where
  "query c s = Some (reply s (logged s c), s\<lparr>sent := logged s c\<rparr>)"

definition tell :: "Call \<Rightarrow> Shared \<Rightarrow> Shared option" where
  "tell c s = Some (s\<lparr>sent := logged s c\<rparr>)"

definition new :: "u32 \<Rightarrow> Shared \<Rightarrow> (u32 \<times> Shared) option" where
  "new n s = do {
     (a, s) \<leftarrow> query (Malloc n) s;
     Some (a, s\<lparr>mem := memset (mem s) a 0 n\<rparr>)
   }"

section \<open>Memory\<close>

fun putBytes :: "u32 \<Rightarrow> u8 list \<Rightarrow> bytes \<Rightarrow> bytes" where
  "putBytes a [] m = m"
| "putBytes a (b # bs) m = (putBytes (a + 1) bs m)(a := b)"

definition getBytes :: "bytes \<Rightarrow> u32 \<Rightarrow> nat \<Rightarrow> u8 list" where
  "getBytes m a n = map (\<lambda>i. m (a + of_nat i)) [0..<n]"

definition be32 :: "u32 \<Rightarrow> u8 list" where
  "be32 v = [ucast (drop_bit 24 v), ucast (drop_bit 16 v), ucast (drop_bit 8 v), ucast v]"

definition be16 :: "u32 \<Rightarrow> u8 list" where
  "be16 v = [ucast (drop_bit 8 v), ucast v]"

text \<open>The number whose bytes, the most significant one first, are given.\<close>

definition big_endian :: "u8 list \<Rightarrow> nat" where
  "big_endian bs = foldl (\<lambda>n b. 256 * n + unat b) 0 bs"

lemma putBytes_outside: "b \<notin> span a (length bs) \<Longrightarrow> putBytes a bs m b = m b"
  by (induction bs arbitrary: a) (auto simp: span_Suc)

lemma putBytes_at: "length bs < 2 ^ 32 \<Longrightarrow> i < length bs \<Longrightarrow> putBytes a bs m (a + of_nat i) = bs ! i"
proof (induction bs arbitrary: a i)
  case (Cons b bs)
  show ?case
  proof (cases i)
    case (Suc j)
    have "(of_nat (Suc j) :: u32) \<noteq> of_nat 0" using Cons.prems Suc by (subst of_nat32_eq) auto
    then have "a + of_nat (Suc j) \<noteq> a" by simp
    moreover have "putBytes (a + 1) bs m (a + 1 + of_nat j) = bs ! j" using Cons Suc by simp
    ultimately show ?thesis using Suc by (simp add: algebra_simps)
  qed simp
qed simp

lemma bytes_at_putBytes: "length bs < 2 ^ 32 \<Longrightarrow> bytes_at (putBytes a bs m) a bs"
  by (simp add: bytes_at_iff putBytes_at)

lemma getBytes_putBytes: "length bs < 2 ^ 32 \<Longrightarrow> getBytes (putBytes a bs m) a (length bs) = bs"
  by (auto simp: getBytes_def putBytes_at intro!: nth_equalityI)

lemma getBytes_cong: "(\<And>b. b \<in> span a n \<Longrightarrow> m' b = m b) \<Longrightarrow> getBytes m' a n = getBytes m a n"
  by (simp add: getBytes_def span_in)

lemma getBytes_append: "getBytes m a (i + j) = getBytes m a i @ getBytes m (a + of_nat i) j"
  by (rule nth_equalityI) (auto simp: getBytes_def nth_append add.assoc simp flip: of_nat_add)

lemma length_getBytes [simp]: "length (getBytes m a n) = n"
  by (simp add: getBytes_def)

lemma u32_le: "unat (n :: u32) \<le> 4294967296"
  using unat_u32_bound [of n] by linarith

lemma memset_at: "memset m p b n a = (if a \<in> span p (unat n) then b else m a)"
  unfolding memset_def by (rule memset_spec [OF u32_le])

lemma memcpy_at:
  "span p (unat n) \<inter> span q (unat n) = {} \<Longrightarrow> memcpy m p q n a = (if a \<in> span q (unat n) then m (p + (a - q)) else m a)"
  unfolding memcpy_def by (rule memcpy_spec [OF u32_le])

lemma getBytes_memcpy:
  assumes "span p (unat n) \<inter> span q (unat n) = {}"
  shows "getBytes (memcpy m p q n) q (unat n) = getBytes m p (unat n)"
  by (simp add: getBytes_def memcpy_at [OF assms] span_in)

lemma write32_outside: "a \<notin> span p 4 \<Longrightarrow> write32 m p v a = m a"
  using span_in [of 0 4 p] span_in [of 1 4 p] span_in [of 2 4 p] span_in [of 3 4 p] by (auto simp: write32_def)

lemma span_sub: "i + j \<le> n \<Longrightarrow> span (p + of_nat i) j \<subseteq> span p n"
  unfolding span_def by (auto simp: add.assoc simp flip: of_nat_add)

lemma length_le32 [simp]: "length (le32 v) = 4"
  by (simp add: le32_def)

lemma getBytes_read32: "getBytes m a 4 = le32 v \<Longrightarrow> read32 m a = v"
  by (rule read32_le) (auto simp: getBytes_def le32_def add.assoc upt_rec [of _ 4])

lemma span_apart:
  assumes "i + j \<le> k" and "k + l \<le> 4294967296"
  shows "span (p + of_nat i) j \<inter> span (p + of_nat k) l = {}"
proof -
  have "(of_nat (i + x) :: u32) \<noteq> of_nat (k + y)" if "x < j" "y < l" for x y
    using assms that by (subst of_nat32_eq) auto
  then show ?thesis by (auto simp: span_def)
qed

end
