(* ===== verification/Storage.thy ===== *)
theory Storage
  imports Shared
begin

text \<open>
  The storage services: \<open>userland/usbStorage\<close> wraps commands for USB mass storage devices, \<open>userland/scisi\<close> makes the
  commands that read blocks, \<open>userland/mbr\<close> reads the partition table. Each passes its commands to the next one as the
  physical address of a structure in its memory. Structures that never leave a program are records; structures that
  are passed on are records with their layout in memory.
\<close>

section \<open>USB mass storage\<close>

record StorageDevice =
  storage_serviceId :: u32
  storage_deviceId :: u32
  storage_id :: u32
  storage_inFunction :: u32
  storage_outFunction :: u32

datatype UsbStorageSubClass =
  SCISI | RBC | MMC_5 | Obsolete1 | UFI | Obsolete2 | SCISI_Transparent | LSD_FS | IEEE_1667 | UnknownSubClass

datatype UsbStorageProtocol = CBI1 | CBI2 | Obsolete | BulkOnly | UAS | UnknownProtocol

fun subclassStrings :: "UsbStorageSubClass \<Rightarrow> string" where
  "subclassStrings SCISI = ''SCISI''"
| "subclassStrings RBC = ''RBC''"
| "subclassStrings MMC_5 = ''MMC-5''"
| "subclassStrings Obsolete1 = ''Obsolete''"
| "subclassStrings UFI = ''UFI''"
| "subclassStrings Obsolete2 = ''Obsolete''"
| "subclassStrings SCISI_Transparent = ''SCISI transparent''"
| "subclassStrings LSD_FS = ''LSD FS''"
| "subclassStrings IEEE_1667 = ''IEEE 1667''"
| "subclassStrings UnknownSubClass = ''Unknown''"

fun protocolStrings :: "UsbStorageProtocol \<Rightarrow> string" where
  "protocolStrings CBI1 = ''CBI1''"
| "protocolStrings CBI2 = ''CBI2''"
| "protocolStrings Obsolete = ''Obsolete''"
| "protocolStrings BulkOnly = ''Bulk-only''"
| "protocolStrings UAS = ''UAS''"
| "protocolStrings UnknownProtocol = ''Unknown''"

definition subClassOf :: "u8 \<Rightarrow> UsbStorageSubClass" where
  "subClassOf b = (if b = 0 then SCISI else if b = 1 then RBC else if b = 2 then MMC_5 else if b = 3 then Obsolete1
     else if b = 4 then UFI else if b = 5 then Obsolete2 else if b = 6 then SCISI_Transparent else if b = 7 then LSD_FS
     else if b = 8 then IEEE_1667 else UnknownSubClass)"

definition protocolOf :: "u8 \<Rightarrow> UsbStorageProtocol" where
  "protocolOf b = (if b = 0 then CBI1 else if b = 1 then CBI2 else if b = 2 then Obsolete
     else if b = 0x50 then BulkOnly else if b = 0x62 then UAS else UnknownProtocol)"

text \<open>
  The structure handed to the host controller: 36 bytes with the last one as padding. The transfer begins behind
  \<open>cbw_size\<close>. The flags are the byte with the direction as its highest bit.
\<close>

record CommandBlockWrapper =
  cbw_size :: u32
  cbw_signature :: u32
  cbw_tag :: u32
  cbw_transferSize :: u32
  cbw_flags :: u8
  cbw_LUN :: u8
  cbw_length :: u8

definition cbwHead :: "CommandBlockWrapper \<Rightarrow> u8 list" where
  "cbwHead c = le32 (cbw_size c) @ le32 (cbw_signature c) @ le32 (cbw_tag c) @ le32 (cbw_transferSize c) @
     [cbw_flags c, cbw_LUN c, cbw_length c]"

definition listGetDevice :: "'a list \<Rightarrow> u32 \<Rightarrow> 'a option" where
  "listGetDevice devices i = (if unat i < length devices then Some (devices ! unat i) else None)"

text \<open>
  A device number that is not in the list is the null pointer, which is then followed. The status structure has
  20 bytes: size, signature, tag, residue and the status at offset 16.
\<close>

definition storageIn :: "StorageDevice list \<Rightarrow> u32 \<Rightarrow> u32 \<Rightarrow> Shared \<Rightarrow> (u32 \<times> Shared) option" where
  "storageIn devices pipe data s = do {
     device \<leftarrow> listGetDevice devices (pipe AND 0xFFFF);
     let target = pipe AND 0xFFFF0000 OR storage_deviceId device;
     (_, s) \<leftarrow> ask (Request (storage_serviceId device) (storage_inFunction device) target data) s;
     (status, s) \<leftarrow> new 20 s;
     let s = s\<lparr>mem := write32 (mem s) status (20 - 4)\<rparr>;
     (physical, s) \<leftarrow> query (GetPhysicalAddress status) s;
     (_, s) \<leftarrow> ask (Request (storage_serviceId device) (storage_inFunction device) target physical) s;
     if read32 (mem s) (status + 4) \<noteq> 0x53425355 then do {
       s \<leftarrow> tell (Print ''CSW signature did not match, got: %x'' [Num (read32 (mem s) (status + 4))]) s;
       Some (- 1, s)
     } else if mem s (status + 16) \<noteq> 0 then do {
       s \<leftarrow> tell (Print ''CSW: bad status, got %x'' [Num (ucast (mem s (status + 16)))]) s;
       Some (- 1, s)
     } else Some (0, s)
   }"

definition storageOut :: "StorageDevice list \<Rightarrow> u32 \<Rightarrow> u32 \<Rightarrow> Shared \<Rightarrow> (u32 \<times> Shared) option" where
  "storageOut devices pipe data s = do {
     (dataHere, s) \<leftarrow> ask (RequestMemory 1 0 data) s;
     let size = read32 (mem s) dataHere;
     let transferSize = read32 (mem s) (dataHere + 4);
     device \<leftarrow> listGetDevice devices (pipe AND 0xFFFF);
     (command, s) \<leftarrow> new 36 s;
     let c = \<lparr>cbw_size = 31, cbw_signature = 0x43425355, cbw_tag = 0xB105F00D, cbw_transferSize = transferSize,
       cbw_flags = 0x80, cbw_LUN = 0, cbw_length = ucast size\<rparr>;
     let m = putBytes command (cbwHead c) (mem s);
     let s = s\<lparr>mem := memcpy m (dataHere + 8) (command + 19) size\<rparr>;
     (physical, s) \<leftarrow> query (GetPhysicalAddress command) s;
     (_, s) \<leftarrow> ask (Request (storage_serviceId device) (storage_outFunction device)
       (pipe AND 0xFFFF0000 OR storage_deviceId device) physical) s;
     s \<leftarrow> tell (Free command) s;
     Some (0, s)
   }"

definition storageSetup :: "u32 \<Rightarrow> u32 \<Rightarrow> u32 \<Rightarrow> StorageDevice list \<times> Shared \<Rightarrow> (StorageDevice list \<times> Shared) option" where
  "storageSetup inPipe outPipe service = (\<lambda>(devices, s). do {
     (getType, s) \<leftarrow> query (GetFunction service ''get_type'') s;
     (typeIn, s) \<leftarrow> ask (Request service getType inPipe 0) s;
     (typeOut, s) \<leftarrow> ask (Request service getType outPipe 0) s;
     let interfaceClass = (ucast typeIn :: u8);
     let subClass = subClassOf (ucast (drop_bit 8 typeIn));
     let protocol = protocolOf (ucast (drop_bit 16 typeIn));
     if typeIn \<noteq> typeOut then do {
       s \<leftarrow> tell (Print ''something went wrong when assigning the in and out pipes, aborting...'' []) s;
       Some (devices, s)
     } else if interfaceClass \<noteq> 8 then do {
       s \<leftarrow> tell (Print ''type is not 8 (Mass storage device), aborting...'' []) s;
       Some (devices, s)
     } else do {
       s \<leftarrow> tell (Print (''registered a new usb mass storage drive with sub class '%s' and protocol '%s'' @ [CHR 0x27])
         [Text (subclassStrings subClass), Text (protocolStrings protocol)]) s;
       if protocol \<noteq> BulkOnly then do {
         s \<leftarrow> tell (Print ''only bulk only protocol supported for now, aborting...'' []) s;
         Some (devices, s)
       } else do {
         (inF, s) \<leftarrow> query (GetFunction service ''storage_in'') s;
         (outF, s) \<leftarrow> query (GetFunction service ''storage_out'') s;
         let number = of_nat (length devices);
         let devices = devices @ [\<lparr>storage_serviceId = service, storage_deviceId = inPipe AND 0xFFFF, storage_id = number,
           storage_inFunction = inF, storage_outFunction = outF\<rparr>];
         if subClass = SCISI_Transparent then do {
           (_, s) \<leftarrow> ask (Ask ''scisi'' ''register'' (number OR (inPipe AND 0xFFFF0000)) (number OR (outPipe AND 0xFFFF0000))) s;
           Some (devices, s)
         } else Some (devices, s)
       }
     }
   })"

definition usbStorageMain :: "Shared \<Rightarrow> Shared option" where
  "usbStorageMain s = do {
     s \<leftarrow> tell (CreateFunction ''setup'' ''setup'') s;
     s \<leftarrow> tell (CreateFunction ''scisi_in'' ''in'') s;
     tell (CreateFunction ''scisi_out'' ''out'') s
   }"

section \<open>SCSI commands\<close>

record ScisiDevice =
  scisi_in :: u32
  scisi_out :: u32
  scisi_serviceId :: u32
  scisi_id :: u32
  scisi_inFunction :: u32
  scisi_outFunction :: u32
  scisi_blockSize :: u32

record InquiryCommand =
  inquiry_size :: u32
  inquiry_transferSize :: u32
  inquiry_operationCode :: u8
  evpd :: u8
  pageCode :: u8
  allocationLengthHigh :: u8
  allocationLengthLow :: u8
  inquiry_control :: u8

definition inquiryBytes :: "InquiryCommand \<Rightarrow> u8 list" where
  "inquiryBytes c = le32 (inquiry_size c) @ le32 (inquiry_transferSize c) @
     [inquiry_operationCode c, evpd c, pageCode c, allocationLengthHigh c, allocationLengthLow c, inquiry_control c]"

text \<open>The compiler aligns the number at the end of the structure, so that it has 20 bytes.\<close>

record ReadCapacity10Command =
  capacity_size :: u32
  capacity_transferSize :: u32
  capacity_operationCode :: u8
  obsolete :: u8
  LBAObsolete :: u32
  capacity_reserved :: u16
  PMIObsolete :: u8
  capacity_control :: u8

definition capacityBytes :: "ReadCapacity10Command \<Rightarrow> u8 list" where
  "capacityBytes c = le32 (capacity_size c) @ le32 (capacity_transferSize c) @ [capacity_operationCode c, obsolete c, 0, 0] @
     le32 (LBAObsolete c) @ le16 (capacity_reserved c) @ [PMIObsolete c, capacity_control c]"

text \<open>18 bytes and two of padding.\<close>

record Read10Command =
  read10_size :: u32
  read10_transferSize :: u32
  read10_operationCode :: u8
  protect :: u8
  lba :: "u8 list"
  groupNumber :: u8
  transferLength :: "u8 list"
  read10_control :: u8

definition read10Bytes :: "Read10Command \<Rightarrow> u8 list" where
  "read10Bytes c = le32 (read10_size c) @ le32 (read10_transferSize c) @ [read10_operationCode c, protect c] @ lba c @
     [groupNumber c] @ transferLength c @ [read10_control c, 0, 0]"

text \<open>A command goes to the device through the service that registered it, and so does the buffer for the answer.\<close>

definition sendOut :: "ScisiDevice \<Rightarrow> u32 \<Rightarrow> Shared \<Rightarrow> Shared option" where
  "sendOut device command s = do {
     (physical, s) \<leftarrow> query (GetPhysicalAddress command) s;
     (_, s) \<leftarrow> ask (Request (scisi_serviceId device) (scisi_outFunction device) (scisi_out device) physical) s;
     Some s
   }"

definition receive :: "ScisiDevice \<Rightarrow> u32 \<Rightarrow> Shared \<Rightarrow> Shared option" where
  "receive device response s = do {
     (physical, s) \<leftarrow> query (GetPhysicalAddress response) s;
     (_, s) \<leftarrow> ask (Request (scisi_serviceId device) (scisi_inFunction device) (scisi_in device) physical) s;
     Some s
   }"

definition setBytes :: "u32 \<Rightarrow> u8 list \<Rightarrow> Shared \<Rightarrow> Shared" where
  "setBytes a bs s = s\<lparr>mem := putBytes a bs (mem s)\<rparr>"

text \<open>The additional length is the byte at offset 8 of the response, which has 136 bytes.\<close>

definition doInquiry :: "ScisiDevice \<Rightarrow> Shared \<Rightarrow> Shared option" where
  "doInquiry device s = do {
     (command, s) \<leftarrow> new 14 s;
     let c = \<lparr>inquiry_size = 14 - 4, inquiry_transferSize = 5, inquiry_operationCode = 0x12, evpd = 0, pageCode = 0,
       allocationLengthHigh = 0, allocationLengthLow = 5, inquiry_control = 0\<rparr>;
     s \<leftarrow> sendOut device command (setBytes command (inquiryBytes c) s);
     (response, s) \<leftarrow> new 136 s;
     s \<leftarrow> receive device response (setBytes response (le32 (136 - 4)) s);
     let additionalLength = mem s (response + 8);
     let c = c\<lparr>allocationLengthLow := 5 + additionalLength, inquiry_transferSize := ucast (5 + additionalLength)\<rparr>;
     s \<leftarrow> sendOut device command (setBytes command (inquiryBytes c) s);
     s \<leftarrow> receive device response s;
     s \<leftarrow> tell (Free command) s;
     tell (Free response) s
   }"

definition shifted :: "bytes \<Rightarrow> u32 \<Rightarrow> u32" where
  "shifted m a = push_bit 24 (ucast (m a)) OR push_bit 16 (ucast (m (a + 1))) OR push_bit 8 (ucast (m (a + 2))) OR ucast (m (a + 3))"

definition readSize :: "ScisiDevice \<Rightarrow> Shared \<Rightarrow> (ScisiDevice \<times> Shared) option" where
  "readSize device s = do {
     (command, s) \<leftarrow> new 20 s;
     let c = \<lparr>capacity_size = 20 - 8, capacity_transferSize = 12 - 4, capacity_operationCode = 0x25, obsolete = 0,
       LBAObsolete = 0, capacity_reserved = 0, PMIObsolete = 0, capacity_control = 0\<rparr>;
     s \<leftarrow> sendOut device command (setBytes command (capacityBytes c) s);
     (response, s) \<leftarrow> new 12 s;
     s \<leftarrow> receive device response (setBytes response (le32 (12 - 4)) s);
     let device = device\<lparr>scisi_blockSize := shifted (mem s) (response + 8)\<rparr>;
     let maxLba = shifted (mem s) (response + 4);
     s \<leftarrow> tell (Print ''max block address: %x, block size: %x, capacity: %i = 0x%x''
       [Num maxLba, Num (scisi_blockSize device), Num (maxLba * scisi_blockSize device), Num (maxLba * scisi_blockSize device)]) s;
     s \<leftarrow> tell (Free command) s;
     s \<leftarrow> tell (Free response) s;
     Some (device, s)
   }"

text \<open>Division by a block size of zero is a fault.\<close>

definition scisiRead :: "ScisiDevice \<Rightarrow> u32 \<Rightarrow> u16 \<Rightarrow> Shared \<Rightarrow> (u32 \<times> Shared) option" where
  "scisiRead device address amount s =
     (if amount = 0 then new 1 s
      else do {
        blockCount \<leftarrow> (if scisi_blockSize device = 0 then None else Some ((ucast amount - 1) div scisi_blockSize device + 1));
        (command, s) \<leftarrow> new 20 s;
        let c = \<lparr>read10_size = 20 - 8, read10_transferSize = ucast amount, read10_operationCode = 0x28, protect = 0,
          lba = [ucast (drop_bit 24 address), ucast (drop_bit 16 address), ucast (drop_bit 8 address), ucast address],
          groupNumber = 0, transferLength = [ucast (drop_bit 8 blockCount), ucast blockCount], read10_control = 0\<rparr>;
        let s = setBytes command (read10Bytes c) s;
        (data, s) \<leftarrow> new (ucast amount + 4) s;
        let s = s\<lparr>mem := write32 (mem s) data (ucast amount)\<rparr>;
        s \<leftarrow> sendOut device command s;
        s \<leftarrow> receive device data s;
        s \<leftarrow> tell (Free command) s;
        Some (data + 4, s)
      })"

definition doRead :: "ScisiDevice list \<Rightarrow> u32 \<Rightarrow> u32 \<Rightarrow> Shared \<Rightarrow> (u32 \<times> Shared) option" where
  "doRead devices deviceSize blockId s = do {
     device \<leftarrow> listGetDevice devices (deviceSize AND 0xFFFF);
     (result, s) \<leftarrow> scisiRead device blockId (ucast (drop_bit 16 deviceSize)) s;
     (physical, s) \<leftarrow> query (GetPhysicalAddress result) s;
     s \<leftarrow> tell (Print ''reading %i bytes from position %i from device %i: %x''
       [Num (drop_bit 16 deviceSize), Num blockId, Num (deviceSize AND 0xFFFF), Num physical]) s;
     query (GetPhysicalAddress result) s
   }"

definition scisiRegisterDevice :: "u32 \<Rightarrow> u32 \<Rightarrow> u32 \<Rightarrow> ScisiDevice list \<times> Shared \<Rightarrow> (ScisiDevice list \<times> Shared) option" where
  "scisiRegisterDevice inPipe outPipe service = (\<lambda>(devices, s). do {
     (inF, s) \<leftarrow> query (GetFunction service ''scisi_in'') s;
     (outF, s) \<leftarrow> query (GetFunction service ''scisi_out'') s;
     let device = \<lparr>scisi_in = inPipe, scisi_out = outPipe, scisi_serviceId = service, scisi_id = of_nat (length devices),
       scisi_inFunction = inF, scisi_outFunction = outF, scisi_blockSize = 0\<rparr>;
     let devices = devices @ [device];
     s \<leftarrow> tell (Print ''registering a new SCISI device (in port: %x, out port: %x)'' [Num inPipe, Num outPipe]) s;
     s \<leftarrow> doInquiry device s;
     (device, s) \<leftarrow> readSize device s;
     let devices = devices[length devices - 1 := device];
     (buffer, s) \<leftarrow> scisiRead device 0 512 s;
     s \<leftarrow> (if mem s (buffer + 510) = 0x55 \<and> mem s (buffer + 511) = 0xAA
       then tell (Print ''device %i is bootable!'' [Num (scisi_id device)]) s else Some s);
     s \<leftarrow> tell (Free (buffer - 4)) s;
     (_, s) \<leftarrow> ask (Ask ''mbr'' ''register'' (scisi_id device) 0) s;
     Some (devices, s)
   })"

definition scisiMain :: "Shared \<Rightarrow> Shared option" where
  "scisiMain s = do {
     s \<leftarrow> tell (CreateFunction ''register'' ''registerDevice'') s;
     tell (CreateFunction ''mbr_read'' ''doRead'') s
   }"

section \<open>Partition tables\<close>

record PartitionTableEntry =
  active :: u8
  partition_type :: u8
  lbaStart :: u32
  sectorCount :: u32

record ClassicMBR =
  mbr_entries :: "PartitionTableEntry list"
  mbr_signature :: "u8 list"

record MbrDevice =
  mbr_serviceId :: u32
  mbr_deviceId :: u32
  readFunktion :: u32
  writeFunktion :: u32
  mbr :: ClassicMBR

text \<open>
  The structure has 68 bytes: four entries of 16 bytes, the signature and two of padding. Of an entry the eight bytes
  of the old cylinder addresses are left out, which the program does not read.
\<close>

definition partitionAt :: "bytes \<Rightarrow> u32 \<Rightarrow> PartitionTableEntry" where
  "partitionAt m a = \<lparr>active = m a, partition_type = m (a + 4), lbaStart = read32 m (a + 8), sectorCount = read32 m (a + 12)\<rparr>"

definition mbrAt :: "bytes \<Rightarrow> u32 \<Rightarrow> ClassicMBR" where
  "mbrAt m a = \<lparr>mbr_entries = map (\<lambda>i. partitionAt m (a + 16 * of_nat i)) [0..<4], mbr_signature = [m (a + 64), m (a + 65)]\<rparr>"

definition showPartition :: "ClassicMBR \<Rightarrow> nat \<Rightarrow> Shared \<Rightarrow> Shared option" where
  "showPartition table i s =
     (let partition = mbr_entries table ! i; entry = of_nat i in
      if partition_type partition = 0 \<or> sectorCount partition = 0 then Some s
      else do {
        s \<leftarrow> tell (Print ''partition %i: %i: start: %i, end: %i, active: %i''
          [Num entry, Num (ucast (partition_type partition)), Num (lbaStart partition),
           Num (lbaStart partition + sectorCount partition), Num (ucast (active partition))]) s;
        if partition_type partition = 0xEE then tell (Print ''partition %i is a GPT'' [Num entry]) s
        else if partition_type partition = 0xEF then tell (Print ''partition %i is an UEFI system partition'' [Num entry]) s
        else Some s
      })"

definition mbrRegisterDevice :: "u32 \<Rightarrow> u32 \<Rightarrow> MbrDevice list \<times> Shared \<Rightarrow> (MbrDevice list \<times> Shared) option" where
  "mbrRegisterDevice deviceId service = (\<lambda>(devices, s). do {
     (readF, s) \<leftarrow> query (GetFunction service ''mbr_read'') s;
     (writeF, s) \<leftarrow> query (GetFunction service ''mbr_write'') s;
     (firstSector, s) \<leftarrow> ask (Request service readF (deviceId OR push_bit 16 512) 0) s;
     (dataHere, s) \<leftarrow> ask (RequestMemory 1 0 firstSector) s;
     (copy, s) \<leftarrow> new 68 s;
     let s = s\<lparr>mem := memcpy (mem s) (dataHere + 446) copy 68\<rparr>;
     let table = mbrAt (mem s) copy;
     let devices = devices @ [\<lparr>mbr_serviceId = service, mbr_deviceId = deviceId, readFunktion = readF, writeFunktion = writeF, mbr = table\<rparr>];
     s \<leftarrow> (if mbr_signature table ! 0 \<noteq> 0x55 \<or> mbr_signature table ! 1 \<noteq> 0xAA
       then tell (Print ''MBR signature did not match, got: 0x%x%x''
         [Num (ucast (mbr_signature table ! 0)), Num (ucast (mbr_signature table ! 1))]) s
       else ofold (showPartition table) [0..<4] s);
     Some (devices, s)
   })"

definition mbrMain :: "Shared \<Rightarrow> Shared option" where
  "mbrMain s = tell (CreateFunction ''register'' ''registerDevice'') s"

end
