(* ===== verification/StorageProps.thy ===== *)
theory StorageProps
  imports Storage
begin

text \<open>
  What a storage device is asked for: a read command of \<open>scisi\<close>, passed through the memory both programs see to
  \<open>usbStorage\<close>, reaches the device as the command block its specification prescribes.
\<close>

text \<open>
  How a bulk-only device reads the 31 bytes of a command block wrapper that holds a READ (10) command: the number of
  bytes to transfer, the first block and the number of blocks.
\<close>

definition little_endian :: "u8 list \<Rightarrow> nat" where
  "little_endian bs = big_endian (rev bs)"

definition readRequest :: "u8 list \<Rightarrow> (nat \<times> nat \<times> nat) option" where
  "readRequest bs =
     (if length bs = 31 \<and> take 4 bs = [0x55, 0x53, 0x42, 0x43] \<and> bs ! 12 = 0x80 \<and> bs ! 13 = 0 \<and> 10 \<le> bs ! 14 \<and> bs ! 14 \<le> 16 \<and> bs ! 15 = 0x28
      then Some (little_endian (take 4 (drop 8 bs)), big_endian (take 4 (drop 17 bs)), big_endian (take 2 (drop 22 bs)))
      else None)"

lemma base256_two: "n < 65536 \<Longrightarrow> n = 256 * (n div 256 mod 256) + n mod 256" for n :: nat
  using mult_div_mod_eq [of 256 n] by (simp add: less_mult_imp_div_less)

lemma base256_four:
  fixes n :: nat
  assumes "n < 4294967296"
  shows "n = 16777216 * (n div 16777216 mod 256) + 65536 * (n div 65536 mod 256) + 256 * (n div 256 mod 256) + n mod 256"
proof -
  have "n div 65536 < 65536" using assms by (simp add: less_mult_imp_div_less)
  then have "n div 65536 = 256 * (n div 16777216 mod 256) + n div 65536 mod 256" using base256_two [of "n div 65536"] by (simp flip: div_mult2_eq)
  moreover have "n div 256 = 256 * (n div 65536) + n div 256 mod 256" using mult_div_mod_eq [of 256 "n div 256"] by (simp flip: div_mult2_eq)
  moreover have "n = 256 * (n div 256) + n mod 256" by simp
  ultimately show ?thesis by linarith
qed

lemma bytes32: "unat (v :: u32) = 16777216 * unat (ucast (drop_bit 24 v) :: u8) + 65536 * unat (ucast (drop_bit 16 v) :: u8) +
    256 * unat (ucast (drop_bit 8 v) :: u8) + unat (ucast v :: u8)"
proof -
  have "unat v div 16777216 mod 256 = unat v div 16777216" using unat_u32_bound [of v] by (simp add: less_mult_imp_div_less)
  with base256_four [OF unat_u32_bound [of v]] show ?thesis
    by - (simp add: unsigned_ucast_eq unat_drop_bit take_bit_eq_mod del: mod_less, linarith?)
qed

lemma big_endian_be32: "big_endian [ucast (drop_bit 24 v), ucast (drop_bit 16 v), ucast (drop_bit 8 v), ucast v] = unat v" for v :: u32
  using bytes32 [of v] by (simp add: big_endian_def)

lemma little_endian_le32: "little_endian (le32 v) = unat v"
  using bytes32 [of v] by (simp add: little_endian_def big_endian_def le32_def)

lemma big_endian_be16: "unat v < 65536 \<Longrightarrow> big_endian [ucast (drop_bit 8 v), ucast v] = unat v" for v :: u32
  using base256_two [of "unat v"] by (simp add: big_endian_def unsigned_ucast_eq unat_drop_bit take_bit_eq_mod)

section \<open>The command of the SCSI service\<close>

definition read10 :: "u32 \<Rightarrow> u16 \<Rightarrow> u32 \<Rightarrow> Read10Command" where
  "read10 address amount blockCount =
     \<lparr>read10_size = 12, read10_transferSize = ucast amount, read10_operationCode = 0x28, protect = 0,
      lba = [ucast (drop_bit 24 address), ucast (drop_bit 16 address), ucast (drop_bit 8 address), ucast address],
      groupNumber = 0, transferLength = [ucast (drop_bit 8 blockCount), ucast blockCount], read10_control = 0\<rparr>"

text \<open>Consecutive allocations, and an allocation after a page has been mapped, give memory that does not overlap.\<close>

definition allocations_apart :: "Shared \<Rightarrow> bool" where
  "allocations_apart s \<longleftrightarrow> (\<forall>L m m' n k. n < 0x11000 \<longrightarrow> k < 0x11000 \<longrightarrow>
     span (reply s (L @ [(Malloc n, m)])) (unat n) \<inter> span (reply s (L @ [(Malloc n, m), (Malloc k, m')])) (unat k) = {})"

lemma scisiRead_sends:
  assumes "amount \<noteq> 0" and "scisi_blockSize device \<noteq> 0" and "allocations_apart s"
  shows "\<exists>m0 m1 command data physical m rest s'. scisiRead device address amount s = Some (data + 4, s') \<and>
    sent s' = sent s @ [(Malloc 20, m0), (Malloc (ucast amount + 4), m1), (GetPhysicalAddress command, m),
      (Request (scisi_serviceId device) (scisi_outFunction device) (scisi_out device) physical, m)] @ rest \<and>
    getBytes m command 20 = read10Bytes (read10 address amount ((ucast amount - 1) div scisi_blockSize device + 1))"
proof -
  let ?bs = "read10Bytes (read10 address amount ((ucast amount - 1) div scisi_blockSize device + 1))"
  define command where "command = reply s (sent s @ [(Malloc 20, mem s)])"
  define m1 where "m1 = putBytes command ?bs (memset (mem s) command 0 20)"
  define data where "data = reply s (sent s @ [(Malloc 20, mem s), (Malloc (ucast amount + 4), m1)])"
  define m where "m = write32 (memset m1 data 0 (ucast amount + 4)) data (ucast amount)"
  have n: "unat (ucast amount + 4 :: u32) = unat amount + 4" "ucast amount + 4 < (0x11000 :: u32)"
    using unat_lt [of amount] by (simp_all add: unat_word_ariths word_less_nat_alt unsigned_ucast_eq take_bit_eq_mod)
  have apart: "span command 20 \<inter> span data (unat amount + 4) = {}"
    using assms(3) [unfolded allocations_apart_def, rule_format, of 20 "ucast amount + 4" "sent s" "mem s" m1] n
    by (simp add: command_def data_def)
  have len: "length ?bs = 20" by (simp add: read10Bytes_def read10_def le32_def)
  have "getBytes m1 command (length ?bs) = ?bs" unfolding m1_def by (rule getBytes_putBytes) (simp add: len)
  moreover have "getBytes m command 20 = getBytes m1 command 20"
  proof (rule getBytes_cong)
    fix b assume "b \<in> span command 20"
    then have "b \<notin> span data (unat amount + 4)" using apart by blast
    moreover from this have "b \<notin> span data 4" using span_sub [of 0 4 "unat amount + 4" data] by auto
    ultimately show "m b = m1 b" using n by (simp add: m_def write32_outside memset_at)
  qed
  ultimately have "getBytes m command 20 = ?bs" using len by simp
  moreover have "\<exists>rest s'. scisiRead device address amount s = Some (data + 4, s') \<and>
    sent s' = sent s @ [(Malloc 20, mem s), (Malloc (ucast amount + 4), m1), (GetPhysicalAddress command, m),
      (Request (scisi_serviceId device) (scisi_outFunction device) (scisi_out device)
        (reply s (sent s @ [(Malloc 20, mem s), (Malloc (ucast amount + 4), m1), (GetPhysicalAddress command, m)])), m)] @ rest"
    using assms(1,2) by (simp add: scisiRead_def new_def query_def ask_def tell_def sendOut_def receive_def setBytes_def logged_def
        command_def [symmetric] m1_def [symmetric, unfolded read10_def] data_def [symmetric] m_def [symmetric])
  ultimately show ?thesis by blast
qed

section \<open>The wrapper of the storage service\<close>

definition page_apart :: "Shared \<Rightarrow> bool" where
  "page_apart s \<longleftrightarrow> (\<forall>L p m m' n. n < 0x100 \<longrightarrow>
     span (reply s (L @ [(RequestMemory 1 0 p, m)])) 20 \<inter> span (reply s (L @ [(RequestMemory 1 0 p, m), (Malloc n, m')])) (unat n) = {})"

definition wrapper :: "u32 \<Rightarrow> u32 \<Rightarrow> CommandBlockWrapper" where
  "wrapper n transferSize = \<lparr>cbw_size = 31, cbw_signature = 0x43425355, cbw_tag = 0xB105F00D, cbw_transferSize = transferSize,
     cbw_flags = 0x80, cbw_LUN = 0, cbw_length = ucast n\<rparr>"

lemma storageOut_sends:
  assumes "listGetDevice devices (pipe AND 0xFFFF) = Some d" and "page_apart u"
    and "reply u (logged u (RequestMemory 1 0 physical)) = here"
    and "getBytes (memory_after u (logged u (RequestMemory 1 0 physical))) here 20 = le32 12 @ le32 transferSize @ cdb" and "length cdb = 12"
  shows "\<exists>m0 m1 command m address rest u'. storageOut devices pipe physical u = Some (0, u') \<and>
    sent u' = sent u @ [(RequestMemory 1 0 physical, m0), (Malloc 36, m1), (GetPhysicalAddress command, m),
      (Request (storage_serviceId d) (storage_outFunction d) (pipe AND 0xFFFF0000 OR storage_deviceId d) address, m)] @ rest \<and>
    getBytes m command 35 = cbwHead (wrapper 12 transferSize) @ cdb @ replicate 4 0"
proof -
  define m1 where "m1 = memory_after u (logged u (RequestMemory 1 0 physical))"
  define command where "command = reply u (sent u @ [(RequestMemory 1 0 physical, mem u), (Malloc 36, m1)])"
  define m2 where "m2 = putBytes command (cbwHead (wrapper 12 transferSize)) (memset m1 command 0 36)"
  define m where "m = memcpy m2 (here + 8) (command + 19) 12"
  have head: "length (cbwHead (wrapper 12 transferSize)) = 19" by (simp add: cbwHead_def le32_def)
  have page: "getBytes m1 here 20 = le32 12 @ le32 transferSize @ cdb" using assms(4) by (simp add: m1_def)
  have "getBytes m1 here 4 @ getBytes m1 (here + 4) 4 @ getBytes m1 (here + 8) 12 = getBytes m1 here 20"
    using getBytes_append [of m1 here 4 16] getBytes_append [of m1 "here + 4" 4 12] by (simp add: add.assoc)
  then have parts: "getBytes m1 here 4 = le32 12" "getBytes m1 (here + 4) 4 = le32 transferSize" "getBytes m1 (here + 8) 12 = cdb"
    using page by simp_all
  then have fields: "read32 m1 here = 12" "read32 m1 (here + 4) = transferSize" by (simp_all add: getBytes_read32)
  have apart: "span here 20 \<inter> span command 36 = {}"
    using assms(2) [unfolded page_apart_def, rule_format, of 36 "sent u" physical "mem u" m1] assms(3) by (simp add: command_def logged_def)
  have sub: "span (here + 8) 12 \<subseteq> span here 20" "span (command + 19) 12 \<subseteq> span command 36" "span command 19 \<subseteq> span command 36"
    using span_sub [of 8 12 20 here] span_sub [of 19 12 36 command] span_sub [of 0 19 36 command] by simp_all
  have other: "span (here + 8) 12 \<inter> span (command + 19) 12 = {}" using apart sub by blast
  have copied: "m b = (if b \<in> span (command + 19) 12 then m2 (here + 8 + (b - (command + 19))) else m2 b)" for b
    unfolding m_def using memcpy_at [of "here + 8" 12 "command + 19" m2 b] other by simp
  have "getBytes m (command + 19) 12 = cdb"
  proof -
    have "getBytes m (command + 19) 12 = getBytes m2 (here + 8) 12"
      unfolding m_def using getBytes_memcpy [of "here + 8" 12 "command + 19" m2] other by simp
    also have "\<dots> = getBytes m1 (here + 8) 12"
    proof (rule getBytes_cong)
      fix b assume "b \<in> span (here + 8) 12"
      then have "b \<notin> span command 36" "b \<notin> span command 19" using apart sub by blast+
      then show "m2 b = m1 b" using head by (simp add: m2_def putBytes_outside memset_at)
    qed
    finally show ?thesis using parts by simp
  qed
  moreover have "getBytes m command 19 = cbwHead (wrapper 12 transferSize)"
  proof -
    have "getBytes m command 19 = getBytes m2 command 19"
      by (rule getBytes_cong) (use span_apart [of 0 19 19 12 command] copied in auto)
    then show ?thesis using getBytes_putBytes [of "cbwHead (wrapper 12 transferSize)" command] head by (simp add: m2_def)
  qed
  moreover have "getBytes m (command + 31) 4 = replicate 4 0"
  proof -
    have "m (command + 31 + of_nat i) = 0" if "i < 4" for i
    proof -
      have "command + 31 + of_nat i \<in> span (command + 31) 4" using that by (rule span_in)
      then have "command + 31 + of_nat i \<notin> span (command + 19) 12" "command + 31 + of_nat i \<notin> span command 19" "command + 31 + of_nat i \<in> span command 36"
        using span_apart [of 19 12 31 4 command] span_apart [of 0 19 31 4 command] span_sub [of 31 4 36 command] by auto
      then show ?thesis using copied head by (simp add: m2_def putBytes_outside memset_at)
    qed
    then show ?thesis by (intro nth_equalityI) (simp_all add: getBytes_def)
  qed
  ultimately have whole: "getBytes m command 35 = cbwHead (wrapper 12 transferSize) @ cdb @ replicate 4 0"
    using getBytes_append [of m command 19 16] getBytes_append [of m "command + 19" 12 4] by (simp add: add.assoc)
  have "\<exists>rest u'. storageOut devices pipe physical u = Some (0, u') \<and>
    sent u' = sent u @ [(RequestMemory 1 0 physical, mem u), (Malloc 36, m1), (GetPhysicalAddress command, m),
      (Request (storage_serviceId d) (storage_outFunction d) (pipe AND 0xFFFF0000 OR storage_deviceId d)
        (reply u (sent u @ [(RequestMemory 1 0 physical, mem u), (Malloc 36, m1), (GetPhysicalAddress command, m)])), m)] @ rest"
    using assms(1,3) fields [unfolded m1_def]
    by (simp add: storageOut_def new_def query_def ask_def tell_def logged_def Let_def m_def m2_def m1_def command_def wrapper_def)
  then show ?thesis using whole by blast
qed

section \<open>Properties\<close>

lemma block_count:
  assumes "amount \<noteq> (0 :: u16)" and "b \<noteq> (0 :: u32)"
  shows "unat b * (unat ((ucast amount - 1) div b + 1) - 1) < unat amount \<and> unat amount \<le> unat b * unat ((ucast amount - 1) div b + 1) \<and>
    unat ((ucast amount - 1) div b + 1) < 65536"
proof -
  have a: "0 < unat amount" "unat amount < 65536" using assms(1) unat_lt [of amount] by (simp_all add: unat_gt_0)
  then have "unat (ucast amount - 1 :: u32) = unat amount - 1"
    by (subst unat_sub) (simp_all add: unsigned_ucast_eq take_bit_eq_mod word_le_nat_alt)
  then have q: "unat ((ucast amount - 1) div b) = (unat amount - 1) div unat b" by (simp add: unat_div)
  have lt: "(unat amount - 1) div unat b < 65535" using a div_le_dividend [of "unat amount - 1" "unat b"] by linarith
  then have n: "unat ((ucast amount - 1) div b + 1) = (unat amount - 1) div unat b + 1"
    by (subst unat_add_small) (use q in simp_all)
  have b: "0 < unat b" using assms(2) by (simp add: unat_gt_0)
  define p where "p = unat b * ((unat amount - 1) div unat b)"
  have "p \<le> unat amount - 1" unfolding p_def by simp
  moreover have "unat amount - 1 < p + unat b"
    using mult_div_mod_eq [of "unat b" "unat amount - 1"] mod_less_divisor [OF b, of "unat amount - 1"] unfolding p_def by linarith
  moreover have "unat b * ((unat amount - 1) div unat b + 1 - 1) = p" "unat b * ((unat amount - 1) div unat b + 1) = p + unat b"
    by (simp_all add: p_def)
  ultimately show ?thesis unfolding n using a lt by linarith
qed

lemma wrapped_read:
  assumes "unat n < 65536"
  shows "readRequest (drop 4 (cbwHead (wrapper 12 (ucast amount)) @ drop 8 (read10Bytes (read10 address amount n)) @ replicate 4 0)) =
    Some (unat amount, unat address, unat n)"
proof -
  have "little_endian (le32 (ucast amount)) = unat amount" unfolding little_endian_le32 using unat_lt [of amount] by (simp add: unsigned_ucast_eq take_bit_eq_mod)
  then show ?thesis using big_endian_be32 [of address] big_endian_be16 [OF assms]
    by (simp add: readRequest_def cbwHead_def wrapper_def read10Bytes_def read10_def le32_def)
qed

text \<open>
  C36. A read of \<open>amount\<close> bytes from block \<open>address\<close> reaches the device: \<open>scisi\<close> announces a command in its memory, and
  \<open>usbStorage\<close>, in whose memory the page of that command appears at \<open>here\<close>, asks the USB driver to send 31 bytes which
  a bulk-only device reads as the READ (10) command for that block, with the transfer length \<open>amount\<close> and the smallest
  number of blocks that holds it.
\<close>

theorem read_command_reaches_device:
  assumes "amount \<noteq> 0" and "scisi_blockSize device \<noteq> 0" and "allocations_apart s"
    and "listGetDevice devices (pipe AND 0xFFFF) = Some d" and "page_apart u"
  shows "\<exists>command physical m n rest s' r.
    scisiRead device address amount s = Some (r, s') \<and> 
    drop (length (sent s) + 2) (sent s') = (GetPhysicalAddress command, m) #
      (Request (scisi_serviceId device) (scisi_outFunction device) (scisi_out device) physical, m) # rest \<and>
    unat (scisi_blockSize device) * (n - 1) < unat amount \<and> unat amount \<le> unat (scisi_blockSize device) * n \<and>
    (getBytes (memory_after u (logged u (RequestMemory 1 0 physical))) (reply u (logged u (RequestMemory 1 0 physical))) 20 = getBytes m command 20 \<longrightarrow>
      (\<exists>command' m' address' rest' u'. storageOut devices pipe physical u = Some (0, u') \<and>
        drop (length (sent u) + 2) (sent u') = (GetPhysicalAddress command', m') #
          (Request (storage_serviceId d) (storage_outFunction d) (pipe AND 0xFFFF0000 OR storage_deviceId d) address', m') # rest' \<and>
        read32 m' command' = 31 \<and> readRequest (getBytes m' (command' + 4) 31) = Some (unat amount, unat address, n)))"
proof -
  let ?n = "(ucast amount - 1) div scisi_blockSize device + 1 :: u32"
  let ?bs = "read10Bytes (read10 address amount ?n)"
  obtain m0 m1 command data physical m rest s' where run: "scisiRead device address amount s = Some (data + 4, s')"
    "sent s' = sent s @ [(Malloc 20, m0), (Malloc (ucast amount + 4), m1), (GetPhysicalAddress command, m),
      (Request (scisi_serviceId device) (scisi_outFunction device) (scisi_out device) physical, m)] @ rest"
    "getBytes m command 20 = ?bs" using scisiRead_sends [OF assms(1-3)] by blast
  note n = block_count [OF assms(1,2)]
  have sent: "\<exists>command' m' address' rest' u'. storageOut devices pipe physical u = Some (0, u') \<and>
        drop (length (sent u) + 2) (sent u') = (GetPhysicalAddress command', m') #
          (Request (storage_serviceId d) (storage_outFunction d) (pipe AND 0xFFFF0000 OR storage_deviceId d) address', m') # rest' \<and>
        read32 m' command' = 31 \<and> readRequest (getBytes m' (command' + 4) 31) = Some (unat amount, unat address, unat ?n)"
    if "getBytes (memory_after u (logged u (RequestMemory 1 0 physical))) (reply u (logged u (RequestMemory 1 0 physical))) 20 = getBytes m command 20"
  proof -
    have "?bs = le32 12 @ le32 (ucast amount) @ drop 8 ?bs" "length (drop 8 ?bs) = 12" by (simp_all add: read10Bytes_def read10_def le32_def)
    with that run(3) obtain m0 m1 command' m' address' rest' u' where out: "storageOut devices pipe physical u = Some (0, u')"
      "sent u' = sent u @ [(RequestMemory 1 0 physical, m0), (Malloc 36, m1), (GetPhysicalAddress command', m'),
        (Request (storage_serviceId d) (storage_outFunction d) (pipe AND 0xFFFF0000 OR storage_deviceId d) address', m')] @ rest'"
      "getBytes m' command' 35 = cbwHead (wrapper 12 (ucast amount)) @ drop 8 ?bs @ replicate 4 0"
      using storageOut_sends [OF assms(4,5) refl, of physical "ucast amount" "drop 8 ?bs"] by metis
    have "getBytes m' command' 4 @ getBytes m' (command' + 4) 31 = getBytes m' command' 35" using getBytes_append [of m' command' 4 31] by simp
    then have "getBytes m' command' 4 @ getBytes m' (command' + 4) 31 =
        le32 31 @ drop 4 (cbwHead (wrapper 12 (ucast amount)) @ drop 8 ?bs @ replicate 4 0)"
      unfolding out(3) by (simp add: cbwHead_def wrapper_def le32_def)
    then have "getBytes m' command' 4 = le32 31"
      "getBytes m' (command' + 4) 31 = drop 4 (cbwHead (wrapper 12 (ucast amount)) @ drop 8 ?bs @ replicate 4 0)" by simp_all
    then show ?thesis using out(1,2) wrapped_read [of ?n amount address] n getBytes_read32 by auto
  qed
  show ?thesis
    by (intro exI [of _ command] exI [of _ physical] exI [of _ m] exI [of _ "unat ?n"] exI [of _ rest] exI [of _ s'] exI [of _ "data + 4"])
      (use run n sent in simp)
qed

text \<open>A program whose allocations alternate between two places, and one that sees the command at address \<open>0x5000\<close>.\<close>

definition readingProgram :: Shared where
  "readingProgram = \<lparr>mem = \<lambda>_. 0, sent = [], reply = (\<lambda>L. if even (length (filter (\<lambda>(c, _). \<exists>n. c = Malloc n) L)) then 0x100000 else 0x200000),
     memory_after = \<lambda>_ _. 0\<rparr>"

definition wrappingProgram :: "u8 list \<Rightarrow> Shared" where
  "wrappingProgram bs = \<lparr>mem = \<lambda>_. 0, sent = [], reply = (\<lambda>L. if \<exists>p. fst (last L) = RequestMemory 1 0 p then 0x5000 else 0x9000),
     memory_after = \<lambda>_. putBytes 0x5000 bs (\<lambda>_. 0)\<rparr>"

lemma readingProgram_apart: "allocations_apart readingProgram"
proof -
  have apart: "span 0x100000 (unat n) \<inter> span 0x200000 (unat k) = {}" if "n < 0x11000" "k < 0x11000" for n k :: u32
    using span_apart [of "0x100000" "unat n" "0x200000" "unat k" 0] that by (simp add: word_less_nat_alt)
  moreover have "span 0x200000 (unat n) \<inter> span 0x100000 (unat k) = {}" if "n < 0x11000" "k < 0x11000" for n k :: u32
    using apart [OF that(2,1)] by blast
  ultimately show ?thesis by (simp add: allocations_apart_def readingProgram_def)
qed

lemma wrappingProgram_apart: "page_apart (wrappingProgram bs)"
proof -
  have "span 0x5000 20 \<inter> span 0x9000 (unat n) = {}" if "n < 0x100" for n :: u32
    using span_apart [of "0x5000" 20 "0x9000" "unat n" 0] that by (simp add: word_less_nat_alt)
  then show ?thesis by (simp add: page_apart_def wrappingProgram_def)
qed

definition sampleDisk :: ScisiDevice where
  "sampleDisk = \<lparr>scisi_in = 0x30000, scisi_out = 0x40000, scisi_serviceId = 6, scisi_id = 0, scisi_inFunction = 2, scisi_outFunction = 3,
     scisi_blockSize = 512\<rparr>"

definition sampleStorage :: StorageDevice where
  "sampleStorage = \<lparr>storage_serviceId = 5, storage_deviceId = 1, storage_id = 0, storage_inFunction = 4, storage_outFunction = 7\<rparr>"

theorem read_command_reaches_device_witness:
  "\<exists>physical command m address u'.
     storageOut [sampleStorage] 0x40000 physical (wrappingProgram (read10Bytes (read10 7 1000 2))) = Some (0, u') \<and>
     (Request 5 7 0x40001 address, m) \<in> set (sent u') \<and> readRequest (getBytes m (command + 4) 31) = Some (1000, 7, 2)"
proof -
  let ?bs = "read10Bytes (read10 7 1000 2)" and ?u = "wrappingProgram (read10Bytes (read10 7 1000 2))"
  have side: "(1000 :: u16) \<noteq> 0" "scisi_blockSize sampleDisk \<noteq> 0" "listGetDevice [sampleStorage] (0x40000 AND 0xFFFF) = Some sampleStorage"
    by (simp_all add: sampleDisk_def listGetDevice_def)
  obtain command physical m n rest s' r where
    run: "scisiRead sampleDisk 7 1000 readingProgram = Some (r, s')"
    "drop (length (sent readingProgram) + 2) (sent s') = (GetPhysicalAddress command, m) #
      (Request (scisi_serviceId sampleDisk) (scisi_outFunction sampleDisk) (scisi_out sampleDisk) physical, m) # rest"
    and n: "unat (scisi_blockSize sampleDisk) * (n - 1) < unat (1000 :: u16)" "unat (1000 :: u16) \<le> unat (scisi_blockSize sampleDisk) * n"
    and goal: "getBytes (memory_after ?u (logged ?u (RequestMemory 1 0 physical))) (reply ?u (logged ?u (RequestMemory 1 0 physical))) 20 = getBytes m command 20 \<longrightarrow>
      (\<exists>command' m' address' rest' u'. storageOut [sampleStorage] 0x40000 physical ?u = Some (0, u') \<and>
        drop (length (sent ?u) + 2) (sent u') = (GetPhysicalAddress command', m') #
          (Request (storage_serviceId sampleStorage) (storage_outFunction sampleStorage) (0x40000 AND 0xFFFF0000 OR storage_deviceId sampleStorage) address', m') # rest' \<and>
        read32 m' command' = 31 \<and> readRequest (getBytes m' (command' + 4) 31) = Some (unat (1000 :: u16), unat (7 :: u32), n))"
    using read_command_reaches_device [OF side(1,2) readingProgram_apart side(3) wrappingProgram_apart, of 7 ?bs] by blast
  have "n = 2" using n by (simp add: sampleDisk_def)
  have "getBytes m command 20 = ?bs"
    using scisiRead_sends [OF side(1,2) readingProgram_apart, of 7] run by (auto simp: sampleDisk_def)
  moreover have "getBytes (putBytes 0x5000 ?bs (\<lambda>_. 0)) 0x5000 20 = ?bs"
  proof -
    have "length ?bs = 20" by (simp add: read10Bytes_def read10_def le32_def)
    with getBytes_putBytes [of ?bs "0x5000" "\<lambda>_. 0"] show ?thesis by simp
  qed
  ultimately have "getBytes (memory_after ?u (logged ?u (RequestMemory 1 0 physical))) (reply ?u (logged ?u (RequestMemory 1 0 physical))) 20 = getBytes m command 20"
    by (simp add: wrappingProgram_def logged_def)
  from goal [rule_format, OF this] obtain command' m' address' rest' u' where out: "storageOut [sampleStorage] 0x40000 physical ?u = Some (0, u')"
    "drop (length (sent ?u) + 2) (sent u') = (GetPhysicalAddress command', m') #
      (Request (storage_serviceId sampleStorage) (storage_outFunction sampleStorage) (0x40000 AND 0xFFFF0000 OR storage_deviceId sampleStorage) address', m') # rest'"
    "readRequest (getBytes m' (command' + 4) 31) = Some (unat (1000 :: u16), unat (7 :: u32), n)" by blast
  from out(2) have "(Request 5 7 0x40001 address', m') \<in> set (drop (length (sent ?u) + 2) (sent u'))" by (simp add: sampleStorage_def)
  then have "(Request 5 7 0x40001 address', m') \<in> set (sent u')" by (rule in_set_dropD)
  moreover have "readRequest (getBytes m' (command' + 4) 31) = Some (1000, 7, 2)" using out(3) \<open>n = 2\<close> by simp
  ultimately show ?thesis using out(1) by blast
qed

end
