(* ===== verification/TrbRing.thy ===== *)
theory TrbRing
  imports Programs
begin

text \<open>
  The rings through which the USB driver talks to its host controller (\<open>userland/usb/xhci/trbRing.c\<close>): the driver puts
  commands on a ring the controller reads, and reads events from a ring the controller writes. A cycle bit in every
  entry says whether it is new; the bit changes its meaning each time around. The controller is modelled by what its
  specification says about rings, as the other side of both.
\<close>

section \<open>Rings\<close>

record XHCITRB =
  dataLow :: u32
  dataHigh :: u32
  trb_status :: u32
  control :: u32

record TrbRing =
  trbs :: "nat \<Rightarrow> XHCITRB"
  physical :: u32
  ring_size :: u32
  enqueue :: u32
  dequeue :: u32
  cycle :: bool

definition COMMAND_TYPE :: "u32 \<Rightarrow> u32" where
  "COMMAND_TYPE x = push_bit 10 x"

text \<open>The array has one entry more than the size of the ring. The result is the physical address of the entry.\<close>

definition enqueueCommand :: "TrbRing \<Rightarrow> XHCITRB \<Rightarrow> (u32 \<times> TrbRing) option" where
  "enqueueCommand ring trb = do {
     let trb = trb\<lparr>control := control trb OR of_bool (cycle ring)\<rparr>;
     entries \<leftarrow> aset (unat (ring_size ring) + 1) (trbs ring) (unat (enqueue ring)) trb;
     let result = physical ring + 16 * enqueue ring;
     let ring = ring\<lparr>trbs := entries, enqueue := enqueue ring + 1\<rparr>;
     if enqueue ring = ring_size ring - 1 then do {
       link \<leftarrow> aget (unat (ring_size ring) + 1) (trbs ring) (unat (enqueue ring));
       let entries = (trbs ring)(unat (enqueue ring) := link\<lparr>control := 1 XOR control link\<rparr>);
       Some (result, ring\<lparr>trbs := entries, cycle := \<not> cycle ring, enqueue := 0\<rparr>)
     } else Some (result, ring)
   }"

text \<open>The result is the index of the entry, \<open>None\<close> the null pointer.\<close>

definition trbRingFetch :: "TrbRing \<Rightarrow> (nat option \<times> TrbRing) option" where
  "trbRingFetch ring = do {
     trb \<leftarrow> aget (unat (ring_size ring) + 1) (trbs ring) (unat (dequeue ring));
     if bit (control trb) 0 \<noteq> cycle ring then Some (None, ring)
     else do {
       let result = unat (dequeue ring);
       let ring = ring\<lparr>dequeue := dequeue ring + 1\<rparr>;
       if dequeue ring = ring_size ring - 1 then Some (Some result, ring\<lparr>dequeue := 0, cycle := \<not> cycle ring\<rparr>)
       else Some (Some result, ring)
     }
   }"

text \<open>\<open>fresh\<close> is what the new memory holds, \<open>address\<close> its physical address.\<close>

definition setupTrbRing :: "(nat \<Rightarrow> XHCITRB) \<Rightarrow> u32 \<Rightarrow> u32 \<Rightarrow> TrbRing" where
  "setupTrbRing fresh address n =
     \<lparr>trbs = fresh(unat (n - 1) := (fresh (unat (n - 1)))\<lparr>dataLow := address, dataHigh := 0, control := 2 OR COMMAND_TYPE 6\<rparr>),
      physical = address, ring_size = n, enqueue = 0, dequeue = 0, cycle = True\<rparr>"

section \<open>The controller's side\<close>

definition fresh_bit :: "XHCITRB \<Rightarrow> bool" where
  "fresh_bit t = bit (control t) 0"

definition plain :: "XHCITRB \<Rightarrow> XHCITRB" where
  "plain t = t\<lparr>control := control t AND NOT 1\<rparr>"

text \<open>
  Reading a ring: an entry is new when its cycle bit is the bit of the reader. Behind the last entry is the link to the
  first one, which is valid like any other entry; following it changes the bit of the reader.
\<close>

definition readCommand :: "TrbRing \<Rightarrow> nat \<times> bool \<Rightarrow> (XHCITRB option \<times> nat \<times> bool) option" where
  "readCommand ring = (\<lambda>(i, c).
     let last = unat (ring_size ring) - 1 in
     if fresh_bit (trbs ring i) \<noteq> c then Some (None, i, c)
     else if i + 1 < last then Some (Some (trbs ring i), i + 1, c)
     else if fresh_bit (trbs ring last) = c then Some (Some (trbs ring i), 0, \<not> c)
     else None)"

text \<open>Writing a ring of \<open>n\<close> entries without a link.\<close>

definition postEvent :: "nat \<Rightarrow> XHCITRB \<Rightarrow> (nat \<Rightarrow> XHCITRB) \<times> nat \<times> bool \<Rightarrow> (nat \<Rightarrow> XHCITRB) \<times> nat \<times> bool" where
  "postEvent n t = (\<lambda>(entries, i, c).
     (entries(i := t\<lparr>control := control t OR of_bool c\<rparr>), if i + 1 = n then (0, \<not> c) else (i + 1, c)))"

section \<open>Queues of bounded length\<close>

datatype 'a operation = Put 'a | Get

fun runQueue :: "('a \<Rightarrow> 'q \<Rightarrow> 'q option) \<Rightarrow> ('q \<Rightarrow> ('a option \<times> 'q) option) \<Rightarrow> 'a operation list \<Rightarrow> 'q \<Rightarrow> ('a option list \<times> 'q) option" where
  "runQueue put get [] q = Some ([], q)"
| "runQueue put get (Put x # ops) q = do {
     q \<leftarrow> put x q;
     runQueue put get ops q
   }"
| "runQueue put get (Get # ops) q = do {
     (y, q) \<leftarrow> get q;
     (ys, q) \<leftarrow> runQueue put get ops q;
     Some (y # ys, q)
   }"

text \<open>The same operations on a list, and that the list never gets longer than \<open>n\<close>.\<close>

fun results :: "'a operation list \<Rightarrow> 'a list \<Rightarrow> 'a option list" where
  "results [] xs = []"
| "results (Put x # ops) xs = results ops (xs @ [x])"
| "results (Get # ops) [] = None # results ops []"
| "results (Get # ops) (x # xs) = Some x # results ops xs"

fun fits :: "nat \<Rightarrow> 'a operation list \<Rightarrow> 'a list \<Rightarrow> bool" where
  "fits n [] xs \<longleftrightarrow> True"
| "fits n (Put x # ops) xs \<longleftrightarrow> length xs < n \<and> fits n ops (xs @ [x])"
| "fits n (Get # ops) xs \<longleftrightarrow> fits n ops (tl xs)"

locale bounded_fifo =
  fixes rep :: "'q \<Rightarrow> 'a list \<Rightarrow> bool" and capacity :: nat and proper :: "'a \<Rightarrow> bool"
    and put :: "'a \<Rightarrow> 'q \<Rightarrow> 'q option" and get :: "'q \<Rightarrow> ('a option \<times> 'q) option"
  assumes put_law: "rep q xs \<Longrightarrow> length xs < capacity \<Longrightarrow> proper x \<Longrightarrow> \<exists>q'. put x q = Some q' \<and> rep q' (xs @ [x])"
    and get_law: "rep q (x # xs) \<Longrightarrow> \<exists>q'. get q = Some (Some x, q') \<and> rep q' xs"
    and get_empty: "rep q [] \<Longrightarrow> get q = Some (None, q)"
begin

lemma interleaved:
  assumes "rep q xs" and "fits capacity ops xs" and "\<forall>x. Put x \<in> set ops \<longrightarrow> proper x"
  shows "\<exists>q'. runQueue put get ops q = Some (results ops xs, q')"
  using assms
proof (induction ops xs arbitrary: q rule: results.induct)
  case (2 x ops xs)
  then obtain q1 where "put x q = Some q1" "rep q1 (xs @ [x])" using put_law [of q xs x] by auto
  with 2 show ?case by auto
next
  case (3 ops)
  then obtain q' where "runQueue put get ops q = Some (results ops [], q')" by auto
  then show ?case using get_empty [OF 3(2)] by simp
next
  case (4 ops x xs)
  then obtain q1 where q1: "get q = Some (Some x, q1)" "rep q1 xs" using get_law by blast
  then obtain q' where "runQueue put get ops q1 = Some (results ops xs, q')" using 4 by auto
  with q1 show ?case by simp
qed simp

end

section \<open>The contents of a ring\<close>

text \<open>
  A ring of \<open>n\<close> entries, read from entry \<open>r\<close> with bit \<open>c\<close>, holds \<open>xs\<close>: these are the entries from \<open>r\<close> on, around the
  end, and exactly they have the bit of the reader, which is the other one behind the end.
\<close>

definition holds :: "nat \<Rightarrow> (nat \<Rightarrow> XHCITRB) \<Rightarrow> nat \<Rightarrow> bool \<Rightarrow> XHCITRB list \<Rightarrow> bool" where
  "holds n t r c xs \<longleftrightarrow> r < n \<and> length xs \<le> n \<and>
     (\<forall>j < n. fresh_bit (t ((r + j) mod n)) = (c \<noteq> (n \<le> r + j)) \<longleftrightarrow> j < length xs) \<and>
     (\<forall>j < length xs. plain (t ((r + j) mod n)) = xs ! j)"

text \<open>The writer's entry and bit.\<close>

definition writer :: "nat \<Rightarrow> nat \<Rightarrow> bool \<Rightarrow> nat \<Rightarrow> nat \<times> bool" where
  "writer n r c k = (if r + k < n then (r + k, c) else (r + k - n, \<not> c))"

definition advance :: "nat \<Rightarrow> nat \<times> bool \<Rightarrow> nat \<times> bool" where
  "advance n = (\<lambda>(i, c). if i + 1 = n then (0, \<not> c) else (i + 1, c))"

lemma writer_Suc: "r < n \<Longrightarrow> k < n \<Longrightarrow> writer n r c (Suc k) = advance n (writer n r c k)"
  by (auto simp: writer_def advance_def)

lemma writer_read: "r < n \<Longrightarrow> k < n \<Longrightarrow> (case advance n (r, c) of (r', c') \<Rightarrow> writer n r' c' k) = writer n r c (Suc k)"
  by (auto simp: writer_def advance_def)

lemma mod_index: "r < n \<Longrightarrow> j \<le> n \<Longrightarrow> (r + j) mod n = (if r + j < n then r + j else r + j - n)" for n :: nat
  by (simp add: mod_if)

lemma holds_empty: "holds n t r c [] \<Longrightarrow> fresh_bit (t r) \<noteq> c"
  unfolding holds_def by (metis add_0_right gr_zeroI list.size(3) mod_less not_le not_less0)

lemma holds_put:
  assumes "holds n t r c xs" and "length xs < n" and "writer n r c (length xs) = (i, d)" and "fresh_bit x = d" and "plain x = y"
  shows "holds n (t(i := x)) r c (xs @ [y])"
proof -
  have r: "r < n" using assms(1) by (simp add: holds_def)
  have i: "i = (r + length xs) mod n" and d: "d = (c \<noteq> (n \<le> r + length xs))"
    using assms(2,3) r by (auto simp: writer_def mod_index split: if_splits)
  have "(r + j) mod n = i \<longleftrightarrow> j = length xs" if "j < n" for j
    using that assms(2) r unfolding i by (auto simp: mod_index split: if_splits)
  then show ?thesis
    using assms d unfolding holds_def by (auto simp: nth_append less_Suc_eq)
qed

lemma holds_get:
  assumes "holds n t r c (x # xs)" and "advance n (r, c) = (r', c')"
  shows "fresh_bit (t r) = c \<and> plain (t r) = x \<and> holds n t r' c' xs"
proof -
  have r: "r < n" and len: "length xs < n" using assms(1) by (auto simp: holds_def)
  have bits: "fresh_bit (t ((r + j) mod n)) = (c \<noteq> (n \<le> r + j)) \<longleftrightarrow> j < Suc (length xs)" if "j < n" for j
    using assms(1) that by (simp add: holds_def)
  have data: "plain (t ((r + j) mod n)) = (x # xs) ! j" if "j < Suc (length xs)" for j
    using assms(1) that by (simp add: holds_def)
  have first: "fresh_bit (t r) = c" "plain (t r) = x" using bits [of 0] data [of 0] r by simp_all
  have r': "r' < n" using assms(2) r by (auto simp: advance_def split: if_splits)
  have "Suc (r + j) mod Suc r = j mod Suc r" for j using mod_add_self1 [of "Suc r" j] by simp
  then have index: "(r' + j) mod n = (r + Suc j) mod n" if "j < n" for j
    using assms(2) r by (auto simp: advance_def split: if_splits)
  have same: "(c' \<noteq> (n \<le> r' + j)) = (c \<noteq> (n \<le> r + Suc j))" if "j < n" for j
    using assms(2) r that by (auto simp: advance_def split: if_splits)
  have "fresh_bit (t ((r' + j) mod n)) = (c' \<noteq> (n \<le> r' + j)) \<longleftrightarrow> j < length xs" if "j < n" for j
  proof (cases "Suc j < n")
    case True
    then show ?thesis using bits [of "Suc j"] index [OF that] same [OF that] by simp
  next
    case False
    then have "Suc j = n" using that by simp
    then have "(r + Suc j) mod n = r" "n \<le> r + Suc j" "\<not> j < length xs" using r len by (simp_all only: mod_add_self2 mod_less)
    then show ?thesis using index [OF that] same [OF that] first(1) by simp
  qed
  moreover have "plain (t ((r' + j) mod n)) = xs ! j" if "j < length xs" for j
    using data [of "Suc j"] index [of j] that len by simp
  ultimately show ?thesis using first r' len by (simp add: holds_def)
qed

lemma holds_cong: "(\<And>i. i < n \<Longrightarrow> t' i = t i) \<Longrightarrow> holds n t' r c xs = holds n t r c xs"
proof (cases "r < n")
  case True
  assume "\<And>i. i < n \<Longrightarrow> t' i = t i"
  then have "t' ((r + j) mod n) = t ((r + j) mod n)" for j using True by simp
  then show ?thesis by (simp add: holds_def)
qed (simp add: holds_def)

lemma fresh_bit_or: "\<not> fresh_bit x \<Longrightarrow> fresh_bit (x\<lparr>control := control x OR of_bool b\<rparr>) = b"
  by (simp add: fresh_bit_def bit_simps)

lemma plain_or: "\<not> fresh_bit x \<Longrightarrow> plain (x\<lparr>control := control x OR of_bool b\<rparr>) = x"
proof -
  assume "\<not> fresh_bit x"
  then have "(control x OR of_bool b) AND NOT 1 = control x"
    by (intro bit_eqI) (auto simp: fresh_bit_def bit_simps intro: gr0I)
  then show ?thesis by (simp add: plain_def)
qed

section \<open>The command ring\<close>

definition putCommand :: "XHCITRB \<Rightarrow> TrbRing \<times> nat \<times> bool \<Rightarrow> (TrbRing \<times> nat \<times> bool) option" where
  "putCommand x = (\<lambda>(ring, p). do {
     (_, ring) \<leftarrow> enqueueCommand ring x;
     Some (ring, p)
   })"

definition getCommand :: "TrbRing \<times> nat \<times> bool \<Rightarrow> (XHCITRB option \<times> TrbRing \<times> nat \<times> bool) option" where
  "getCommand = (\<lambda>(ring, p). do {
     (x, p) \<leftarrow> readCommand ring p;
     Some (map_option plain x, ring, p)
   })"

definition commands_rep :: "nat \<Rightarrow> TrbRing \<times> nat \<times> bool \<Rightarrow> XHCITRB list \<Rightarrow> bool" where
  "commands_rep n = (\<lambda>(ring, i, c) xs. unat (ring_size ring) = Suc n \<and> holds n (trbs ring) i c xs \<and>
     (unat (enqueue ring), cycle ring) = writer n i c (length xs) \<and> fresh_bit (trbs ring n) = (c \<noteq> (i + length xs < n)))"

lemma size_minus: "unat s = Suc n \<Longrightarrow> unat (s - 1) = n" for s :: u32
  by (metis diff_Suc_1 nat.distinct(1) unat_0 unat_minus_one)

lemma enqueueCommand_step:
  assumes "unat (ring_size ring) = Suc n" and "unat (enqueue ring) < n"
  shows "\<exists>ring' a. enqueueCommand ring x = Some (a, ring') \<and> ring_size ring' = ring_size ring \<and>
    (unat (enqueue ring'), cycle ring') = advance n (unat (enqueue ring), cycle ring) \<and>
    (\<forall>i < n. trbs ring' i = ((trbs ring)(unat (enqueue ring) := x\<lparr>control := control x OR of_bool (cycle ring)\<rparr>)) i) \<and>
    fresh_bit (trbs ring' n) = (fresh_bit (trbs ring n) \<noteq> (unat (enqueue ring) + 1 = n))"
proof -
  have e: "unat (enqueue ring + 1) = Suc (unat (enqueue ring))"
    using assms unat_u32_bound [of "ring_size ring"] by (simp add: unat_word_ariths)
  then have wrap: "enqueue ring + 1 = ring_size ring - 1 \<longleftrightarrow> unat (enqueue ring) + 1 = n"
    using size_minus [OF assms(1)] by (simp add: word_unat_eq_iff)
  have "fresh_bit (t\<lparr>control := 1 XOR control t\<rparr>) = (\<not> fresh_bit t)" for t
    by (simp add: fresh_bit_def bit_simps)
  then show ?thesis using assms e wrap by (auto simp: enqueueCommand_def advance_def Let_def)
qed

interpretation command_ring: bounded_fifo "commands_rep n" n "\<lambda>x. \<not> fresh_bit x" putCommand getCommand for n
proof
  fix q xs x assume rep: "commands_rep n q xs" and len: "length xs < n" and x: "\<not> fresh_bit x"
  obtain ring i c where q: "q = (ring, i, c)" by (cases q)
  have ring: "unat (ring_size ring) = Suc n" "holds n (trbs ring) i c xs" "(unat (enqueue ring), cycle ring) = writer n i c (length xs)"
    "fresh_bit (trbs ring n) = (c \<noteq> (i + length xs < n))" using rep by (simp_all add: commands_rep_def q)
  have i: "i < n" using ring(2) by (simp add: holds_def)
  then have e: "unat (enqueue ring) < n" using ring(3) len by (auto simp: writer_def split: if_splits)
  obtain ring' a where run: "enqueueCommand ring x = Some (a, ring')" "ring_size ring' = ring_size ring"
    "(unat (enqueue ring'), cycle ring') = advance n (unat (enqueue ring), cycle ring)"
    "\<forall>i < n. trbs ring' i = ((trbs ring)(unat (enqueue ring) := x\<lparr>control := control x OR of_bool (cycle ring)\<rparr>)) i"
    "fresh_bit (trbs ring' n) = (fresh_bit (trbs ring n) \<noteq> (unat (enqueue ring) + 1 = n))"
    using enqueueCommand_step [OF ring(1) e, of x] by blast
  have "holds n ((trbs ring)(unat (enqueue ring) := x\<lparr>control := control x OR of_bool (cycle ring)\<rparr>)) i c (xs @ [x])"
    using holds_put [OF ring(2) len ring(3) [symmetric]] fresh_bit_or [OF x] plain_or [OF x] by blast
  then have "holds n (trbs ring') i c (xs @ [x])" using holds_cong [of n "trbs ring'"] run(4) by blast
  moreover have "(unat (enqueue ring'), cycle ring') = writer n i c (length (xs @ [x]))"
    using run(3) ring(3) writer_Suc [OF i len] by simp
  moreover have "fresh_bit (trbs ring' n) = (c \<noteq> (i + length (xs @ [x]) < n))"
    using run(5) ring(3,4) i len by (auto simp: writer_def split: if_splits)
  ultimately show "\<exists>q'. putCommand x q = Some q' \<and> commands_rep n q' (xs @ [x])"
    using run(1,2) ring(1) by (simp add: putCommand_def q commands_rep_def)
next
  fix q x xs assume rep: "commands_rep n q (x # xs)"
  obtain ring i c where q: "q = (ring, i, c)" by (cases q)
  have ring: "unat (ring_size ring) = Suc n" "holds n (trbs ring) i c (x # xs)" "(unat (enqueue ring), cycle ring) = writer n i c (Suc (length xs))"
    "fresh_bit (trbs ring n) = (c \<noteq> (i + Suc (length xs) < n))" using rep by (simp_all add: commands_rep_def q)
  obtain i' c' where a: "advance n (i, c) = (i', c')" by (cases "advance n (i, c)")
  have h: "fresh_bit (trbs ring i) = c" "plain (trbs ring i) = x" "holds n (trbs ring) i' c' xs" using holds_get [OF ring(2) a] by auto
  have i: "i < n" "length xs < n" using ring(2) by (auto simp: holds_def)
  have "readCommand ring (i, c) = Some (Some (trbs ring i), i', c')"
    using a h(1) i ring(1,4) by (auto simp: readCommand_def advance_def Let_def split: if_splits)
  moreover have "(unat (enqueue ring), cycle ring) = writer n i' c' (length xs)" using ring(3) writer_read [OF i, of c] a by simp
  moreover have "fresh_bit (trbs ring n) = (c' \<noteq> (i' + length xs < n))"
    using ring(4) a i by (auto simp: advance_def split: if_splits)
  ultimately show "\<exists>q'. getCommand q = Some (Some x, q') \<and> commands_rep n q' xs"
    using h ring(1) by (simp add: getCommand_def q commands_rep_def)
next
  fix q assume "commands_rep n q []"
  then show "getCommand q = Some (None, q)"
    using holds_empty by (auto simp: getCommand_def readCommand_def commands_rep_def Let_def)
qed

section \<open>The event ring\<close>

definition putEvent :: "nat \<Rightarrow> XHCITRB \<Rightarrow> TrbRing \<times> nat \<times> bool \<Rightarrow> (TrbRing \<times> nat \<times> bool) option" where
  "putEvent n x = (\<lambda>(ring, p). let (entries, p) = postEvent n x (trbs ring, p) in Some (ring\<lparr>trbs := entries\<rparr>, p))"

definition getEvent :: "TrbRing \<times> nat \<times> bool \<Rightarrow> (XHCITRB option \<times> TrbRing \<times> nat \<times> bool) option" where
  "getEvent = (\<lambda>(ring, p). do {
     (i, ring) \<leftarrow> trbRingFetch ring;
     Some (map_option (\<lambda>i. plain (trbs ring i)) i, ring, p)
   })"

definition events_rep :: "nat \<Rightarrow> TrbRing \<times> nat \<times> bool \<Rightarrow> XHCITRB list \<Rightarrow> bool" where
  "events_rep n = (\<lambda>(ring, p) xs. unat (ring_size ring) = Suc n \<and> holds n (trbs ring) (unat (dequeue ring)) (cycle ring) xs \<and>
     p = writer n (unat (dequeue ring)) (cycle ring) (length xs))"

lemma trbRingFetch_step:
  assumes "unat (ring_size ring) = Suc n" and "unat (dequeue ring) < n" and "fresh_bit (trbs ring (unat (dequeue ring))) = cycle ring"
  shows "\<exists>ring'. trbRingFetch ring = Some (Some (unat (dequeue ring)), ring') \<and> ring_size ring' = ring_size ring \<and> trbs ring' = trbs ring \<and>
    (unat (dequeue ring'), cycle ring') = advance n (unat (dequeue ring), cycle ring)"
proof -
  have e: "unat (dequeue ring + 1) = Suc (unat (dequeue ring))"
    using assms(1,2) unat_u32_bound [of "ring_size ring"] by (simp add: unat_word_ariths)
  then have "dequeue ring + 1 = ring_size ring - 1 \<longleftrightarrow> unat (dequeue ring) + 1 = n"
    using size_minus [OF assms(1)] by (simp add: word_unat_eq_iff)
  then show ?thesis using assms e by (auto simp: trbRingFetch_def advance_def fresh_bit_def Let_def)
qed

interpretation event_ring: bounded_fifo "events_rep n" n "\<lambda>x. \<not> fresh_bit x" "putEvent n" getEvent for n
proof
  fix q xs x assume rep: "events_rep n q xs" and len: "length xs < n" and x: "\<not> fresh_bit x"
  obtain ring i c where q: "q = (ring, i, c)" by (cases q)
  have ring: "unat (ring_size ring) = Suc n" "holds n (trbs ring) (unat (dequeue ring)) (cycle ring) xs"
    "writer n (unat (dequeue ring)) (cycle ring) (length xs) = (i, c)" using rep by (simp_all add: events_rep_def q)
  have r: "unat (dequeue ring) < n" using ring(2) by (simp add: holds_def)
  have "holds n ((trbs ring)(i := x\<lparr>control := control x OR of_bool c\<rparr>)) (unat (dequeue ring)) (cycle ring) (xs @ [x])"
    using holds_put [OF ring(2) len ring(3)] fresh_bit_or [OF x] plain_or [OF x] by blast
  moreover have "advance n (i, c) = writer n (unat (dequeue ring)) (cycle ring) (length (xs @ [x]))" using writer_Suc [OF r len] ring(3) by simp
  moreover have "advance n (i, c) = (if i + 1 = n then (0, \<not> c) else (i + 1, c))" by (simp add: advance_def)
  ultimately show "\<exists>q'. putEvent n x q = Some q' \<and> events_rep n q' (xs @ [x])"
    using ring(1) by (simp add: putEvent_def postEvent_def q events_rep_def)
next
  fix q x xs assume rep: "events_rep n q (x # xs)"
  obtain ring p where q: "q = (ring, p)" by (cases q)
  have ring: "unat (ring_size ring) = Suc n" "holds n (trbs ring) (unat (dequeue ring)) (cycle ring) (x # xs)"
    "p = writer n (unat (dequeue ring)) (cycle ring) (Suc (length xs))" using rep by (simp_all add: events_rep_def q)
  obtain i' c' where a: "advance n (unat (dequeue ring), cycle ring) = (i', c')" by (cases "advance n (unat (dequeue ring), cycle ring)")
  have h: "fresh_bit (trbs ring (unat (dequeue ring))) = cycle ring" "plain (trbs ring (unat (dequeue ring))) = x" "holds n (trbs ring) i' c' xs"
    using holds_get [OF ring(2) a] by auto
  have i: "unat (dequeue ring) < n" "length xs < n" using ring(2) by (auto simp: holds_def)
  obtain ring' where run: "trbRingFetch ring = Some (Some (unat (dequeue ring)), ring')" "ring_size ring' = ring_size ring" "trbs ring' = trbs ring"
    "unat (dequeue ring') = i'" "cycle ring' = c'"
    using trbRingFetch_step [OF ring(1) i(1) h(1)] unfolding a by auto
  have "p = writer n i' c' (length xs)" using ring(3) writer_read [OF i, of "cycle ring"] a by simp
  then show "\<exists>q'. getEvent q = Some (Some x, q') \<and> events_rep n q' xs"
    using run h ring(1) by (simp add: getEvent_def q events_rep_def)
next
  fix q assume rep: "events_rep n q []"
  obtain ring p where q: "q = (ring, p)" by (cases q)
  have h: "unat (ring_size ring) = Suc n" "holds n (trbs ring) (unat (dequeue ring)) (cycle ring) []" using rep by (simp_all add: events_rep_def q)
  have "fresh_bit (trbs ring (unat (dequeue ring))) \<noteq> cycle ring" "unat (dequeue ring) < n" using holds_empty [OF h(2)] h(2) by (simp_all add: holds_def)
  then show "getEvent q = Some (None, q)" using h(1) by (simp add: getEvent_def trbRingFetch_def fresh_bit_def q)
qed

section \<open>Properties\<close>

lemma setup_holds:
  assumes "unat s = Suc n" and "0 < n" and "\<forall>i. \<not> fresh_bit (fresh i)"
  shows "holds n (trbs (setupTrbRing fresh address s)) 0 True [] \<and> \<not> fresh_bit (trbs (setupTrbRing fresh address s) n)"
  using assms size_minus [OF assms(1)] by (auto simp: holds_def setupTrbRing_def fresh_bit_def COMMAND_TYPE_def)

text \<open>
  C33. A ring made by \<open>setupTrbRing\<close> in cleared memory is a queue between the driver and the controller: for every
  interleaving of writing and reading in which never more entries are unread than the ring has, everything
  \<open>enqueueCommand\<close> puts on the ring is read by the controller once and in order, over any number of rounds, and
  \<open>trbRingFetch\<close> gives the entries the controller posts once and in order, and the null pointer when there is none.
\<close>

theorem rings_are_queues:
  assumes "unat s = Suc n" and "0 < n" and "\<forall>i. \<not> fresh_bit (fresh i)" and "fits n ops []" and "\<forall>x. Put x \<in> set ops \<longrightarrow> \<not> fresh_bit x"
  shows "(\<exists>q. runQueue putCommand getCommand ops (setupTrbRing fresh address s, 0, True) = Some (results ops [], q)) \<and>
    (\<exists>q. runQueue (putEvent n) getEvent ops (setupTrbRing fresh address s, 0, True) = Some (results ops [], q))"
proof -
  have "commands_rep n (setupTrbRing fresh address s, 0, True) []" "events_rep n (setupTrbRing fresh address s, 0, True) []"
    using setup_holds [OF assms(1-3)] assms(1,2) by (auto simp: commands_rep_def events_rep_def setupTrbRing_def writer_def)
  then show ?thesis using command_ring.interleaved event_ring.interleaved assms(4,5) by blast
qed

definition zeroTrb :: XHCITRB where
  "zeroTrb = \<lparr>dataLow = 0, dataHigh = 0, trb_status = 0, control = 0\<rparr>"

theorem rings_are_queues_witness:
  "\<exists>q. runQueue putCommand getCommand [Put (zeroTrb\<lparr>dataLow := 1\<rparr>), Put (zeroTrb\<lparr>dataLow := 2\<rparr>), Get, Put (zeroTrb\<lparr>dataLow := 3\<rparr>), Get, Get, Get]
     (setupTrbRing (\<lambda>_. zeroTrb) 0x4000 3, 0, True) =
     Some ([Some (zeroTrb\<lparr>dataLow := 1\<rparr>), Some (zeroTrb\<lparr>dataLow := 2\<rparr>), Some (zeroTrb\<lparr>dataLow := 3\<rparr>), None], q)"
proof -
  let ?ops = "[Put (zeroTrb\<lparr>dataLow := 1\<rparr>), Put (zeroTrb\<lparr>dataLow := 2\<rparr>), Get, Put (zeroTrb\<lparr>dataLow := 3\<rparr>), Get, Get, Get]"
  have "unat (3 :: u32) = Suc 2" "\<forall>i :: nat. \<not> fresh_bit zeroTrb" "fits 2 ?ops []" "\<forall>x. Put x \<in> set ?ops \<longrightarrow> \<not> fresh_bit x"
    by (auto simp: fresh_bit_def zeroTrb_def)
  from rings_are_queues [where address = "0x4000", OF this(1) _ this(2-4)] show ?thesis by simp
qed

end
