(* ===== verification/Xhci.thy ===== *)
theory Xhci
  imports Shared TrbRing
begin

text \<open>
  The driver for the xHCI host controller (\<open>userland/usb/xhci\<close>): set-up of the controller, commands, transfers and
  interrupts. The registers of the controller are read and written by calls, so that they can have any values; memory
  the controller also sees is the memory of the program, which waiting can change. Rings are those of \<open>TrbRing\<close>. A
  pointer to a controller is its position in the list of controllers.
\<close>

section \<open>State\<close>

record XHCIController =
  capabilities :: u32
  operational :: u32
  runtime :: u32
  commands :: TrbRing
  events :: TrbRing
  eventTrbs :: u32
  pciDevice :: u32
  doorbells :: u32
  eventRingSegmentTable :: u32
  eventRingSegmentTablePhysical :: u32
  deviceContextBaseAddressArray :: u32
  deviceContexts :: "nat \<Rightarrow> u32"
  portCount :: u32

record SlotXHCI =
  slot_controller :: nat
  slotIndex :: u32
  slot_portIndex :: u32
  inputContext :: u32
  slot_port :: u32
  controlRing :: TrbRing
  endpointRings :: "nat \<Rightarrow> TrbRing option"

record Usb =
  shared :: Shared
  usb_serviceId :: u32
  xhciEvent :: u32
  controllers :: "XHCIController list"
  globalController :: nat

definition onShared :: "(Shared \<Rightarrow> ('a \<times> Shared) option) \<Rightarrow> Usb \<Rightarrow> ('a \<times> Usb) option" where
  "onShared f u = map_option (\<lambda>(x, s). (x, u\<lparr>shared := s\<rparr>)) (f (shared u))"

definition logCall :: "Call \<Rightarrow> Usb \<Rightarrow> Usb option" where
  "logCall c u = map_option (\<lambda>s. u\<lparr>shared := s\<rparr>) (tell c (shared u))"

definition readRegister :: "u32 \<Rightarrow> Usb \<Rightarrow> (u32 \<times> Usb) option" where
  "readRegister a = onShared (query (ReadRegister a))"

definition writeRegister :: "u32 \<Rightarrow> u32 \<Rightarrow> Usb \<Rightarrow> Usb option" where
  "writeRegister a v = logCall (WriteRegister a v)"

definition modifyRegister :: "u32 \<Rightarrow> (u32 \<Rightarrow> u32) \<Rightarrow> Usb \<Rightarrow> Usb option" where
  "modifyRegister a f u = do {
     (v, u) \<leftarrow> readRegister a u;
     writeRegister a (f v) u
   }"

definition memory :: "Usb \<Rightarrow> bytes" where
  "memory u = mem (shared u)"

definition change :: "(bytes \<Rightarrow> bytes) \<Rightarrow> Usb \<Rightarrow> Usb" where
  "change f u = u\<lparr>shared := (shared u)\<lparr>mem := f (mem (shared u))\<rparr>\<rparr>"

definition controllerAt :: "Usb \<Rightarrow> nat \<Rightarrow> XHCIController option" where
  "controllerAt u c = (if c < length (controllers u) then Some (controllers u ! c) else None)"

definition setController :: "Usb \<Rightarrow> nat \<Rightarrow> XHCIController \<Rightarrow> Usb" where
  "setController u c controller = u\<lparr>controllers := (controllers u)[c := controller]\<rparr>"

definition awaitXhci :: "u32 \<Rightarrow> Usb \<Rightarrow> (u32 \<times> Usb) option" where
  "awaitXhci code u = onShared (ask (AwaitCode (usb_serviceId u) (xhciEvent u) code)) u"

text \<open>A bit field of a word in memory: \<open>count\<close> bits from bit \<open>low\<close> on.\<close>

definition getField :: "nat \<Rightarrow> nat \<Rightarrow> u32 \<Rightarrow> u32" where
  "getField low count w = take_bit count (drop_bit low w)"

definition putField :: "nat \<Rightarrow> nat \<Rightarrow> u32 \<Rightarrow> u32 \<Rightarrow> u32" where
  "putField low count v w = (w AND NOT (push_bit low (mask count))) OR push_bit low (take_bit count v)"

definition setField :: "u32 \<Rightarrow> nat \<Rightarrow> nat \<Rightarrow> u32 \<Rightarrow> Usb \<Rightarrow> Usb" where
  "setField a low count v = change (\<lambda>m. write32 m a (putField low count v (read32 m a)))"

section \<open>Transfer request blocks\<close>

record XHCISetupStageTRB =
  setup_requestType :: u32
  setup_request :: u32
  setup_value :: u32
  setup_index :: u32
  setup_length :: u32
  setup_transferLength :: u32
  setup_interrupterTarget :: u32
  setup_interruptOnCompletion :: u32
  setup_immediateData :: u32
  setup_type :: u32
  setup_transferType :: u32

definition setupWords :: "XHCISetupStageTRB \<Rightarrow> XHCITRB" where
  "setupWords t =
     \<lparr>dataLow = putField 0 8 (setup_requestType t) (putField 8 8 (setup_request t) (putField 16 16 (setup_value t) 0)),
      dataHigh = putField 0 16 (setup_index t) (putField 16 16 (setup_length t) 0),
      trb_status = putField 0 17 (setup_transferLength t) (putField 22 10 (setup_interrupterTarget t) 0),
      control = putField 5 1 (setup_interruptOnCompletion t) (putField 6 1 (setup_immediateData t)
        (putField 10 6 (setup_type t) (putField 16 2 (setup_transferType t) 0)))\<rparr>"

record XHCIStatusStageTRB =
  status_interrupterTarget :: u32
  status_evaluateNext :: u32
  status_chain :: u32
  status_interruptOnCompletion :: u32
  status_type :: u32
  status_inDirection :: u32

definition statusWords :: "XHCIStatusStageTRB \<Rightarrow> XHCITRB" where
  "statusWords t =
     \<lparr>dataLow = 0, dataHigh = 0, trb_status = putField 22 10 (status_interrupterTarget t) 0,
      control = putField 1 1 (status_evaluateNext t) (putField 4 1 (status_chain t) (putField 5 1 (status_interruptOnCompletion t)
        (putField 10 6 (status_type t) (putField 16 1 (status_inDirection t) 0))))\<rparr>"

record XHCIDataStageTRB =
  data_dataBuffer :: "u32 \<times> u32"
  data_transferSize :: u32
  data_tdSize :: u32
  data_interrupterTarget :: u32
  data_evaluateNext :: u32
  data_interruptOnShortPacket :: u32
  data_interruptOnCompletion :: u32
  data_type :: u32
  data_inDirection :: u32

definition dataWords :: "XHCIDataStageTRB \<Rightarrow> XHCITRB" where
  "dataWords t =
     \<lparr>dataLow = fst (data_dataBuffer t), dataHigh = snd (data_dataBuffer t),
      trb_status = putField 0 17 (data_transferSize t) (putField 17 5 (data_tdSize t) (putField 22 10 (data_interrupterTarget t) 0)),
      control = putField 1 1 (data_evaluateNext t) (putField 2 1 (data_interruptOnShortPacket t) (putField 5 1 (data_interruptOnCompletion t)
        (putField 10 6 (data_type t) (putField 16 1 (data_inDirection t) 0))))\<rparr>"

record XHCINormalTRB =
  normal_dataBuffer :: "u32 \<times> u32"
  normal_transferSize :: u32
  normal_interrupterTarget :: u32
  normal_interruptOnShortPacket :: u32
  normal_interruptOnCompletion :: u32
  normal_type :: u32

definition normalWords :: "XHCINormalTRB \<Rightarrow> XHCITRB" where
  "normalWords t =
     \<lparr>dataLow = fst (normal_dataBuffer t), dataHigh = snd (normal_dataBuffer t),
      trb_status = putField 0 17 (normal_transferSize t) (putField 22 10 (normal_interrupterTarget t) 0),
      control = putField 2 1 (normal_interruptOnShortPacket t) (putField 5 1 (normal_interruptOnCompletion t)
        (putField 10 6 (normal_type t) 0))\<rparr>"

section \<open>Commands\<close>

definition COMMAND_BSR :: "bool \<Rightarrow> u32" where
  "COMMAND_BSR x = push_bit 9 (of_bool x)"

definition COMMAND_SLOT_ID :: "u32 \<Rightarrow> u32" where
  "COMMAND_SLOT_ID x = push_bit 24 x"

definition xhciCommand :: "nat \<Rightarrow> u32 \<Rightarrow> u32 \<Rightarrow> u32 \<Rightarrow> u32 \<Rightarrow> Usb \<Rightarrow> (u32 \<times> Usb) option" where
  "xhciCommand c low high status word u = do {
     controller \<leftarrow> controllerAt u c;
     (commandAddress, ring) \<leftarrow> enqueueCommand (commands controller) \<lparr>dataLow = low, dataHigh = high, trb_status = status, control = word\<rparr>;
     let u = setController u c (controller\<lparr>commands := ring\<rparr>);
     u \<leftarrow> writeRegister (doorbells controller) 0 u;
     awaitXhci commandAddress u
   }"

definition addressDevice :: "SlotXHCI \<Rightarrow> bool \<Rightarrow> Usb \<Rightarrow> Usb option" where
  "addressDevice slot BSR u = do {
     let word = COMMAND_TYPE 11 OR COMMAND_SLOT_ID (slotIndex slot) OR COMMAND_BSR BSR;
     (physicalContext, u) \<leftarrow> onShared (query (GetPhysicalAddress (inputContext slot))) u;
     (_, u) \<leftarrow> xhciCommand (slot_controller slot) physicalContext 0 0 word u;
     Some u
   }"

definition configureEndpoint :: "nat \<Rightarrow> u32 \<Rightarrow> u32 \<Rightarrow> bool \<Rightarrow> Usb \<Rightarrow> Usb option" where
  "configureEndpoint c context slotNumber deconfigure u = do {
     (_, u) \<leftarrow> xhciCommand c context 0 0 (COMMAND_TYPE 12 OR COMMAND_SLOT_ID slotNumber OR COMMAND_BSR deconfigure) u;
     Some u
   }"

definition evaluateContext :: "nat \<Rightarrow> u32 \<Rightarrow> u32 \<Rightarrow> Usb \<Rightarrow> Usb option" where
  "evaluateContext c context slotNumber u = do {
     (_, u) \<leftarrow> xhciCommand c context 0 0 (COMMAND_TYPE 13 OR COMMAND_SLOT_ID slotNumber) u;
     Some u
   }"

text \<open>The slot number is the highest byte of the last word of the completion event.\<close>

definition requestSlotIndex :: "nat \<Rightarrow> Usb \<Rightarrow> (u32 \<times> Usb) option" where
  "requestSlotIndex c u = do {
     (event, u) \<leftarrow> xhciCommand c 0 0 0 (COMMAND_TYPE 9) u;
     Some (getField 24 8 (read32 (memory u) (event + 12)), u)
   }"

definition ringDoorbell :: "SlotXHCI \<Rightarrow> u32 \<Rightarrow> Usb \<Rightarrow> Usb option" where
  "ringDoorbell slot target u = do {
     controller \<leftarrow> controllerAt u (slot_controller slot);
     writeRegister (doorbells controller + 4 * slotIndex slot) target u
   }"

definition xhciGetDescriptor :: "u32 \<Rightarrow> u32 \<Rightarrow> u32 \<Rightarrow> u8 \<Rightarrow> SlotXHCI \<times> Usb \<Rightarrow> (SlotXHCI \<times> Usb) option" where
  "xhciGetDescriptor value index buffer recepient = (\<lambda>(slot, u). do {
     (physicalBuffer, u) \<leftarrow> onShared (query (GetPhysicalAddress buffer)) u;
     let setup = setupWords \<lparr>setup_requestType = 0x80 OR ucast recepient, setup_request = 6, setup_value = value, setup_index = index,
       setup_length = 4096, setup_transferLength = 8, setup_interrupterTarget = 0, setup_interruptOnCompletion = 0,
       setup_immediateData = 1, setup_type = 2, setup_transferType = 3\<rparr>;
     let data = dataWords \<lparr>data_dataBuffer = (physicalBuffer, 0), data_transferSize = 4096, data_tdSize = 0, data_interrupterTarget = 0,
       data_evaluateNext = 0, data_interruptOnShortPacket = 0, data_interruptOnCompletion = 0, data_type = 3, data_inDirection = 1\<rparr>;
     let status = statusWords \<lparr>status_interrupterTarget = 0, status_evaluateNext = 0, status_chain = 0, status_interruptOnCompletion = 1,
       status_type = 4, status_inDirection = 1\<rparr>;
     (_, ring) \<leftarrow> enqueueCommand (controlRing slot) setup;
     (_, ring) \<leftarrow> enqueueCommand ring data;
     (commandAddress, ring) \<leftarrow> enqueueCommand ring status;
     u \<leftarrow> ringDoorbell slot 1 u;
     (_, u) \<leftarrow> awaitXhci commandAddress u;
     Some (slot\<lparr>controlRing := ring\<rparr>, u)
   })"

section \<open>Slots\<close>

text \<open>
  An input context has 32 bytes of control, 32 bytes for the slot and 32 bytes for each endpoint. A new ring gives its
  address in the memory of the program, too.
\<close>

definition endpointContext :: "u32 \<Rightarrow> u32 \<Rightarrow> u32" where
  "endpointContext context index = context + 64 + 32 * index"

definition makeRing :: "u32 \<Rightarrow> Usb \<Rightarrow> (u32 \<times> TrbRing \<times> Usb) option" where
  "makeRing n u = do {
     (trbs, u) \<leftarrow> onShared (new (16 * (n + 1))) u;
     (address, u) \<leftarrow> onShared (query (GetPhysicalAddress trbs)) u;
     Some (trbs, setupTrbRing (\<lambda>_. \<lparr>dataLow = 0, dataHigh = 0, trb_status = 0, control = 0\<rparr>) address n, u)
   }"

definition createSlotTRB :: "SlotXHCI \<Rightarrow> Usb \<Rightarrow> (TrbRing \<times> Usb) option" where
  "createSlotTRB slot u = do {
     (_, ring, u) \<leftarrow> makeRing 255 u;
     let e = endpointContext (inputContext slot) 0;
     Some (ring, change (\<lambda>m. write32 (write32 m (e + 8) (physical ring OR 1)) (e + 12) 0) u)
   }"

definition createInputContext :: "SlotXHCI \<Rightarrow> Usb \<Rightarrow> (u32 \<times> Usb) option" where
  "createInputContext slot u = do {
     (context, u) \<leftarrow> onShared (ask (RequestMemory 1 0 0)) u;
     let u = change (\<lambda>m. write32 m (context + 4) 3) u;
     let u = setField (context + 36) 16 8 (slot_portIndex slot) u;
     let u = setField (context + 40) 22 10 0 u;
     let u = setField (context + 32) 25 1 0 u;
     let u = setField (context + 44) 0 8 0 u;
     let u = setField (context + 32) 27 5 1 u;
     (status, u) \<leftarrow> readRegister (slot_port slot) u;
     let u = setField (context + 32) 20 4 (drop_bit 10 status AND 3) u;
     let e = endpointContext context 0;
     let u = setField (e + 4) 3 3 4 u;
     let u = setField (e + 4) 16 16 8 u;
     let u = setField (e + 4) 8 8 0 u;
     let u = setField e 16 8 0 u;
     let u = setField e 10 5 0 u;
     let u = setField e 8 2 0 u;
     let u = setField (e + 4) 1 2 3 u;
     let u = setField (e + 16) 0 16 1024 u;
     Some (context, u)
   }"

record UsbSlot =
  slot_data :: SlotXHCI
  usb_portIndex :: u32
  usb_id :: u32
  usb_interval :: u32
  usb_descriptor :: u32

text \<open>The null pointer, when the port does not come back from its reset, is \<open>None\<close>.\<close>

definition resetSlot :: "nat \<Rightarrow> u32 \<Rightarrow> Usb \<Rightarrow> (UsbSlot option \<times> Usb) option" where
  "resetSlot c port u = do {
     (index, u) \<leftarrow> requestSlotIndex c u;
     controller \<leftarrow> controllerAt u c;
     let slot = \<lparr>slot_controller = c, slotIndex = index, slot_portIndex = port, inputContext = 0,
       slot_port = operational controller + 0x400 + 16 * (port - 1),
       controlRing = setupTrbRing (\<lambda>_. \<lparr>dataLow = 0, dataHigh = 0, trb_status = 0, control = 0\<rparr>) 0 0, endpointRings = \<lambda>_. None\<rparr>;
     u \<leftarrow> modifyRegister (slot_port slot) (\<lambda>status. status OR push_bit 4 1) u;
     (_, u) \<leftarrow> awaitXhci (push_bit 24 port) u;
     (status, u) \<leftarrow> readRegister (slot_port slot) u;
     if \<not> bit status 1 then do {
       u \<leftarrow> logCall (Print ''port %i reset not succesful, aborting'' [Num port]) u;
       Some (None, u)
     } else do {
       (context, u) \<leftarrow> createInputContext slot u;
       let slot = slot\<lparr>inputContext := context\<rparr>;
       (ring, u) \<leftarrow> createSlotTRB slot u;
       let slot = slot\<lparr>controlRing := ring\<rparr>;
       (deviceContext, u) \<leftarrow> onShared (new 1056) u;
       controller \<leftarrow> controllerAt u c;
       contexts \<leftarrow> aset 16 (deviceContexts controller) (unat index) deviceContext;
       let u = setController u c (controller\<lparr>deviceContexts := contexts\<rparr>);
       (address, u) \<leftarrow> onShared (query (GetPhysicalAddress deviceContext)) u;
       let entry = deviceContextBaseAddressArray controller + 8 * index;
       let u = change (\<lambda>m. write32 (write32 m entry address) (entry + 4) 0) u;
       u \<leftarrow> addressDevice slot True u;
       u \<leftarrow> addressDevice slot False u;
       Some (Some \<lparr>slot_data = slot, usb_portIndex = port, usb_id = 0, usb_interval = 0, usb_descriptor = 0\<rparr>, u)
     }
   }"

definition transfer :: "u32 \<Rightarrow> u32 \<Rightarrow> u32 \<Rightarrow> SlotXHCI \<times> Usb \<Rightarrow> (SlotXHCI \<times> Usb) option" where
  "transfer buffer endpointIndex transferSize = (\<lambda>(slot, u). do {
     let trb = normalWords \<lparr>normal_dataBuffer = (buffer, 0), normal_transferSize = transferSize, normal_interrupterTarget = 0,
       normal_interruptOnShortPacket = 1, normal_interruptOnCompletion = 1, normal_type = 1\<rparr>;
     pointer \<leftarrow> aget 32 (endpointRings slot) (unat endpointIndex);
     ring \<leftarrow> pointer;
     (commandAddress, ring) \<leftarrow> enqueueCommand ring trb;
     let slot = slot\<lparr>endpointRings := (endpointRings slot)(unat endpointIndex := Some ring)\<rparr>;
     u \<leftarrow> ringDoorbell slot (endpointIndex + 1) u;
     (_, u) \<leftarrow> awaitXhci commandAddress u;
     Some (slot, u)
   })"

definition xhciNormal :: "u32 \<Rightarrow> u32 \<Rightarrow> SlotXHCI \<times> Usb \<Rightarrow> (SlotXHCI \<times> Usb) option" where
  "xhciNormal buffer endpointIndex = transfer buffer endpointIndex 4"

definition doXhciWriteNormal :: "u32 \<Rightarrow> u32 \<Rightarrow> u32 \<Rightarrow> SlotXHCI \<times> Usb \<Rightarrow> (SlotXHCI \<times> Usb) option" where
  "doXhciWriteNormal buffer endpointIndex transferSize = transfer buffer endpointIndex transferSize"

definition doXhciCommand :: "u8 \<Rightarrow> u8 \<Rightarrow> u16 \<Rightarrow> u8 \<Rightarrow> SlotXHCI \<times> Usb \<Rightarrow> (SlotXHCI \<times> Usb) option" where
  "doXhciCommand requestType request value direction = (\<lambda>(slot, u). do {
     (_, ring) \<leftarrow> enqueueCommand (controlRing slot) (setupWords \<lparr>setup_requestType = ucast requestType, setup_request = ucast request,
       setup_value = ucast value, setup_index = 0, setup_length = 0, setup_transferLength = 8, setup_interrupterTarget = 0,
       setup_interruptOnCompletion = 0, setup_immediateData = 1, setup_type = 2, setup_transferType = 3\<rparr>);
     (commandAddress, ring) \<leftarrow> enqueueCommand ring (statusWords \<lparr>status_interrupterTarget = 0, status_evaluateNext = 0,
       status_chain = 0, status_interruptOnCompletion = 1, status_type = 4, status_inDirection = ucast direction\<rparr>);
     u \<leftarrow> ringDoorbell slot 1 u;
     (_, u) \<leftarrow> awaitXhci commandAddress u;
     Some (slot\<lparr>controlRing := ring\<rparr>, u)
   })"

definition xhciSetupEndpointsStart :: "u32 \<Rightarrow> SlotXHCI \<times> Usb \<Rightarrow> (SlotXHCI \<times> Usb) option" where
  "xhciSetupEndpointsStart configValue = (\<lambda>(slot, u). do {
     controller \<leftarrow> controllerAt u (slot_controller slot);
     deviceContext \<leftarrow> aget 16 (deviceContexts controller) (unat (slotIndex slot));
     let u = change (\<lambda>m. memcpy m deviceContext (inputContext slot + 32) 1056) u;
     let u = change (\<lambda>m. write32 m (inputContext slot + 4) 1) u;
     let word = read32 (memory u) (inputContext slot + 44);
     u \<leftarrow> logCall (Print ''slot context state: %x, address: %x'' [Num (getField 27 5 word), Num (getField 0 8 word)]) u;
     Some (slot, u)
   })"

definition xhciSetupEndpointsEnd :: "u32 \<Rightarrow> SlotXHCI \<times> Usb \<Rightarrow> (SlotXHCI \<times> Usb) option" where
  "xhciSetupEndpointsEnd configValue = (\<lambda>(slot, u). do {
     let word = COMMAND_TYPE 12 OR COMMAND_SLOT_ID (slotIndex slot);
     (context, u) \<leftarrow> onShared (query (GetPhysicalAddress (inputContext slot))) u;
     (_, u) \<leftarrow> xhciCommand (slot_controller slot) context 0 0 word u;
     doXhciCommand 0x00 9 (ucast configValue) 0 (slot, u)
   })"

text \<open>
  An endpoint descriptor in memory has its address at offset 2, its attributes at 3, the packet size at 4 and the
  interval at 6. The endpoint with address zero, which would index behind the contexts, is a fault. The value of a
  shift by 31 and more, which overflows, is the argument \<open>over\<close>.
\<close>

definition endpointNumberIndex :: "u8 \<Rightarrow> u8" where
  "endpointNumberIndex address = (address AND 0xF) * 2 - 1 + drop_bit 7 address"

definition xhciConfigureEndpoint :: "(nat \<Rightarrow> u32) \<Rightarrow> u32 \<Rightarrow> SlotXHCI \<times> Usb \<Rightarrow> (u32 \<times> SlotXHCI \<times> Usb) option" where
  "xhciConfigureEndpoint over endpoint = (\<lambda>(slot, u). do {
     let direction = drop_bit 7 (memory u (endpoint + 2));
     let endpointIndex = endpointNumberIndex (memory u (endpoint + 2));
     if unat endpointIndex \<ge> 32 then None else do {
       let e = endpointContext (inputContext slot) (ucast endpointIndex);
       let u = setField e 10 5 0 u;
       let u = setField e 16 8 (ucast (memory u (endpoint + 6))) u;
       let u = setField (e + 4) 1 2 3 u;
       let u = setField (e + 4) 3 3 (ucast (push_bit 2 direction OR memory u (endpoint + 3) AND 3)) u;
       let u = setField (e + 4) 16 16 (ucast (read16 (memory u) (endpoint + 4))) u;
       (_, ring, u) \<leftarrow> makeRing 255 u;
       let slot = slot\<lparr>endpointRings := (endpointRings slot)(unat endpointIndex := Some ring)\<rparr>;
       let u = change (\<lambda>m. write32 m (e + 8) (physical ring OR 1)) u;
       let u = change (\<lambda>m. write32 m (e + 12) 0) u;
       let u = setField (e + 16) 0 16 2048 u;
       let flags = inputContext slot + 4;
       let u = change (\<lambda>m. write32 m flags (read32 m flags OR push_bit (unat endpointIndex + 1) 1)) u;
       let word = inputContext slot + 32;
       let count = getField 27 5 (read32 (memory u) word);
       let u = setField word 27 5 (if count < ucast endpointIndex then ucast endpointIndex else count) u;
       let time = unat (getField 16 8 (read32 (memory u) e));
       Some ((if time < 31 then push_bit time 1 else over time) div 8, slot, u)
     }
   })"

section \<open>The controller\<close>

text \<open>
  Capability registers: parameters at offset 4 and 8, the offset of the doorbells at 20, of the run-time registers at
  24. Operational registers: command at 0, status at 4, the command ring at 24, the device contexts at 48, the
  configuration at 56. The first interrupter is at offset \<open>0x20\<close> of the run-time registers. Waiting for a bit of a
  register need not end; the first of the loops lets other programs run.
\<close>

partial_function (option) waitRegister :: "bool \<Rightarrow> u32 \<Rightarrow> nat \<Rightarrow> bool \<Rightarrow> Usb \<Rightarrow> Usb option" where
  "waitRegister yielding a i value u = do {
     (v, u) \<leftarrow> readRegister a u;
     if bit v i = value then Some u
     else do {
       u \<leftarrow> (if yielding then logCall Yield u else Some u);
       waitRegister yielding a i value u
     }
   }"

definition restartXHCIController :: "nat \<Rightarrow> Usb \<Rightarrow> Usb option" where
  "restartXHCIController c u = do {
     u \<leftarrow> logCall (Print ''resetting controller...'' []) u;
     controller \<leftarrow> controllerAt u c;
     u \<leftarrow> modifyRegister (operational controller) (\<lambda>v. v AND NOT 1) u;
     u \<leftarrow> waitRegister True (operational controller + 4) 0 True u;
     u \<leftarrow> modifyRegister (operational controller) (\<lambda>v. v OR push_bit 1 1) u;
     u \<leftarrow> waitRegister False (operational controller) 1 False u;
     waitRegister False (operational controller + 4) 11 False u
   }"

definition dequeuePointer :: "TrbRing \<Rightarrow> u32" where
  "dequeuePointer ring = (physical ring + 16 * dequeue ring) OR push_bit 3 1"

definition setupRuntime :: "nat \<Rightarrow> Usb \<Rightarrow> Usb option" where
  "setupRuntime c u = do {
     controller \<leftarrow> controllerAt u c;
     (offset, u) \<leftarrow> readRegister (capabilities controller + 24) u;
     let controller = controller\<lparr>runtime := capabilities controller + offset\<rparr>;
     let u = setController u c controller;
     let interrupter = runtime controller + 0x20;
     u \<leftarrow> writeRegister (interrupter + 8) 1 u;
     u \<leftarrow> writeRegister (interrupter + 16) (eventRingSegmentTablePhysical controller) u;
     u \<leftarrow> writeRegister (interrupter + 20) 0 u;
     u \<leftarrow> writeRegister (interrupter + 24) (dequeuePointer (events controller)) u;
     u \<leftarrow> writeRegister (interrupter + 28) 0 u;
     u \<leftarrow> modifyRegister interrupter (\<lambda>v. v OR 3) u;
     logCall (Sleep 100) u
   }"

definition setupEventRingSegmentTable :: "nat \<Rightarrow> Usb \<Rightarrow> Usb option" where
  "setupEventRingSegmentTable c u = do {
     (table, u) \<leftarrow> onShared (ask (RequestMemory 1 0 0)) u;
     (address, u) \<leftarrow> onShared (query (GetPhysicalAddress table)) u;
     controller \<leftarrow> controllerAt u c;
     let u = setController u c (controller\<lparr>eventRingSegmentTable := table, eventRingSegmentTablePhysical := address\<rparr>);
     Some (change (\<lambda>m. write16 (write32 m table (physical (events controller))) (table + 8) (ucast (ring_size (events controller) - 1))) u)
   }"

text \<open>The list of extended capabilities ends at a capability without a distance to the next one.\<close>

partial_function (option) capabilityLoop :: "u32 \<Rightarrow> Usb \<Rightarrow> Usb option" where
  "capabilityLoop a u = do {
     (value, u) \<leftarrow> readRegister a u;
     u \<leftarrow> (if value AND 0xFF = 2 then do {
         (minor, u) \<leftarrow> readRegister a u;
         (major, u) \<leftarrow> readRegister a u;
         (first, u) \<leftarrow> readRegister (a + 8) u;
         (count, u) \<leftarrow> readRegister (a + 8) u;
         logCall (Print ''protocol %i.%i %i port(s) starting from port %i''
           [Num (drop_bit 24 major AND 0xFF), Num (drop_bit 16 minor AND 0xFF), Num (drop_bit 8 count AND 0xFF), Num (first AND 0xFF)]) u
       } else Some u);
     if value = 0xFFFFFFFF then Some u
     else if value AND 0xFF00 = 0 then Some u
     else capabilityLoop (a + drop_bit 6 (value AND 0xFF00)) u
   }"

definition readExtendedCapabilities :: "nat \<Rightarrow> Usb \<Rightarrow> Usb option" where
  "readExtendedCapabilities c u = do {
     controller \<leftarrow> controllerAt u c;
     (parameters, u) \<leftarrow> readRegister (capabilities controller + 4) u;
     capabilityLoop (capabilities controller + push_bit 2 (drop_bit 16 parameters)) u
   }"

definition setupOperationalRegisters :: "nat \<Rightarrow> Usb \<Rightarrow> Usb option" where
  "setupOperationalRegisters c u = do {
     (contexts, u) \<leftarrow> onShared (ask (RequestMemory 1 0 0)) u;
     controller \<leftarrow> controllerAt u c;
     let controller = controller\<lparr>deviceContextBaseAddressArray := contexts\<rparr>;
     let u = setController u c controller;
     (address, u) \<leftarrow> onShared (query (GetPhysicalAddress contexts)) u;
     let registers = operational controller;
     u \<leftarrow> writeRegister (registers + 48) address u;
     u \<leftarrow> writeRegister (registers + 52) 0 u;
     u \<leftarrow> modifyRegister (registers + 56) (\<lambda>v. v AND NOT 0xFF OR 32) u;
     u \<leftarrow> writeRegister (registers + 24) (physical (commands controller) OR 1) u;
     u \<leftarrow> writeRegister (registers + 28) 0 u;
     (parameters, u) \<leftarrow> readRegister (capabilities controller + 4) u;
     writeRegister (registers + 56) (parameters AND 0xFF) u
   }"

definition scratchpadStep :: "u32 \<Rightarrow> nat \<Rightarrow> Usb \<Rightarrow> Usb option" where
  "scratchpadStep buffer i u = do {
     (page, u) \<leftarrow> onShared (ask (RequestMemory 1 0 0)) u;
     (address, u) \<leftarrow> onShared (query (GetPhysicalAddress page)) u;
     Some (change (\<lambda>m. write32 (write32 m (buffer + 8 * of_nat i) address) (buffer + 8 * of_nat i + 4) 0) u)
   }"

definition setupScratchpadBuffers :: "nat \<Rightarrow> Usb \<Rightarrow> Usb option" where
  "setupScratchpadBuffers c u = do {
     controller \<leftarrow> controllerAt u c;
     (hcs2, u) \<leftarrow> readRegister (capabilities controller + 8) u;
     let high = drop_bit 21 hcs2 AND 0x1F;
     let low = drop_bit 27 hcs2 AND 0x1F;
     let count = push_bit 5 high OR low;
     if count = 0 then Some u
     else do {
       u \<leftarrow> logCall (Print ''%i scratchpad buffers present'' [Num count]) u;
       (buffer, u) \<leftarrow> onShared (ask (RequestMemory 1 0 0)) u;
       (address, u) \<leftarrow> onShared (query (GetPhysicalAddress buffer)) u;
       u \<leftarrow> ofold (scratchpadStep buffer) [0..<unat count] u;
       let contexts = deviceContextBaseAddressArray controller;
       Some (change (\<lambda>m. write32 (write32 m contexts address) (contexts + 4) 0) u)
     }
   }"

definition initializeController :: "u32 \<Rightarrow> u32 \<Rightarrow> Usb \<Rightarrow> (nat \<times> Usb) option" where
  "initializeController deviceId bar0 u = do {
     (registers, u) \<leftarrow> onShared (ask (RequestMemory 4 0 (bar0 AND NOT 0xF))) u;
     (len, u) \<leftarrow> readRegister registers u;
     (bells, u) \<leftarrow> readRegister (registers + 20) u;
     (slotInfo, u) \<leftarrow> readRegister (registers + 4) u;
     let ring = setupTrbRing (\<lambda>_. \<lparr>dataLow = 0, dataHigh = 0, trb_status = 0, control = 0\<rparr>) 0 0;
     let controller = \<lparr>capabilities = registers, operational = registers + (len AND 0xFF), runtime = 0, commands = ring, events = ring,
       eventTrbs = 0, pciDevice = deviceId, doorbells = registers + bells, eventRingSegmentTable = 0, eventRingSegmentTablePhysical = 0,
       deviceContextBaseAddressArray = 0, deviceContexts = \<lambda>_. 0, portCount = drop_bit 24 slotInfo\<rparr>;
     u \<leftarrow> logCall (Print ''%i available slots, %i available ports'' [Num (slotInfo AND 0xFF), Num (portCount controller)]) u;
     Some (length (controllers u), u\<lparr>controllers := controllers u @ [controller]\<rparr>)
   }"

text \<open>
  The loop of \<open>xhciInterrupt\<close> fires an event for every entry of the event ring: the data is the address of the
  entry, the code the address of the command the entry is about.
\<close>

partial_function (option) interruptLoop :: "nat \<Rightarrow> Usb \<Rightarrow> Usb option" where
  "interruptLoop c u = do {
     controller \<leftarrow> controllerAt u c;
     (trb, ring) \<leftarrow> trbRingFetch (events controller);
     let u = setController u c (controller\<lparr>events := ring\<rparr>);
     (case trb of
        None \<Rightarrow> Some u
      | Some i \<Rightarrow> do {
          u \<leftarrow> writeRegister (runtime controller + 0x20 + 24) (dequeuePointer ring) u;
          u \<leftarrow> logCall (FireEvent (xhciEvent u) (eventTrbs controller + 16 * of_nat i) (dataLow (trbs ring i))) u;
          interruptLoop c u
        })
   }"

definition xhciInterrupt :: "Usb \<Rightarrow> Usb option" where
  "xhciInterrupt u = do {
     let c = globalController u;
     controller \<leftarrow> controllerAt u c;
     (management, u) \<leftarrow> readRegister (runtime controller + 0x20) u;
     if bit management 0 then do {
       u \<leftarrow> modifyRegister (runtime controller + 0x20) (\<lambda>v. v OR 1) u;
       interruptLoop c u
     } else Some u
   }"

fun decimal :: "nat \<Rightarrow> string" where
  "decimal n = (if n < 10 then [char_of (48 + n)] else decimal (n div 10) @ [char_of (48 + n mod 10)])"

declare decimal.simps [simp del]

definition subscribeIRQ :: "u8 \<Rightarrow> Usb \<Rightarrow> Usb option" where
  "subscribeIRQ interrupt u = do {
     let eventName = ''irq'' @ decimal (unat interrupt);
     (pic, u) \<leftarrow> onShared (query (GetService ''pic'')) u;
     (event, u) \<leftarrow> onShared (query (GetEvent pic eventName)) u;
     logCall (SubscribeEvent pic event ''xhciInterrupt'') u
   }"

text \<open>The null pointer, when the controller reports an error, is \<open>None\<close>.\<close>

definition xhciSetup :: "u32 \<Rightarrow> u32 \<Rightarrow> u32 \<Rightarrow> Usb \<Rightarrow> (nat option \<times> Usb) option" where
  "xhciSetup deviceId bar0 interrupt u = do {
     (c, u) \<leftarrow> initializeController deviceId bar0 u;
     let u = u\<lparr>globalController := c\<rparr>;
     u \<leftarrow> restartXHCIController c u;
     (_, commandRing, u) \<leftarrow> makeRing 255 u;
     (eventAddress, eventRing, u) \<leftarrow> makeRing 200 u;
     controller \<leftarrow> controllerAt u c;
     let u = setController u c (controller\<lparr>commands := commandRing, events := eventRing, eventTrbs := eventAddress\<rparr>);
     u \<leftarrow> readExtendedCapabilities c u;
     u \<leftarrow> setupOperationalRegisters c u;
     u \<leftarrow> setupEventRingSegmentTable c u;
     u \<leftarrow> setupRuntime c u;
     u \<leftarrow> setupScratchpadBuffers c u;
     u \<leftarrow> subscribeIRQ (ucast interrupt) u;
     u \<leftarrow> modifyRegister (operational controller + 4) (\<lambda>v. v OR push_bit 3 1) u;
     u \<leftarrow> modifyRegister (operational controller) (\<lambda>v. v OR (push_bit 0 1 OR push_bit 2 1)) u;
     u \<leftarrow> logCall (Sleep 100) u;
     (status, u) \<leftarrow> readRegister (operational controller + 4) u;
     if bit status 2 then do {
       u \<leftarrow> logCall (Print ''critical XHCI problem'' []) u;
       Some (None, u)
     } else Some (Some c, u)
   }"

text \<open>
  The ports with a device are set up in turn. A controller that could not be set up is the null pointer, which is
  followed.
\<close>

definition initPort :: "nat \<Rightarrow> nat \<Rightarrow> UsbSlot option list \<times> Usb \<Rightarrow> (UsbSlot option list \<times> Usb) option" where
  "initPort c i = (\<lambda>(slots, u). do {
     controller \<leftarrow> controllerAt u c;
     (status, u) \<leftarrow> readRegister (operational controller + 0x400 + 16 * of_nat i) u;
     if \<not> bit status 0 then Some (slots, u)
     else do {
       (slot, u) \<leftarrow> resetSlot c (of_nat i + 1) u;
       Some (slots @ [slot], u)
     }
   })"

definition xhciInit :: "u32 \<Rightarrow> u32 \<Rightarrow> u32 \<Rightarrow> Usb \<Rightarrow> (UsbSlot option list \<times> Usb) option" where
  "xhciInit deviceId bar0 interrupt u = do {
     (result, u) \<leftarrow> xhciSetup deviceId bar0 interrupt u;
     c \<leftarrow> result;
     controller \<leftarrow> controllerAt u c;
     ofold (initPort c) [0..<unat (portCount controller)] ([], u)
   }"

record UsbHostControllerInterface =
  pciClass :: u32
  initialize :: "u32 \<Rightarrow> u32 \<Rightarrow> u32 \<Rightarrow> Usb \<Rightarrow> (UsbSlot option list \<times> Usb) option"
  getDescriptor :: "u32 \<Rightarrow> u32 \<Rightarrow> u32 \<Rightarrow> u8 \<Rightarrow> SlotXHCI \<times> Usb \<Rightarrow> (SlotXHCI \<times> Usb) option"
  setupEndpointsStart :: "u32 \<Rightarrow> SlotXHCI \<times> Usb \<Rightarrow> (SlotXHCI \<times> Usb) option"
  setupEndpointsEnd :: "u32 \<Rightarrow> SlotXHCI \<times> Usb \<Rightarrow> (SlotXHCI \<times> Usb) option"
  doNormal :: "u32 \<Rightarrow> u32 \<Rightarrow> SlotXHCI \<times> Usb \<Rightarrow> (SlotXHCI \<times> Usb) option"
  interface_command :: "u8 \<Rightarrow> u8 \<Rightarrow> u16 \<Rightarrow> u8 \<Rightarrow> SlotXHCI \<times> Usb \<Rightarrow> (SlotXHCI \<times> Usb) option"
  interface_configureEndpoint :: "u32 \<Rightarrow> SlotXHCI \<times> Usb \<Rightarrow> (u32 \<times> SlotXHCI \<times> Usb) option"
  writeNormal :: "u32 \<Rightarrow> u32 \<Rightarrow> u32 \<Rightarrow> SlotXHCI \<times> Usb \<Rightarrow> (SlotXHCI \<times> Usb) option"
  readNormal :: "u32 \<Rightarrow> u32 \<Rightarrow> u32 \<Rightarrow> SlotXHCI \<times> Usb \<Rightarrow> (SlotXHCI \<times> Usb) option"

definition xhci :: "(nat \<Rightarrow> u32) \<Rightarrow> UsbHostControllerInterface" where
  "xhci over = \<lparr>pciClass = 0x0C0330, initialize = xhciInit, getDescriptor = xhciGetDescriptor,
     setupEndpointsStart = xhciSetupEndpointsStart, setupEndpointsEnd = xhciSetupEndpointsEnd, doNormal = xhciNormal,
     interface_command = doXhciCommand, interface_configureEndpoint = xhciConfigureEndpoint over,
     writeNormal = doXhciWriteNormal, readNormal = doXhciWriteNormal\<rparr>"

end
