(* ===== verification/XhciProps.thy ===== *)
theory XhciProps
  imports Xhci
begin

text \<open>
  Interrupts of the host controller: every entry the controller posts on its event ring wakes the call that waits for
  the command, once and in order.
\<close>

text \<open>The codes of the events a program has fired.\<close>

fun firedCodes :: "log \<Rightarrow> u32 list" where
  "firedCodes [] = []"
| "firedCodes ((FireEvent event data code, m) # L) = code # firedCodes L"
| "firedCodes (_ # L) = firedCodes L"

lemma firedCodes_append [simp]: "firedCodes (L @ K) = firedCodes L @ firedCodes K"
  by (induction L rule: firedCodes.induct) auto

definition log_of :: "Usb \<Rightarrow> log" where
  "log_of u = sent (shared u)"

text \<open>The controller posts \<open>xs\<close>; \<open>p\<close> is its position on the ring.\<close>

definition postEvents :: "nat \<Rightarrow> XHCITRB list \<Rightarrow> Usb \<times> nat \<times> bool \<Rightarrow> (Usb \<times> nat \<times> bool) option" where
  "postEvents n xs = (\<lambda>(u, p). do {
     controller \<leftarrow> controllerAt u (globalController u);
     (ring, p) \<leftarrow> ofold (putEvent n) xs (events controller, p);
     Some (setController u (globalController u) (controller\<lparr>events := ring\<rparr>), p)
   })"

definition interruptRound :: "nat \<Rightarrow> XHCITRB list \<Rightarrow> Usb \<times> nat \<times> bool \<Rightarrow> (Usb \<times> nat \<times> bool) option" where
  "interruptRound n xs up = do {
     (u, p) \<leftarrow> postEvents n xs up;
     u \<leftarrow> xhciInterrupt u;
     Some (u, p)
   }"

lemma controllerAt_set [simp]: "controllerAt u c = Some x \<Longrightarrow> controllerAt (setController u c y) c = Some y"
  by (auto simp: controllerAt_def setController_def split: if_splits)

lemma setController_fields [simp]:
  "shared (setController u c x) = shared u" "globalController (setController u c x) = globalController u"
  by (simp_all add: setController_def)

lemma logCall_simps:
  "logCall k u = Some (u\<lparr>shared := (shared u)\<lparr>sent := logged (shared u) k\<rparr>\<rparr>)"
  by (simp add: logCall_def tell_def)

lemma interruptLoop_fires:
  assumes "controllerAt u c = Some x" and "events_rep n (events x, p) xs"
  shows "\<exists>u' ring. interruptLoop c u = Some u' \<and> controllerAt u' c = Some (x\<lparr>events := ring\<rparr>) \<and> events_rep n (ring, p) [] \<and>
    firedCodes (log_of u') = firedCodes (log_of u) @ map dataLow xs \<and> reply (shared u') = reply (shared u) \<and> globalController u' = globalController u"
  using assms
proof (induction xs arbitrary: u x)
  case Nil
  then have "trbRingFetch (events x) = Some (None, events x)" using event_ring.get_empty [of n "(events x, p)"]
    by (auto simp: getEvent_def split: Option.bind_splits)
  then have "interruptLoop c u = Some (setController u c x)" using Nil.prems(1) by (simp add: interruptLoop.simps)
  then show ?case using Nil.prems by (intro exI [of _ "setController u c x"] exI [of _ "events x"]) (simp add: log_of_def)
next
  case (Cons a xs)
  obtain q where get: "getEvent (events x, p) = Some (Some a, q)" "events_rep n q xs" using event_ring.get_law [OF Cons.prems(2)] by blast
  then obtain i ring where fetch: "trbRingFetch (events x) = Some (Some i, ring)" "plain (trbs ring i) = a" and q: "q = (ring, p)"
    by (auto simp: getEvent_def split: Option.bind_splits)
  define v where "v = setController u c (x\<lparr>events := ring\<rparr>)"
  define s1 where "s1 = (shared u)\<lparr>sent := logged (shared u) (WriteRegister (runtime x + 0x20 + 24) (dequeuePointer ring))\<rparr>"
  define w where "w = v\<lparr>shared := s1\<lparr>sent := logged s1 (FireEvent (xhciEvent u) (eventTrbs x + 16 * of_nat i) (dataLow (trbs ring i)))\<rparr>\<rparr>"
  have step: "interruptLoop c u = interruptLoop c w" using Cons.prems(1) fetch
    by (subst interruptLoop.simps) (simp add: writeRegister_def logCall_simps w_def v_def s1_def setController_def)
  have "controllerAt w c = Some (x\<lparr>events := ring\<rparr>)" using Cons.prems(1)
    by (auto simp: w_def v_def controllerAt_def setController_def split: if_splits)
  moreover have "dataLow (trbs ring i) = dataLow a" using fetch(2) by (auto simp: plain_def)
  then have "firedCodes (log_of w) = firedCodes (log_of u) @ [dataLow a]" by (simp add: log_of_def w_def s1_def logged_def)
  moreover have "reply (shared w) = reply (shared u)" "globalController w = globalController u"
    by (simp_all add: w_def s1_def v_def setController_def)
  ultimately show ?case using Cons.IH [of w "x\<lparr>events := ring\<rparr>"] get(2) q step by auto
qed

lemma putEvents_hold:
  assumes "events_rep n q ys" and "length ys + length xs \<le> n" and "\<forall>x \<in> set xs. \<not> fresh_bit x"
  shows "\<exists>q'. ofold (putEvent n) xs q = Some q' \<and> events_rep n q' (ys @ xs)"
  using assms
proof (induction xs arbitrary: q ys)
  case (Cons x xs)
  then obtain q1 where "putEvent n x q = Some q1" "events_rep n q1 (ys @ [x])" using event_ring.put_law [of n q ys x] by auto
  then show ?case using Cons.IH [of q1 "ys @ [x]"] Cons.prems by auto
qed simp

lemma interruptRound_fires:
  assumes x: "controllerAt u (globalController u) = Some x" and rep: "events_rep n (events x, p) []"
    and xs: "length xs \<le> n" "\<forall>t \<in> set xs. \<not> fresh_bit t"
    and pending: "\<And>L m. bit (reply (shared u) (L @ [(ReadRegister (runtime x + 0x20), m)])) 0"
  shows "\<exists>u' p' ring. interruptRound n xs (u, p) = Some (u', p') \<and> controllerAt u' (globalController u') = Some (x\<lparr>events := ring\<rparr>) \<and>
    events_rep n (ring, p') [] \<and> firedCodes (log_of u') = firedCodes (log_of u) @ map dataLow xs \<and> reply (shared u') = reply (shared u)"
proof -
  let ?c = "globalController u"
  obtain ring p' where ring: "ofold (putEvent n) xs (events x, p) = Some (ring, p')" "events_rep n (ring, p') xs"
    using putEvents_hold [OF rep, of xs] xs by auto
  define y where "y = x\<lparr>events := ring\<rparr>"
  define v where "v = setController u ?c y"
  have v: "controllerAt v ?c = Some y" "globalController v = ?c" "shared v = shared u" using x by (simp_all add: v_def)
  have post: "postEvents n xs (u, p) = Some (v, p')" using x ring by (simp add: postEvents_def v_def y_def)
  let ?a = "runtime x + 0x20"
  define s1 where "s1 = (shared u)\<lparr>sent := logged (shared u) (ReadRegister ?a)\<rparr>"
  define s2 where "s2 = s1\<lparr>sent := logged s1 (ReadRegister ?a)\<rparr>"
  define w where "w = v\<lparr>shared := s2\<lparr>sent := logged s2 (WriteRegister ?a (reply (shared u) (logged s1 (ReadRegister ?a)) OR 1))\<rparr>\<rparr>"
  have "xhciInterrupt v = interruptLoop ?c w" using v pending [of "sent (shared u)" "mem (shared u)"]
    by (simp add: xhciInterrupt_def readRegister_def onShared_def query_def modifyRegister_def writeRegister_def logCall_simps
        w_def s1_def s2_def y_def logged_def)
  moreover have "controllerAt w ?c = Some y" "events_rep n (events y, p') xs"
    using v(1) ring(2) by (auto simp: w_def controllerAt_def y_def split: if_splits)
  from interruptLoop_fires [OF this] obtain u' ring' where loop: "interruptLoop ?c w = Some u'" "controllerAt u' ?c = Some (y\<lparr>events := ring'\<rparr>)"
    "events_rep n (ring', p') []" "firedCodes (log_of u') = firedCodes (log_of w) @ map dataLow xs" "reply (shared u') = reply (shared w)"
    "globalController u' = globalController w" by blast
  moreover have "firedCodes (log_of w) = firedCodes (log_of u)" "reply (shared w) = reply (shared u)" "globalController w = ?c"
    using v by (simp_all add: w_def s1_def s2_def logged_def log_of_def)
  ultimately show ?thesis using post by (simp add: interruptRound_def y_def) blast
qed


text \<open>A controller with two rounds of completions, one of them around the end of the ring.\<close>

definition sampleUsb :: Usb where
  "sampleUsb = \<lparr>shared = \<lparr>mem = \<lambda>_. 0, sent = [], reply = \<lambda>_. 1, memory_after = \<lambda>_ _. 0\<rparr>, usb_serviceId = 4, xhciEvent = 2,
     controllers = [\<lparr>capabilities = 0, operational = 0x20, runtime = 0x1000, commands = setupTrbRing (\<lambda>_. zeroTrb) 0x8000 255,
       events = setupTrbRing (\<lambda>_. zeroTrb) 0x9000 200, eventTrbs = 0x7000, pciDevice = 3, doorbells = 0x2000, eventRingSegmentTable = 0,
       eventRingSegmentTablePhysical = 0, deviceContextBaseAddressArray = 0, deviceContexts = \<lambda>_. 0, portCount = 2\<rparr>],
     globalController = 0\<rparr>"


end
