(* ===== verification/Usb.thy ===== *)
theory Usb
  imports Xhci
begin

text \<open>
  The USB service (\<open>userland/usb/main.c\<close>): it reads the descriptors of the devices at a host controller, configures
  their endpoints, announces them to the services for input devices and for mass storage, and passes the transfers of
  these services on. Descriptors are read where they are, in the memory of the program. A string in memory is printed
  by its address. The only interface to a host controller is \<open>xhci\<close>; slots of the list are \<open>None\<close> where the
  controller gave the null pointer.
\<close>

section \<open>Descriptors\<close>

definition descriptorSize :: "bytes \<Rightarrow> u32 \<Rightarrow> u32" where
  "descriptorSize m d = ucast (m d)"

definition descriptorType :: "bytes \<Rightarrow> u32 \<Rightarrow> u8" where
  "descriptorType m d = m (d + 1)"

record UsbConfigurationDescriptor =
  totalLength :: u16
  interfaceCount :: u8
  configurationValue :: u8
  configurationString :: u8

definition configurationAt :: "bytes \<Rightarrow> u32 \<Rightarrow> UsbConfigurationDescriptor" where
  "configurationAt m d = \<lparr>totalLength = read16 m (d + 2), interfaceCount = m (d + 4), configurationValue = m (d + 5),
     configurationString = m (d + 6)\<rparr>"

record UsbInterfaceDescriptor =
  interfaceNumber :: u8
  endpointCount :: u8
  interfaceClass :: u8
  interface_subClass :: u8
  interface_protocol :: u8

definition interfaceAt :: "bytes \<Rightarrow> u32 \<Rightarrow> UsbInterfaceDescriptor" where
  "interfaceAt m d = \<lparr>interfaceNumber = m (d + 2), endpointCount = m (d + 4), interfaceClass = m (d + 5),
     interface_subClass = m (d + 6), interface_protocol = m (d + 7)\<rparr>"

definition endpointAddress :: "bytes \<Rightarrow> u32 \<Rightarrow> u8" where
  "endpointAddress m d = m (d + 2)"

record UsbDeviceDescriptor =
  usbVersion :: u16
  manufacturerStringDescriptor :: u8
  deviceStringDescriptor :: u8
  serialNumberStringDescriptor :: u8
  configurationCount :: u8

definition deviceAt :: "bytes \<Rightarrow> u32 \<Rightarrow> UsbDeviceDescriptor" where
  "deviceAt m d = \<lparr>usbVersion = read16 m (d + 2), manufacturerStringDescriptor = m (d + 14), deviceStringDescriptor = m (d + 15),
     serialNumberStringDescriptor = m (d + 16), configurationCount = m (d + 17)\<rparr>"

text \<open>A descriptor of size zero that is not the one looked for is looked at forever.\<close>

partial_function (option) findDescriptor :: "bytes \<Rightarrow> u32 \<Rightarrow> u8 \<Rightarrow> u32 option" where
  "findDescriptor m d t = (if descriptorType m d = t then Some d else findDescriptor m (d + descriptorSize m d) t)"

definition getEndpointIndex :: "u8 \<Rightarrow> u8" where
  "getEndpointIndex address = push_bit 1 (address AND 0xF) - 1 + drop_bit 7 address"

section \<open>Devices\<close>

type_synonym slot = "UsbSlot \<times> Usb"

definition onData :: "(SlotXHCI \<times> Usb \<Rightarrow> (SlotXHCI \<times> Usb) option) \<Rightarrow> slot \<Rightarrow> slot option" where
  "onData f = (\<lambda>(slot, u). do {
     (data, u) \<leftarrow> f (slot_data slot, u);
     Some (slot\<lparr>slot_data := data\<rparr>, u)
   })"

text \<open>
  The length of the string is computed with signed numbers: half of the size of the descriptor without its head,
  rounded towards zero.
\<close>

definition usbReadString :: "UsbHostControllerInterface \<Rightarrow> u32 \<Rightarrow> u32 \<Rightarrow> u32 \<Rightarrow> slot \<Rightarrow> (u32 \<times> slot) option" where
  "usbReadString interface language stringDescriptor buffer s = do {
     (slot, u) \<leftarrow> onData (getDescriptor interface (push_bit 8 3 OR stringDescriptor) language buffer 0) s;
     let b = memory u buffer;
     let n = (if b = 0 then - 1 else if b = 1 then 0 else (ucast b - 2) div 2 :: u32);
     (string, u) \<leftarrow> onShared (new n) u;
     let u = change (\<lambda>m. foldl (\<lambda>m i. m(string + of_nat i := m (buffer + (of_nat i + 1) * 2))) m [0..<unat n]) u;
     Some (string, slot, u)
   }"

definition setupHID :: "UsbHostControllerInterface \<Rightarrow> u32 \<Rightarrow> slot \<Rightarrow> slot option" where
  "setupHID interface d = (\<lambda>(slot, u). do {
     endpoint \<leftarrow> findDescriptor (memory u) d 5;
     (report, u) \<leftarrow> onShared (ask (RequestMemory 1 0 0)) u;
     (slot, u) \<leftarrow> onData (getDescriptor interface (push_bit 8 0x22) 0 report 1) (slot, u);
     let endpointIndex = endpointNumberIndex (endpointAddress (memory u) endpoint);
     (slot, u) \<leftarrow> onData (interface_command interface 0x21 0x0B 0 1) (slot, u);
     (slot, u) \<leftarrow> onData (interface_command interface 0x21 0x0A 0 1) (slot, u);
     (address, u) \<leftarrow> onShared (query (GetPhysicalAddress report)) u;
     (_, u) \<leftarrow> onShared (ask (Ask ''hid'' ''registerHID'' (usb_id slot OR push_bit 16 (ucast endpointIndex)) address)) u;
     u \<leftarrow> logCall (Free report) u;
     Some (slot, u)
   })"

definition setupMassStorage :: "u32 \<Rightarrow> slot \<Rightarrow> slot option" where
  "setupMassStorage d = (\<lambda>(slot, u). do {
     let m = memory u;
     endpoint \<leftarrow> findDescriptor m d 5;
     let endpoint1 = getEndpointIndex (endpointAddress m endpoint);
     endpoint \<leftarrow> findDescriptor m (endpoint + descriptorSize m endpoint) 5;
     let endpoint2 = getEndpointIndex (endpointAddress m endpoint);
     let outEndpoint = (if bit endpoint1 0 then endpoint1 else endpoint2);
     let inEndpoint = (if bit endpoint1 0 then endpoint2 else endpoint1);
     (_, u) \<leftarrow> onShared (ask (Ask ''usbStorage'' ''setup'' (usb_id slot OR push_bit 16 (ucast inEndpoint))
       (usb_id slot OR push_bit 16 (ucast outEndpoint)))) u;
     Some (slot, u)
   })"

text \<open>The endpoints of an interface, between other descriptors; the result is the address behind the last one.\<close>

partial_function (option) endpointLoop ::
  "UsbHostControllerInterface \<Rightarrow> u32 \<Rightarrow> u8 \<Rightarrow> u32 \<Rightarrow> slot \<Rightarrow> (u32 \<times> slot) option" where
  "endpointLoop interface i count d s =
     (if i < ucast count then do {
        let m = memory (snd s);
        if descriptorType m d = 5 then do {
          (interval, data, u) \<leftarrow> interface_configureEndpoint interface d (slot_data (fst s), snd s);
          endpointLoop interface (i + 1) count (d + descriptorSize (memory u) d)
            ((fst s)\<lparr>slot_data := data, usb_interval := interval\<rparr>, u)
        } else endpointLoop interface i count (d + descriptorSize m d) s
      } else Some (d, s))"

partial_function (option) interfaceLoop :: "UsbHostControllerInterface \<Rightarrow> u32 \<Rightarrow> u32 option \<Rightarrow> slot \<Rightarrow> (u32 option \<times> slot) option" where
  "interfaceLoop interface d firstInterface s = do {
     let m = memory (snd s);
     let start = usb_descriptor (fst s);
     if d < start + ucast (totalLength (configurationAt m start)) then do {
       let i = interfaceAt m d;
       u \<leftarrow> logCall (Print ''interface %i: %i endpoint(s), class %i, subclass %i''
         [Num (ucast (interfaceNumber i)), Num (ucast (endpointCount i)), Num (ucast (interfaceClass i)), Num (ucast (interface_subClass i))]) (snd s);
       (d', s) \<leftarrow> endpointLoop interface 0 (endpointCount i) (d + descriptorSize m d) (fst s, u);
       interfaceLoop interface d' (if firstInterface = None then Some d else firstInterface) s
     } else Some (firstInterface, s)
   }"

definition setupInterfaces :: "UsbHostControllerInterface \<Rightarrow> slot \<Rightarrow> slot option" where
  "setupInterfaces interface = (\<lambda>(slot, u). do {
     let start = usb_descriptor slot;
     let configuration = ucast (configurationValue (configurationAt (memory u) start));
     s \<leftarrow> onData (setupEndpointsStart interface configuration) (slot, u);
     (first, s) \<leftarrow> interfaceLoop interface (start + descriptorSize (memory u) start) None s;
     (slot, u) \<leftarrow> onData (setupEndpointsEnd interface configuration) s;
     d \<leftarrow> first;
     if interfaceClass (interfaceAt (memory u) d) = 3 then setupHID interface d (slot, u)
     else if interfaceClass (interfaceAt (memory u) d) = 8 then setupMassStorage d (slot, u)
     else Some (slot, u)
   })"

definition resetPort :: "UsbHostControllerInterface \<Rightarrow> UsbSlot \<Rightarrow> UsbSlot list \<times> Usb \<Rightarrow> (UsbSlot list \<times> Usb) option" where
  "resetPort interface slot = (\<lambda>(usbSlots, u). do {
     u \<leftarrow> logCall (Print ''--------'' []) u;
     (buffer, u) \<leftarrow> onShared (new 4096) u;
     let portIndex = usb_portIndex slot;
     (descriptor, u) \<leftarrow> onShared (new 18) u;
     (slot, u) \<leftarrow> onData (getDescriptor interface (push_bit 8 1) 0 buffer 0) (slot, u);
     let u = change (\<lambda>m. memcpy m buffer descriptor 18) u;
     let version = usbVersion (deviceAt (memory u) descriptor);
     u \<leftarrow> logCall (Print ''port %i: usb version %x.%x, %i supported configuration(s)''
       [Num portIndex, Num (ucast (drop_bit 8 version)), Num (ucast (version AND 0xFF)),
        Num (ucast (configurationCount (deviceAt (memory u) descriptor)))]) u;
     (slot, u) \<leftarrow> onData (getDescriptor interface (push_bit 8 3) 0 buffer 0) (slot, u);
     let language = ucast (read16 (memory u) (buffer + 2));
     (manufacturer, slot, u) \<leftarrow> usbReadString interface language (ucast (manufacturerStringDescriptor (deviceAt (memory u) descriptor))) buffer (slot, u);
     u \<leftarrow> logCall (Print ''port %i: manufacturer: %s, '' [Num portIndex, Num manufacturer]) u;
     u \<leftarrow> logCall (Free manufacturer) u;
     (device, slot, u) \<leftarrow> usbReadString interface language (ucast (deviceStringDescriptor (deviceAt (memory u) descriptor))) buffer (slot, u);
     u \<leftarrow> logCall (Print ''device: %s, '' [Num device]) u;
     u \<leftarrow> logCall (Free device) u;
     (serial, slot, u) \<leftarrow> usbReadString interface language (ucast (serialNumberStringDescriptor (deviceAt (memory u) descriptor))) buffer (slot, u);
     u \<leftarrow> logCall (Print ''serial: %s'' [Num serial]) u;
     u \<leftarrow> logCall (Free serial) u;
     (slot, u) \<leftarrow> onData (getDescriptor interface (push_bit 8 2) 0 buffer 0) (slot, u);
     let total = ucast (totalLength (configurationAt (memory u) buffer));
     (configuration, u) \<leftarrow> onShared (new total) u;
     let u = change (\<lambda>m. memcpy m buffer configuration (ucast (totalLength (configurationAt m buffer)))) u;
     (string, slot, u) \<leftarrow> usbReadString interface language (ucast (configurationString (configurationAt (memory u) configuration))) buffer (slot, u);
     u \<leftarrow> logCall (Print ''port %i: %i interfaces, configuration %s, %i bytes''
       [Num (usb_portIndex slot), Num (ucast (interfaceCount (configurationAt (memory u) configuration))), Num string,
        Num (ucast (totalLength (configurationAt (memory u) configuration)))]) u;
     let number = length usbSlots;
     let slot = slot\<lparr>usb_id := of_nat number, usb_descriptor := configuration\<rparr>;
     let usbSlots = usbSlots @ [slot];
     (slot, u) \<leftarrow> setupInterfaces interface (slot, u);
     Some (usbSlots[number := slot], u)
   })"

definition checkSlot :: "UsbHostControllerInterface \<Rightarrow> UsbSlot option \<Rightarrow> UsbSlot list \<times> Usb \<Rightarrow> (UsbSlot list \<times> Usb) option" where
  "checkSlot interface pointer s = do {
     slot \<leftarrow> pointer;
     resetPort interface slot s
   }"

definition checkInterface :: "u32 \<Rightarrow> u32 \<Rightarrow> UsbHostControllerInterface \<Rightarrow> UsbSlot list \<times> Usb \<Rightarrow> (UsbSlot list \<times> Usb) option" where
  "checkInterface device deviceClass interface = (\<lambda>(usbSlots, u).
     if deviceClass \<noteq> pciClass interface then Some (usbSlots, u)
     else do {
       (_, u) \<leftarrow> onShared (ask (Ask ''lspci'' ''enableBusMaster'' device 0)) u;
       (interrupt, u) \<leftarrow> onShared (ask (Ask ''lspci'' ''getInterrupt'' device 0)) u;
       (bar0, u) \<leftarrow> onShared (ask (Ask ''lspci'' ''getBaseAddress'' device 0)) u;
       (slots, u) \<leftarrow> initialize interface device bar0 interrupt u;
       ofold (checkSlot interface) slots (usbSlots, u)
     })"

definition checkDevice :: "(nat \<Rightarrow> u32) \<Rightarrow> u32 \<Rightarrow> u32 \<Rightarrow> UsbSlot list \<times> Usb \<Rightarrow> (UsbSlot list \<times> Usb) option" where
  "checkDevice over device deviceClass s = ofold (checkInterface device deviceClass) [xhci over] s"

section \<open>Functions for other services\<close>

definition slotAt :: "UsbSlot list \<Rightarrow> u32 \<Rightarrow> UsbSlot option" where
  "slotAt usbSlots slotId = (let i = unat (slotId AND 0xFFFF) in if i < length usbSlots then Some (usbSlots ! i) else None)"

definition putSlot :: "u32 \<Rightarrow> UsbSlot list \<Rightarrow> slot \<Rightarrow> UsbSlot list \<times> Usb" where
  "putSlot slotId usbSlots = (\<lambda>(slot, u). (usbSlots[unat (slotId AND 0xFFFF) := slot], u))"

definition hidNormal :: "UsbHostControllerInterface \<Rightarrow> u32 \<Rightarrow> u32 \<Rightarrow> UsbSlot list \<times> Usb \<Rightarrow> (UsbSlot list \<times> Usb) option" where
  "hidNormal interface slotId buffer = (\<lambda>(usbSlots, u). do {
     slot \<leftarrow> slotAt usbSlots slotId;
     s \<leftarrow> onData (doNormal interface buffer (drop_bit 16 slotId)) (slot, u);
     Some (putSlot slotId usbSlots s)
   })"

definition storageWrite :: "UsbHostControllerInterface \<Rightarrow> u32 \<Rightarrow> u32 \<Rightarrow> UsbSlot list \<times> Usb \<Rightarrow> (UsbSlot list \<times> Usb) option" where
  "storageWrite interface slotId buffer = (\<lambda>(usbSlots, u). do {
     (bufferHere, u) \<leftarrow> onShared (ask (RequestMemory 1 0 buffer)) u;
     let amount = read32 (memory u) bufferHere;
     slot \<leftarrow> slotAt usbSlots slotId;
     s \<leftarrow> onData (writeNormal interface (buffer + 4) (drop_bit 16 slotId) amount) (slot, u);
     Some (putSlot slotId usbSlots s)
   })"

definition storageRead :: "UsbHostControllerInterface \<Rightarrow> u32 \<Rightarrow> u32 \<Rightarrow> UsbSlot list \<times> Usb \<Rightarrow> (UsbSlot list \<times> Usb) option" where
  "storageRead interface slotId buffer = (\<lambda>(usbSlots, u). do {
     (bufferHere, u) \<leftarrow> onShared (ask (RequestMemory 1 0 buffer)) u;
     let amount = read32 (memory u) bufferHere;
     slot \<leftarrow> slotAt usbSlots slotId;
     s \<leftarrow> onData (readNormal interface (buffer + 4) (drop_bit 16 slotId) amount) (slot, u);
     Some (putSlot slotId usbSlots s)
   })"

definition hidInterval :: "u32 \<Rightarrow> UsbSlot list \<Rightarrow> u32 option" where
  "hidInterval slotId usbSlots = map_option usb_interval (slotAt usbSlots slotId)"

text \<open>
  \<open>getType\<close> looks for the endpoint and gives class, subclass and protocol of its interface in the lowest three bytes.
  The loop over the endpoints of an interface gives \<open>Inl\<close> the result or \<open>Inr\<close> the address behind the last one.
\<close>

definition UsbInterfaceType :: "UsbInterfaceDescriptor \<Rightarrow> u32" where
  "UsbInterfaceType i = ucast (interfaceClass i) OR push_bit 8 (ucast (interface_subClass i)) OR push_bit 16 (ucast (interface_protocol i))"

partial_function (option) endpointSearch :: "bytes \<Rightarrow> u8 \<Rightarrow> u32 \<Rightarrow> u32 \<Rightarrow> u8 \<Rightarrow> u32 \<Rightarrow> (u32 + u32) option" where
  "endpointSearch m address result i count d =
     (if i < ucast count then
        (if descriptorType m d = 5 then
           (if endpointAddress m d = address then Some (Inl result)
            else endpointSearch m address result (i + 1) count (d + descriptorSize m d))
         else endpointSearch m address result i count (d + descriptorSize m d))
      else Some (Inr d))"

partial_function (option) typeLoop :: "bytes \<Rightarrow> u8 \<Rightarrow> u32 \<Rightarrow> u32 \<Rightarrow> u32 option" where
  "typeLoop m address end_address d =
     (if d < end_address then do {
        let i = interfaceAt m d;
        r \<leftarrow> endpointSearch m address (UsbInterfaceType i) 0 (endpointCount i) (d + descriptorSize m d);
        (case r of Inl result \<Rightarrow> Some result | Inr d' \<Rightarrow> typeLoop m address end_address d')
      } else Some (- 1))"

definition getType :: "u32 \<Rightarrow> UsbSlot list \<times> Usb \<Rightarrow> u32 option" where
  "getType slotId = (\<lambda>(usbSlots, u). do {
     slot \<leftarrow> slotAt usbSlots slotId;
     let endpoint = (ucast (drop_bit 16 slotId + 1) :: u8);
     let address = drop_bit 1 endpoint OR push_bit 7 (endpoint AND 1);
     let m = memory u;
     let start = usb_descriptor slot;
     typeLoop m address (start + ucast (totalLength (configurationAt m start))) (start + descriptorSize m start)
   })"

partial_function (option) deviceLoop :: "(nat \<Rightarrow> u32) \<Rightarrow> u32 \<Rightarrow> UsbSlot list \<times> Usb \<Rightarrow> (UsbSlot list \<times> Usb) option" where
  "deviceLoop over i s = do {
     (deviceClass, u) \<leftarrow> onShared (ask (Ask ''lspci'' ''getDeviceClass'' i 0)) (snd s);
     if deviceClass = 0 then Some (fst s, u)
     else do {
       s \<leftarrow> checkDevice over i deviceClass (fst s, u);
       deviceLoop over (i + 1) s
     }
   }"

definition usbInitialize :: "(nat \<Rightarrow> u32) \<Rightarrow> UsbSlot list \<times> Usb \<Rightarrow> (UsbSlot list \<times> Usb) option" where
  "usbInitialize over = (\<lambda>(usbSlots, u). do {
     (me, u) \<leftarrow> onShared (query GetServiceId) u;
     let u = u\<lparr>usb_serviceId := me\<rparr>;
     (event, u) \<leftarrow> onShared (query (CreateEvent ''xhciEvent'')) u;
     let u = u\<lparr>xhciEvent := event\<rparr>;
     (_, u) \<leftarrow> onShared (ask (LoadFromInitrd ''hid'')) u;
     (_, u) \<leftarrow> onShared (ask (LoadFromInitrd ''usbStorage'')) u;
     u \<leftarrow> ofold (\<lambda>(name, f). logCall (CreateFunction name f))
       [(''hid_normal'', ''hidNormal''), (''hid_interval'', ''hidInterval''), (''storage_out'', ''storageWrite''),
        (''storage_in'', ''storageRead''), (''get_type'', ''getType'')] u;
     deviceLoop over 0 (usbSlots, u)
   })"

definition usbMain :: "bool \<Rightarrow> Usb \<Rightarrow> (bool \<times> Usb) option" where
  "usbMain initialized u =
     (if initialized then Some (initialized, u)
      else do {
        u \<leftarrow> logCall (Fork ''initialize'' 0 0) u;
        Some (True, u)
      })"

end
