(* ===== verification/UsbProps.thy ===== *)
theory UsbProps
  imports Usb Storage
begin

text \<open>
  What the USB service finds in the descriptors of a device: the layout of a configuration as the USB specification
  defines it, and what the searches of the service make of it.
\<close>

section \<open>Configurations\<close>

text \<open>A descriptor inside an interface: its type, the byte behind it (the address of an endpoint) and the rest.\<close>

type_synonym part = "u8 \<times> u8 \<times> u8 list"

definition partBytes :: "part \<Rightarrow> u8 list" where
  "partBytes = (\<lambda>(t, b, r). of_nat (3 + length r) # t # b # r)"

definition part_ok :: "part \<Rightarrow> bool" where
  "part_ok = (\<lambda>(t, b, r). length r < 253)"

definition endpoints :: "part list \<Rightarrow> u8 list" where
  "endpoints ps = map (fst \<circ> snd) (filter (\<lambda>p. fst p = 5) ps)"

record Interface =
  if_number :: u8
  if_alternate :: u8
  if_class :: u8
  if_subClass :: u8
  if_protocol :: u8
  if_string :: u8
  if_parts :: "part list"

definition interfaceBytes :: "Interface \<Rightarrow> u8 list" where
  "interfaceBytes i = [9, 4, if_number i, if_alternate i, of_nat (length (endpoints (if_parts i))), if_class i, if_subClass i, if_protocol i, if_string i] @
     concat (map partBytes (if_parts i))"

text \<open>An interface ends with its last endpoint.\<close>

definition interface_ok :: "Interface \<Rightarrow> bool" where
  "interface_ok i \<longleftrightarrow> (\<forall>p \<in> set (if_parts i). part_ok p) \<and> length (endpoints (if_parts i)) < 256 \<and>
     (if_parts i \<noteq> [] \<longrightarrow> fst (last (if_parts i)) = 5)"

definition interfaceType :: "Interface \<Rightarrow> u32" where
  "interfaceType i = ucast (if_class i) OR push_bit 8 (ucast (if_subClass i)) OR push_bit 16 (ucast (if_protocol i))"

definition configurationBytes :: "u8 list \<Rightarrow> Interface list \<Rightarrow> u8 list" where
  "configurationBytes rest is = (let body = concat (map interfaceBytes is) in
     [9, 2] @ le16 (of_nat (9 + length body)) @ [of_nat (length is)] @ rest @ body)"

text \<open>The interface an endpoint belongs to.\<close>

definition ownerOf :: "u8 \<Rightarrow> Interface list \<Rightarrow> Interface option" where
  "ownerOf address is = find (\<lambda>i. address \<in> set (endpoints (if_parts i))) is"

section \<open>The searches\<close>

lemma unat_byte [simp]: "unat (ucast (b :: u8) :: u32) = unat b"
  using unat_lt [of b] by (simp add: unsigned_ucast_eq take_bit_eq_mod)

lemma partBytes_at:
  assumes "bytes_at m d (partBytes p)" and "part_ok p"
  shows "descriptorType m d = fst p \<and> endpointAddress m d = fst (snd p) \<and> d + descriptorSize m d = d + of_nat (length (partBytes p))"
proof -
  obtain t b r where p: "p = (t, b, r)" by (cases p)
  have "unat (of_nat (3 + length r) :: u8) = 3 + length r" using assms(2) by (subst unat_of_nat_small) (auto simp: part_ok_def p)
  then have "(ucast (of_nat (3 + length r) :: u8) :: u32) = of_nat (3 + length r)" by (metis of_nat_unat)
  then show ?thesis using assms(1) by (simp add: partBytes_def p descriptorType_def endpointAddress_def descriptorSize_def ac_simps)
qed

lemma endpointSearch_parts:
  assumes "bytes_at m d (concat (map partBytes ps))" and "\<forall>p \<in> set ps. part_ok p" and "ps \<noteq> [] \<longrightarrow> fst (last ps) = 5"
    and "unat i + length (endpoints ps) = unat count"
  shows "endpointSearch m address result i count d =
    Some (if address \<in> set (endpoints ps) then Inl result else Inr (d + of_nat (length (concat (map partBytes ps)))))"
  using assms
proof (induction ps arbitrary: d i)
  case Nil
  then have "\<not> i < ucast count" by (simp add: endpoints_def word_less_nat_alt)
  then show ?case by (simp add: endpointSearch.simps endpoints_def)
next
  case (Cons p ps)
  have at: "descriptorType m d = fst p" "endpointAddress m d = fst (snd p)" "d + descriptorSize m d = d + of_nat (length (partBytes p))"
    using partBytes_at [of m d p] Cons.prems(1,2) by (auto simp: bytes_at_append)
  have rest: "bytes_at m (d + of_nat (length (partBytes p))) (concat (map partBytes ps))" using Cons.prems(1) by (simp add: bytes_at_append)
  have tail: "ps \<noteq> [] \<longrightarrow> fst (last ps) = 5" using Cons.prems(3) by auto
  have "0 < length (endpoints (p # ps))"
    using Cons.prems(3) last_in_set [of "p # ps"] by (auto simp: endpoints_def filter_empty_conv)
  then have more: "i < ucast count" using Cons.prems(4) unfolding word_less_nat_alt unat_byte by linarith
  show ?case
  proof (cases "fst p = 5")
    case True
    have "unat (i + 1) = unat i + 1" using Cons.prems(4) unat_lt [of count] True by (simp add: endpoints_def unat_word_ariths)
    then have "unat (i + 1) + length (endpoints ps) = unat count" using Cons.prems(4) True by (simp add: endpoints_def)
    then have "fst (snd p) \<noteq> address \<Longrightarrow> endpointSearch m address result (i + 1) count (d + of_nat (length (partBytes p))) =
        Some (if address \<in> set (endpoints ps) then Inl result else Inr (d + of_nat (length (partBytes p)) + of_nat (length (concat (map partBytes ps)))))"
      using Cons.IH [OF rest _ tail, of "i + 1"] Cons.prems(2) by simp
    then show ?thesis using True more at by (subst endpointSearch.simps) (auto simp: endpoints_def add.assoc)
  next
    case False
    then have "endpointSearch m address result i count (d + of_nat (length (partBytes p))) =
        Some (if address \<in> set (endpoints ps) then Inl result else Inr (d + of_nat (length (partBytes p)) + of_nat (length (concat (map partBytes ps)))))"
      using Cons.IH [OF rest _ tail, of i] Cons.prems(2,4) by (simp add: endpoints_def)
    then show ?thesis using False more at by (subst endpointSearch.simps) (auto simp: endpoints_def add.assoc)
  qed
qed

lemma unat_plus_nat: "unat (d :: u32) + n < 4294967296 \<Longrightarrow> unat (d + of_nat n) = unat d + n"
  by (subst unat_add_small) (simp_all add: unat_of_nat32)

lemma typeLoop_interfaces:
  assumes "bytes_at m d (concat (map interfaceBytes is))" and "\<forall>i \<in> set is. interface_ok i"
    and "unat d + length (concat (map interfaceBytes is)) < 4294967296"
  shows "typeLoop m address (d + of_nat (length (concat (map interfaceBytes is)))) d =
    Some (case ownerOf address is of None \<Rightarrow> - 1 | Some i \<Rightarrow> interfaceType i)"
  using assms
proof (induction "is" arbitrary: d)
  case Nil
  then show ?case by (simp add: typeLoop.simps ownerOf_def)
next
  case (Cons i "is")
  let ?parts = "concat (map partBytes (if_parts i))" and ?n = "length (concat (map interfaceBytes (i # is)))"
  have n: "length (interfaceBytes i) = 9 + length ?parts" by (simp add: interfaceBytes_def)
  have at: "bytes_at m d (interfaceBytes i)" "bytes_at m (d + of_nat (length (interfaceBytes i))) (concat (map interfaceBytes is))"
    using Cons.prems(1) by (simp_all add: bytes_at_append)
  then have parts: "bytes_at m (d + 9) ?parts" unfolding interfaceBytes_def bytes_at_append by simp
  have field: "m (d + of_nat k) = interfaceBytes i ! k" if "k < 9" for k using at(1) that n by (simp add: bytes_at_iff)
  have head: "descriptorSize m d = 9" "UsbInterfaceType (interfaceAt m d) = interfaceType i"
    "endpointCount (interfaceAt m d) = of_nat (length (endpoints (if_parts i)))"
    using field [of 0] field [of 4] field [of 5] field [of 6] field [of 7]
    by (simp_all add: interfaceBytes_def descriptorSize_def UsbInterfaceType_def interfaceType_def interfaceAt_def)
  have ok: "\<forall>p \<in> set (if_parts i). part_ok p" "length (endpoints (if_parts i)) < 256" "if_parts i \<noteq> [] \<longrightarrow> fst (last (if_parts i)) = 5"
    using Cons.prems(2) by (auto simp: interface_ok_def)
  have search: "endpointSearch m address (interfaceType i) 0 (of_nat (length (endpoints (if_parts i)))) (d + 9) =
      Some (if address \<in> set (endpoints (if_parts i)) then Inl (interfaceType i) else Inr (d + of_nat (length (interfaceBytes i))))"
    using endpointSearch_parts [OF parts ok(1,3), of 0 "of_nat (length (endpoints (if_parts i)))" address "interfaceType i"] ok(2)
    by (simp add: n unat_of_nat_small ac_simps)
  have len: "unat (d + of_nat (length (interfaceBytes i))) = unat d + length (interfaceBytes i)"
    using Cons.prems(3) by (intro unat_plus_nat) simp
  have "unat (d + of_nat ?n) = unat d + ?n" using Cons.prems(3) by (rule unat_plus_nat)
  then have "d < d + of_nat ?n" by (simp add: word_less_nat_alt n)
  moreover have "d + of_nat ?n = d + of_nat (length (interfaceBytes i)) + of_nat (length (concat (map interfaceBytes is)))" by simp
  moreover have "typeLoop m address (d + of_nat (length (interfaceBytes i)) + of_nat (length (concat (map interfaceBytes is)))) (d + of_nat (length (interfaceBytes i))) =
      Some (case ownerOf address is of None \<Rightarrow> - 1 | Some i \<Rightarrow> interfaceType i)"
    using Cons.IH [OF at(2)] Cons.prems(2,3) len by simp
  ultimately show ?case using search head by (subst typeLoop.simps) (auto simp: ownerOf_def add.assoc)
qed

text \<open>An address and back: the index of an endpoint in a slot number leads to the address it was computed from.\<close>

definition endpoint_address :: "nat \<Rightarrow> bool \<Rightarrow> u8" where
  "endpoint_address n input = of_nat n + (if input then 0x80 else 0)"

lemma endpoint_numbers: "1 \<le> n \<Longrightarrow> n \<le> 15 \<Longrightarrow> n \<in> {1, 2, 3, 4, 5, 6, 7, 8, 9, 10, 11, 12, 13, 14, 15 :: nat}"
  unfolding insert_iff empty_iff by presburger

lemma endpoint_round_trip:
  assumes "1 \<le> n" and "n \<le> 15"
  shows "let e = (ucast ((ucast (getEndpointIndex (endpoint_address n input)) :: u32) + 1) :: u8) in
    drop_bit 1 e OR push_bit 7 (e AND 1) = endpoint_address n input"
proof -
  have "\<forall>n \<in> {1, 2, 3, 4, 5, 6, 7, 8, 9, 10, 11, 12, 13, 14, 15}. let e = (ucast ((ucast (getEndpointIndex (endpoint_address n input)) :: u32) + 1) :: u8) in
      drop_bit 1 e OR push_bit 7 (e AND 1) = endpoint_address n input"
    by (cases input) (simp_all add: endpoint_address_def getEndpointIndex_def)
  then show ?thesis using endpoint_numbers [OF assms] by blast
qed

lemma slot_number:
  assumes "k < (0x10000 :: u32)"
  shows "(k OR push_bit 16 (ucast (e :: u8))) AND 0xFFFF = k" and "drop_bit 16 (k OR push_bit 16 (ucast e)) = (ucast e :: u32)"
    and "(k OR push_bit 16 (ucast e)) AND 0xFFFF0000 = push_bit 16 (ucast e :: u32)"
proof -
  have low: "bit k j \<Longrightarrow> j < 16" for j using assms bit_above_unat [of k 16 j] by (fastforce simp: word_less_nat_alt)
  have f: "(0xFFFF :: u32) = mask 16" "(0xFFFF0000 :: u32) = push_bit 16 (mask 16)" by (simp_all add: mask_eq_decr_exp)
  show "(k OR push_bit 16 (ucast e)) AND 0xFFFF = k"
    unfolding f by (rule bit_eqI) (auto simp: bit_simps dest: low)
  show "drop_bit 16 (k OR push_bit 16 (ucast e)) = (ucast e :: u32)"
    by (rule bit_eqI) (auto simp: bit_simps dest: low bit_imp_le_length)
  show "(k OR push_bit 16 (ucast e)) AND 0xFFFF0000 = push_bit 16 (ucast e :: u32)"
    unfolding f by (rule bit_eqI) (auto simp: bit_simps dest: low)
qed

lemma getType_owner:
  assumes "k < 0x10000" and "unat k < length usbSlots" and "slot = usbSlots ! unat k"
    and "bytes_at (memory u) (usb_descriptor slot) (configurationBytes rest is)" and "length rest = 4" and "\<forall>i \<in> set is. interface_ok i"
    and "9 + length (concat (map interfaceBytes is)) < 65536" and "unat (usb_descriptor slot) + 65536 < 2 ^ 32" and "1 \<le> n" and "n \<le> 15"
  shows "getType (k OR push_bit 16 (ucast (getEndpointIndex (endpoint_address n input)))) (usbSlots, u) =
    Some (case ownerOf (endpoint_address n input) is of None \<Rightarrow> - 1 | Some i \<Rightarrow> interfaceType i)"
proof -
  let ?m = "memory u" and ?d = "usb_descriptor slot" and ?body = "concat (map interfaceBytes is)"
  have total: "unat (of_nat (9 + length ?body) :: u16) = 9 + length ?body" using assms(7) by (subst unat_of_nat_small) auto
  have "bytes_at ?m (?d + 2) (le16 (of_nat (9 + length ?body)))" and body: "bytes_at ?m (?d + 9) ?body" and size: "?m ?d = 9"
    using assms(4,5) by (auto simp: configurationBytes_def bytes_at_append Let_def le16_def ac_simps)
  then have "totalLength (configurationAt ?m ?d) = of_nat (9 + length ?body)" by (simp add: configurationAt_def read16_le)
  moreover have "(ucast (of_nat (9 + length ?body) :: u16) :: u32) = of_nat (9 + length ?body)" using total by (metis of_nat_unat)
  ultimately have stop: "?d + ucast (totalLength (configurationAt ?m ?d)) = ?d + 9 + of_nat (length ?body)" by simp
  have "unat (?d + 9) = unat ?d + 9" using assms(8) unat_plus_nat [of ?d 9] by simp
  then have "typeLoop ?m a (?d + 9 + of_nat (length ?body)) (?d + 9) = Some (case ownerOf a is of None \<Rightarrow> - 1 | Some i \<Rightarrow> interfaceType i)" for a
    using assms(6,7,8) by (intro typeLoop_interfaces [OF body]) auto
  then show ?thesis using assms(2,3) size stop endpoint_round_trip [OF assms(9,10), of input] slot_number [OF assms(1)]
    by (simp add: getType_def slotAt_def descriptorSize_def Let_def add.assoc)
qed

lemma findDescriptor_part:
  assumes "bytes_at m d (concat (map partBytes (xs @ p # ys)))" and "\<forall>x \<in> set (xs @ p # ys). part_ok x"
    and "\<forall>x \<in> set xs. fst x \<noteq> 5" and "fst p = 5"
  shows "\<exists>e. findDescriptor m d 5 = Some e \<and> endpointAddress m e = fst (snd p) \<and> bytes_at m (e + descriptorSize m e) (concat (map partBytes ys))"
  using assms
proof (induction xs arbitrary: d)
  case Nil
  then show ?case using partBytes_at [of m d p] by (intro exI [of _ d]) (simp add: findDescriptor.simps bytes_at_append)
next
  case (Cons x xs)
  then have "descriptorType m d \<noteq> 5" "bytes_at m (d + descriptorSize m d) (concat (map partBytes (xs @ p # ys)))"
    using partBytes_at [of m d x] by (auto simp: bytes_at_append)
  then show ?case using Cons.IH [of "d + descriptorSize m d"] Cons.prems by (simp add: findDescriptor.simps [of m d])
qed

lemma filter_two:
  assumes "filter P zs = [p, q]"
  shows "\<exists>xs ys us. zs = xs @ p # ys @ q # us \<and> (\<forall>x \<in> set xs. \<not> P x) \<and> (\<forall>x \<in> set ys. \<not> P x) \<and> P p \<and> P q"
proof -
  obtain xs vs where 1: "zs = xs @ p # vs" "\<forall>x \<in> set xs. \<not> P x" "P p" "[q] = filter P vs" using filter_eq_ConsD [OF assms] by auto
  obtain ys us where "vs = ys @ q # us" "\<forall>x \<in> set ys. \<not> P x" "P q" using filter_eq_ConsD [OF 1(4) [symmetric]] by auto
  with 1 show ?thesis by blast
qed

lemma both_endpoints:
  assumes "bytes_at m d (interfaceBytes i)" and "interface_ok i" and "endpoints (if_parts i) = [a, b]"
  shows "\<exists>e f. findDescriptor m d 5 = Some e \<and> endpointAddress m e = a \<and>
    findDescriptor m (e + descriptorSize m e) 5 = Some f \<and> endpointAddress m f = b"
proof -
  let ?P = "\<lambda>p :: part. fst p = 5"
  obtain p q where f: "filter ?P (if_parts i) = [p, q]" "fst (snd p) = a" "fst (snd q) = b"
    using assms(3) by (auto simp: endpoints_def map_eq_Cons_conv)
  obtain xs ys us where parts: "if_parts i = xs @ p # ys @ q # us" "\<forall>x \<in> set xs. fst x \<noteq> 5" "\<forall>x \<in> set ys. fst x \<noteq> 5" "fst p = 5" "fst q = 5"
    using filter_two [OF f(1)] by blast
  have ok: "\<forall>x \<in> set (if_parts i). part_ok x" using assms(2) by (simp add: interface_ok_def)
  have field: "m (d + of_nat k) = interfaceBytes i ! k" if "k < 9" for k using assms(1) that by (simp add: bytes_at_iff interfaceBytes_def)
  have "descriptorType m d = 4" "descriptorSize m d = 9" using field [of 0] field [of 1]
    by (simp_all add: interfaceBytes_def descriptorType_def descriptorSize_def)
  then have skip: "findDescriptor m d 5 = findDescriptor m (d + 9) 5" by (subst findDescriptor.simps) simp
  have "bytes_at m (d + 9) (concat (map partBytes (xs @ p # ys @ q # us)))"
    using assms(1) unfolding interfaceBytes_def bytes_at_append parts(1) by simp
  from findDescriptor_part [OF this _ parts(2,4)] ok parts(1) obtain e where e: "findDescriptor m (d + 9) 5 = Some e" "endpointAddress m e = a"
    "bytes_at m (e + descriptorSize m e) (concat (map partBytes (ys @ q # us)))" using f(2) by auto
  from findDescriptor_part [OF e(3) _ parts(3,5)] ok parts(1) f(3) show ?thesis using e(1,2) skip by auto
qed

lemma endpoint_direction:
  assumes "1 \<le> n" and "n \<le> 15"
  shows "bit (getEndpointIndex (endpoint_address n input)) 0 \<longleftrightarrow> \<not> input"
proof -
  have "\<forall>n \<in> {1, 2, 3, 4, 5, 6, 7, 8, 9, 10, 11, 12, 13, 14, 15}. bit (getEndpointIndex (endpoint_address n input)) 0 \<longleftrightarrow> \<not> input"
    by (cases input) (simp_all add: endpoint_address_def getEndpointIndex_def)
  then show ?thesis using endpoint_numbers [OF assms] by blast
qed

lemma storageSetup_registers:
  assumes "\<forall>L m f x. x \<in> {p, q} \<longrightarrow> reply s (L @ [(Request service f x 0, m)]) = 0x500608"
  shows "\<exists>s' inF outF. storageSetup p q service (devices, s) =
      Some (devices @ [\<lparr>storage_serviceId = service, storage_deviceId = p AND 0xFFFF, storage_id = of_nat (length devices),
        storage_inFunction = inF, storage_outFunction = outF\<rparr>], s') \<and>
    fst (last (sent s')) = Ask ''scisi'' ''register'' (of_nat (length devices) OR (p AND 0xFFFF0000)) (of_nat (length devices) OR (q AND 0xFFFF0000))"
proof -
  have "protocolOf (ucast (drop_bit 16 (0x500608 :: u32))) = BulkOnly" "subClassOf (ucast (drop_bit 8 (0x500608 :: u32))) = SCISI_Transparent"
    "(ucast (0x500608 :: u32) :: u8) = 8" by (simp_all add: protocolOf_def subClassOf_def)
  moreover have "reply s (L @ [c, (Request service f p 0, m)]) = 0x500608" "reply s (L @ [c, c', (Request service f q 0, m)]) = 0x500608" for L c c' f m
    using assms [rule_format, of p "L @ [c]" f m] assms [rule_format, of q "L @ [c, c']" f m] by simp_all
  ultimately show ?thesis by (simp add: storageSetup_def query_def ask_def tell_def logged_def Let_def)
qed

text \<open>
  C37. A device whose first interface is a bulk-only SCSI disk with one endpoint for each direction, in any order and
  between any other descriptors, is recognised: the service announces one pipe for each direction, \<open>getType\<close> gives for
  both the type of the interface, and with these answers \<open>usbStorage\<close> adds the device and registers it at \<open>scisi\<close> with
  the endpoint for reading first.
\<close>

theorem disk_recognised:
  assumes "usb_id slot < 0x10000" and "unat (usb_id slot) < length usbSlots" and "slot = usbSlots ! unat (usb_id slot)"
    and "bytes_at (memory u) (usb_descriptor slot) (configurationBytes rest (i # others))" and "length rest = 4"
    and "\<forall>i \<in> set (i # others). interface_ok i" and "9 + length (concat (map interfaceBytes (i # others))) < 65536"
    and "unat (usb_descriptor slot) + 65536 < 2 ^ 32"
    and "if_class i = 8" and "if_subClass i = 6" and "if_protocol i = 0x50"
    and "endpoints (if_parts i) = [endpoint_address a input, endpoint_address b (\<not> input)]" and "1 \<le> a" and "a \<le> 15" and "1 \<le> b" and "b \<le> 15"
  shows "\<exists>p q u'. setupMassStorage (usb_descriptor slot + 9) (slot, u) = Some (slot, u') \<and>
    sent (shared u') = sent (shared u) @ [(Ask ''usbStorage'' ''setup'' p q, memory u)] \<and>
    getType p (usbSlots, u) = Some 0x500608 \<and> getType q (usbSlots, u) = Some 0x500608 \<and>
    (\<forall>service devices s. (\<forall>L m f x. x \<in> {p, q} \<longrightarrow> reply s (L @ [(Request service f x 0, m)]) = 0x500608) \<longrightarrow>
      (\<exists>s' device. storageSetup p q service (devices, s) = Some (devices @ [device], s') \<and> storage_deviceId device = usb_id slot \<and>
        fst (last (sent s')) = Ask ''scisi'' ''register''
          (of_nat (length devices) OR push_bit 16 (ucast (getEndpointIndex (endpoint_address (if input then a else b) True))))
          (of_nat (length devices) OR push_bit 16 (ucast (getEndpointIndex (endpoint_address (if input then b else a) False))))))"
proof -
  let ?a = "endpoint_address a input" and ?b = "endpoint_address b (\<not> input)" and ?k = "usb_id slot"
  let ?in = "endpoint_address (if input then a else b) True" and ?out = "endpoint_address (if input then b else a) False"
  define p where "p = ?k OR push_bit 16 (ucast (getEndpointIndex ?in))"
  define q where "q = ?k OR push_bit 16 (ucast (getEndpointIndex ?out))"
  have type: "interfaceType i = 0x500608" using assms(9,10,11) by (simp add: interfaceType_def)
  have owner: "ownerOf ?in (i # others) = Some i" "ownerOf ?out (i # others) = Some i" using assms(12) by (auto simp: ownerOf_def)
  have types: "getType p (usbSlots, u) = Some 0x500608" "getType q (usbSlots, u) = Some 0x500608"
    unfolding p_def q_def using getType_owner [OF assms(1-8)] owner type assms(13-16) by simp_all
  have "bytes_at (memory u) (usb_descriptor slot + 9) (interfaceBytes i)"
    using assms(4,5) by (auto simp: configurationBytes_def bytes_at_append Let_def le16_def ac_simps)
  moreover have "interface_ok i" using assms(6) by simp
  ultimately obtain e f where "findDescriptor (memory u) (usb_descriptor slot + 9) 5 = Some e" "endpointAddress (memory u) e = ?a"
    "findDescriptor (memory u) (e + descriptorSize (memory u) e) 5 = Some f" "endpointAddress (memory u) f = ?b"
    using both_endpoints [OF _ _ assms(12)] by blast
  then have "\<exists>u'. setupMassStorage (usb_descriptor slot + 9) (slot, u) = Some (slot, u') \<and>
      sent (shared u') = sent (shared u) @ [(Ask ''usbStorage'' ''setup'' p q, memory u)]"
    using endpoint_direction [OF assms(13,14), of input]
    by (cases input) (simp_all add: setupMassStorage_def onShared_def ask_def logged_def memory_def p_def q_def Let_def)
  moreover have "p AND 0xFFFF = ?k" "p AND 0xFFFF0000 = push_bit 16 (ucast (getEndpointIndex ?in))"
    "q AND 0xFFFF0000 = push_bit 16 (ucast (getEndpointIndex ?out))" unfolding p_def q_def using slot_number [OF assms(1)] by blast+
  then have "\<exists>s' device. storageSetup p q service (devices, s) = Some (devices @ [device], s') \<and> storage_deviceId device = ?k \<and>
        fst (last (sent s')) = Ask ''scisi'' ''register'' (of_nat (length devices) OR push_bit 16 (ucast (getEndpointIndex ?in)))
          (of_nat (length devices) OR push_bit 16 (ucast (getEndpointIndex ?out)))"
    if "\<forall>L m f x. x \<in> {p, q} \<longrightarrow> reply s (L @ [(Request service f x 0, m)]) = 0x500608" for service devices s
    using storageSetup_registers [OF that, of devices] by fastforce
  ultimately show ?thesis using types by blast
qed

text \<open>A disk with the endpoints \<open>0x81\<close> and \<open>0x02\<close>, behind a descriptor of another type, in slot 1.\<close>

definition diskInterface :: Interface where
  "diskInterface = \<lparr>if_number = 0, if_alternate = 0, if_class = 8, if_subClass = 6, if_protocol = 0x50, if_string = 0,
     if_parts = [(0x24, 7, []), (5, 0x81, [2, 0, 2, 0]), (5, 0x02, [2, 0, 2, 0])]\<rparr>"

definition diskSlot :: UsbSlot where
  "diskSlot = \<lparr>slot_data = \<lparr>slot_controller = 0, slotIndex = 1, slot_portIndex = 3, inputContext = 0x6000, slot_port = 0x420,
       controlRing = setupTrbRing (\<lambda>_. zeroTrb) 0x8000 255, endpointRings = \<lambda>_. None\<rparr>,
     usb_portIndex = 3, usb_id = 1, usb_interval = 0, usb_descriptor = 0x3000\<rparr>"

definition diskUsb :: Usb where
  "diskUsb = \<lparr>shared = \<lparr>mem = putBytes 0x3000 (configurationBytes [1, 0, 0x80, 50] [diskInterface]) (\<lambda>_. 0), sent = [], reply = \<lambda>_. 0, memory_after = \<lambda>_ _. 0\<rparr>,
     usb_serviceId = 4, xhciEvent = 2, controllers = [], globalController = 0\<rparr>"

theorem disk_recognised_witness:
  "\<exists>p q u'. setupMassStorage 0x3009 (diskSlot, diskUsb) = Some (diskSlot, u') \<and>
     getType p ([diskSlot, diskSlot], diskUsb) = Some 0x500608 \<and> getType q ([diskSlot, diskSlot], diskUsb) = Some 0x500608 \<and>
     fst (last (sent (shared u'))) = Ask ''usbStorage'' ''setup'' p q"
proof -
  have conf: "bytes_at (memory diskUsb) (usb_descriptor diskSlot) (configurationBytes [1, 0, 0x80, 50] [diskInterface])"
  proof -
    have "length (configurationBytes [1, 0, 0x80, 50] [diskInterface]) < 2 ^ 32"
      by (simp add: configurationBytes_def interfaceBytes_def partBytes_def diskInterface_def Let_def le16_def)
    from bytes_at_putBytes [OF this, of "0x3000" "\<lambda>_. 0"] show ?thesis by (simp add: memory_def diskUsb_def diskSlot_def)
  qed
  have ok: "interface_ok diskInterface" "length (concat (map interfaceBytes [diskInterface])) = 26"
    by (simp_all add: interface_ok_def part_ok_def endpoints_def diskInterface_def interfaceBytes_def partBytes_def)
  have e: "endpoints (if_parts diskInterface) = [endpoint_address 1 True, endpoint_address 2 (\<not> True)]"
    by (simp add: endpoints_def diskInterface_def endpoint_address_def)
  have slot: "usb_id diskSlot = 1" "usb_descriptor diskSlot = 0x3000" by (simp_all add: diskSlot_def)
  have class_of: "if_class diskInterface = 8" "if_subClass diskInterface = 6" "if_protocol diskInterface = 0x50" by (simp_all add: diskInterface_def)
  obtain p q u' where "setupMassStorage (usb_descriptor diskSlot + 9) (diskSlot, diskUsb) = Some (diskSlot, u')"
    "sent (shared u') = sent (shared diskUsb) @ [(Ask ''usbStorage'' ''setup'' p q, memory diskUsb)]"
    "getType p ([diskSlot, diskSlot], diskUsb) = Some 0x500608" "getType q ([diskSlot, diskSlot], diskUsb) = Some 0x500608"
    using disk_recognised [OF _ _ _ conf _ _ _ _ class_of e, of "[diskSlot, diskSlot]"] ok slot by auto
  then show ?thesis using slot by (intro exI [of _ p] exI [of _ q] exI [of _ u']) simp
qed

end
