(* ===== verification/IoManager.thy ===== *)
theory IoManager
  imports Programs
begin

text \<open>
  The service between the programs and the devices for text (\<open>userland/ioManager\<close>): it prints what programs log,
  edits the line typed at the keyboard, and hands finished lines to the program that asked for one. The texts the
  kernel keeps under their numbers are the argument \<open>strings\<close>.
\<close>

section \<open>State\<close>

record IoManager =
  mainService :: u32
  mainOut :: u32
  mainBulkOut :: u32
  globalService :: u32
  globalOut :: u32
  globalBulkOut :: u32
  focusService :: u32
  focusServiceKeyHandler :: u32
  ioManager :: u32
  logFunction :: u32
  keyEvent :: u32
  newLineEvent :: u32
  inputBuffer :: "nat \<Rightarrow> u8"
  inputBufferPosition :: u32
  printInput :: bool

section \<open>Output\<close>

text \<open>A character is passed on as a signed number.\<close>

definition writeChars :: "u32 \<Rightarrow> u32 \<Rightarrow> u8 list \<Rightarrow> World \<Rightarrow> World option" where
  "writeChars service out text w = ofold (\<lambda>c. perform (Request service out (scast c) 0)) (takeWhile (\<lambda>c. c \<noteq> 0) text) w"

definition writeString :: "IoManager \<Rightarrow> u8 list \<Rightarrow> World \<Rightarrow> World option" where
  "writeString io text w =
     (if globalBulkOut io \<noteq> 0 then do {
        (stringId, w) \<leftarrow> call (InsertString (takeWhile (\<lambda>c. c \<noteq> 0) text)) w;
        w \<leftarrow> perform (Request (globalService io) (globalBulkOut io) stringId 0) w;
        perform (DiscardString stringId) w
      } else writeChars (globalService io) (globalOut io) text w)"

text \<open>
  The lock is free when a call enters: the loop that waits for it gives way to the call that holds it. The buffer has
  100 bytes.
\<close>

definition logMain :: "(u32 \<Rightarrow> u8 list) \<Rightarrow> IoManager \<Rightarrow> u32 \<Rightarrow> World \<Rightarrow> World option" where
  "logMain strings io stringId w =
     (if mainBulkOut io \<noteq> 0 then perform (Request (mainService io) (mainBulkOut io) stringId 0) w
      else do {
        w \<leftarrow> perform (ReadString stringId 0) w;
        if 100 < length (strings stringId) + 1 then None
        else writeChars (mainService io) (mainOut io) (strings stringId) w
      })"

definition doCheckFocus :: "IoManager \<Rightarrow> World \<Rightarrow> (u32 \<times> World) option" where
  "doCheckFocus io w = call (StackContains (focusService io)) w"

text \<open>
  A line of the log: the name of the caller between brackets, the text, and one line feed at the end. The name is
  written over the blanks, without regard to their number; behind the end of the text is a fault.
\<close>

definition bracket :: "u8 list" where
  "bracket = 0x5B # replicate 12 0x20 @ [0x5D, 0x20]"

definition logLine :: "u8 list \<Rightarrow> u8 list \<Rightarrow> u8 list option" where
  "logLine name text = do {
     let result = bracket @ text @ [0x20, 0];
     let n = length (takeWhile (\<lambda>c. c \<noteq> 0) result);
     let result = result[n - 1 := (if result ! (n - 2) \<noteq> 0x0A then 0x0A else 0)];
     ofold (\<lambda>i result. if i + 2 < length result then Some (result[i + 2 := name ! i]) else None) [0..<length name] result
   }"

definition handleLog :: "(u32 \<Rightarrow> u8 list) \<Rightarrow> IoManager \<Rightarrow> u32 \<Rightarrow> u32 \<Rightarrow> World \<Rightarrow> World option" where
  "handleLog strings io stringId caller w = do {
     (a, w) \<leftarrow> call (Malloc 1) w;
     w \<leftarrow> perform (Free a) w;
     (focus, w) \<leftarrow> call (StackContains (focusService io)) w;
     if focus \<noteq> 0 then logMain strings io stringId w
     else do {
       w \<leftarrow> perform (GetStringLength stringId) w;
       w \<leftarrow> perform (ReadString stringId 0) w;
       w \<leftarrow> perform (GetStringLength caller) w;
       w \<leftarrow> perform (ReadString caller 0) w;
       result \<leftarrow> logLine (strings caller) (strings stringId);
       writeString io result w
     }
   }"

section \<open>Input\<close>

definition setForeground :: "u32 \<Rightarrow> IoManager \<Rightarrow> IoManager" where
  "setForeground service io = io\<lparr>focusService := service, focusServiceKeyHandler := 0\<rparr>"

definition setInput :: "u32 \<Rightarrow> u8 \<Rightarrow> IoManager \<Rightarrow> IoManager option" where
  "setInput i c io = do {
     buffer \<leftarrow> aset 256 (inputBuffer io) (unat i) c;
     Some (io\<lparr>inputBuffer := buffer\<rparr>)
   }"

text \<open>The line is the text before the first zero of the buffer.\<close>

definition inputLine :: "IoManager \<Rightarrow> u8 list" where
  "inputLine io = takeWhile (\<lambda>c. c \<noteq> 0) (map (inputBuffer io) [0..<256])"

definition onNewLine :: "IoManager \<times> World \<Rightarrow> (IoManager \<times> World) option" where
  "onNewLine = (\<lambda>(io, w). do {
     (stringId, w) \<leftarrow> call (InsertString (inputLine io)) w;
     w \<leftarrow> perform (FireEvent (newLineEvent io) stringId 0) w;
     io \<leftarrow> setInput 0 0 (io\<lparr>inputBufferPosition := 0\<rparr>);
     Some (io, w)
   })"

definition handleKey :: "u32 \<Rightarrow> u32 \<Rightarrow> IoManager \<times> World \<Rightarrow> (IoManager \<times> World) option" where
  "handleKey keycode stringId = (\<lambda>(io, w). do {
     (io, w) \<leftarrow> (if focusServiceKeyHandler io = 0 then do {
         (handler, w) \<leftarrow> call (GetFunction (focusService io) ''onKey'') w;
         Some (io\<lparr>focusServiceKeyHandler := handler\<rparr>, w)
       } else Some (io, w));
     w \<leftarrow> (if focusServiceKeyHandler io \<noteq> 0 then perform (Request (focusService io) (focusServiceKeyHandler io) keycode stringId) w
       else Some w);
     w \<leftarrow> perform (FireEvent (keyEvent io) keycode 0) w;
     if \<not> printInput io then Some (io, w)
     else if keycode = 8 \<and> inputBufferPosition io = 0 then Some (io, w)
     else do {
       (io, w) \<leftarrow> (if keycode = 8 then do {
           let io = io\<lparr>inputBufferPosition := inputBufferPosition io - 1\<rparr>;
           io \<leftarrow> setInput (inputBufferPosition io) 0 io;
           Some (io, w)
         }
         else if keycode = 10 then onNewLine (io, w)
         else do {
           io \<leftarrow> setInput (inputBufferPosition io) (ucast keycode) io;
           let io = io\<lparr>inputBufferPosition := inputBufferPosition io + 1\<rparr>;
           io \<leftarrow> setInput (inputBufferPosition io) 0 io;
           Some (io, w)
         });
       w \<leftarrow> perform (Request (mainService io) (mainOut io) keycode 0) w;
       Some (io, w)
     }
   })"

text \<open>
  \<open>getsImplementation\<close> before it waits for the line, with the wait itself, and after it. Between the two the keys
  are handled.
\<close>

definition getsBegin :: "IoManager \<Rightarrow> IoManager option" where
  "getsBegin io = setInput 0 0 (io\<lparr>printInput := True, inputBufferPosition := 0\<rparr>)"

definition getsEnd :: "u32 \<Rightarrow> IoManager \<Rightarrow> u32 \<times> IoManager" where
  "getsEnd result io = (result, io\<lparr>printInput := False\<rparr>)"

definition getsImplementation :: "IoManager \<times> World \<Rightarrow> (u32 \<times> IoManager \<times> World) option" where
  "getsImplementation = (\<lambda>(io, w). do {
     io \<leftarrow> getsBegin io;
     (result, w) \<leftarrow> call (AwaitCode (ioManager io) (newLineEvent io) 0) w;
     let (result, io) = getsEnd result io;
     Some (result, io, w)
   })"

definition ioManagerMain :: "IoManager \<times> World \<Rightarrow> (IoManager \<times> World) option" where
  "ioManagerMain = (\<lambda>(io, w). do {
     (me, w) \<leftarrow> call GetServiceId w;
     (logF, w) \<leftarrow> call (CreateFunction '''' ''handleLog'') w;
     w \<leftarrow> perform (CreateFunction ''keyCallback'' ''handleKey'') w;
     w \<leftarrow> perform (CreateFunction ''checkFocus'' ''doCheckFocus'') w;
     (vga, w) \<leftarrow> call (LoadFromInitrd ''vga'') w;
     (vgaOut, w) \<leftarrow> call (GetFunction vga ''writeChar'') w;
     (vgaBulk, w) \<leftarrow> call (GetFunction vga ''writeBulk'') w;
     (parallel, w) \<leftarrow> call (LoadFromInitrd ''parallel'') w;
     (parallelOut, w) \<leftarrow> call (GetFunction parallel ''writeChar'') w;
     (parallelBulk, w) \<leftarrow> call (GetFunction parallel ''write_bulk'') w;
     w \<leftarrow> perform (LoadFromInitrd ''log'') w;
     w \<leftarrow> perform (CreateFunction ''setForeground'' ''setForeground'') w;
     (key, w) \<leftarrow> call (CreateEvent ''keyPress'') w;
     (line, w) \<leftarrow> call (CreateEvent ''newLine'') w;
     w \<leftarrow> perform (CreateFunction ''gets'' ''getsImplementation'') w;
     Some (io\<lparr>ioManager := me, logFunction := logF, mainService := vga, mainOut := vgaOut, mainBulkOut := vgaBulk,
       globalService := parallel, globalOut := parallelOut, globalBulkOut := parallelBulk, keyEvent := key, newLineEvent := line\<rparr>, w)
   })"

section \<open>Editing a line\<close>

definition edit :: "u8 list \<Rightarrow> u32 \<Rightarrow> u8 list" where
  "edit l k = (if k = 8 then butlast l else l @ [ucast k])"

definition holds_line :: "IoManager \<Rightarrow> u8 list \<Rightarrow> bool" where
  "holds_line io l \<longleftrightarrow> length l \<le> 255 \<and> unat (inputBufferPosition io) = length l \<and> printInput io \<and> 0 \<notin> set l \<and>
     (\<forall>i < length l. inputBuffer io i = l ! i) \<and> inputBuffer io (length l) = 0"

definition insertedLines :: "Call list \<Rightarrow> u8 list list" where
  "insertedLines cs = concat (map (\<lambda>c. case c of InsertString l \<Rightarrow> [l] | _ \<Rightarrow> []) cs)"

lemma insertedLines_append [simp]: "insertedLines (cs @ ds) = insertedLines cs @ insertedLines ds"
  by (simp add: insertedLines_def)

lemma inputLine_holds: "holds_line io l \<Longrightarrow> inputLine io = l"
proof -
  assume io: "holds_line io l"
  have "map (inputBuffer io) [0..<256] = l @ 0 # map (inputBuffer io) [Suc (length l)..<256]"
  proof -
    have "[0..<256] = [0..<length l] @ length l # [Suc (length l)..<256]"
      using io upt_add_eq_append [of 0 "length l" "256 - length l"] upt_conv_Cons [of "length l" 256] by (simp add: holds_line_def)
    moreover have "map (inputBuffer io) [0..<length l] = l" using io by (intro nth_equalityI) (auto simp: holds_line_def)
    ultimately show ?thesis using io by (simp add: holds_line_def)
  qed
  moreover have "\<forall>c \<in> set l. c \<noteq> 0" using io unfolding holds_line_def by metis
  ultimately show ?thesis by (simp add: inputLine_def)
qed

text \<open>The calls of \<open>handleKey\<close> before it looks at the key: the handler of the program in the foreground, and the event.\<close>

definition announce :: "u32 \<Rightarrow> u32 \<Rightarrow> IoManager \<times> World \<Rightarrow> IoManager \<times> Call list" where
  "announce keycode stringId = (\<lambda>(io, w).
     let ask = GetFunction (focusService io) ''onKey'';
         h = (if focusServiceKeyHandler io = 0 then answers w (trace w @ [ask]) else focusServiceKeyHandler io) in
     (io\<lparr>focusServiceKeyHandler := h\<rparr>,
      (if focusServiceKeyHandler io = 0 then [ask] else []) @ (if h \<noteq> 0 then [Request (focusService io) h keycode stringId] else []) @
      [FireEvent (keyEvent io) keycode 0]))"

lemma announce_lines [simp]: "insertedLines (snd (announce k x iow)) = []"
  by (cases iow) (simp add: announce_def insertedLines_def Let_def)

lemma holds_announce [simp]: "holds_line (fst (announce k x (io, w))) l = holds_line io l" "newLineEvent (fst (announce k x (io, w))) = newLineEvent io"
  by (simp_all add: announce_def holds_line_def Let_def)

lemma handleKey_announced:
  assumes "printInput io"
  shows "handleKey k x (io, w) = (let (io, cs) = announce k x (io, w); w = after w cs in
    if k = 8 \<and> inputBufferPosition io = 0 then Some (io, w)
    else do {
      (io, w) \<leftarrow> (if k = 8 then do {
          io \<leftarrow> setInput (inputBufferPosition io - 1) 0 (io\<lparr>inputBufferPosition := inputBufferPosition io - 1\<rparr>);
          Some (io, w)
        }
        else if k = 10 then onNewLine (io, w)
        else do {
          io \<leftarrow> setInput (inputBufferPosition io) (ucast k) io;
          io \<leftarrow> setInput (inputBufferPosition io + 1) 0 (io\<lparr>inputBufferPosition := inputBufferPosition io + 1\<rparr>);
          Some (io, w)
        });
      Some (io, after w [Request (mainService io) (mainOut io) k 0])
    })"
  using assms
  by (cases "focusServiceKeyHandler io = 0"; cases "answers w (trace w @ [GetFunction (focusService io) ''onKey'']) = 0")
    (simp_all add: handleKey_def announce_def Let_def case_prod_beta' setInput_def)

lemma edit_step:
  assumes io: "holds_line io l" and l: "length l < 255" and k: "k \<noteq> 10" "k \<noteq> 8 \<longrightarrow> (ucast k :: u8) \<noteq> 0"
  shows "\<exists>io' cs. handleKey k x (io, w) = Some (io', after w cs) \<and> holds_line io' (edit l k) \<and> newLineEvent io' = newLineEvent io \<and> insertedLines cs = []"
proof -
  obtain io1 cs where a: "announce k x (io, w) = (io1, cs)" by (cases "announce k x (io, w)")
  have io1: "holds_line io1 l" "newLineEvent io1 = newLineEvent io" "insertedLines cs = []"
    using io holds_announce [of k x io w] announce_lines [of k x "(io, w)"] unfolding a by simp_all
  have start: "printInput io" using io by (simp add: holds_line_def)
  have p: "unat (inputBufferPosition io1) = length l" using io1(1) by (simp add: holds_line_def)
  show ?thesis
  proof (cases "k = 8")
    case True
    show ?thesis
    proof (cases "l = []")
      case True
      then have "inputBufferPosition io1 = 0" using p by (simp add: unat_eq_0)
      then show ?thesis using a io1 True \<open>k = 8\<close> by (intro exI [of _ io1] exI [of _ cs]) (simp add: handleKey_announced [OF start] edit_def)
    next
      case False
      then have nz: "inputBufferPosition io1 \<noteq> 0" using p by auto
      then have "unat (inputBufferPosition io1 - 1) = length l - 1" using p by (simp add: unat_minus_one)
      moreover define io2 where "io2 = io1\<lparr>inputBufferPosition := inputBufferPosition io1 - 1, inputBuffer := (inputBuffer io1)(length l - 1 := 0)\<rparr>"
      ultimately have "holds_line io2 (butlast l)" using io1(1) False
        by (auto simp: holds_line_def nth_butlast dest: in_set_butlastD)
      moreover have "handleKey k x (io, w) = Some (io2, after w (cs @ [Request (mainService io2) (mainOut io2) k 0]))"
        using a True nz l \<open>unat (inputBufferPosition io1 - 1) = length l - 1\<close> by (simp add: handleKey_announced [OF start] setInput_def io2_def)
      ultimately show ?thesis using True io1 by (intro exI [of _ io2] exI [of _ "cs @ [Request (mainService io2) (mainOut io2) k 0]"])
        (simp add: edit_def io2_def insertedLines_def)
    qed
  next
    case False
    have q: "unat (inputBufferPosition io1 + 1) = Suc (length l)" using p l by (simp add: unat_word_ariths)
    define io2 where "io2 = io1\<lparr>inputBufferPosition := inputBufferPosition io1 + 1,
      inputBuffer := (inputBuffer io1)(length l := ucast k, Suc (length l) := 0)\<rparr>"
    have "holds_line io2 (l @ [ucast k])" using io1(1) l k False q by (auto simp: holds_line_def io2_def nth_append less_Suc_eq)
    moreover have "handleKey k x (io, w) = Some (io2, after w (cs @ [Request (mainService io2) (mainOut io2) k 0]))"
      using a False k l p q by (simp add: handleKey_announced [OF start] setInput_def io2_def)
    ultimately show ?thesis using False io1 by (intro exI [of _ io2] exI [of _ "cs @ [Request (mainService io2) (mainOut io2) k 0]"])
      (simp add: edit_def io2_def insertedLines_def)
  qed
qed

lemma edit_length: "length (edit l k) \<le> Suc (length l)"
  unfolding edit_def by (cases "k = 8") simp_all

lemma edit_keys:
  assumes "holds_line io l" and "length l + length ks \<le> 255" and "\<forall>k \<in> set ks. k \<noteq> 10 \<and> (k \<noteq> 8 \<longrightarrow> (ucast k :: u8) \<noteq> 0)"
  shows "\<exists>io' cs. ofold (\<lambda>k. handleKey k x) ks (io, w) = Some (io', after w cs) \<and> holds_line io' (foldl edit l ks) \<and>
    newLineEvent io' = newLineEvent io \<and> insertedLines cs = []"
  using assms
proof (induction ks arbitrary: io l w)
  case Nil
  then show ?case by (intro exI [of _ io] exI [of _ "[]"]) (simp add: insertedLines_def)
next
  case (Cons k ks)
  obtain io1 cs where one: "handleKey k x (io, w) = Some (io1, after w cs)" "holds_line io1 (edit l k)" "newLineEvent io1 = newLineEvent io" "insertedLines cs = []"
    using edit_step [OF Cons.prems(1), of k x w] Cons.prems(2,3) by auto
  have "length (edit l k) + length ks \<le> 255" using edit_length [of l k] Cons.prems(2) by simp
  then obtain io2 ds where "ofold (\<lambda>k. handleKey k x) ks (io1, after w cs) = Some (io2, after w (cs @ ds))" "holds_line io2 (foldl edit (edit l k) ks)"
    "newLineEvent io2 = newLineEvent io1" "insertedLines ds = []" using Cons.IH [OF one(2), of "after w cs"] Cons.prems(3) by auto
  then show ?case using one by (intro exI [of _ io2] exI [of _ "cs @ ds"]) simp
qed

lemma newline_step:
  assumes io: "holds_line io l"
  shows "\<exists>io' cs ds. handleKey 10 x (io, w) = Some (io', after w (cs @ [InsertString l,
      FireEvent (newLineEvent io) (answers w (trace w @ cs @ [InsertString l])) 0] @ ds)) \<and>
    holds_line io' [] \<and> insertedLines cs = [] \<and> insertedLines ds = []"
proof -
  obtain io1 cs where a: "announce 10 x (io, w) = (io1, cs)" by (cases "announce 10 x (io, w)")
  have io1: "holds_line io1 l" "newLineEvent io1 = newLineEvent io" "insertedLines cs = []"
    using io holds_announce [of 10 x io w] announce_lines [of 10 x "(io, w)"] unfolding a by simp_all
  have start: "printInput io" using io by (simp add: holds_line_def)
  define io2 where "io2 = io1\<lparr>inputBufferPosition := 0, inputBuffer := (inputBuffer io1)(0 := 0)\<rparr>"
  have "handleKey 10 x (io, w) = Some (io2, after w (cs @ [InsertString l,
      FireEvent (newLineEvent io) (answers w (trace w @ cs @ [InsertString l])) 0] @ [Request (mainService io2) (mainOut io2) 10 0]))"
    using a io1 by (simp add: handleKey_announced [OF start] onNewLine_def inputLine_holds setInput_def io2_def)
  moreover have "holds_line io2 []" using io1(1) by (simp add: holds_line_def io2_def)
  ultimately show ?thesis using io1(3) by (intro exI [of _ io2] exI [of _ cs] exI [of _ "[Request (mainService io2) (mainOut io2) 10 0]"])
    (simp add: insertedLines_def)
qed

text \<open>
  C39. A line typed after \<open>gets\<close> was called: for any keys with up to 255 of them, backspaces included, the keys and the line
  feed at their end are all handled, exactly one text is handed to the kernel, it is the text the keys edit, and the
  event that ends the waiting of \<open>gets\<close> carries its number. Afterwards the line is empty again.
\<close>

theorem typed_line_delivered:
  assumes "getsBegin io = Some io0" and "length ks \<le> 255" and "\<forall>k \<in> set ks. k \<noteq> 10 \<and> (k \<noteq> 8 \<longrightarrow> (ucast k :: u8) \<noteq> 0)"
  shows "\<exists>io' w' cs ds. ofold (\<lambda>k. handleKey k x) (ks @ [10]) (io0, w) = Some (io', w') \<and>
    trace w' = trace w @ cs @ [InsertString (foldl edit [] ks), FireEvent (newLineEvent io) (answers w (trace w @ cs @ [InsertString (foldl edit [] ks)])) 0] @ ds \<and>
    insertedLines cs = [] \<and> insertedLines ds = [] \<and> inputLine io' = [] \<and> printInput io'"
proof -
  have io0: "holds_line io0 []" "newLineEvent io0 = newLineEvent io" using assms(1) by (auto simp: getsBegin_def setInput_def holds_line_def)
  obtain io1 cs where one: "ofold (\<lambda>k. handleKey k x) ks (io0, w) = Some (io1, after w cs)" "holds_line io1 (foldl edit [] ks)"
    "newLineEvent io1 = newLineEvent io0" "insertedLines cs = []" using edit_keys [OF io0(1), of ks x w] assms(2,3) by auto
  let ?l = "foldl edit [] ks"
  obtain io2 cs' ds where two: "handleKey 10 x (io1, after w cs) = Some (io2, after (after w cs) (cs' @ [InsertString ?l,
      FireEvent (newLineEvent io1) (answers (after w cs) (trace (after w cs) @ cs' @ [InsertString ?l])) 0] @ ds))" "holds_line io2 []"
    "insertedLines cs' = []" "insertedLines ds = []" using newline_step [OF one(2), of x "after w cs"] by blast
  then have "printInput io2" "inputLine io2 = []" using inputLine_holds [OF two(2)] by (simp_all add: holds_line_def)
  then show ?thesis using one two io0(2)
    by (intro exI [of _ io2] exI [of _ "after w (cs @ cs' @ [InsertString ?l, FireEvent (newLineEvent io) (answers w (trace w @ (cs @ cs') @ [InsertString ?l])) 0] @ ds)"]
        exI [of _ "cs @ cs'"] exI [of _ ds]) (simp add: ofold_append)
qed

definition idleManager :: IoManager where
  "idleManager = \<lparr>mainService = 2, mainOut = 1, mainBulkOut = 0, globalService = 3, globalOut = 1, globalBulkOut = 0, focusService = 9,
     focusServiceKeyHandler = 0, ioManager = 1, logFunction = 1, keyEvent = 0, newLineEvent = 1, inputBuffer = \<lambda>_. 7,
     inputBufferPosition = 3, printInput = False\<rparr>"

theorem typed_line_delivered_witness:
  "\<exists>io0 io' w' cs ds. getsBegin idleManager = Some io0 \<and>
     ofold (\<lambda>k. handleKey k 0) [0x6C, 0x70, 8, 0x73, 10] (io0, \<lparr>trace = [], answers = \<lambda>_. 0\<rparr>) = Some (io', w') \<and>
     trace w' = cs @ [InsertString [0x6C, 0x73], FireEvent 1 0 0] @ ds"
proof -
  define io0 where "io0 = idleManager\<lparr>printInput := True, inputBufferPosition := 0, inputBuffer := (inputBuffer idleManager)(0 := 0)\<rparr>"
  have start: "getsBegin idleManager = Some io0" by (simp add: getsBegin_def setInput_def io0_def)
  have line: "foldl edit [] [0x6C, 0x70, 8, 0x73] = [0x6C, 0x73]" by (simp add: edit_def)
  have keys: "length [0x6C, 0x70, 8, 0x73 :: u32] \<le> 255" "\<forall>k \<in> set [0x6C, 0x70, 8, 0x73 :: u32]. k \<noteq> 10 \<and> (k \<noteq> 8 \<longrightarrow> (ucast k :: u8) \<noteq> 0)" by simp_all
  from typed_line_delivered [OF start keys, of 0 "\<lparr>trace = [], answers = \<lambda>_. 0\<rparr>"] show ?thesis
    using start unfolding line by (auto simp: idleManager_def)
qed

text \<open>The 256th character of a line is stored behind the buffer.\<close>

lemma long_line_overflows:
  assumes "holds_line io l" and "length l = 255" and "k \<noteq> 8" and "k \<noteq> 10"
  shows "handleKey k x (io, w) = None"
proof -
  obtain io1 cs where a: "announce k x (io, w) = (io1, cs)" by (cases "announce k x (io, w)")
  have "holds_line io1 l" using assms(1) holds_announce(1) [of k x io w l] unfolding a by simp
  then have "unat (inputBufferPosition io1) = 255" "printInput io" using assms(1,2) by (simp_all add: holds_line_def)
  moreover from this have "unat (inputBufferPosition io1 + 1) = 256" by (simp add: unat_word_ariths)
  ultimately show ?thesis using a assms(3,4) by (simp add: handleKey_announced setInput_def aset_def)
qed

end
