(* ===== verification/Tools.thy ===== *)
theory Tools
  imports Programs Strings
begin

text \<open>
  The smaller programs of \<open>userland/\<close>: the service that reports exceptions (\<open>log\<close>), the driver of the parallel port
  (\<open>parallel\<close>), the shell, the program that starts the others (\<open>loader\<close>) and a program that divides by zero
  (\<open>crashTest\<close>). Texts the kernel keeps under numbers are the argument \<open>strings\<close>.
\<close>

definition toString :: "u8 list \<Rightarrow> string" where
  "toString bs = map (\<lambda>b. char_of (unat b)) bs"

section \<open>Exceptions\<close>

definition EXCEPTION_NAMES :: "string list" where
  "EXCEPTION_NAMES = [''DIVISION ERROR'', ''DEBUG EXCEPTION'', ''NON-MASKABLE-INTERRUPT'', ''BREAKPOINT EXCEPTION'', ''OVERFLOW EXCEPTION'',
     ''BOUND RANGE EXCEEDED EXCEPTION'', ''INVALID OPCODE EXCEPTION'', ''DEVICE NOT AVAILABLE EXCEPTION'', ''DOUBLE FAULT'',
     ''COPROCESSOR EXCEPTION'', ''INVALID TSS EXCEPTION'', ''SEGMENT NOT PRESENT EXCEPTION'', ''STACK-SEGMENT-FAULT'',
     ''GENERAL PROTECTION FAULT'', ''PAGE FAULT'']"

text \<open>A text is read into a buffer of 100 bytes; a longer one is a fault.\<close>

definition readBuffer :: "(u32 \<Rightarrow> u8 list) \<Rightarrow> u32 \<Rightarrow> World \<Rightarrow> (string \<times> World) option" where
  "readBuffer strings stringId w = do {
     w \<leftarrow> perform (ReadString stringId 0) w;
     if 100 < length (strings stringId) + 1 then None else Some (toString (strings stringId), w)
   }"

definition onInitrdLoad :: "(u32 \<Rightarrow> u8 list) \<Rightarrow> u32 \<Rightarrow> World \<Rightarrow> World option" where
  "onInitrdLoad strings programName w = do {
     (buffer, w) \<leftarrow> readBuffer strings programName w;
     perform (Print (''loading '' @ [CHR 0x27] @ ''%s'' @ [CHR 0x27] @ '' from initrd'') [Text buffer]) w
   }"

definition traceAddress :: "(u32 \<Rightarrow> u8 list) \<Rightarrow> u32 \<Rightarrow> u32 \<Rightarrow> World \<Rightarrow> World option" where
  "traceAddress strings address service w = do {
     (name, w) \<leftarrow> call (LookupSymbol service address) w;
     (buffer, w) \<leftarrow> readBuffer strings name w;
     perform (Print ''0x%x / %s'' [Num address, Text buffer]) w
   }"

text \<open>
  The frames of the stack: a frame holds the address of the next one and a return address. All are looked for in the
  page that was mapped, at the offset of their address.
\<close>

partial_function (option) frameLoop :: "(u32 \<Rightarrow> u8 list) \<Rightarrow> bytes \<Rightarrow> u32 \<Rightarrow> u32 \<Rightarrow> World \<Rightarrow> World option" where
  "frameLoop strings m service frame w =
     (if read32 m frame = 0 then Some w
      else do {
        w \<leftarrow> traceAddress strings (read32 m (frame + 4)) service w;
        frameLoop strings m service ((read32 m frame AND 0xFFF) + push_bit 12 (drop_bit 12 frame)) w
      })"

definition onException :: "(u32 \<Rightarrow> u8 list) \<Rightarrow> (u32 \<Rightarrow> bytes) \<Rightarrow> u32 \<Rightarrow> u32 \<Rightarrow> u32 \<Rightarrow> u32 \<Rightarrow> u32 \<Rightarrow> World \<Rightarrow> World option" where
  "onException strings contents intNo crashAddress start serviceName service w = do {
     (buffer, w) \<leftarrow> readBuffer strings serviceName w;
     name \<leftarrow> (if unat intNo < length EXCEPTION_NAMES then Some (EXCEPTION_NAMES ! unat intNo) else None);
     w \<leftarrow> perform (Print ''service \"%s\" encountered a %s. Stacktrace:'' [Text buffer, Text name]) w;
     (frame, w) \<leftarrow> call (RequestMemory 1 0 start) w;
     w \<leftarrow> traceAddress strings crashAddress service w;
     frameLoop strings (contents frame) service frame w
   }"

definition logServiceMain :: "World \<Rightarrow> World option" where
  "logServiceMain w = do {
     (event, w) \<leftarrow> call (GetEvent 0 ''loadInitrd'') w;
     w \<leftarrow> perform (SubscribeEvent 0 event ''onInitrdLoad'') w;
     perform (SubscribeInterrupt 0 ''onException'') w
   }"

section \<open>The parallel port\<close>

partial_function (option) waitReady :: "World \<Rightarrow> World option" where
  "waitReady w = do {
     (status, w) \<leftarrow> call (IoIn 0x379 1) w;
     if status AND 0x80 \<noteq> 0 then Some w else waitReady w
   }"

definition strobe :: "u32 \<Rightarrow> World \<Rightarrow> World option" where
  "strobe data w = do {
     w \<leftarrow> waitReady w;
     w \<leftarrow> perform (IoOut 0x378 data 1) w;
     (control, w) \<leftarrow> call (IoIn 0x37A 1) w;
     w \<leftarrow> perform (IoOut 0x37A (control AND 0xFF OR 1) 1) w;
     w \<leftarrow> perform (IoOut 0x37A (control AND 0xFF) 1) w;
     waitReady w
   }"

definition parallelOut :: "u32 \<Rightarrow> World \<Rightarrow> World option" where
  "parallelOut data w = do {
     w \<leftarrow> (if data = 10 then strobe 13 w else Some w);
     strobe data w
   }"

definition parallelWriteBulk :: "(u32 \<Rightarrow> u8 list) \<Rightarrow> u32 \<Rightarrow> World \<Rightarrow> World option" where
  "parallelWriteBulk strings stringId w = do {
     w \<leftarrow> perform (GetStringLength stringId) w;
     w \<leftarrow> perform (ReadString stringId 0) w;
     ofold (\<lambda>c. parallelOut (scast c)) (strings stringId) w
   }"

definition parallelIn :: "u32" where
  "parallelIn = 0"

definition parallelMain :: "World \<Rightarrow> World option" where
  "parallelMain w = do {
     w \<leftarrow> perform (CreateFunction ''writeChar'' ''parallelOut'') w;
     perform (CreateFunction ''write_bulk'' ''writeBulk'') w
   }"

section \<open>The shell\<close>

text \<open>
  A buffer of 256 bytes, kept from line to line. \<open>gets\<close> stores the line and a zero. A text begins at an index and ends
  before the next zero; without one in the buffer it goes on behind it.
\<close>

definition storeLine :: "u8 list \<Rightarrow> (nat \<Rightarrow> u8) \<Rightarrow> (nat \<Rightarrow> u8) option" where
  "storeLine line buffer =
     (if length line < 256 then Some (\<lambda>i. if i < length line then line ! i else if i = length line then 0 else buffer i) else None)"

definition textAt :: "(nat \<Rightarrow> u8) \<Rightarrow> nat \<Rightarrow> u8 list option" where
  "textAt buffer i = (if 0 \<in> buffer ` {i..<256} then Some (takeWhile (\<lambda>c. c \<noteq> 0) (map buffer [i..<256])) else None)"

definition shellRound :: "u8 list \<Rightarrow> (nat \<Rightarrow> u8) \<times> World \<Rightarrow> ((nat \<Rightarrow> u8) \<times> World) option" where
  "shellRound line = (\<lambda>(buffer, w). do {
     w \<leftarrow> perform (Print ''> '' []) w;
     buffer \<leftarrow> storeLine line buffer;
     if buffer 0 = 0 \<or> buffer 0 = 0x20 then Some (buffer, w)
     else do {
       text \<leftarrow> textAt buffer 0;
       let space_position = length (takeWhile (\<lambda>c. c \<noteq> 0x20) text);
       let buffer = buffer(space_position := 0);
       command \<leftarrow> textAt buffer 0;
       let name = toString command;
       (service, w) \<leftarrow> call (GetService name) w;
       (service, w) \<leftarrow> (if service = 0 then call (LoadUninitialized name) w else Some (service, w));
       w \<leftarrow> (if service \<noteq> 0 then do {
           (function, w) \<leftarrow> call (GetFunction service ''terminal'') w;
           if function \<noteq> 0 then do {
             arguments \<leftarrow> textAt buffer (space_position + 1);
             (args, w) \<leftarrow> call (InsertString arguments) w;
             perform (Request service function args 0) w
           } else perform (Request service 0 0 0) w
         } else perform (Print ''%s: command not found'' [Text name]) w);
       Some (buffer, w)
     }
   })"

definition shellMain :: "u8 list list \<Rightarrow> (nat \<Rightarrow> u8) \<times> World \<Rightarrow> ((nat \<Rightarrow> u8) \<times> World) option" where
  "shellMain inputs = (\<lambda>(buffer, w). do {
     w \<leftarrow> perform (Print ''HONEY-OS - made by Lukas Eisenhauer - shell'' []) w;
     ofold shellRound inputs (buffer, w)
   })"

section \<open>Starting the system\<close>

definition loaderMain :: "World \<Rightarrow> World option" where
  "loaderMain w = do {
     w \<leftarrow> perform (LoadFromInitrd ''ioManager'') w;
     w \<leftarrow> perform (Print ''HONEY-OS - made by Lukas Eisenhauer'' []) w;
     w \<leftarrow> perform (Print ''finished loading all the essential modules'' []) w;
     w \<leftarrow> ofold (\<lambda>name. perform (LoadFromInitrd name)) [''lspci'', ''pic'', ''pit'', ''keyboard'', ''mouse'', ''usb'', ''ps2''] w;
     (shell, w) \<leftarrow> call (LoadUninitialized ''shell'') w;
     w \<leftarrow> perform (RequestName ''ioManager'' ''setForeground'' shell 0) w;
     perform (Request shell 0 0 0) w
   }"

text \<open>The division by zero is a fault.\<close>

definition testFunction :: "World \<Rightarrow> World option" where
  "testFunction w = None"

definition crashTestMain :: "World \<Rightarrow> World option" where
  "crashTestMain w = do {
     w \<leftarrow> perform (Print ''trying to divide by zero whenever you press a key...'' []) w;
     (service, w) \<leftarrow> call (GetService ''ioManager'') w;
     (event, w) \<leftarrow> call (GetEvent service ''keyPress'') w;
     w \<leftarrow> perform (AwaitCode service event 0) w;
     testFunction w
   }"

section \<open>Properties\<close>

text \<open>The bytes put on the data lines of the parallel port.\<close>

definition portData :: "Call list \<Rightarrow> u32 list" where
  "portData cs = concat (map (\<lambda>c. case c of IoOut p v n \<Rightarrow> if p = 0x378 then [v] else [] | _ \<Rightarrow> []) cs)"

definition ready :: "World \<Rightarrow> bool" where
  "ready w \<longleftrightarrow> (\<forall>L. answers w (L @ [IoIn 0x379 1]) AND 0x80 \<noteq> 0)"

lemma ready_after [simp]: "ready (after w cs) = ready w"
  by (simp add: ready_def)

lemma waitReady_returns: "ready w \<Longrightarrow> waitReady w = Some (after w [IoIn 0x379 1])"
  by (simp add: waitReady.simps ready_def)

lemma strobe_data: "ready w \<Longrightarrow> \<exists>cs. strobe data w = Some (after w cs) \<and> portData cs = [data]"
  by (simp add: strobe_def waitReady_returns portData_def)

lemma parallelOut_data: "ready w \<Longrightarrow> \<exists>cs. parallelOut data w = Some (after w cs) \<and> portData cs = (if data = 10 then [13, 10] else [data])"
proof -
  assume w: "ready w"
  obtain cs where cr: "strobe 13 w = Some (after w cs)" "portData cs = [13]" using strobe_data [OF w, of 13] by blast
  have "ready (after w cs)" using w by simp
  then obtain ds where "strobe data (after w cs) = Some (after (after w cs) ds)" "portData ds = [data]" using strobe_data [of _ data] by blast
  moreover obtain es where "strobe data w = Some (after w es)" "portData es = [data]" using strobe_data [OF w, of data] by blast
  ultimately show ?thesis using cr by (auto simp: parallelOut_def portData_def)
qed

text \<open>At a port that is ready, a text goes out byte by byte, with a carriage return before every line feed.\<close>

lemma text_reaches_port:
  assumes "ready w"
  shows "\<exists>cs. parallelWriteBulk strings stringId w = Some (after w cs) \<and>
    portData cs = concat (map (\<lambda>c. if c = 10 then [13, 10] else [scast c]) (strings stringId))"
proof -
  have ten: "scast (c :: u8) = (10 :: u32) \<longleftrightarrow> c = 10" for c
  proof
    assume "scast c = (10 :: u32)"
    then have "(ucast (scast c :: u32) :: u8) = 10" by simp
    moreover have "(ucast (scast c :: u32) :: u8) = c"
    proof (rule bit_word_eqI)
      fix n :: nat
      assume "n < LENGTH(8)"
      then have "min 7 n = n" by simp
      then show "bit (ucast (scast c :: u32) :: u8) n = bit c n" using \<open>n < LENGTH(8)\<close> by (simp add: bit_ucast_iff bit_signed_iff)
    qed
    ultimately show "c = 10" by simp
  qed simp
  have "\<exists>cs. ofold (\<lambda>c. parallelOut (scast c)) bs v = Some (after v cs) \<and> portData cs = concat (map (\<lambda>c. if c = 10 then [13, 10] else [scast c]) bs)"
    if "ready v" for bs :: "u8 list" and v using that
  proof (induction bs arbitrary: v)
    case Nil
    then show ?case by (intro exI [of _ "[]"]) (simp add: portData_def)
  next
    case (Cons c bs)
    obtain cs where run: "parallelOut (scast c) v = Some (after v cs) \<and> portData cs = (if scast c = (10 :: u32) then [13, 10] else [scast c])"
      using parallelOut_data [OF Cons.prems, of "scast c"] ..
    then have one: "parallelOut (scast c) v = Some (after v cs)" "portData cs = (if c = 10 then [13, 10] else [scast c])"
      by (simp_all add: ten)
    obtain ds where "ofold (\<lambda>c. parallelOut (scast c)) bs (after v cs) = Some (after (after v cs) ds)"
      "portData ds = concat (map (\<lambda>c. if c = 10 then [13, 10] else [scast c]) bs)" using Cons.IH [of "after v cs"] Cons.prems by auto
    then show ?case using one by (intro exI [of _ "cs @ ds"]) (simp add: portData_def)
  qed
  from this [of "after w [GetStringLength stringId, ReadString stringId 0]" "strings stringId"] assms
  obtain cs where "ofold (\<lambda>c. parallelOut (scast c)) (strings stringId) (after w [GetStringLength stringId, ReadString stringId 0]) =
      Some (after w ([GetStringLength stringId, ReadString stringId 0] @ cs))"
    "portData cs = concat (map (\<lambda>c. if c = 10 then [13, 10] else [scast c]) (strings stringId))" by auto
  then show ?thesis by (intro exI [of _ "[GetStringLength stringId, ReadString stringId 0] @ cs"]) (simp add: parallelWriteBulk_def portData_def)
qed

lemma textAt_line:
  assumes "\<forall>j < length l. buffer (i + j) = l ! j" and "0 \<notin> set l" and "buffer (i + length l) = 0" and "i + length l < 256"
  shows "textAt buffer i = Some l"
proof -
  have "[i..<256] = [i..<i + length l] @ (i + length l) # [Suc (i + length l)..<256]"
    using assms(4) upt_add_eq_append [of i "i + length l" "256 - (i + length l)"] upt_conv_Cons [of "i + length l" 256] by simp
  moreover have "map buffer [i..<i + length l] = l" using assms(1) by (intro nth_equalityI) auto
  ultimately have whole: "map buffer [i..<256] = l @ 0 # map buffer [Suc (i + length l)..<256]" using assms(3) by simp
  have "\<forall>c \<in> set l. c \<noteq> 0" using assms(2) by metis
  then have "takeWhile (\<lambda>c. c \<noteq> 0) (map buffer [i..<256]) = l" unfolding whole by simp
  moreover have "i + length l \<in> {i..<256}" using assms(4) by simp
  then have "0 \<in> buffer ` {i..<256}" using assms(3) by (metis imageI)
  ultimately show ?thesis by (simp add: textAt_def)
qed

text \<open>
  A command with arguments: the service of the first word is asked to run its function for the terminal with the rest of
  the line. A command without arguments is handed those of an earlier one: they are looked for behind the zero at its
  end, where the rest of the earlier line still is.
\<close>

lemma shell_runs_command:
  assumes "command \<noteq> []" and "0 \<notin> set command" and "0x20 \<notin> set command" and "0 \<notin> set arguments"
    and "length command + 1 + length arguments < 256"
    and "line = command @ 0x20 # arguments \<or> line = command \<and> (\<forall>j < length arguments. buffer (length command + 1 + j) = arguments ! j) \<and>
      buffer (length command + 1 + length arguments) = 0"
    and "\<forall>L. answers w (L @ [GetService (toString command)]) = s" and "s \<noteq> 0"
    and "\<forall>L. answers w (L @ [GetFunction s ''terminal'']) = f" and "f \<noteq> 0"
  shows "\<exists>buffer' number. shellRound line (buffer, w) = Some (buffer', after w [Print ''> '' [], GetService (toString command), GetFunction s ''terminal'',
    InsertString arguments, Request s f number 0])"
proof -
  let ?n = "length command"
  have line: "length line < 256" "take ?n line = command" "0 \<notin> set line" using assms(2,4,5,6) by auto
  define b where "b = (\<lambda>i. if i < length line then line ! i else if i = length line then 0 else buffer i)"
  have stored: "storeLine line buffer = Some b" using line(1) by (simp add: storeLine_def b_def)
  have read: "textAt b 0 = Some line" using line by (intro textAt_line) (simp_all add: b_def)
  have space: "length (takeWhile (\<lambda>c. c \<noteq> 0x20) line) = ?n"
  proof -
    have "\<forall>c \<in> set command. c \<noteq> 0x20" using assms(3) by metis
    then have "takeWhile (\<lambda>c. c \<noteq> 0x20) (command @ 0x20 # arguments) = command" "takeWhile (\<lambda>c. c \<noteq> 0x20) command = command"
      by (simp_all add: takeWhile_eq_all_conv)
    then show ?thesis using assms(6) by metis
  qed
  have first: "line ! 0 = command ! 0" "command ! 0 \<in> set command" "0 < length line" using assms(1,6) by (auto simp: nth_append)
  then have "b 0 \<noteq> 0" "b 0 \<noteq> 0x20" using assms(2,3) by (auto simp: b_def)
  moreover have "textAt (b(?n := 0)) 0 = Some command"
    using assms(2,5,6) by (intro textAt_line) (auto simp: b_def nth_append)
  moreover have "textAt (b(?n := 0)) (?n + 1) = Some arguments"
    using assms(4,5,6) by (intro textAt_line) (auto simp: b_def nth_append)
  moreover have "answers w (trace w @ [Print ''> '' [], GetService (toString command)]) = s"
    "answers w (trace w @ [Print ''> '' [], GetService (toString command), GetFunction s ''terminal'']) = f"
    using assms(7) [rule_format, of "trace w @ [Print ''> '' []]"]
      assms(9) [rule_format, of "trace w @ [Print ''> '' [], GetService (toString command)]"] by simp_all
  ultimately show ?thesis using stored read space assms(8,10) by (simp add: shellRound_def Let_def)
qed

end
