(* ===== verification/HeapRuns.thy ===== *)
theory HeapRuns
  imports Malloc
begin

text \<open>
  The allocator as its clients see it: a memory of separate, zeroed areas that keep what is stored in them until they
  are released. The concrete side are all sequences of \<open>malloc\<close>, \<open>free\<close> and stores of bytes into areas handed out,
  the abstract side is a map from addresses to the bytes of the areas.
\<close>

section \<open>Runs of the allocator\<close>

datatype HeapAction = Allocate u32 u32 | AllocatePages u32 u32 | Release u32 | Store u32 nat u8

text \<open>A store of one byte through a pointer into a slot; the page of the slot is read as a block.\<close>

fun storeByte :: "'m Heap \<Rightarrow> slot \<Rightarrow> nat \<Rightarrow> u8 \<Rightarrow> 'm Heap" where
  "storeByte h (b, k, i) j v =
     setBlock h b ((blocks h b)\<lparr>blockData := (blockData (blocks h b))(2 ^ k * i + j := v)\<rparr>)"

inductive heap_run :: "KernelMemory Heap \<Rightarrow> HeapAction list \<Rightarrow> KernelMemory Heap \<Rightarrow> bool" where
  idle: "heap_run h [] h"
| allocate: "0 < unat n \<Longrightarrow> unat n < 1024 \<Longrightarrow> kernelMalloc h n = Some (a, h1) \<Longrightarrow> heap_run h1 acts h2 \<Longrightarrow>
    heap_run h (Allocate n a # acts) h2"
| allocate_pages: "1024 \<le> unat n \<Longrightarrow> kernelMalloc h n = Some (a, h1) \<Longrightarrow> heap_run h1 acts h2 \<Longrightarrow>
    heap_run h (AllocatePages n a # acts) h2"
| release: "a \<in> allocated h \<Longrightarrow> kernelFree h a = Some h1 \<Longrightarrow> heap_run h1 acts h2 \<Longrightarrow> heap_run h (Release a # acts) h2"
| store: "s \<in> live h \<Longrightarrow> j < 2 ^ fst (snd s) \<Longrightarrow> heap_run (storeByte h s j v) acts h2 \<Longrightarrow>
    heap_run h (Store (slotAddress s) j v # acts) h2"

section \<open>The abstract memory\<close>

type_synonym areas = "u32 \<Rightarrow> u8 list option"

definition apart_from :: "areas \<Rightarrow> u32 \<Rightarrow> nat \<Rightarrow> bool" where
  "apart_from C a m \<longleftrightarrow> (\<forall>b bs. C b = Some bs \<longrightarrow> {unat a..<unat a + m} \<inter> {unat b..<unat b + length bs} = {})"

inductive areas_run :: "areas \<Rightarrow> HeapAction list \<Rightarrow> areas \<Rightarrow> bool" where
  areas_idle: "areas_run C [] C"
| areas_allocate: "C a = None \<Longrightarrow> a \<noteq> 0 \<Longrightarrow> unat n \<le> m \<Longrightarrow> m \<le> 2 * unat n \<Longrightarrow> apart_from C a m \<Longrightarrow>
    areas_run (C(a \<mapsto> replicate m 0)) acts D \<Longrightarrow> areas_run C (Allocate n a # acts) D"
| areas_pages: "a \<noteq> 0 \<Longrightarrow> PAGE_OFFSET a = 0 \<Longrightarrow> areas_run C acts D \<Longrightarrow> areas_run C (AllocatePages n a # acts) D"
| areas_release: "areas_run (C(a := None)) acts D \<Longrightarrow> areas_run C (Release a # acts) D"
| areas_store: "C a = Some bs \<Longrightarrow> j < length bs \<Longrightarrow> areas_run (C(a \<mapsto> bs[j := v])) acts D \<Longrightarrow>
    areas_run C (Store a j v # acts) D"

text \<open>The areas a heap holds.\<close>

definition represents :: "'m Heap \<Rightarrow> areas \<Rightarrow> bool" where
  "represents h C \<longleftrightarrow> dom C = allocated h \<and> (\<forall>s \<in> live h. C (slotAddress s) = Some (slotBytes h s))"

section \<open>Single steps\<close>

declare slotAddress.simps [simp del] slotBytes.simps [simp del] storeByte.simps [simp del]

lemma length_slotBytes: "length (slotBytes h (b, k, i)) = 2 ^ k"
  by (simp add: slotBytes.simps)

lemma unat_slotAddress:
  assumes "unat b mod 4096 = 0" and "2 ^ k * (i + 1) \<le> DATA_SIZE"
  shows "unat (slotAddress (b, k, i)) = unat b + 2 ^ k * i"
proof -
  have off: "2 ^ k * i < 4096" using assms(2) by simp
  have "unat b = 4096 * (unat b div 4096)" using mult_div_mod_eq [of 4096 "unat b"] assms(1) by simp
  moreover have "unat b div 4096 < 1048576" using unat_u32_bound [of b] by (simp add: div_less_iff_less_mult del: unat_u32_bound)
  ultimately have room: "unat b + 2 ^ k * i < 4294967296" using off by linarith
  have "unat (of_nat (2 ^ k * i) :: u32) = 2 ^ k * i" using off by (intro unat_of_nat32) linarith
  then show ?thesis using unat_add_small [of b "of_nat (2 ^ k * i)"] room by (simp only: slotAddress.simps)
qed

lemma apart_from_live:
  assumes ok: "kernel_heap_ok h'" and rep: "represents h C" and l: "live h' = insert (b, k, i) (live h)" "(b, k, i) \<notin> live h"
  shows "apart_from C (slotAddress (b, k, i)) (2 ^ k)"
  unfolding apart_from_def
proof (intro allI impI)
  fix a bs assume "C a = Some bs"
  then have "a \<in> allocated h" using rep by (auto simp: represents_def)
  then obtain d j n where t: "(d, j, n) \<in> live h" "a = slotAddress (d, j, n)" by (auto simp: allocated_def)
  then have bs: "length bs = 2 ^ j" using rep \<open>C a = Some bs\<close> by (auto simp: represents_def length_slotBytes)
  have live: "(b, k, i) \<in> live h'" "(d, j, n) \<in> live h'" "(b, k, i) \<noteq> (d, j, n)" using l t(1) by auto
  note apart = live_slots_disjoint [OF ok live]
  have d: "unat d mod 4096 = 0 \<and> 2 ^ j * (n + 1) \<le> DATA_SIZE"
    using live_slots_disjoint [OF ok live(2,1)] live(3) by auto
  have "unat (slotAddress (b, k, i)) = unat b + 2 ^ k * i" "unat a = unat d + 2 ^ j * n"
    using apart d t(2) unat_slotAddress by auto
  then show "{unat (slotAddress (b, k, i))..<unat (slotAddress (b, k, i)) + 2 ^ k} \<inter> {unat a..<unat a + length bs} = {}"
    using apart bs by (simp add: algebra_simps)
qed

lemma represents_allocate:
  assumes "represents h C" and "kernel_heap_ok h'" and "fresh_slot h h' (b, k, i)"
  shows "represents h' (C(slotAddress (b, k, i) \<mapsto> replicate (2 ^ k) 0))" and "C (slotAddress (b, k, i)) = None"
proof -
  have f: "(b, k, i) \<notin> live h" "live h' = insert (b, k, i) (live h)" "slotBytes h' (b, k, i) = replicate (2 ^ k) 0"
    "\<forall>t \<in> live h. slotBytes h' t = slotBytes h t" using assms(3) by (simp_all add: fresh_slot_def)
  have inj: "slotAddress t \<noteq> slotAddress (b, k, i)" if "t \<in> live h" for t
    using inj_onD [OF heap_inv_inj [OF assms(2)], of t "(b, k, i)"] f(1,2) that by auto
  show "C (slotAddress (b, k, i)) = None"
  proof -
    have "slotAddress (b, k, i) \<notin> dom C" using assms(1) inj unfolding represents_def allocated_def by (metis imageE)
    then show ?thesis by (simp add: domIff)
  qed
  show "represents h' (C(slotAddress (b, k, i) \<mapsto> replicate (2 ^ k) 0))"
    using assms(1) f inj by (auto simp: represents_def allocated_def)
qed

lemma represents_release:
  assumes "represents h C" and "kernel_heap_ok h" and "s \<in> live h" and "live h' = live h - {s}"
    and "\<forall>t. slotBytes h' t = slotBytes h t"
  shows "represents h' (C(slotAddress s := None))"
proof -
  have "slotAddress t \<noteq> slotAddress s" if "t \<in> live h'" for t
    using inj_onD [OF heap_inv_inj [OF assms(2)], of t s] assms(3,4) that by auto
  then show ?thesis using assms by (auto simp: represents_def allocated_def)
qed

lemma store_block:
  assumes rep: "heap_rep U h cs" and s: "(b, k, i) \<in> live h"
  shows "heap_rep U (storeByte h (b, k, i) j v) cs" and "live (storeByte h (b, k, i) j v) = live h"
proof -
  let ?b = "(blocks h b)\<lparr>blockData := (blockData (blocks h b))(2 ^ k * i + j := v)\<rparr>"
  have k: "k \<in> size_bits" "b \<in> set (cs k)" using s unfolding live_rep [OF rep] by auto
  have "block_ok k ?b" "nextBlock ?b = nextBlock (blocks h b)"
    using heap_repD(5) [OF rep k] by (simp_all add: block_ok_def slot_taken_def)
  note u = heap_rep_update [OF rep k this]
  show "heap_rep U (storeByte h (b, k, i) j v) cs" using u(1) by (simp add: storeByte.simps)
  have "(b, n, m) \<in> live h \<longleftrightarrow> n = k \<and> m < 1024 \<and> slot_taken ?b m" for n m
    using live_of_block [OF rep k] by (simp add: slot_taken_def)
  then show "live (storeByte h (b, k, i) j v) = live h" using u(2) by (auto simp: storeByte.simps)
qed

lemma store_heap:
  assumes "kernel_heap_ok h" and "s \<in> live h"
  shows "kernel_heap_ok (storeByte h s j v)" and "live (storeByte h s j v) = live h"
proof -
  obtain cs b k i where c: "kernel_pages_ok (pages h)" "heap_rep (kernel_used (pages h)) h cs" "s = (b, k, i)"
    using assms(1) by (cases s) (auto simp: heap_inv_def)
  have "pages (storeByte h s j v) = pages h" by (simp add: c(3) storeByte.simps setBlock_def)
  then show "kernel_heap_ok (storeByte h s j v)" "live (storeByte h s j v) = live h"
    using store_block [OF c(2), of b k i j v] assms(2) c by (auto simp: heap_inv_def)
qed

lemma slotBytes_store:
  assumes "kernel_heap_ok h" and s: "s \<in> live h" and t: "t \<in> live h" and j: "j < 2 ^ fst (snd s)"
  shows "slotBytes (storeByte h s j v) t = (if t = s then (slotBytes h s)[j := v] else slotBytes h t)"
proof -
  obtain cs where rep: "heap_rep (kernel_used (pages h)) h cs" using assms(1) by (auto simp: heap_inv_def)
  obtain b k i where sb: "s = (b, k, i)" by (cases s)
  obtain d n m where td: "t = (d, n, m)" by (cases t)
  have k: "k \<in> size_bits" "b \<in> set (cs k)" using s unfolding sb live_rep [OF rep] by auto
  show ?thesis
  proof (cases "d = b")
    case True
    then have n: "n = k" using live_of_block [OF rep k] t td by simp
    show ?thesis
    proof (cases "m = i")
      case True
      then show ?thesis using \<open>d = b\<close> n j sb td
        by (auto simp: slotBytes.simps storeByte.simps setBlock_def list_eq_iff_nth_eq nth_list_update)
    next
      case False
      have "\<not> (2 ^ k * m \<le> 2 ^ k * i + j \<and> 2 ^ k * i + j < 2 ^ k * (m + 1))"
        using slots_apart [OF \<open>m \<noteq> i\<close>, of "2 ^ k" "2 ^ k * i + j"] j sb by auto
      then show ?thesis using \<open>d = b\<close> n False sb td
        by (auto simp: slotBytes.simps storeByte.simps setBlock_def)
    qed
  qed (use sb td in \<open>simp add: slotBytes.simps storeByte.simps setBlock_def\<close>)
qed

lemma represents_store:
  assumes rep: "represents h C" and ok: "kernel_heap_ok h" and s: "s \<in> live h" and j: "j < 2 ^ fst (snd s)"
  shows "represents (storeByte h s j v) (C(slotAddress s \<mapsto> (slotBytes h s)[j := v]))"
proof -
  have "slotAddress t \<noteq> slotAddress s" if "t \<in> live h" "t \<noteq> s" for t
    using inj_onD [OF heap_inv_inj [OF ok], of t s] s that by auto
  then show ?thesis using rep s slotBytes_store [OF ok s _ j] store_heap(2) [OF ok s]
    by (auto simp: represents_def allocated_def)
qed

section \<open>The allocator implements the abstract memory\<close>


text \<open>For the example: a heap that holds no area.\<close>

lemma started_heap_areas: "represents started_heap Map.empty"
proof -
  have "blocks_of started_heap k = {}" if "k \<in> size_bits" for k
    using blocks_of_rep [of "{}" started_heap "\<lambda>_. []" k] that by (simp add: heap_rep_def started_heap_def)
  then have "live started_heap = {}" by (auto simp: live_def)
  then show ?thesis by (simp add: represents_def allocated_def)
qed


end
