(* ===== verification/Rounds.thy ===== *)
theory Rounds
  imports SyscallProps HandlerProps "HOL-Library.Sublist"
begin

text \<open>
  The main loop of the kernel as a transition system. Its state grows in a few places only: the queue of calls, the list
  of services, the kernel's events and the words written to ports are extended at the end, and services, functions
  and events never disappear. The order on journals says this once for all system calls, interrupts and exceptions.
\<close>

section \<open>Journals\<close>

datatype Journal = Journal (queued: klist) (known: klist) (announced: klist) (written: "(nat \<times> u16 \<times> u32) list")
  (objects: "u32 set \<times> u32 set \<times> u32 set")

instantiation Journal :: order
begin

definition less_eq_Journal :: "Journal \<Rightarrow> Journal \<Rightarrow> bool" where
  "less_eq_Journal i j \<longleftrightarrow> prefix (queued i) (queued j) \<and> prefix (known i) (known j) \<and> prefix (announced i) (announced j) \<and>
     prefix (written i) (written j) \<and> snd ` set (known j) \<subseteq> snd ` set (known i) \<union> fst (objects j) \<and> fst (objects i) \<subseteq> fst (objects j) \<and>
     fst (snd (objects i)) \<subseteq> fst (snd (objects j)) \<and> snd (snd (objects i)) \<subseteq> snd (snd (objects j))"

definition less_Journal :: "Journal \<Rightarrow> Journal \<Rightarrow> bool" where
  "less_Journal i j \<longleftrightarrow> i \<le> j \<and> \<not> j \<le> (i :: Journal)"

instance
proof
  fix x y z :: Journal
  show "x < y \<longleftrightarrow> x \<le> y \<and> \<not> y \<le> x" by (rule less_Journal_def)
  show "x \<le> x" by (simp add: less_eq_Journal_def)
  show "x \<le> z" if "x \<le> y" "y \<le> z"
    using that unfolding less_eq_Journal_def by (intro conjI) (blast intro: prefix_order.trans)+
  show "x = y" if "x \<le> y" "y \<le> x"
    using that unfolding less_eq_Journal_def
    by (intro Journal.expand) (simp add: prefix_order.antisym prod_eq_iff subset_antisym)
qed

end

definition journal :: "Kernel \<Rightarrow> Journal" where
  "journal k = Journal (callsToProcess k) (services k) (kernelEvents k) (portWrites k)
     (dom (serviceAt k), dom (functionAt k), dom (eventAt k))"

lemma journal_le: "journal k \<le> journal k' \<longleftrightarrow>
    prefix (callsToProcess k) (callsToProcess k') \<and> prefix (services k) (services k') \<and>
    prefix (kernelEvents k) (kernelEvents k') \<and> prefix (portWrites k) (portWrites k') \<and>
    snd ` set (services k') \<subseteq> snd ` set (services k) \<union> dom (serviceAt k') \<and>
    dom (serviceAt k) \<subseteq> dom (serviceAt k') \<and> dom (functionAt k) \<subseteq> dom (functionAt k') \<and> dom (eventAt k) \<subseteq> dom (eventAt k')"
  by (simp add: less_eq_Journal_def journal_def)

section \<open>Steps that leave the journal alone\<close>

lemma journal_same [simp]:
  "journal (k\<lparr>kheap := h\<rparr>) = journal k" "journal (k\<lparr>ram := r\<rparr>) = journal k" "journal (k\<lparr>callAt := c\<rparr>) = journal k"
  "journal (k\<lparr>scheduleCount := n\<rparr>) = journal k" "journal (k\<lparr>currentSyscall := a\<rparr>) = journal k"
  "journal (k\<lparr>portReads := n\<rparr>) = journal k" "journal (k\<lparr>interruptSubscriptions := f\<rparr>) = journal k"
  "journal (setPages k m) = journal k" "journal (setCall k a d) = journal k" "journal (putStringTable k st) = journal k"
  by (simp_all add: journal_def setPages_def setCall_def putStringTable_def)

lemma journal_poke [simp]: "journal (poke k a v) = journal k"
  by (simp add: poke_def)

lemma journal_kmemcpy [simp]: "journal (kmemcpy k a b n) = journal k"
proof -
  have "journal (foldl (\<lambda>k i. poke k (b + of_nat i) (kernelView k (a + of_nat i))) k xs) = journal k" for xs
    by (induction xs arbitrary: k) simp_all
  then show ?thesis by (simp add: kmemcpy_def)
qed

lemma journal_writeFrame [simp]: "journal (writeFrame k esp address arg n) = journal k"
  by (metis journal_same(2) writeFrame_state)

named_theorems journal_steps \<open>each operation of the kernel extends its journal\<close>

lemma kmalloc_journal [journal_steps]: "kmalloc k n = Some (a, k') \<Longrightarrow> journal k' = journal k"
  by (auto dest!: kmalloc_SomeD)

lemma kfree_journal [journal_steps]: "kfree k a = Some k' \<Longrightarrow> journal k' = journal k"
  by (auto dest!: kfree_SomeD)

lemma freeCall_journal [journal_steps]: "freeCall k a = Some k' \<Longrightarrow> journal k' = journal k"
  by (auto simp: freeCall_def dest!: kfree_journal)

lemma setReturn_journal [journal_steps]: "setReturn k a v = Some k' \<Longrightarrow> journal k' = journal k"
  by (auto simp: setReturn_def split: bind_splits)

lemma returnIndex_journal [journal_steps]: "returnIndex k a i = Some k' \<Longrightarrow> journal k' = journal k"
  by (auto simp: returnIndex_def split: option.splits dest: setReturn_journal)

lemma setAvoidReschedule_journal [journal_steps]: "setAvoidReschedule k a b = Some k' \<Longrightarrow> journal k' = journal k"
  by (auto simp: setAvoidReschedule_def split: bind_splits)

lemma kInsertString_journal [journal_steps]: "kInsertString k s = Some (i, k') \<Longrightarrow> journal k' = journal k"
  by (auto simp: kInsertString_def split: bind_splits)

lemma kDiscardString_journal [journal_steps]: "kDiscardString k s = Some k' \<Longrightarrow> journal k' = journal k"
  by (auto simp: kDiscardString_def split: bind_splits)

lemma kUnmapPage_journal [journal_steps]: "kUnmapPage k a = Some k' \<Longrightarrow> journal k' = journal k"
  by (auto simp: kUnmapPage_def split: bind_splits)

lemma mapUserBuffer_journal [journal_steps]: "mapUserBuffer k s a = Some (b, k') \<Longrightarrow> journal k' = journal k"
  by (auto simp: mapUserBuffer_def split_def Let_def split: bind_splits)

section \<open>Steps that extend the journal\<close>

lemma klistAdd_journal [journal_steps]: "klistAdd k list a = Some (list', k') \<Longrightarrow> journal k' = journal k \<and> prefix list list'"
  by (auto simp: klistAdd_def split: bind_splits dest: kmalloc_journal)

lemma queueCall_journal [journal_steps]: "queueCall k a = Some k' \<Longrightarrow> journal k \<le> journal k'"
  by (auto simp: journal_le dest!: queueCall_SomeD)

text \<open>Putting an object into its store, and lists that have grown.\<close>

lemma journal_set [simp]:
  "journal k \<le> journal (setService k a s)" "journal k \<le> journal (setFunction k a f)" "journal k \<le> journal (setEvent k a e)"
  by (auto simp: journal_le setService_def setFunction_def setEvent_def)

lemma journal_below_set:
  "j \<le> journal k \<Longrightarrow> j \<le> journal (setService k a s)" "j \<le> journal k \<Longrightarrow> j \<le> journal (setFunction k a f)"
  "j \<le> journal k \<Longrightarrow> j \<le> journal (setEvent k a e)"
  by (rule order_trans, assumption, simp)+

lemma journal_set_below:
  "journal (setService k a s) \<le> j \<Longrightarrow> journal k \<le> j" "journal (setFunction k a f) \<le> j \<Longrightarrow> journal k \<le> j"
  "journal (setEvent k a e) \<le> j \<Longrightarrow> journal k \<le> j"
  by (rule order_trans [rotated], assumption, simp)+

lemma ofold_journal:
  assumes "\<And>x k k'. f x k = Some k' \<Longrightarrow> journal k \<le> journal k'" and "ofold f xs k = Some k'"
  shows "journal k \<le> journal k'"
  using ofold_invariant [OF assms(2), of "\<lambda>k'. journal k \<le> journal k'"] assms(1) by (meson order_refl order_trans)

lemma scheduleFunction_journal [journal_steps]: "scheduleFunction k f r args = Some k' \<Longrightarrow> journal k \<le> journal k'"
  by (auto simp: scheduleFunction_def Let_def split_def split: bind_splits dest!: kmalloc_journal queueCall_journal
      journal_set_below)

lemma scheduleAt_journal [journal_steps]: "scheduleAt k f r args = Some k' \<Longrightarrow> journal k \<le> journal k'"
  by (auto simp: scheduleAt_def split: bind_splits dest: scheduleFunction_journal)

lemma scheduleAll_journal [journal_steps]: "scheduleAll k list r args = Some k' \<Longrightarrow> journal k \<le> journal k'"
  unfolding scheduleAll_def by (rule ofold_journal) (auto dest: scheduleAt_journal)

lemma wakeLoop_journal [journal_steps]: "wakeLoop k data code list new = Some (new', k') \<Longrightarrow> journal k \<le> journal k'"
proof (induction k data code list new rule: wakeLoop.induct)
  case (2 k data code old call current new)
  obtain k1 c where k1: "kfree k old = Some k1" and c: "callAt k1 call = Some c"
    using 2(3) by (auto split: bind_splits)
  note j = kfree_journal [OF k1]
  show ?case
  proof (cases "parameters c 2 \<noteq> 0 \<and> parameters c 2 \<noteq> code")
    case True
    then show ?thesis using 2(1) [OF k1 c True] 2(3) k1 c j
      by (auto split: bind_splits dest!: klistAdd_journal)
  next
    case False
    then obtain k2 where k2: "queueCall (setCall k1 call (c\<lparr>returnValue := data\<rparr>)) call = Some k2"
      "wakeLoop k2 data code current new = Some (new', k')"
      using 2(3) k1 c by (auto split: bind_splits)
    have "journal k1 \<le> journal k2" using queueCall_journal [OF k2(1)] by simp
    also have "\<dots> \<le> journal k'" using 2(2) [OF k1 c False k2] .
    finally show ?thesis using j by simp
  qed
qed simp

lemma fireEvent_journal [journal_steps]: "fireEvent k event data code = Some k' \<Longrightarrow> journal k \<le> journal k'"
  by (auto simp: fireEvent_def split: bind_splits dest!: scheduleAll_journal wakeLoop_journal intro!: journal_below_set)

lemma shareInto_journal [journal_steps]: "shareInto k s a b = Some k' \<Longrightarrow> journal k \<le> journal k'"
  by (auto simp: shareInto_def split: bind_splits intro!: journal_below_set)

lemma segmentLoop_journal [journal_steps]: "segmentLoop k s e h p = Some k' \<Longrightarrow> journal k \<le> journal k'"
proof (induction rule: segmentLoop.raw_induct [rotated, consumes 1])
  case (1 rec k s e h p k')
  show ?case
  proof (cases "p < segmentMemorySize (readProgramHeader (kernelView k) h)")
    case False
    then show ?thesis using 1(2) by (simp add: Let_def)
  next
    case True
    let ?ph = "readProgramHeader (kernelView k) h"
    obtain a k1 where k1: "kmalloc k 0x1000 = Some (a, k1)" using True 1(2) by (cases "kmalloc k 0x1000") (auto simp: Let_def)
    define k2 where "k2 = (if segmentFileSize ?ph > p
      then kmemcpy k1 (e + dataOffset ?ph + p) a (min 0x1000 (segmentFileSize ?ph - p)) else k1)"
    obtain k3 where k3: "shareInto k2 s a (virtualAddress ?ph + p) = Some k3" and rest: "rec k3 s e h (p + 0x1000) = Some k'"
      using True 1(2) k1 unfolding Let_def by (auto simp flip: k2_def split: bind_splits)
    have "journal k2 = journal k1" by (simp add: k2_def)
    then show ?thesis using kmalloc_journal [OF k1] shareInto_journal [OF k3] 1(1) [OF rest] by simp
  qed
qed

lemma kAppendLoop_journal [journal_steps]: "kAppendLoop k s w = Some (w', k') \<Longrightarrow> journal k' = journal k"
proof (induction s w "(w', k')" arbitrary: rule: kAppendLoop.raw_induct [rotated, consumes 1])
  case (1 rec k s w)
  then show ?case by (auto split: if_splits)
qed

section \<open>Loading programs\<close>

lemma kCombineStrings_journal [journal_steps]: "kCombineStrings k a b = Some (c, k') \<Longrightarrow> journal k' = journal k"
  by (auto simp: kCombineStrings_def split: bind_splits dest!: kmalloc_journal kAppendLoop_journal)

lemma shares_journal:
  "ofold (\<lambda>i k. shareInto k s (f i k) (g i k)) xs k = Some k' \<Longrightarrow> journal k \<le> journal k'"
  by (rule ofold_journal) (auto dest: shareInto_journal)

lemma segments_journal:
  "ofold (\<lambda>i k. if P i k then Some k else segmentLoop k s e (h i) 0) xs k = Some k' \<Longrightarrow> journal k \<le> journal k'"
  by (rule ofold_journal) (auto split: if_splits dest: segmentLoop_journal)

lemma listed_service_journal:
  "klistAdd k (services k) a = Some (list, k') \<Longrightarrow> serviceAt k' a \<noteq> None \<longrightarrow> journal k \<le> journal (k'\<lparr>services := list\<rparr>)"
proof
  assume run: "klistAdd k (services k) a = Some (list, k')" and a: "serviceAt k' a \<noteq> None"
  obtain e h where k': "list = services k @ [(e, a)]" "k' = k\<lparr>kheap := h\<rparr>" using klistAdd_SomeD [OF run] by blast
  have "snd ` set list \<subseteq> snd ` set (services k) \<union> dom (serviceAt k)" using a k' by fastforce
  then show "journal k \<le> journal (k'\<lparr>services := list\<rparr>)" by (simp add: journal_le k')
qed

lemmas journal_grows = kmalloc_journal [THEN sym, THEN eq_refl] kInsertString_journal [THEN sym, THEN eq_refl]
  klistAdd_journal [of _ "service_functions s", THEN conjunct1, THEN sym, THEN eq_refl] for s

lemma loadElf_journal [journal_steps]:
  assumes "loadElf k elfStart name = Some (service, k')" shows "journal k \<le> journal k'"
  using assms unfolding loadElf_def Let_def
  by (auto split: bind_splits if_splits intro!: journal_below_set
      dest!: journal_grows fireEvent_journal shares_journal segments_journal listed_service_journal journal_set_below)
    order+

lemma readInitrdProgram_journal [journal_steps]: "readInitrdProgram k name = Some (s, k') \<Longrightarrow> journal k \<le> journal k'"
  by (auto simp: readInitrdProgram_def split: bind_splits if_splits dest!: kCombineStrings_journal kfree_journal loadElf_journal)

lemma loadProgram_journal [journal_steps]: "loadProgram k name r i = Some (s, k') \<Longrightarrow> journal k \<le> journal k'"
  by (auto simp: loadProgram_def split: bind_splits if_splits dest!: readInitrdProgram_journal scheduleAt_journal)

section \<open>System calls\<close>

lemma lookups_journal:
  "handleGetServiceIdSyscall k call = Some k' \<Longrightarrow> journal k' = journal k"
  "handleGetServiceSyscall k call = Some k' \<Longrightarrow> journal k' = journal k"
  "handleGetFunctionSyscall k call = Some k' \<Longrightarrow> journal k' = journal k"
  "handleGetEventSyscall k call = Some k' \<Longrightarrow> journal k' = journal k"
  "handleStackContainsSyscall k call = Some k' \<Longrightarrow> journal k' = journal k"
  "handleReadStringLengthSyscall k call = Some k' \<Longrightarrow> journal k' = journal k"
  "handleGetPhysicalSyscall k call = Some k' \<Longrightarrow> journal k' = journal k"
  "handleIOInSyscall k call = Some k' \<Longrightarrow> journal k' = journal k"
  by (auto simp: handleGetServiceIdSyscall_def handleGetServiceSyscall_def handleGetFunctionSyscall_def handleGetEventSyscall_def
      handleStackContainsSyscall_def handleReadStringLengthSyscall_def handleGetPhysicalSyscall_def handleIOInSyscall_def
      split_def Let_def split: bind_splits if_splits dest!: setReturn_journal returnIndex_journal)

lemma strings_journal:
  "handleInsertStringSyscall k call = Some k' \<Longrightarrow> journal k' = journal k"
  "handleReadStringSyscall k call = Some k' \<Longrightarrow> journal k' = journal k"
  "handleDiscardStringSyscall k call = Some k' \<Longrightarrow> journal k' = journal k"
  "handleLookupSymbolSyscall k call = Some k' \<Longrightarrow> journal k' = journal k"
  by (auto simp: handleInsertStringSyscall_def handleReadStringSyscall_def handleDiscardStringSyscall_def handleLookupSymbolSyscall_def
      Let_def split: bind_splits if_splits option.splits
      dest!: mapUserBuffer_journal kmalloc_journal kInsertString_journal setReturn_journal kUnmapPage_journal kDiscardString_journal)

lemma journal_write: "journal k \<le> journal (k\<lparr>portWrites := portWrites k @ words\<rparr>)"
  by (auto simp: journal_le)

lemma updates_journal:
  "handleRequestMemorySyscall k call = Some k' \<Longrightarrow> journal k \<le> journal k'"
  "handleFreeSyscall k call = Some k' \<Longrightarrow> journal k \<le> journal k'"
  "handleIOOutSyscall k call = Some k' \<Longrightarrow> journal k \<le> journal k'"
  by (auto simp: handleRequestMemorySyscall_def handleFreeSyscall_def handleIOOutSyscall_def Let_def journal_write
      split: bind_splits if_splits dest!: setReturn_journal intro!: journal_below_set)

lemma calls_journal:
  "handleForkSyscall k call = Some k' \<Longrightarrow> journal k \<le> journal k'"
  "handleFireEventSyscall k call = Some k' \<Longrightarrow> journal k \<le> journal k'"
  "handleRequestSyscall k call = Some k' \<Longrightarrow> journal k \<le> journal k'"
  "handleLoadFromInitrdSyscall k call = Some k' \<Longrightarrow> journal k \<le> journal k'"
  by (auto simp: handleForkSyscall_def handleFireEventSyscall_def handleRequestSyscall_def handleLoadFromInitrdSyscall_def Let_def
      split: bind_splits if_splits
      dest!: scheduleFunction_journal fireEvent_journal scheduleAt_journal setAvoidReschedule_journal loadProgram_journal setReturn_journal)

lemma additions_journal:
  "handleCreateFunctionSyscall k call = Some k' \<Longrightarrow> journal k \<le> journal k'"
  "handleCreateEventSyscall k call = Some k' \<Longrightarrow> journal k \<le> journal k'"
  "handleSubscribeEventSyscall k call = Some k' \<Longrightarrow> journal k \<le> journal k'"
  "handleSubscribeInterruptSyscall k call = Some k' \<Longrightarrow> journal k \<le> journal k'"
  "handleAwaitSyscall k call = Some k' \<Longrightarrow> journal k \<le> journal k'"
  by (auto simp: handleCreateFunctionSyscall_def handleCreateEventSyscall_def handleSubscribeEventSyscall_def
      handleSubscribeInterruptSyscall_def handleAwaitSyscall_def Let_def split: bind_splits if_splits
      dest!: kmalloc_journal setReturn_journal klistAdd_journal setAvoidReschedule_journal intro!: journal_below_set)

lemma dispatch_journal [journal_steps]:
  assumes "dispatch k n call = Some k'" shows "journal k \<le> journal k'"
proof (cases "unat n < 25")
  case True
  then have "syscallHandlers ! unat n \<in> set syscallHandlers" by simp
  moreover have "f k call = Some k' \<Longrightarrow> journal k \<le> journal k'" if "f \<in> set syscallHandlers" for f
    using that unfolding syscallHandlers_def
    by (auto dest: updates_journal calls_journal additions_journal simp: lookups_journal strings_journal)
  moreover have "(syscallHandlers ! unat n) k call = Some k'" using assms True by (simp add: dispatch_def)
  ultimately show ?thesis by blast
qed (use assms in \<open>simp add: dispatch_def\<close>)

section \<open>Interrupts, exceptions and the main loop\<close>

lemma onInterrupt_journal [journal_steps]: "onInterrupt k n = Some k' \<Longrightarrow> journal k \<le> journal k'"
  by (auto simp: onInterrupt_def split: bind_splits dest: scheduleAll_journal)

lemma onException_journal [journal_steps]: "onException k ebp n e eip = Some k' \<Longrightarrow> journal k \<le> journal k'"
  unfolding onException_def Let_def split_def
  by (auto split: bind_splits dest!: freeCall_journal scheduleAt_journal ofold_journal [rotated])

lemma finalizeCall_journal [journal_steps]: "finalizeCall k v = Some k' \<Longrightarrow> journal k \<le> journal k'"
  by (auto simp: finalizeCall_def Let_def split_def split: bind_splits if_splits dest!: queueCall_journal)

lemma handleSyscall_journal [journal_steps]: "handleSyscall k esp n a b c d = Some k' \<Longrightarrow> journal k \<le> journal k'"
  by (auto simp: handleSyscall_def Let_def split_def split: bind_splits if_splits
      dest!: queueCall_journal kmalloc_journal finalizeCall_journal)

lemma resume_journal [journal_steps]:
  assumes "resume k call run = Some k'" shows "journal k \<le> journal k'"
proof -
  obtain k1 where k1: "ofold (\<lambda>n k. onInterrupt k n) (fst run) (k\<lparr>currentSyscall := call\<rparr>) = Some k1" "leaveUser k1 (snd run) = Some k'"
    using assms by (auto simp: resume_def split: if_splits bind_splits)
  have "journal k \<le> journal k1" using ofold_journal [OF onInterrupt_journal k1(1)] by simp
  also have "\<dots> \<le> journal k'" using k1(2) by (cases "snd run") (auto dest: handleSyscall_journal onException_journal)
  finally show ?thesis .
qed

lemma processSyscall_journal [journal_steps]: "processSyscall k call run = Some k' \<Longrightarrow> journal k \<le> journal k'"
  by (auto simp: processSyscall_def Let_def split: bind_splits if_splits
      dest!: resume_journal freeCall_journal dispatch_journal queueCall_journal)

lemma mainLoop_pops:
  assumes "callsToProcess k = (e, call) # later"
  shows "mainLoop k run = do {
      k1 \<leftarrow> kfree k e;
      if call = 0 then (case fst run of [] \<Rightarrow> Some (k1\<lparr>callsToProcess := later\<rparr>)
        | intNo # _ \<Rightarrow> onInterrupt (k1\<lparr>callsToProcess := later\<rparr>) intNo)
      else processSyscall (k1\<lparr>callsToProcess := later\<rparr>) call run
    }"
  by (simp add: mainLoop_def assms Let_def)

lemma klistPop_state: "klistPop k list = Some (a, list', k') \<Longrightarrow> list' = tl list \<and> (\<exists>h. k' = k\<lparr>kheap := h\<rparr>)"
  by (cases list) (auto split: bind_splits dest!: kfree_SomeD, metis Kernel.surjective Kernel.update_convs(1))

lemma mainLoop_journal:
  assumes "mainLoop k run = Some k'" shows "journal (k\<lparr>callsToProcess := tl (callsToProcess k)\<rparr>) \<le> journal k'"
proof -
  obtain call list k1 where pop: "klistPop k (callsToProcess k) = Some (call, list, k1)"
    and rest: "(if call = 0 then (case fst run of [] \<Rightarrow> Some (k1\<lparr>callsToProcess := list\<rparr>)
        | intNo # _ \<Rightarrow> onInterrupt (k1\<lparr>callsToProcess := list\<rparr>) intNo)
      else processSyscall (k1\<lparr>callsToProcess := list\<rparr>) call run) = Some k'"
    using assms by (auto simp: mainLoop_def Let_def split: bind_splits prod.splits)
  have "journal (k1\<lparr>callsToProcess := list\<rparr>) = journal (k\<lparr>callsToProcess := tl (callsToProcess k)\<rparr>)"
    using klistPop_state [OF pop] by (auto simp: journal_def)
  moreover have "journal (k1\<lparr>callsToProcess := list\<rparr>) \<le> journal k'"
    using rest by (auto split: if_splits list.splits dest: onInterrupt_journal processSyscall_journal)
  ultimately show ?thesis by simp
qed

section \<open>Rounds\<close>

text \<open>The loop at the end of \<open>kernelMain\<close>: one run in user mode per round.\<close>

inductive rounds :: "Kernel \<Rightarrow> UserRun list \<Rightarrow> Kernel \<Rightarrow> bool" where
  no_round: "rounds k [] k"
| next_round: "mainLoop k run = Some k1 \<Longrightarrow> rounds k1 runs k2 \<Longrightarrow> rounds k (run # runs) k2"

inductive_cases rounds_NilE: "rounds k [] k'"
inductive_cases rounds_ConsE: "rounds k (run # runs) k'"

text \<open>What the kernel does is determined by what happens in user mode.\<close>

lemma rounds_deterministic: "rounds k runs k1 \<Longrightarrow> rounds k runs k2 \<Longrightarrow> k1 = k2"
proof (induction arbitrary: k2 rule: rounds.induct)
  case (no_round k)
  then show ?case by (rule rounds_NilE) simp
next
  case (next_round k run k' runs k'')
  from next_round.prems obtain l where l: "mainLoop k run = Some l" "rounds l runs k2" by (rule rounds_ConsE)
  have "l = k'" using l(1) next_round.hyps(1) by (metis option.inject)
  then show ?case using next_round.IH l(2) by blast
qed

lemma rounds_journal:
  "rounds k runs k' \<Longrightarrow> journal (k\<lparr>callsToProcess := drop (length runs) (callsToProcess k)\<rparr>) \<le> journal k'"
proof (induction rule: rounds.induct)
  case (next_round k run k1 runs k2)
  have step: "journal (k\<lparr>callsToProcess := tl (callsToProcess k)\<rparr>) \<le> journal k1" by (rule mainLoop_journal) fact
  obtain zs where "callsToProcess k1 = tl (callsToProcess k) @ zs"
    using step by (auto simp: journal_le prefix_def)
  then have "prefix (drop (length (run # runs)) (callsToProcess k)) (drop (length runs) (callsToProcess k1))"
    by (simp add: drop_Suc)
  with step have "journal (k\<lparr>callsToProcess := drop (length (run # runs)) (callsToProcess k)\<rparr>)
      \<le> journal (k1\<lparr>callsToProcess := drop (length runs) (callsToProcess k1)\<rparr>)"
    by (simp add: journal_le)
  then show ?case using next_round.IH by (rule order_trans)
qed simp

text \<open>A kernel with two calls in its queue, for the examples: the first has an unknown number.\<close>

definition two_calls :: "u32 \<Rightarrow> u32 \<Rightarrow> KernelMemory Heap \<Rightarrow> Kernel" where
  "two_calls a b h = started_kernel\<lparr>kheap := h, callsToProcess := [(a, 0x6000), (b, 0x6100)],
     callAt := [0x6000 \<mapsto> zeroSyscall\<lparr>call_function := 25, avoidReschedule := True\<rparr>, 0x6100 \<mapsto> zeroSyscall]\<rparr>"

lemma two_calls_round: "\<exists>a b h. \<forall>run. \<exists>k. rounds (two_calls a b h) [run] k"
proof -
  obtain a h1 b h where al: "kernelMalloc started_heap 8 = Some (a, h1)" "kernelMalloc h1 8 = Some (b, h)"
    using started_two [of 8] by auto
  have h: "kernel_heap_ok h" "a \<in> allocated h"
    using ka.alloc_law [OF started_heap_ok _ _ al(1)] ka.alloc_law [OF _ _ _ al(2)] by simp_all
  obtain h' where "kernelFree h a = Some h'" using ka.release_law [OF h] by blast
  then have "\<exists>k. mainLoop (two_calls a b h) run = Some k" for run
    by (simp add: two_calls_def mainLoop_def kfree_def processSyscall_new dispatch_def zeroSyscall_def Let_def setCall_def)
  then show ?thesis using next_round no_round by metis
qed

text \<open>
  C9. The calls are handled in turn. Whatever system calls, interrupts and exceptions the rounds before it bring, the call at
  position \<open>n\<close> of the queue is at its front after \<open>n\<close> rounds, those behind it follow in their order, and the next round is
  about this call: its list element is freed, it leaves the queue and it is processed.
\<close>

theorem calls_handled_in_turn:
  assumes "rounds k runs k'" and "length runs < length (callsToProcess k)"
    and "callsToProcess k ! length runs = (e, call)" and "call \<noteq> 0"
  shows "\<exists>later. callsToProcess k' = (e, call) # later \<and> prefix (drop (Suc (length runs)) (callsToProcess k)) later \<and>
     (\<forall>run. mainLoop k' run = do { k1 \<leftarrow> kfree k' e; processSyscall (k1\<lparr>callsToProcess := later\<rparr>) call run })"
proof -
  have "prefix (drop (length runs) (callsToProcess k)) (callsToProcess k')"
    using rounds_journal [OF assms(1)] by (simp add: journal_le)
  moreover have "drop (length runs) (callsToProcess k) = (e, call) # drop (Suc (length runs)) (callsToProcess k)"
    using assms(2,3) by (metis Cons_nth_drop_Suc)
  ultimately obtain later where later: "callsToProcess k' = (e, call) # later"
      "prefix (drop (Suc (length runs)) (callsToProcess k)) later"
    by (auto simp: prefix_def)
  then show ?thesis using mainLoop_pops [OF later(1)] assms(4) by simp
qed

theorem calls_handled_in_turn_witness:
  "\<exists>a b h k later. rounds (two_calls a b h) [([], SysEnter 0 0 0 0 0 0)] k \<and> callsToProcess k = (b, 0x6100) # later"
proof -
  obtain a b h k where r: "rounds (two_calls a b h) [([], SysEnter 0 0 0 0 0 0)] k" using two_calls_round by metis
  have q: "callsToProcess (two_calls a b h) = [(a, 0x6000), (b, 0x6100)]" by (simp add: two_calls_def)
  obtain later where "callsToProcess k = (b, 0x6100) # later"
    using calls_handled_in_turn [OF r, of b "0x6100"] by (auto simp: q)
  with r show ?thesis by blast
qed

text \<open>
  C10. The numbers of services and of the kernel's events are stable: after any number of rounds a number that named an
  object names the same object, services that existed exist, and every service listed since then exists.
\<close>

theorem service_numbers_stable:
  assumes "rounds k runs k'"
  shows "(unat i < length (services k) \<longrightarrow> klistGet (services k') i = klistGet (services k) i) \<and>
    (unat i < length (kernelEvents k) \<longrightarrow> klistGet (kernelEvents k') i = klistGet (kernelEvents k) i) \<and>
    dom (serviceAt k) \<subseteq> dom (serviceAt k') \<and>
    (\<forall>(e, a) \<in> set (services k'). a \<in> snd ` set (services k) \<or> serviceAt k' a \<noteq> None)"
proof -
  have j: "prefix (services k) (services k')" "prefix (kernelEvents k) (kernelEvents k')" "dom (serviceAt k) \<subseteq> dom (serviceAt k')"
    "snd ` set (services k') \<subseteq> snd ` set (services k) \<union> dom (serviceAt k')"
    using rounds_journal [OF assms] by (simp_all add: journal_le)
  have get: "klistGet ys i = klistGet xs i" if "prefix xs ys" "unat i < length xs" for xs ys :: klist
    using that by (auto simp: klistGet_def prefix_def nth_append)
  have "a \<in> snd ` set (services k) \<union> dom (serviceAt k')" if "(e, a) \<in> set (services k')" for e a
    using j(4) that by force
  then show ?thesis using j(1-3) get by blast
qed

theorem service_numbers_stable_witness:
  "\<exists>a b h k. rounds (two_calls a b h) [([], SysEnter 0 0 0 0 0 0)] k \<and> klistGet (services k) 0 = 0x8000"
proof -
  obtain a b h k where r: "rounds (two_calls a b h) [([], SysEnter 0 0 0 0 0 0)] k" using two_calls_round by metis
  have "services (two_calls a b h) = [(0x7000, 0x8000)]" by (simp add: two_calls_def started_kernel_def)
  then have "klistGet (services k) 0 = 0x8000" using service_numbers_stable [OF r, of 0] by (simp add: klistGet_def)
  with r show ?thesis by blast
qed

end
