(* ===== verification/MsgPackQuery.thy ===== *)
theory MsgPackQuery
  imports Messages "HOL-Library.Sublist"
begin

text \<open>
  Looking up a value in an encoded map by the name of its key (\<open>msgPackMapGetFromString\<close>). Keys are copied into fresh
  memory one by one; what is looked at and what is searched for lies in a region \<open>R\<close> the allocator does not hand out.
\<close>

text \<open>The position of the value behind the first key that starts with a name, counted from the first key.\<close>

fun valueOffset :: "u8 list \<Rightarrow> (u8 list \<times> msg) list \<Rightarrow> nat option" where
  "valueOffset name [] = None"
| "valueOffset name ((k, v) # entries) =
     (if prefix name k then Some (length (encode (MStr k)))
      else map_option (\<lambda>n. length (encode (MStr k)) + length (encode v) + n) (valueOffset name entries))"

definition named :: "(u8 list \<times> msg) list \<Rightarrow> msg" where
  "named entries = MMap (map (\<lambda>(k, v). (MStr k, v)) entries)"

text \<open>
  What the lookup relies on: in the states in question (\<open>ok\<close>), an allocation of at most \<open>B\<close> bytes returns memory outside of
  \<open>R\<close>, and giving it back succeeds and leads to such a state again.
\<close>

definition scratch :: "('s \<Rightarrow> u32 \<Rightarrow> (u32 \<times> 's) option) \<Rightarrow> ('s \<Rightarrow> u32 \<Rightarrow> 's option) \<Rightarrow> ('s \<Rightarrow> bool) \<Rightarrow> u32 set \<Rightarrow> nat \<Rightarrow> bool" where
  "scratch alloc release ok R B \<longleftrightarrow> (\<forall>h n. ok h \<and> unat n \<le> B \<longrightarrow>
     (\<exists>r h' h''. alloc h n = Some (r, h') \<and> r \<noteq> 0 \<and> span r (unat n) \<inter> R = {} \<and> release h' r = Some h'' \<and> ok h''))"

lemma prefixLoop_cstr:
  "cstr m r s \<Longrightarrow> cstr m q t \<Longrightarrow> key \<noteq> 0 \<Longrightarrow> r = key + i \<Longrightarrow> q = search + i \<Longrightarrow> prefixLoop m key search i = Some (prefix t s)"
proof (induction t arbitrary: r q s i)
  case Nil
  then show ?case by (simp add: prefixLoop.simps)
next
  case (Cons c t)
  have q: "m (search + i) = c" "c \<noteq> 0" "cstr m (q + 1) t" using Cons.prems by auto
  show ?case
  proof (cases s)
    case Nil
    then show ?thesis using Cons.prems q by (subst prefixLoop.simps) auto
  next
    case (Cons d s')
    have r: "m (key + i) = d" "cstr m (r + 1) s'" using \<open>cstr m r s\<close> Cons \<open>r = key + i\<close> by auto
    have "prefixLoop m key search (i + 1) = Some (prefix t s')"
      by (rule Cons.IH [OF r(2) q(3) \<open>key \<noteq> 0\<close>]) (use Cons.prems in \<open>simp_all add: add_ac\<close>)
    then show ?thesis using q r Cons \<open>key \<noteq> 0\<close> by (subst prefixLoop.simps) auto
  qed
qed

lemma mapGetFromStringLoop_spec:
  assumes sc: "scratch alloc release ok R B" and B: "B < 2 ^ 32"
    and keys: "\<forall>(k, v) \<in> set entries. 0 \<notin> set k \<and> length k < B \<and> small v" and h: "ok h"
    and data: "bytes_at m p (concat (map (\<lambda>(k, v). encode (MStr k) @ encode v) entries))"
    and inside: "span p (length (concat (map (\<lambda>(k, v). encode (MStr k) @ encode v) entries))) \<subseteq> R"
    and name: "cstr m q name" "span q (length name + 1) \<subseteq> R"
  shows "\<exists>h' m'. mapGetFromStringLoop alloc release q (length entries) p h m =
      Some (case valueOffset name entries of None \<Rightarrow> 0 | Some n \<Rightarrow> p + of_nat n, h', m') \<and>
    ok h' \<and> (\<forall>a \<in> R. m' a = m a)"
  using keys h data inside name
proof (induction entries arbitrary: p h m)
  case (Cons e entries)
  obtain k v where e: "e = (k, v)" by (cases e)
  let ?k = "encode (MStr k)" and ?v = "encode v" and ?es = "concat (map (\<lambda>(k, v). encode (MStr k) @ encode v) entries)"
  have k: "0 \<notin> set k" "length k + 1 < 2 ^ 32" "small v" "length k < B" using Cons.prems(1) e B by auto
  have b: "bytes_at m p ?k" "bytes_at m (p + of_nat (length ?k)) ?v" "bytes_at m (p + of_nat (length ?k) + of_nat (length ?v)) ?es"
    using Cons.prems(3) e by (simp_all add: bytes_at_append add_ac del: encode.simps)
  have "span p (length ?k + (length ?v + length ?es)) \<subseteq> R" using Cons.prems(4) e by (simp del: encode.simps)
  note s1 = span_split [OF this]
  note s2 = span_split [OF s1 [THEN conjunct2]]
  have un: "unat (of_nat (length k) + 1 :: u32) = length k + 1"
    using unat_of_nat32 [of "length k + 1"] k(2) by (simp add: add.commute)
  then have "unat (of_nat (length k) + 1 :: u32) \<le> B" using k(4) by simp
  then obtain r h1 h2 where al: "alloc h (of_nat (length k) + 1) = Some (r, h1)" "r \<noteq> 0"
    "span r (unat (of_nat (length k) + 1 :: u32)) \<inter> R = {}" and rl: "release h1 r = Some h2" "ok h2"
    using sc Cons.prems(2) unfolding scratch_def by blast
  have apart: "span r (length k + 1) \<inter> R = {}" using al(3) un by simp
  then have dis: "span p (length ?k) \<inter> span r (length k + 1) = {}" using s1 by blast
  obtain m1 where rd: "msgPackReadStr alloc h m p = Some (r, h1, m1)" "cstr m1 r k"
    "\<forall>a. a \<notin> span r (length k + 1) \<longrightarrow> m1 a = m a"
    using readStr_spec [of m p k alloc h r h1] b(1) k(1,2) al(1) dis by blast
  have same: "m1 a = m a" if "a \<in> R" for a using rd(3) apart that by blast
  have keep: "bytes_at m1 a bs = bytes_at m a bs" if "span a (length bs) \<subseteq> R" for a bs
    using that same by (intro bytes_at_cong) blast
  have name1: "cstr m1 q name" using Cons.prems(5,6) same cstr_cong [of q name m1 m] by auto
  have cmp: "prefixLoop m1 r q 0 = Some (prefix name k)"
    by (rule prefixLoop_cstr [OF rd(2) name1 al(2)]) simp_all
  have b1: "bytes_at m1 p ?k" "bytes_at m1 (p + of_nat (length ?k)) ?v" "bytes_at m1 (p + of_nat (length ?k) + of_nat (length ?v)) ?es"
    using keep b s1 s2 by blast+
  have "small (MStr k)" using k(2) by simp
  then have sk: "msgPackSeek m1 p = Some (p + of_nat (length ?k))" using seek_encode b1(1) unfolding seeks_def by blast
  have sv: "msgPackSeek m1 (p + of_nat (length ?k)) = Some (p + of_nat (length ?k) + of_nat (length ?v))"
    using seek_encode [OF k(3)] b1(2) unfolding seeks_def by blast
  have str: "dataType (infoAt m p) = TYPE_STRING"
    using strHead_format(1) [of m p "length k"] b(1) k(2) by (simp add: bytes_at_append)
  show ?case
  proof (cases "prefix name k")
    case True
    then show ?thesis using str rd(1) cmp rl sk same e by (auto simp del: encode.simps)
  next
    case False
    let ?p = "p + of_nat (length ?k) + of_nat (length ?v)"
    have keys: "\<forall>(k, v) \<in> set entries. 0 \<notin> set k \<and> length k < B \<and> small v" using Cons.prems(1) by simp
    obtain h' m' where rest: "mapGetFromStringLoop alloc release q (length entries) ?p h2 m1 =
        Some (case valueOffset name entries of None \<Rightarrow> 0 | Some n \<Rightarrow> ?p + of_nat n, h', m')" "ok h'" "\<forall>a \<in> R. m' a = m1 a"
      using Cons.IH [OF keys rl(2) b1(3) s2 [THEN conjunct2] name1 Cons.prems(6)] by blast
    have "mapGetFromStringLoop alloc release q (length (e # entries)) p h m = mapGetFromStringLoop alloc release q (length entries) ?p h2 m1"
      using str rd(1) cmp rl sk sv False by (simp del: encode.simps)
    moreover have "(case valueOffset name entries of None \<Rightarrow> 0 | Some n \<Rightarrow> ?p + of_nat n) =
        (case valueOffset name (e # entries) of None \<Rightarrow> 0 | Some n \<Rightarrow> p + of_nat n)"
      using False e by (cases "valueOffset name entries") (simp_all add: add_ac del: encode.simps)
    ultimately show ?thesis using rest same by simp
  qed
qed simp

lemma valueOffset_value:
  assumes "bytes_at m p (concat (map (\<lambda>(k, v). encode (MStr k) @ encode v) entries))"
  shows "case List.find (\<lambda>(k, v). prefix name k) entries of
      None \<Rightarrow> valueOffset name entries = None
    | Some (k, v) \<Rightarrow> \<exists>n. valueOffset name entries = Some n \<and> bytes_at m (p + of_nat n) (encode v) \<and>
        n + length (encode v) \<le> length (concat (map (\<lambda>(k, v). encode (MStr k) @ encode v) entries))"
  using assms
proof (induction entries arbitrary: p)
  case (Cons e entries)
  obtain k v where e: "e = (k, v)" by (cases e)
  have b: "bytes_at m (p + of_nat (length (encode (MStr k)))) (encode v)"
    "bytes_at m (p + of_nat (length (encode (MStr k)) + length (encode v))) (concat (map (\<lambda>(k, v). encode (MStr k) @ encode v) entries))"
    using Cons.prems e by (simp_all add: bytes_at_append add_ac del: encode.simps)
  show ?case using b(1) Cons.IH [OF b(2)] e
    by (auto simp: add_ac split: option.splits simp del: encode.simps)
qed simp

lemma mapHead_read:
  assumes "bytes_at m p (mapHead n)" and "n < 65536"
  shows "dataType (infoAt m p) = TYPE_MAP" and "msgPackReadMapSize m p = (of_nat n, Some (p + of_nat (length (mapHead n))))"
proof -
  have "dataType (infoAt m p) = TYPE_MAP \<and> msgPackReadMapSize m p = (of_nat n, Some (p + of_nat (length (mapHead n))))"
  proof (cases "n < 16")
    case True
    then have "m p = 0x80 + of_nat n" using assms(1) by (simp add: mapHead_def)
    then show ?thesis using True fix_formats(3) [of n] low_bits(3) [of n]
      by (simp add: msgPackReadMapSize_def lengthAt_def msgPackReadLength_def mkInfo_def mapHead_def onebit_def)
  next
    case False
    then have b: "m p = 0xDE" "bytes_at m (p + 1) (le16 (of_nat n))" using assms by (simp_all add: mapHead_def)
    moreover have "(ucast (of_nat n :: u16) :: u32) = of_nat n"
      using assms(2) by (simp add: word_unat_eq_iff unsigned_ucast_eq unat_of_nat take_bit_nat_eq_self)
    ultimately show ?thesis using False assms(2) read16_le [OF b(2)]
      by (simp add: msgPackReadMapSize_def lengthAt_def msgPackReadLength_def mkInfo_def mapHead_def le16_def)
  qed
  then show "dataType (infoAt m p) = TYPE_MAP" "msgPackReadMapSize m p = (of_nat n, Some (p + of_nat (length (mapHead n))))"
    by blast+
qed

lemma lookup_named:
  assumes sc: "scratch alloc release ok R B" and B: "B < 2 ^ 32" and data: "bytes_at m p (encode (named entries))"
    and inside: "span p (length (encode (named entries))) \<subseteq> R" and name: "cstr m q name" "span q (length name + 1) \<subseteq> R"
    and keys: "\<forall>(k, v) \<in> set entries. 0 \<notin> set k \<and> length k < B \<and> small v" and few: "length entries < 128" and h: "ok h"
  shows "\<exists>result h' m'. msgPackMapGetFromString alloc release h m p q = Some (result, h', m') \<and> ok h' \<and> (\<forall>a \<in> R. m' a = m a) \<and>
    (case List.find (\<lambda>(k, v). prefix name k) entries of
       None \<Rightarrow> result = 0
     | Some (k, v) \<Rightarrow> \<exists>n. valueOffset name entries = Some n \<and>
         result = p + of_nat (length (mapHead (length entries)) + n) \<and> bytes_at m' result (encode v) \<and>
         span result (length (encode v)) \<subseteq> span p (length (encode (named entries))))"
proof -
  let ?head = "mapHead (length entries)" and ?es = "concat (map (\<lambda>(k, v). encode (MStr k) @ encode v) entries)"
  have enc: "encode (named entries) = ?head @ ?es"
    by (simp add: named_def comp_def case_prod_unfold del: encode.simps(1-3))
  have b: "bytes_at m p ?head" "bytes_at m (p + of_nat (length ?head)) ?es" using data by (simp_all add: enc bytes_at_append)
  have s: "span (p + of_nat (length ?head)) (length ?es) \<subseteq> R"
    using span_split [of p "length ?head" "length ?es" R] inside by (simp add: enc)
  have "length entries < 65536" using few by simp
  note hd = mapHead_read [OF b(1) this]
  obtain h' m' where run: "mapGetFromStringLoop alloc release q (length entries) (p + of_nat (length ?head)) h m =
      Some (case valueOffset name entries of None \<Rightarrow> 0 | Some n \<Rightarrow> p + of_nat (length ?head) + of_nat n, h', m')" "ok h'" "\<forall>a \<in> R. m' a = m a"
    using mapGetFromStringLoop_spec [OF sc B keys h b(2) s name] by blast
  have "unat (of_nat (length entries) :: u32) = length entries" using few by (intro unat_of_nat32) simp
  then have "msgPackMapGetFromString alloc release h m p q =
      Some (case valueOffset name entries of None \<Rightarrow> 0 | Some n \<Rightarrow> p + of_nat (length ?head) + of_nat n, h', m')"
    using hd run(1) by (simp add: msgPackMapGetFromString_def)
  moreover have "bytes_at m' (p + of_nat (length ?head)) ?es"
    using b(2) bytes_at_cong [of "p + of_nat (length ?head)" ?es m' m] run(3) s by blast
  note valueOffset_value [OF this, of name]
  moreover have "span (p + of_nat (length ?head + n)) j \<subseteq> span p (length (encode (named entries)))" if "n + j \<le> length ?es" for n j
    using span_shift [of p "length ?head + n" j] span_prefix [of "length ?head + n + j" "length (encode (named entries))" p] that
    by (auto simp: enc)
  ultimately show ?thesis using run(2,3)
    by (cases "List.find (\<lambda>(k, v). prefix name k) entries") (fastforce simp: add_ac simp del: encode.simps)+
qed



end
