(* ===== verification/PciDump.thy ===== *)
theory PciDump
  imports Pci Shared MsgPackQuery
begin

text \<open>
  The functions of the PCI service that describe devices to other programs: \<open>dump\<close> and \<open>dumpAll\<close> of
  \<open>userland/lspci/main.c\<close> build a message, copy it into a page and return the physical address of the page. The
  memory of the program is passed beside its state, \<open>lit\<close> gives the addresses of its string literals.
\<close>

section \<open>The message of a device\<close>

text \<open>The macro \<open>DEVICE_DUMP\<close>. The name of the class is read from an array of 20 names.\<close>

definition DEVICE_DUMP_BARS :: "PciDevice \<Rightarrow> Definition list" where
  "DEVICE_DUMP_BARS device = map (\<lambda>n. INTEGER (bar device ! n) Unsigned) [0..<5]"

definition DEVICE_DUMP_MAP_DATA :: "(string \<Rightarrow> u32) \<Rightarrow> PciDevice \<Rightarrow> Definition list" where
  "DEVICE_DUMP_MAP_DATA lit device =
     [STRING (lit ''bars''), ARRAY (DEVICE_DUMP_BARS device),
      STRING (lit ''id''), INTEGER (pci_id device) Unsigned,
      STRING (lit ''class''), INTEGER (ucast (pci_class device)) Unsigned,
      STRING (lit ''className''), STRING (lit (classNames ! unat (pci_class device))),
      STRING (lit ''subclass''), INTEGER (ucast (pci_subclass device)) Unsigned,
      STRING (lit ''programmingInterface''), INTEGER (ucast (programmingInterface device)) Unsigned]"

definition DEVICE_DUMP :: "(string \<Rightarrow> u32) \<Rightarrow> PciDevice \<Rightarrow> Definition option" where
  "DEVICE_DUMP lit device =
     (if unat (pci_class device) < length classNames then Some (MAP (DEVICE_DUMP_MAP_DATA lit device)) else None)"

text \<open>The macro \<open>DEVICES_DUMP\<close>: a list of all devices.\<close>

fun devicesDump :: "(string \<Rightarrow> u32) \<Rightarrow> PciDevice list \<Rightarrow> Definition list option" where
  "devicesDump lit [] = Some []"
| "devicesDump lit (device # devices) = do {
     d \<leftarrow> DEVICE_DUMP lit device;
     ds \<leftarrow> devicesDump lit devices;
     Some (d # ds)
   }"

definition DEVICES_DUMP :: "(string \<Rightarrow> u32) \<Rightarrow> PciDevice list \<Rightarrow> Definition option" where
  "DEVICES_DUMP lit devices = map_option LIST (devicesDump lit devices)"

section \<open>The functions\<close>

text \<open>
  The common part of both: \<open>malloc\<close> gives cleared memory, the message is copied with \<open>memcpy(source, destination,
  length)\<close> into one page, however long it is, and the page is given back before its physical address is returned.
\<close>

definition dumpMessage :: "Definition \<Rightarrow> World \<times> bytes \<Rightarrow> (u32 \<times> World \<times> bytes) option" where
  "dumpMessage definition = (\<lambda>(w, m). do {
     dataLength \<leftarrow> MSG_LENGTH m definition;
     (data, w) \<leftarrow> call (Malloc dataLength) w;
     (_, m) \<leftarrow> WRITE definition (data, memset m data 0 dataLength);
     (resultBuffer, w) \<leftarrow> call (RequestMemory 1 0 0) w;
     let m = memcpy m data resultBuffer dataLength;
     (result, w) \<leftarrow> call (GetPhysicalAddress resultBuffer) w;
     w \<leftarrow> perform (Free resultBuffer) w;
     Some (result, w, m)
   })"

definition dump :: "(string \<Rightarrow> u32) \<Rightarrow> u32 \<Rightarrow> (Pci \<times> World) \<times> bytes \<Rightarrow> (u32 \<times> (Pci \<times> World) \<times> bytes) option" where
  "dump lit deviceId = (\<lambda>(sw, m). do {
     (header, s, w) \<leftarrow> GET_HEADER deviceId sw;
     (case header of
        None \<Rightarrow> Some (0, (s, w), m)
      | Some device \<Rightarrow> do {
          definition \<leftarrow> DEVICE_DUMP lit device;
          (result, w, m) \<leftarrow> dumpMessage definition (w, m);
          Some (result, (s, w), m)
        })
   })"

definition dumpAll :: "(string \<Rightarrow> u32) \<Rightarrow> (Pci \<times> World) \<times> bytes \<Rightarrow> (u32 \<times> (Pci \<times> World) \<times> bytes) option" where
  "dumpAll lit = (\<lambda>(sw, m). do {
     (header, s, w) \<leftarrow> GET_HEADER 0 sw;
     (case header of
        None \<Rightarrow> Some (0, (s, w), m)
      | Some device \<Rightarrow> do {
          definition \<leftarrow> DEVICES_DUMP lit (pciDevices s);
          (result, w, m) \<leftarrow> dumpMessage definition (w, m);
          Some (result, (s, w), m)
        })
   })"

section \<open>What the page holds\<close>

definition bytesOf :: "string \<Rightarrow> u8 list" where
  "bytesOf s = map (\<lambda>c. of_nat (of_char c)) s"

definition fieldNames :: "string list" where
  "fieldNames = [''bars'', ''id'', ''class'', ''className'', ''subclass'', ''programmingInterface'']"

text \<open>What the message says of a device.\<close>

definition deviceFields :: "PciDevice \<Rightarrow> (u8 list \<times> msg) list" where
  "deviceFields device =
     [(bytesOf ''bars'', MArr (map (\<lambda>n. MInt (bar device ! n) Unsigned) [0..<5])),
      (bytesOf ''id'', MInt (pci_id device) Unsigned),
      (bytesOf ''class'', MInt (ucast (pci_class device)) Unsigned),
      (bytesOf ''className'', MStr (bytesOf (classNames ! unat (pci_class device)))),
      (bytesOf ''subclass'', MInt (ucast (pci_subclass device)) Unsigned),
      (bytesOf ''programmingInterface'', MInt (ucast (programmingInterface device)) Unsigned)]"

text \<open>The literals of the program lie in its memory, outside of \<open>R\<close>.\<close>

definition literals :: "(string \<Rightarrow> u32) \<Rightarrow> bytes \<Rightarrow> u32 set \<Rightarrow> bool" where
  "literals lit m R \<longleftrightarrow> (\<forall>x \<in> set fieldNames \<union> set classNames.
     cstr m (lit x) (bytesOf x) \<and> lit x \<noteq> 0 \<and> span (lit x) (length x + 1) \<inter> R = {})"

definition stringAt :: "bytes \<Rightarrow> u32 \<Rightarrow> u8 list" where
  "stringAt m a = (THE s. cstr m a s)"

lemma stringAt_cstr: "cstr m a s \<Longrightarrow> stringAt m a = s"
  unfolding stringAt_def by (rule the_equality) (auto dest: cstr_unique)

lemma length_bytesOf [simp]: "length (bytesOf s) = length s"
  by (simp add: bytesOf_def)

lemma names_short: "x \<in> set fieldNames \<union> set classNames \<Longrightarrow> length x < 40"
  by (auto simp: fieldNames_def classNames_def)

lemma literal_proper:
  assumes "literals lit m R" and "x \<in> set fieldNames \<union> set classNames"
  shows "proper m (stringAt m) R (STRING (lit x))" and "stringAt m (lit x) = bytesOf x"
proof -
  have c: "cstr m (lit x) (bytesOf x)" "lit x \<noteq> 0" "span (lit x) (length x + 1) \<inter> R = {}"
    using assms unfolding literals_def by blast+
  then show str: "stringAt m (lit x) = bytesOf x" by (intro stringAt_cstr)
  have "length x + 5 < 2 ^ 32" using names_short [OF assms(2)] by simp
  then show "proper m (stringAt m) R (STRING (lit x))" using c by (simp add: str)
qed

lemma device_message:
  assumes l: "literals lit m R" and d: "DEVICE_DUMP lit device = Some d"
  shows "proper m (stringAt m) R d" and "meaning (stringAt m) d = named (deviceFields device)"
proof -
  have c: "unat (pci_class device) < length classNames" and d': "d = MAP (DEVICE_DUMP_MAP_DATA lit device)"
    using d by (auto simp: DEVICE_DUMP_def split: if_splits)
  have cn: "classNames ! unat (pci_class device) \<in> set fieldNames \<union> set classNames" using c by simp
  have fn: "x \<in> set fieldNames \<Longrightarrow> x \<in> set fieldNames \<union> set classNames" for x by simp
  have names: "''bars'' \<in> set fieldNames" "''id'' \<in> set fieldNames" "''class'' \<in> set fieldNames" "''className'' \<in> set fieldNames"
    "''subclass'' \<in> set fieldNames" "''programmingInterface'' \<in> set fieldNames"
    by (simp_all add: fieldNames_def)
  note lits = literal_proper [OF l cn] literal_proper [OF l fn [OF names(1)]] literal_proper [OF l fn [OF names(2)]]
    literal_proper [OF l fn [OF names(3)]] literal_proper [OF l fn [OF names(4)]] literal_proper [OF l fn [OF names(5)]]
    literal_proper [OF l fn [OF names(6)]]
  show "proper m (stringAt m) R d"
    using lits(1,3,5,7,9,11,13) by (simp add: d' DEVICE_DUMP_MAP_DATA_def DEVICE_DUMP_BARS_def del: proper.simps(2))
  show "meaning (stringAt m) d = named (deviceFields device)"
    using lits(2,4,6,8,10,12,14)
    by (simp add: d' DEVICE_DUMP_MAP_DATA_def DEVICE_DUMP_BARS_def named_def deviceFields_def comp_def)
qed

lemma devices_message:
  assumes l: "literals lit m R" and d: "devicesDump lit devices = Some ds"
  shows "(\<forall>d \<in> set ds. proper m (stringAt m) R d) \<and> length ds = length devices \<and>
    map (meaning (stringAt m)) ds = map (\<lambda>device. named (deviceFields device)) devices"
  using d
proof (induction devices arbitrary: ds)
  case (Cons device devices)
  then obtain d ds' where "DEVICE_DUMP lit device = Some d" "devicesDump lit devices = Some ds'" "ds = d # ds'"
    by (auto split: bind_splits)
  then show ?case using Cons.IH device_message [OF l] by auto
qed simp

lemma dumpMessage_spec:
  fixes m :: bytes and w :: World and n :: u32
  defines "data \<equiv> answers w (trace w @ [Malloc n])"
    and "buffer \<equiv> answers w (trace w @ [Malloc n, RequestMemory 1 0 0])"
  assumes n: "MSG_LENGTH m d = Some n" and fits: "length (encode (meaning str d)) \<le> unat n"
    and d: "proper m str (span data (unat n)) d" and apart: "span data (unat n) \<inter> span buffer (unat n) = {}"
  shows "\<exists>m'. dumpMessage d (w, m) = Some (answers w (trace w @ [Malloc n, RequestMemory 1 0 0, GetPhysicalAddress buffer]),
      after w [Malloc n, RequestMemory 1 0 0, GetPhysicalAddress buffer, Free buffer], m') \<and>
    bytes_at m' buffer (encode (meaning str d)) \<and> (\<forall>a. a \<notin> span data (unat n) \<union> span buffer (unat n) \<longrightarrow> m' a = m a)"
proof -
  let ?e = "encode (meaning str d)" and ?m = "memset m data 0 n" and ?R = "span data (unat n)"
  have "proper ?m str ?R d" using d by (rule proper_cong) (simp add: memset_at)
  moreover have sub: "span data (length ?e) \<subseteq> ?R" by (rule span_prefix [OF fits])
  moreover have len: "length ?e \<le> 2 ^ 32" using fits u32_le [of n] by simp
  ultimately obtain q m1 where wr: "WRITE d (data, ?m) = Some (q, m1)" "wrote ?m data (q, m1) ?e"
    using WRITE_spec [of str ?R d] unfolding writes_def by (metis surj_pair)
  let ?m' = "memcpy m1 data buffer n"
  have b1: "bytes_at m1 data ?e" "\<And>a. a \<notin> span data (length ?e) \<Longrightarrow> m1 a = ?m a"
    using wr(2) by (auto simp: wrote_def)
  have "?m' (buffer + of_nat i) = ?e ! i" if i: "i < length ?e" for i
  proof -
    have "buffer + of_nat i \<in> span buffer (unat n)" using i fits by (intro span_in) simp
    then have "?m' (buffer + of_nat i) = m1 (data + of_nat i)" by (simp add: memcpy_at [OF apart])
    then show ?thesis using b1(1) i by (simp add: bytes_at_iff)
  qed
  then have "bytes_at ?m' buffer ?e" by (simp add: bytes_at_iff)
  moreover have "?m' a = m a" if "a \<notin> ?R \<union> span buffer (unat n)" for a
    using that sub b1(2) [of a] by (auto simp: memcpy_at [OF apart] memset_at)
  ultimately show ?thesis using n wr(1)
    by (auto simp: dumpMessage_def data_def buffer_def Let_def)
qed

text \<open>Every field of a device is found under its name, although one of the names is the beginning of another.\<close>

lemma find_field:
  assumes "name \<in> set fieldNames"
  shows "\<exists>v. List.find (\<lambda>(k, v). prefix (bytesOf name) k) (deviceFields device) = Some (bytesOf name, v) \<and>
    map_of (deviceFields device) (bytesOf name) = Some v"
  using assms by (auto simp: fieldNames_def deviceFields_def bytesOf_def)

lemma device_fields_found:
  assumes "scratch alloc release ok R B" and "B < 2 ^ 32" and "bytes_at m p (encode (named (deviceFields device)))"
    and "span p (length (encode (named (deviceFields device)))) \<subseteq> R" and "cstr m q (bytesOf name)"
    and "span q (length name + 1) \<subseteq> R" and "40 \<le> B" and name: "name \<in> set fieldNames" and "unat (pci_class device) < length classNames" and "ok h"
  shows "\<exists>result h' m' v. msgPackMapGetFromString alloc release h m p q = Some (result, h', m') \<and> ok h' \<and> (\<forall>a \<in> R. m' a = m a) \<and>
    map_of (deviceFields device) (bytesOf name) = Some v \<and> bytes_at m' result (encode v) \<and>
    span result (length (encode v)) \<subseteq> R"
proof -
  have "length (classNames ! unat (pci_class device)) < 40" using assms(9) names_short by simp
  moreover have "0 \<notin> set (bytesOf x)" if "x \<in> set fieldNames" for x using that by (auto simp: fieldNames_def bytesOf_def)
  ultimately have keys: "\<forall>(k, v) \<in> set (deviceFields device). 0 \<notin> set k \<and> length k < B \<and> small v"
    using assms(7) by (auto simp: deviceFields_def fieldNames_def)
  have "length (deviceFields device) < 128" by (simp add: deviceFields_def)
  moreover have "span q (length (bytesOf name) + 1) \<subseteq> R" using assms(6) by simp
  ultimately have look: "\<exists>result h' m'. msgPackMapGetFromString alloc release h m p q = Some (result, h', m') \<and> ok h' \<and>
      (\<forall>a \<in> R. m' a = m a) \<and> (case List.find (\<lambda>(k, v). prefix (bytesOf name) k) (deviceFields device) of
        None \<Rightarrow> result = 0
      | Some (k, v) \<Rightarrow> \<exists>n. valueOffset (bytesOf name) (deviceFields device) = Some n \<and>
          result = p + of_nat (length (mapHead (length (deviceFields device))) + n) \<and> bytes_at m' result (encode v) \<and>
          span result (length (encode v)) \<subseteq> span p (length (encode (named (deviceFields device)))))"
    using lookup_named [OF assms(1-5) _ keys _ assms(10)] by blast
  obtain v where v: "List.find (\<lambda>(k, v). prefix (bytesOf name) k) (deviceFields device) = Some (bytesOf name, v)"
    "map_of (deviceFields device) (bytesOf name) = Some v" using find_field [OF name] by blast
  show ?thesis using look assms(4) unfolding v(1) option.case prod.case v(2) by blast
qed


text \<open>For the example: the literals one after the other from an address on.\<close>

fun place :: "nat \<Rightarrow> string list \<Rightarrow> string \<Rightarrow> u32" where
  "place a [] x = 0"
| "place a (y # ys) x = (if x = y then of_nat a else place (a + length y + 1) ys x)"

lemma place_cstr:
  assumes "bytes_at m (of_nat a) (concat (map (\<lambda>x. bytesOf x @ [0]) xs))" and "\<forall>y \<in> set xs. 0 \<notin> set (bytesOf y)" and "x \<in> set xs"
  shows "cstr m (place a xs x) (bytesOf x) \<and> (\<exists>i. a \<le> i \<and> i + length x + 1 \<le> a + length (concat (map (\<lambda>x. bytesOf x @ [0]) xs)) \<and>
    place a xs x = of_nat i)"
  using assms
proof (induction xs arbitrary: a)
  case (Cons y xs)
  have b: "bytes_at m (of_nat a) (bytesOf y @ [0])"
    "bytes_at m (of_nat (a + length y + 1)) (concat (map (\<lambda>x. bytesOf x @ [0]) xs))"
    using Cons.prems(1) by (simp_all add: bytes_at_append add_ac)
  show ?case
  proof (cases "x = y")
    case True
    have "cstr m (of_nat a) (bytesOf y)" unfolding cstr_bytes using b(1) Cons.prems(2) by simp
    then show ?thesis using True by auto
  next
    case False
    have "\<forall>y \<in> set xs. 0 \<notin> set (bytesOf y)" "x \<in> set xs" using Cons.prems(2,3) False by simp_all
    from Cons.IH [OF b(2) this] obtain i where "cstr m (place (a + length y + 1) xs x) (bytesOf x)" "a + length y + 1 \<le> i"
      "i + length x + 1 \<le> a + length y + 1 + length (concat (map (\<lambda>x. bytesOf x @ [0]) xs))" "place (a + length y + 1) xs x = of_nat i"
      by blast
    then show ?thesis using False by (auto intro!: exI [of _ i])
  qed
qed simp

definition imageLiterals :: "string list" where
  "imageLiterals = fieldNames @ classNames"

definition imageMemory :: bytes where
  "imageMemory = messageMemory (0 # concat (map (\<lambda>x. bytesOf x @ [0]) imageLiterals))"

lemma image_literals: "literals (place 1 imageLiterals) imageMemory (span 0x1000 n)" if "n \<le> 0x1000"
proof -
  let ?bs = "concat (map (\<lambda>x. bytesOf x @ [0]) imageLiterals)"
  have l: "length ?bs < 1000" by (simp add: imageLiterals_def fieldNames_def classNames_def)
  have "bytes_at imageMemory 0 (0 # ?bs)" unfolding imageMemory_def using l by (intro messageMemory_bytes) simp
  then have b: "bytes_at imageMemory (of_nat 1) ?bs" by simp
  have z: "\<forall>y \<in> set imageLiterals. 0 \<notin> set (bytesOf y)"
    by (simp add: imageLiterals_def fieldNames_def classNames_def bytesOf_def)
  have "cstr imageMemory (place 1 imageLiterals x) (bytesOf x) \<and> place 1 imageLiterals x \<noteq> 0 \<and>
      span (place 1 imageLiterals x) (length x + 1) \<inter> span 0x1000 n = {}" if "x \<in> set fieldNames \<union> set classNames" for x
  proof -
    have "x \<in> set imageLiterals" using that by (auto simp: imageLiterals_def)
    then obtain i where i: "cstr imageMemory (place 1 imageLiterals x) (bytesOf x)" "1 \<le> i" "i + length x + 1 \<le> 1 + length ?bs"
      "place 1 imageLiterals x = of_nat i" using place_cstr [OF b z] by blast
    have "(of_nat i :: u32) \<noteq> of_nat 0" using i(2,3) l by (subst of_nat32_eq) auto
    moreover have "span (0 + of_nat i) (length x + 1) \<inter> span (0 + of_nat 0x1000) n = {}"
      using i(3) l \<open>n \<le> 0x1000\<close> by (intro span_apart) simp_all
    ultimately show ?thesis using i(1,4) by simp
  qed
  then show ?thesis unfolding literals_def by blast
qed

definition exampleDevice :: PciDevice where
  "exampleDevice = \<lparr>pci_id = 0, pci_bus = 0, pci_device = 0, pci_function = 0, pci_class = 1, pci_subclass = 0, configuration = 0,
     pci_deviceId = 0, vendorId = 0, programmingInterface = 0, bar = replicate 6 0\<rparr>"

definition exampleWorld :: World where
  "exampleWorld = \<lparr>trace = [], answers = (\<lambda>cs. case last cs of Malloc _ \<Rightarrow> 0x1000 | RequestMemory _ _ _ \<Rightarrow> 0x2000 | _ \<Rightarrow> 0x9000)\<rparr>"


end
