(* ===== verification/MsgPackDump.thy ===== *)
theory MsgPackDump
  imports MsgPackQuery Programs Stdio
begin

text \<open>
  \<open>_msgPackDump\<close> of \<open>hlib/msgPack/util.c\<close>, which prints encoded data as lines of text and returns the position behind it. The
  texts of a line are values here: the two buffers they are built in are allocated and given back, their bytes are not part
  of the memory. The loops over the elements of arrays and maps with their recursive calls are one loop over a list of
  indentations.
\<close>

section \<open>Lines\<close>

definition toText :: "u8 list \<Rightarrow> string" where
  "toText bs = map (\<lambda>b. char_of (unat b)) bs"

text \<open>The number of bytes shown on the line, \<open>bytesToRead\<close>.\<close>

definition dumpSize :: "bytes \<Rightarrow> u32 \<Rightarrow> u32" where
  "dumpSize m data =
     (let info = infoAt m data; length = lengthAt m data in
      1 + (case readType info of
             Inline \<Rightarrow> 0
           | InlineLength \<Rightarrow> length
           | FixedLength \<Rightarrow> readTypeParameter info
           | ReadLength \<Rightarrow> readTypeParameter info + length
           | ElementsInline \<Rightarrow> 0
           | ReadElements \<Rightarrow> readTypeParameter info))"

definition hexDump :: "bytes \<Rightarrow> u32 \<Rightarrow> nat \<Rightarrow> string" where
  "hexDump m data n = toText (butlast (concat (map (\<lambda>i. hexByte (m (data + of_nat i)) @ [32]) [0..<n])))"

text \<open>The allocator of the program.\<close>

definition mallocArea :: "World \<Rightarrow> u32 \<Rightarrow> (u32 \<times> World) option" where
  "mallocArea w count = call (Malloc count) w"

definition freeArea :: "World \<Rightarrow> u32 \<Rightarrow> World option" where
  "freeArea w a = perform (Free a) w"

text \<open>
  The line of a value and the indentations of its elements. \<open>junk\<close> is the value of the variable \<open>buffer\<close>, which is only set
  for strings. The pointers returned are released after the elements are shown: a string is released here and then again.
\<close>

definition dumpLine :: "u32 \<Rightarrow> u32 \<Rightarrow> u32 \<Rightarrow> World \<times> bytes \<Rightarrow> (u32 list \<times> u32 list \<times> World \<times> bytes) option" where
  "dumpLine junk data indent = (\<lambda>(w, m). do {
     let info = infoAt m data;
     let length = lengthAt m data;
     let size = dumpSize m data;
     (hexData, w) \<leftarrow> mallocArea w (3 * size);
     (indentData, w) \<leftarrow> mallocArea w (indent + 1);
     let start = [Text (replicate (unat indent) (CHR '' '')), Text (hexDump m data (unat size)), Text (formatName info)];
     let pointers = [hexData, indentData];
     (case dataType info of
        TYPE_NIL \<Rightarrow> do {
          w \<leftarrow> perform (Print ''%s%s: %s'' start) w;
          Some ([], pointers @ [junk], w, m)
        }
      | TYPE_INTEGER \<Rightarrow> do {
          w \<leftarrow> perform (Print ''%s%s: %s(%i)'' (start @ [Num (of_int (msgPackReadInt m data))])) w;
          Some ([], pointers @ [junk], w, m)
        }
      | TYPE_BOOLEAN \<Rightarrow> do {
          w \<leftarrow> perform (Print ''%s%s: %s(%s)'' (start @ [Text (if length \<noteq> 0 then ''true'' else ''false'')])) w;
          Some ([], pointers @ [junk], w, m)
        }
      | TYPE_STRING \<Rightarrow> do {
          (buffer, w, m) \<leftarrow> msgPackReadStr mallocArea w m data;
          count \<leftarrow> strlen m buffer;
          w \<leftarrow> perform (Print ''%s%s: %s(\"%s\")'' (start @ [Text (toText (map (\<lambda>i. m (buffer + of_nat i)) [0..<unat count]))])) w;
          w \<leftarrow> freeArea w buffer;
          Some ([], pointers @ [buffer], w, m)
        }
      | TYPE_ARRAY \<Rightarrow> do {
          w \<leftarrow> perform (Print ''%s%s: %s(%i)'' (start @ [Num length])) w;
          Some (replicate (unat length) (indent + 2), pointers @ [junk], w, m)
        }
      | TYPE_MAP \<Rightarrow> do {
          w \<leftarrow> perform (Print ''%s%s: %s(%i)'' (start @ [Num length])) w;
          Some (concat (replicate (unat length) [indent + 1, indent + 2]), pointers @ [junk], w, m)
        }
      | _ \<Rightarrow> do {
          w \<leftarrow> perform (Print ''unknown'' []) w;
          Some ([], pointers @ [junk], w, m)
        })
   })"

partial_function (option) dumpList :: "u32 \<Rightarrow> u32 \<Rightarrow> u32 list \<Rightarrow> World \<times> bytes \<Rightarrow> (u32 \<times> World \<times> bytes) option" where
  "dumpList junk data indents s =
     (case indents of
        [] \<Rightarrow> Some (data, s)
      | indent # rest \<Rightarrow> do {
          (elements, pointers, s') \<leftarrow> dumpLine junk data indent s;
          (next, w, m) \<leftarrow> dumpList junk (data + dumpSize (snd s) data) elements s';
          w \<leftarrow> ofold (\<lambda>a w. freeArea w a) pointers w;
          dumpList junk next rest (w, m)
        })"

definition msgPackDump :: "u32 \<Rightarrow> u32 \<Rightarrow> u32 \<Rightarrow> World \<times> bytes \<Rightarrow> (u32 \<times> World \<times> bytes) option" where
  "msgPackDump junk data indent s = dumpList junk data [indent] s"

section \<open>The dump of an encoded value ends behind it\<close>

text \<open>Strings without zeros that fit an allocation of at most \<open>B\<close> bytes.\<close>

fun plain :: "nat \<Rightarrow> msg \<Rightarrow> bool" where
  "plain B (MInt x t) \<longleftrightarrow> True"
| "plain B (MStr s) \<longleftrightarrow> 0 \<notin> set s \<and> length s < B"
| "plain B (MArr vs) \<longleftrightarrow> (\<forall>v \<in> set vs. plain B v)"
| "plain B (MMap kvs) \<longleftrightarrow> (\<forall>kv \<in> set kvs. plain B (fst kv) \<and> plain B (snd kv))"

lemma map_formats: "dataType (formatInfo f) = TYPE_MAP \<Longrightarrow> readType (formatInfo f) = ElementsInline \<or> readType (formatInfo f) = ReadElements"
  by (cases f) (simp_all add: mkInfo_def)

lemma dumpSize_seekHead: "data + dumpSize m data = fst (snd (seekHead m data))"
  using map_formats [of "FirstByteToFormat (m data)"] by (auto simp: dumpSize_def seekHead_def Let_def split: ReadTypes.splits)

definition dumped :: "(u32 set) \<Rightarrow> nat \<Rightarrow> msg \<Rightarrow> bool" where
  "dumped R B v \<longleftrightarrow> (\<forall>junk p indent rest w m. scratch mallocArea freeArea (\<lambda>_. True) R B \<and> bytes_at m p (encode v) \<and>
     span p (length (encode v)) \<subseteq> R \<longrightarrow>
     (\<exists>w' m'. (\<forall>a \<in> R. m' a = m a) \<and>
        dumpList junk p (indent # rest) (w, m) = dumpList junk (p + of_nat (length (encode v))) rest (w', m')))"

lemma dumpList_Nil [simp]: "dumpList junk p [] s = Some (p, s)"
  by (subst dumpList.simps) simp

lemma releases: "\<exists>w'. ofold (\<lambda>a w. freeArea w a) pointers w = Some w'"
  using ofold_after [of pointers "\<lambda>a w. freeArea w a" "\<lambda>a. [Free a]"] by (simp add: freeArea_def)

text \<open>A value without elements: the line, the releases, and on to the next value.\<close>

lemma dumpList_leaf:
  assumes "dumpLine junk p indent (w, m) = Some ([], pointers, w1, m1)"
  shows "\<exists>w'. dumpList junk p (indent # rest) (w, m) = dumpList junk (p + dumpSize m p) rest (w', m1)"
  using assms releases [of pointers w1] by (subst dumpList.simps) auto

lemma dumpList_elements:
  assumes "\<forall>v \<in> set vs. dumped R B v" and "scratch mallocArea freeArea (\<lambda>_. True) R B" and "bytes_at m p (concat (map encode vs))"
    and "span p (length (concat (map encode vs))) \<subseteq> R" and "length indents = length vs"
  shows "\<exists>w' m'. (\<forall>a \<in> R. m' a = m a) \<and>
    dumpList junk p (indents @ rest) (w, m) = dumpList junk (p + of_nat (length (concat (map encode vs)))) rest (w', m')"
  using assms
proof (induction vs arbitrary: p indents w m)
  case Nil
  then show ?case by auto
next
  case (Cons v vs)
  obtain i js where i: "indents = i # js" "length js = length vs" using Cons.prems(5) by (cases indents) auto
  let ?v = "encode v" and ?vs = "concat (map encode vs)"
  have b: "bytes_at m p ?v" "bytes_at m (p + of_nat (length ?v)) ?vs" using Cons.prems(3) by (simp_all add: bytes_at_append)
  have "span p (length ?v + length ?vs) \<subseteq> R" using Cons.prems(4) by simp
  note s = span_split [OF this]
  obtain w1 m1 where 1: "\<forall>a \<in> R. m1 a = m a"
    "dumpList junk p (i # js @ rest) (w, m) = dumpList junk (p + of_nat (length ?v)) (js @ rest) (w1, m1)"
    using Cons.prems(1,2) b(1) s unfolding dumped_def by (metis list.set_intros(1))
  have "bytes_at m1 (p + of_nat (length ?v)) ?vs" using b(2) s 1(1) bytes_at_cong [of "p + of_nat (length ?v)" ?vs m1 m] by blast
  then obtain w2 m2 where 2: "\<forall>a \<in> R. m2 a = m1 a" "dumpList junk (p + of_nat (length ?v)) (js @ rest) (w1, m1) =
      dumpList junk (p + of_nat (length ?v) + of_nat (length ?vs)) rest (w2, m2)"
    using Cons.IH [OF _ Cons.prems(2), of m1 "p + of_nat (length ?v)" js w1] Cons.prems(1) s i(2) by auto
  then show ?case using 1 i(1) by (auto simp: add_ac)
qed

lemma dumped_container:
  assumes line: "\<And>junk p indent w m. bytes_at m p (front @ concat (map encode vs)) \<Longrightarrow> \<exists>indents pointers w'.
      dumpLine junk p indent (w, m) = Some (indents, pointers, w', m) \<and> length indents = length vs \<and>
      p + dumpSize m p = p + of_nat (length front)"
    and vs: "\<forall>v \<in> set vs. dumped R B v" and enc: "encode v = front @ concat (map encode vs)"
  shows "dumped R B v"
  unfolding dumped_def
proof (intro allI impI, elim conjE)
  fix junk p indent rest w m
  assume sc: "scratch mallocArea freeArea (\<lambda>_. True) R B" and b: "bytes_at m p (encode v)" and sub: "span p (length (encode v)) \<subseteq> R"
  let ?q = "p + of_nat (length front)" and ?vs = "concat (map encode vs)"
  obtain indents pointers w1 where l: "dumpLine junk p indent (w, m) = Some (indents, pointers, w1, m)" "length indents = length vs"
    "p + dumpSize m p = ?q" using line b unfolding enc by metis
  have "bytes_at m ?q ?vs" "span ?q (length ?vs) \<subseteq> R" using b span_split [of p "length front" "length ?vs" R] sub
    by (simp_all add: enc bytes_at_append)
  from dumpList_elements [OF vs sc this l(2), of junk "[]" w1]
  obtain w2 m2 where e: "\<forall>a \<in> R. m2 a = m a" "dumpList junk ?q indents (w1, m) = Some (?q + of_nat (length ?vs), w2, m2)" by auto
  obtain w3 where "ofold (\<lambda>a w. freeArea w a) pointers w2 = Some w3" using releases by blast
  then have "dumpList junk p (indent # rest) (w, m) = dumpList junk (?q + of_nat (length ?vs)) rest (w3, m2)"
    using l e(2) by (subst dumpList.simps) simp
  then show "\<exists>w' m'. (\<forall>a \<in> R. m' a = m a) \<and>
      dumpList junk p (indent # rest) (w, m) = dumpList junk (p + of_nat (length (encode v))) rest (w', m')"
    using e(1) by (auto simp: enc add_ac)
qed

lemma arrHead_read:
  assumes "bytes_at m p (arrHead n)" and "n < 65536"
  shows "dataType (infoAt m p) = TYPE_ARRAY" and "lengthAt m p = of_nat n"
proof -
  have "dataType (infoAt m p) = TYPE_ARRAY \<and> lengthAt m p = of_nat n"
  proof (cases "n < 16")
    case True
    then have "m p = 0x90 + of_nat n" using assms(1) by (simp add: arrHead_def)
    then show ?thesis using True fix_formats(2) [of n] low_bits(2) [of n]
      by (simp add: lengthAt_def msgPackReadLength_def mkInfo_def onebit_def)
  next
    case False
    then have b: "m p = 0xDC" "bytes_at m (p + 1) (le16 (of_nat n))" using assms by (simp_all add: arrHead_def)
    moreover have "(ucast (of_nat n :: u16) :: u32) = of_nat n"
      using assms(2) by (simp add: word_unat_eq_iff unsigned_ucast_eq unat_of_nat take_bit_nat_eq_self)
    ultimately show ?thesis using read16_le [OF b(2)] by (simp add: lengthAt_def msgPackReadLength_def mkInfo_def)
  qed
  then show "dataType (infoAt m p) = TYPE_ARRAY" "lengthAt m p = of_nat n" by blast+
qed

lemma mapHead_length:
  assumes "bytes_at m p (mapHead n)" and "n < 65536" shows "lengthAt m p = of_nat n"
  using mapHead_read [OF assms] by (auto simp: msgPackReadMapSize_def Let_def split: if_splits)

lemma int_head:
  assumes "bytes_at m p (intBytes x t)"
  shows "dataType (infoAt m p) = TYPE_INTEGER"
proof -
  consider "\<not> (sint x < 0 \<and> t \<noteq> Signed)" "unat x < 128"
    | "\<not> (sint x < 0 \<and> t \<noteq> Signed)" "\<not> unat x < 128" "4294967264 \<le> unat x"
    | "sint x < 0 \<and> t \<noteq> Signed \<or> \<not> (x AND 0x7F = x \<or> NOT x AND 0x1F = NOT x)"
    using and_masks(1) [of x] not_fix [of x] by auto
  then show ?thesis
  proof cases
    case 1
    then have "intBytes x t = [ucast x]" by (auto simp: intBytes_def and_masks)
    then show ?thesis using assms int_formats(1) [OF 1(2)] by (simp add: mkInfo_def)
  next
    case 2
    then have "intBytes x t = [ucast x]" by (auto simp: intBytes_def not_fix)
    then show ?thesis using assms int_formats(2) [OF 2(3)] by (simp add: mkInfo_def)
  next
    case 3
    then show ?thesis using assms by (auto simp: intBytes_def mkInfo_def split: if_splits)
  qed
qed

lemma dumped_int: "dumped R B (MInt x t)"
  unfolding dumped_def
proof (intro allI impI, elim conjE)
  fix junk p indent rest w m assume "bytes_at m p (encode (MInt x t))"
  then have b: "bytes_at m p (intBytes x t)" by simp
  obtain pointers w1 where "dumpLine junk p indent (w, m) = Some ([], pointers, w1, m)"
    using int_head [OF b] by (simp add: dumpLine_def mallocArea_def Let_def)
  from dumpList_leaf [OF this, of rest] seekHead_int [OF b]
  show "\<exists>w' m'. (\<forall>a \<in> R. m' a = m a) \<and>
      dumpList junk p (indent # rest) (w, m) = dumpList junk (p + of_nat (length (encode (MInt x t)))) rest (w', m')"
    by (auto simp: dumpSize_seekHead)
qed

lemma dumped_string:
  assumes "0 \<notin> set s" and "length s < B" and "B < 2 ^ 32" shows "dumped R B (MStr s)"
  unfolding dumped_def
proof (intro allI impI, elim conjE)
  fix junk p indent rest w m
  assume sc: "scratch mallocArea freeArea (\<lambda>_. True) R B" and b: "bytes_at m p (encode (MStr s))" and sub: "span p (length (encode (MStr s))) \<subseteq> R"
  have len: "length s + 1 < 2 ^ 32" using assms(2,3) by simp
  have hd: "bytes_at m p (strHead (length s))" using b by (simp add: bytes_at_append)
  obtain h i w1 where w1: "mallocArea w (3 * dumpSize m p) = Some (h, w1)" by (simp add: mallocArea_def)
  obtain i w2 where w2: "mallocArea w1 (indent + 1) = Some (i, w2)" by (simp add: mallocArea_def)
  have un: "unat (of_nat (length s) + 1 :: u32) = length s + 1"
    using unat_of_nat32 [of "length s + 1"] len by (simp add: add.commute)
  then have "unat (of_nat (length s) + 1 :: u32) \<le> B" using assms(2) by simp
  then obtain r w3 where al: "mallocArea w2 (of_nat (length s) + 1) = Some (r, w3)" "r \<noteq> 0"
    "span r (unat (of_nat (length s) + 1 :: u32)) \<inter> R = {}" using sc unfolding scratch_def by blast
  then have apart: "span r (length s + 1) \<inter> R = {}" using un by simp
  then have "span p (length (encode (MStr s))) \<inter> span r (length s + 1) = {}" using sub by blast
  then obtain m1 where rd: "msgPackReadStr mallocArea w2 m p = Some (r, w3, m1)" "cstr m1 r s"
    "\<forall>a. a \<notin> span r (length s + 1) \<longrightarrow> m1 a = m a"
    using readStr_spec [of m p s mallocArea w2 r w3] b len assms(1) al(1) by blast
  obtain w4 where "dumpLine junk p indent (w, m) = Some ([], [h, i, r], w4, m1)"
    using strHead_format(1) [OF hd] len w1 w2 rd(1) strlen_cstr [OF rd(2) al(2)]
    by (simp add: dumpLine_def Let_def freeArea_def)
  from dumpList_leaf [OF this, of rest] seekHead_str [OF hd] len
  have "\<exists>w'. dumpList junk p (indent # rest) (w, m) = dumpList junk (p + of_nat (length (encode (MStr s)))) rest (w', m1)"
    by (simp add: dumpSize_seekHead)
  moreover have "\<forall>a \<in> R. m1 a = m a" using rd(3) apart by blast
  ultimately show "\<exists>w' m'. (\<forall>a \<in> R. m' a = m a) \<and>
      dumpList junk p (indent # rest) (w, m) = dumpList junk (p + of_nat (length (encode (MStr s)))) rest (w', m')" by blast
qed

lemma dumped_encode: "small v \<Longrightarrow> plain B v \<Longrightarrow> B < 2 ^ 32 \<Longrightarrow> dumped R B v"
proof (induction v)
  case (MInt x t)
  then show ?case using dumped_int by blast
next
  case (MStr s)
  then show ?case using dumped_string by simp
next
  case (MArr vs)
  have n: "length vs < 65536" "unat (of_nat (length vs) :: u32) = length vs" using MArr.prems(1) by simp_all
  show ?case
  proof (rule dumped_container)
    fix junk p indent w m assume "bytes_at m p (arrHead (length vs) @ concat (map encode vs))"
    then have b: "bytes_at m p (arrHead (length vs))" by (simp add: bytes_at_append)
    show "\<exists>indents pointers w'. dumpLine junk p indent (w, m) = Some (indents, pointers, w', m) \<and>
        length indents = length vs \<and> p + dumpSize m p = p + of_nat (length (arrHead (length vs)))"
      using arrHead_read [OF b n(1)] seekHead_arr [OF b] n
      by (simp add: dumpLine_def mallocArea_def Let_def dumpSize_seekHead)
  qed (use MArr in simp_all)
next
  case (MMap kvs)
  let ?vs = "concat (map (\<lambda>(k, v). [k, v]) kvs)"
  have n: "length kvs < 65536" "unat (of_nat (length kvs) :: u32) = length kvs" using MMap.prems(1) by simp_all
  have flat: "concat (map encode ?vs) = concat (map (\<lambda>(k, v). encode k @ encode v) kvs)" "length ?vs = 2 * length kvs"
    by (induction kvs) auto
  have "dumped R B (fst kv) \<and> dumped R B (snd kv)" if "kv \<in> set kvs" for kv
  proof -
    have "small (fst kv)" "small (snd kv)" "plain B (fst kv)" "plain B (snd kv)" using MMap.prems(1,2) that by simp_all
    then show ?thesis using MMap.IH(1) [OF that, of "fst kv"] MMap.IH(2) [OF that, of "snd kv"] MMap.prems(3) by (cases kv) simp
  qed
  then have vs: "\<forall>v \<in> set ?vs. dumped R B v" by fastforce
  show ?case
  proof (rule dumped_container [OF _ vs])
    fix junk p indent w m assume "bytes_at m p (mapHead (length kvs) @ concat (map encode ?vs))"
    then have b: "bytes_at m p (mapHead (length kvs))" by (simp add: bytes_at_append)
    have "length (concat (replicate j [x, y])) = 2 * j" for j and x y :: u32 by (induction j) simp_all
    then show "\<exists>indents pointers w'. dumpLine junk p indent (w, m) = Some (indents, pointers, w', m) \<and>
        length indents = length ?vs \<and> p + dumpSize m p = p + of_nat (length (mapHead (length kvs)))"
      using mapHead_read(1) [OF b n(1)] mapHead_length [OF b n(1)] seekHead_map [OF b] n
      by (simp add: dumpLine_def mallocArea_def Let_def dumpSize_seekHead flat(2))
  qed (simp add: flat(1))
qed

text \<open>Where \<open>msgPackSeek\<close> ends, the dump ends, and the encoded data is as before.\<close>

theorem dump_ends_behind_value:
  assumes "small v" and "plain B v" and "B < 2 ^ 32" and "scratch mallocArea freeArea (\<lambda>_. True) R B"
    and "bytes_at m p (encode v)" and "span p (length (encode v)) \<subseteq> R"
  shows "\<exists>e w' m'. msgPackDump junk p indent (w, m) = Some (e, w', m') \<and> msgPackSeek m p = Some e \<and> (\<forall>a \<in> R. m' a = m a)"
proof -
  obtain w' m' where "\<forall>a \<in> R. m' a = m a"
    "dumpList junk p [indent] (w, m) = dumpList junk (p + of_nat (length (encode v))) [] (w', m')"
    using dumped_encode [OF assms(1-3), of R] assms(4-6) unfolding dumped_def by blast
  then show ?thesis using seek_encode [OF assms(1), of m] assms(5) by (auto simp: msgPackDump_def seeks_def)
qed

end
