(* ===== verification/Buffers.thy ===== *)
theory Buffers
  imports PciDump MsgPackDump
begin

text \<open>
  The program \<open>userland/buffersTests\<close>, which asks the PCI service for its devices and prints them, with the macro \<open>GET\<close> of
  \<open>include/msgpack.h\<close>. Together with \<open>PciDump\<close> it shows both ends of a message. \<open>lit\<close> gives the addresses of the string
  literals of the program.
\<close>

section \<open>Fields of a message\<close>

text \<open>\<open>GET\<close>: the inner \<open>None\<close> is the return with -1 after a message.\<close>

definition quoted :: "string \<Rightarrow> string" where
  "quoted s = CHR 0x27 # s @ [CHR 0x27]"

definition fieldExpression :: "string \<Rightarrow> string" where
  "fieldExpression name = ''GET_FROM_STRING(data, '' @ [CHR 0x22] @ name @ [CHR 0x22] @ '', -1)''"

definition getField :: "(string \<Rightarrow> u32) \<Rightarrow> u32 \<Rightarrow> string \<Rightarrow> World \<times> bytes \<Rightarrow> (u32 option \<times> World \<times> bytes) option" where
  "getField lit data name = (\<lambda>(w, m). do {
     found \<leftarrow> GET_FROM_STRING mallocArea freeArea w m data (lit name);
     (case found of
        None \<Rightarrow> do {
          w \<leftarrow> perform (Print (''GET_FROM_STRING: cannot convert '' @ quoted ''data'' @ '' to a map, got %s'') [Text (formatName (infoAt m data))]) w;
          Some (None, w, m)
        }
      | Some (element, w, m) \<Rightarrow> Some (Some element, w, m))
   })"

definition GET_INT :: "(string \<Rightarrow> u32) \<Rightarrow> u32 \<Rightarrow> string \<Rightarrow> World \<times> bytes \<Rightarrow> (u32 option \<times> World \<times> bytes) option" where
  "GET_INT lit data name s = do {
     (element, w, m) \<leftarrow> getField lit data name s;
     (case element of
        None \<Rightarrow> Some (None, w, m)
      | Some element \<Rightarrow> (case AS_INT m element of
          None \<Rightarrow> do {
            w \<leftarrow> perform (Print (''AS_INT: cannot convert '' @ quoted (fieldExpression name) @ '' to an integer'') []) w;
            Some (None, w, m)
          }
        | Some x \<Rightarrow> Some (Some (of_int x), w, m)))
   }"

definition GET_STRING :: "(string \<Rightarrow> u32) \<Rightarrow> u32 \<Rightarrow> string \<Rightarrow> World \<times> bytes \<Rightarrow> (u32 option \<times> World \<times> bytes) option" where
  "GET_STRING lit data name s = do {
     (element, w, m) \<leftarrow> getField lit data name s;
     (case element of
        None \<Rightarrow> Some (None, w, m)
      | Some element \<Rightarrow> do {
          result \<leftarrow> AS_STRING mallocArea w m element;
          (case result of
             None \<Rightarrow> do {
               w \<leftarrow> perform (Print (''AS_STRING: cannot convert '' @ quoted (fieldExpression name) @ '' to a string'') []) w;
               Some (None, w, m)
             }
           | Some (str, w, m) \<Rightarrow> Some (Some str, w, m))
        })
   }"

section \<open>The program\<close>

text \<open>What follows a field, unless the function has returned.\<close>

definition orReturn ::
  "(u32 option \<times> World \<times> bytes) option \<Rightarrow> (u32 \<Rightarrow> World \<times> bytes \<Rightarrow> (u32 \<times> World \<times> bytes) option) \<Rightarrow> (u32 \<times> World \<times> bytes) option" where
  "orReturn r f = do {
     (x, s) \<leftarrow> r;
     (case x of None \<Rightarrow> Some (- 1, s) | Some x \<Rightarrow> f x s)
   }"

text \<open>\<open>showDevice\<close> of this program.\<close>

definition showMessage :: "(string \<Rightarrow> u32) \<Rightarrow> u32 \<Rightarrow> World \<times> bytes \<Rightarrow> (u32 \<times> World \<times> bytes) option" where
  "showMessage lit data s =
     orReturn (GET_STRING lit data ''className'' s) (\<lambda>name s.
     orReturn (GET_INT lit data ''class'' s) (\<lambda>class s.
     orReturn (GET_INT lit data ''id'' s) (\<lambda>ident s.
     orReturn (GET_INT lit data ''subclass'' s) (\<lambda>subclass s.
     orReturn (GET_INT lit data ''programmingInterface'' s) (\<lambda>interface (w, m). do {
       count \<leftarrow> strlen m name;
       w \<leftarrow> perform (Print ''id: %i, class: \"%s\" (%i/%i/%i)''
         [Num ident, Text (toText (map (\<lambda>i. m (name + of_nat i)) [0..<unat count])), Num class, Num subclass, Num interface]) w;
       w \<leftarrow> freeArea w name;
       Some (0, w, m)
     })))))"

text \<open>\<open>ARRAY_LOOP\<close> with \<open>showMessage\<close> as its body.\<close>

fun showMessages :: "(string \<Rightarrow> u32) \<Rightarrow> u32 \<Rightarrow> nat \<Rightarrow> World \<times> bytes \<Rightarrow> (World \<times> bytes) option" where
  "showMessages lit element 0 s = Some s"
| "showMessages lit element (Suc n) s = do {
     (_, w, m) \<leftarrow> showMessage lit element s;
     element \<leftarrow> msgPackSeek m element;
     showMessages lit element n (w, m)
   }"

text \<open>\<open>m\<close> is the memory once the page of the PCI service is part of it.\<close>

definition buffersMain :: "(string \<Rightarrow> u32) \<Rightarrow> World \<Rightarrow> bytes \<Rightarrow> (World \<times> bytes) option" where
  "buffersMain lit w m = do {
     (dataPhysical, w) \<leftarrow> call (Ask ''lspci'' ''dumpAll'' 1 0) w;
     (data, w) \<leftarrow> call (RequestMemory 1 0 dataPhysical) w;
     w \<leftarrow> perform (Print ''pci data:'' []) w;
     if dataType (infoAt m data) \<noteq> TYPE_ARRAY then do {
       w \<leftarrow> perform (Print (''ARRAY_LOOP: cannot convert '' @ quoted ''data'' @ '' to an array'') []) w;
       Some (w, m)
     } else showMessages lit (data + 1) (unat (fst (msgPackReadArraySize m data))) (w, m)
   }"

section \<open>What the program relies on\<close>

fun isPrint :: "Call \<Rightarrow> bool" where
  "isPrint (Print f args) = True"
| "isPrint c = False"

definition printed :: "World \<Rightarrow> Call list" where
  "printed w = filter isPrint (trace w)"

text \<open>
  The allocator: in the states \<open>ok\<close> an allocation keeps out of \<open>R\<close>, and while an area from \<open>r\<close> on is \<open>held\<close> it keeps out of
  that area as well; releasing the area leads back. Printing does not matter.
\<close>

definition nested :: "(World \<Rightarrow> bool) \<Rightarrow> (u32 \<Rightarrow> nat \<Rightarrow> World \<Rightarrow> bool) \<Rightarrow> u32 set \<Rightarrow> nat \<Rightarrow> bool" where
  "nested ok held R B \<longleftrightarrow>
     scratch mallocArea freeArea ok R B \<and>
     (\<forall>r n. scratch mallocArea freeArea (held r n) (R \<union> span r n) B) \<and>
     (\<forall>w n r w'. ok w \<and> unat n \<le> B \<and> mallocArea w n = Some (r, w') \<longrightarrow> held r (unat n) w') \<and>
     (\<forall>r n w f args. held r n w \<longrightarrow> ok (after w [Print f args, Free r]))"

lemma scratch_printed:
  assumes "scratch mallocArea freeArea ok R B"
  shows "scratch mallocArea freeArea (\<lambda>w. ok w \<and> printed w = P) R B"
  using assms unfolding scratch_def by (fastforce simp: mallocArea_def freeArea_def printed_def)

text \<open>The literals of the program lie in \<open>R\<close>, which no allocation touches.\<close>

definition names_in :: "(string \<Rightarrow> u32) \<Rightarrow> bytes \<Rightarrow> u32 set \<Rightarrow> bool" where
  "names_in lit m R \<longleftrightarrow> (\<forall>x \<in> set fieldNames. cstr m (lit x) (bytesOf x) \<and> span (lit x) (length x + 1) \<subseteq> R)"

lemma names_in_cong: "names_in lit m R \<Longrightarrow> (\<And>a. a \<in> R \<Longrightarrow> m' a = m a) \<Longrightarrow> names_in lit m' R"
proof -
  assume n: "names_in lit m R" and m: "\<And>a. a \<in> R \<Longrightarrow> m' a = m a"
  have "cstr m' (lit x) (bytesOf x)" if "x \<in> set fieldNames" for x
  proof -
    have "cstr m (lit x) (bytesOf x)" "span (lit x) (length x + 1) \<subseteq> R" using n that by (auto simp: names_in_def)
    then show ?thesis using cstr_cong [of "lit x" "bytesOf x" m' m] m by auto
  qed
  then show ?thesis using n by (simp add: names_in_def)
qed

section \<open>Reading fields\<close>

lemma dataType_map:
  assumes "bytes_at m p (encode (named entries))" and "length entries < 65536"
  shows "dataType (infoAt m p) = TYPE_MAP"
proof -
  have "bytes_at m p (mapHead (length entries))" using assms(1) by (simp add: named_def bytes_at_append)
  then show ?thesis using mapHead_read(1) assms(2) by blast
qed

lemma getField_found:
  assumes sc: "scratch mallocArea freeArea ok R B" "40 \<le> B" "B < 2 ^ 32" "ok w"
    and data: "bytes_at m p (encode (named (deviceFields d)))" "span p (length (encode (named (deviceFields d)))) \<subseteq> R"
    and names: "names_in lit m R" "name \<in> set fieldNames" and d: "unat (pci_class d) < length classNames"
  shows "\<exists>e w' m' v. getField lit p name (w, m) = Some (Some e, w', m') \<and> ok w' \<and> (\<forall>a \<in> R. m' a = m a) \<and>
    map_of (deviceFields d) (bytesOf name) = Some v \<and> bytes_at m' e (encode v) \<and> span e (length (encode v)) \<subseteq> R"
proof -
  have l: "cstr m (lit name) (bytesOf name)" "span (lit name) (length name + 1) \<subseteq> R" using names by (auto simp: names_in_def)
  have t: "dataType (infoAt m p) = TYPE_MAP" using dataType_map [OF data(1)] by (simp add: deviceFields_def)
  from device_fields_found [OF sc(1,3) data l sc(2) names(2) d sc(4)] show ?thesis
    by (auto simp: getField_def GET_FROM_STRING_def t)
qed

lemma GET_INT_found:
  assumes sc: "scratch mallocArea freeArea ok R B" "40 \<le> B" "B < 2 ^ 32" "ok w"
    and data: "bytes_at m p (encode (named (deviceFields d)))" "span p (length (encode (named (deviceFields d)))) \<subseteq> R"
    and names: "names_in lit m R" "name \<in> set fieldNames" and d: "unat (pci_class d) < length classNames"
    and x: "map_of (deviceFields d) (bytesOf name) = Some (MInt x Unsigned)"
  shows "\<exists>w' m'. GET_INT lit p name (w, m) = Some (Some x, w', m') \<and> ok w' \<and> (\<forall>a \<in> R. m' a = m a)"
proof -
  obtain e w' m' where e: "getField lit p name (w, m) = Some (Some e, w', m')" "ok w'" "\<forall>a \<in> R. m' a = m a"
    "bytes_at m' e (intBytes x Unsigned)" using getField_found [OF sc data names d] x by auto
  have "AS_INT m' e = Some (int (unat x))"
    using int_head [OF e(4)] readInt_intBytes [OF e(4)] by (simp add: AS_INT_def readBack_def)
  then show ?thesis using e(1-3) by (simp add: GET_INT_def)
qed

lemma GET_STRING_found:
  assumes nest: "nested ok held R B" "40 \<le> B" "B < 2 ^ 32" "ok w"
    and data: "bytes_at m p (encode (named (deviceFields d)))" "span p (length (encode (named (deviceFields d)))) \<subseteq> R"
    and names: "names_in lit m R" "name \<in> set fieldNames" and d: "unat (pci_class d) < length classNames"
    and s: "map_of (deviceFields d) (bytesOf name) = Some (MStr s)" "0 \<notin> set s" "length s < 40"
  shows "\<exists>r w' m'. GET_STRING lit p name (w, m) = Some (Some r, w', m') \<and> held r (length s + 1) w' \<and> r \<noteq> 0 \<and> cstr m' r s \<and>
    printed w' = printed w \<and> (\<forall>a \<in> R. m' a = m a)"
proof -
  have sc: "scratch mallocArea freeArea (\<lambda>w'. ok w' \<and> printed w' = printed w) R B"
    using nest(1) scratch_printed by (simp add: nested_def)
  obtain e w1 m1 where e: "getField lit p name (w, m) = Some (Some e, w1, m1)" "ok w1" "printed w1 = printed w" "\<forall>a \<in> R. m1 a = m a"
    "bytes_at m1 e (encode (MStr s))" "span e (length (encode (MStr s))) \<subseteq> R"
    using getField_found [OF sc nest(2,3) _ data names d, of w] nest(4) s(1) by auto
  have un: "unat (of_nat (length s) + 1 :: u32) = length s + 1"
    using unat_of_nat32 [of "length s + 1"] s(3) by (simp add: add.commute)
  then have le: "unat (of_nat (length s) + 1 :: u32) \<le> B" using s(3) nest(2) by simp
  obtain r w2 where al: "mallocArea w1 (of_nat (length s) + 1) = Some (r, w2)" by (simp add: mallocArea_def)
  have r: "r \<noteq> 0" "span r (length s + 1) \<inter> R = {}"
    using sc e(2,3) le al unfolding scratch_def by (metis option.inject prod.inject un)+
  have h: "held r (length s + 1) w2" using nest(1) e(2) le al un unfolding nested_def by metis
  have "span e (length (encode (MStr s))) \<inter> span r (length s + 1) = {}" using e(6) r(2) by blast
  moreover have "length s + 1 < 2 ^ 32" using s(3) by simp
  ultimately obtain m2 where m2: "msgPackReadStr mallocArea w1 m1 e = Some (r, w2, m2)" "cstr m2 r s"
    "\<forall>a. a \<notin> span r (length s + 1) \<longrightarrow> m2 a = m1 a"
    using readStr_spec [of m1 e s mallocArea w1 r w2] e(5) s(2) al by blast
  have head: "bytes_at m1 e (strHead (length s))" using e(5) by (simp add: bytes_at_append)
  have "length s < 2 ^ 32" using s(3) by simp
  then have "dataType (infoAt m1 e) = TYPE_STRING" by (rule strHead_format(1) [OF head])
  then have "AS_STRING mallocArea w1 m1 e = Some (Some (r, w2, m2))" using m2(1) by (simp add: AS_STRING_def)
  then have "GET_STRING lit p name (w, m) = Some (Some r, w2, m2)" unfolding GET_STRING_def e(1) by simp
  moreover have "printed w2 = printed w" using al e(3) by (auto simp: mallocArea_def printed_def)
  moreover have "\<forall>a \<in> R. m2 a = m a"
  proof
    fix a assume a: "a \<in> R"
    then have "a \<notin> span r (length s + 1)" using r(2) by blast
    then have "m2 a = m1 a" using m2(3) by simp
    then show "m2 a = m a" using e(4) a by simp
  qed
  ultimately show ?thesis using h r(1) m2(2) by (intro exI conjI)
qed

section \<open>What is printed\<close>

definition deviceLine :: "PciDevice \<Rightarrow> Call" where
  "deviceLine d = Print ''id: %i, class: \"%s\" (%i/%i/%i)''
     [Num (pci_id d), Text (classNames ! unat (pci_class d)), Num (ucast (pci_class d)), Num (ucast (pci_subclass d)),
      Num (ucast (programmingInterface d))]"

lemma toText_bytesOf [simp]: "toText (bytesOf s) = s"
proof -
  have "char_of (unat (of_nat (of_char c) :: u8)) = c" for c :: char
    using nat_of_char_less_256 [of c] by (simp add: unat_of_nat take_bit_nat_eq_self)
  then show ?thesis by (simp add: toText_def bytesOf_def comp_def)
qed

lemma cstr_text: "cstr m p s \<Longrightarrow> map (\<lambda>i. m (p + of_nat i)) [0..<length s] = s"
  by (rule nth_equalityI) (auto simp: cstr_bytes bytes_at_iff nth_append)

lemma field_names:
  "''className'' \<in> set fieldNames" "''class'' \<in> set fieldNames" "''id'' \<in> set fieldNames" "''subclass'' \<in> set fieldNames"
  "''programmingInterface'' \<in> set fieldNames"
  by (simp_all add: fieldNames_def)

lemma field_values:
  "map_of (deviceFields d) (bytesOf ''className'') = Some (MStr (bytesOf (classNames ! unat (pci_class d))))"
  "map_of (deviceFields d) (bytesOf ''class'') = Some (MInt (ucast (pci_class d)) Unsigned)"
  "map_of (deviceFields d) (bytesOf ''id'') = Some (MInt (pci_id d) Unsigned)"
  "map_of (deviceFields d) (bytesOf ''subclass'') = Some (MInt (ucast (pci_subclass d)) Unsigned)"
  "map_of (deviceFields d) (bytesOf ''programmingInterface'') = Some (MInt (ucast (programmingInterface d)) Unsigned)"
  by (simp_all add: deviceFields_def bytesOf_def)

lemma showMessage_prints:
  assumes nest: "nested ok held R B" "40 \<le> B" "B < 2 ^ 32" "ok w"
    and data: "bytes_at m p (encode (named (deviceFields d)))" "span p (length (encode (named (deviceFields d)))) \<subseteq> R"
    and names: "names_in lit m R" and d: "unat (pci_class d) < length classNames"
  shows "\<exists>w' m'. showMessage lit p (w, m) = Some (0, w', m') \<and> ok w' \<and> printed w' = printed w @ [deviceLine d] \<and> (\<forall>a \<in> R. m' a = m a)"
proof -
  let ?s = "bytesOf (classNames ! unat (pci_class d))"
  have s: "0 \<notin> set ?s" "length ?s < 40"
  proof -
    have "\<forall>x \<in> set classNames. 0 \<notin> set (bytesOf x)" by (simp add: classNames_def bytesOf_def)
    then show "0 \<notin> set ?s" using nth_mem [OF d] by blast
    show "length ?s < 40" using nth_mem [OF d] names_short by simp
  qed
  obtain r w1 m1 where 1: "GET_STRING lit p ''className'' (w, m) = Some (Some r, w1, m1)" "held r (length ?s + 1) w1" "r \<noteq> 0"
    "cstr m1 r ?s" "printed w1 = printed w" "\<forall>a \<in> R. m1 a = m a"
    using GET_STRING_found [OF nest data names field_names(1) d field_values(1) s] by blast
  let ?R = "R \<union> span r (length ?s + 1)"
  let ?ok = "\<lambda>w'. held r (length ?s + 1) w' \<and> printed w' = printed w"
  have sc: "scratch mallocArea freeArea ?ok ?R B" using nest(1) scratch_printed by (simp add: nested_def)
  have "names_in lit m1 R" using names_in_cong [OF names] 1(6) by blast
  then have n1: "names_in lit m1 ?R" by (auto simp: names_in_def)
  have b1: "bytes_at m1 p (encode (named (deviceFields d)))"
    using data 1(6) bytes_at_cong [of p "encode (named (deviceFields d))" m1 m] by blast
  have sub: "span p (length (encode (named (deviceFields d)))) \<subseteq> ?R" using data(2) by blast
  have field: "\<exists>w'' m''. GET_INT lit p name (w', m') = Some (Some x, w'', m'') \<and> ?ok w'' \<and> (\<forall>a \<in> ?R. m'' a = m1 a)"
    if "?ok w'" "\<forall>a \<in> ?R. m' a = m1 a" "name \<in> set fieldNames" "map_of (deviceFields d) (bytesOf name) = Some (MInt x Unsigned)"
    for w' m' name x
  proof -
    have "bytes_at m' p (encode (named (deviceFields d)))"
      using b1 sub that(2) bytes_at_cong [of p "encode (named (deviceFields d))" m' m1] by blast
    moreover have "names_in lit m' ?R" using names_in_cong [OF n1] that(2) by blast
    ultimately show ?thesis
      using GET_INT_found [OF sc nest(2,3) that(1) _ sub _ that(3) d that(4)] that(2) by fastforce
  qed
  have "?ok w1" using 1 by simp
  then obtain w2 m2 where 2: "GET_INT lit p ''class'' (w1, m1) = Some (Some (ucast (pci_class d)), w2, m2)" "?ok w2" "\<forall>a \<in> ?R. m2 a = m1 a"
    using field [of w1 m1] field_names(2) field_values(2) by blast
  obtain w3 m3 where 3: "GET_INT lit p ''id'' (w2, m2) = Some (Some (pci_id d), w3, m3)" "?ok w3" "\<forall>a \<in> ?R. m3 a = m1 a"
    using field [OF 2(2,3)] field_names(3) field_values(3) by blast
  obtain w4 m4 where 4: "GET_INT lit p ''subclass'' (w3, m3) = Some (Some (ucast (pci_subclass d)), w4, m4)" "?ok w4" "\<forall>a \<in> ?R. m4 a = m1 a"
    using field [OF 3(2,3)] field_names(4) field_values(4) by blast
  obtain w5 m5 where 5: "GET_INT lit p ''programmingInterface'' (w4, m4) = Some (Some (ucast (programmingInterface d)), w5, m5)"
    "?ok w5" "\<forall>a \<in> ?R. m5 a = m1 a"
    using field [OF 4(2,3)] field_names(5) field_values(5) by blast
  have c: "cstr m5 r ?s" using 1(4) 5(3) cstr_cong [of r ?s m5 m1] by auto
  have un: "unat (of_nat (length ?s) :: u32) = length ?s" using s(2) by (intro unat_of_nat32) simp
  have shown: "toText (map (\<lambda>i. m5 (r + of_nat i)) [0..<length ?s]) = classNames ! unat (pci_class d)"
    unfolding cstr_text [OF c] by simp
  let ?w = "after w5 [deviceLine d, Free r]"
  have "showMessage lit p (w, m) = Some (0, ?w, m5)"
    unfolding showMessage_def using 1(1) 2(1) 3(1) 4(1) 5(1) strlen_cstr [OF c 1(3)] un shown
    by (simp add: orReturn_def freeArea_def deviceLine_def)
  moreover have "ok ?w" using nest(1) 5(2) unfolding nested_def deviceLine_def by blast
  moreover have "printed ?w = printed w @ [deviceLine d]" using 5(2) by (simp add: printed_def deviceLine_def)
  moreover have "\<forall>a \<in> R. m5 a = m a" using 5(3) 1(6) by simp
  ultimately show ?thesis by blast
qed

lemma deviceFields_small: "unat (pci_class d) < length classNames \<Longrightarrow> small (named (deviceFields d))"
  using names_short [OF UnI2, OF nth_mem] by (fastforce simp: named_def deviceFields_def)

lemma showMessages_prints:
  assumes nest: "nested ok held R B" "40 \<le> B" "B < 2 ^ 32"
  shows "ok w \<Longrightarrow> names_in lit m R \<Longrightarrow> bytes_at m p (concat (map (\<lambda>d. encode (named (deviceFields d))) ds)) \<Longrightarrow>
    span p (length (concat (map (\<lambda>d. encode (named (deviceFields d))) ds))) \<subseteq> R \<Longrightarrow>
    \<forall>d \<in> set ds. unat (pci_class d) < length classNames \<Longrightarrow>
    \<exists>w' m'. showMessages lit p (length ds) (w, m) = Some (w', m') \<and> ok w' \<and> printed w' = printed w @ map deviceLine ds"
proof (induction ds arbitrary: w m p)
  case (Cons d ds)
  let ?e = "encode (named (deviceFields d))" and ?es = "concat (map (\<lambda>d. encode (named (deviceFields d))) ds)"
  have d: "unat (pci_class d) < length classNames" using Cons.prems(5) by simp
  have b: "bytes_at m p ?e" "bytes_at m (p + of_nat (length ?e)) ?es" using Cons.prems(3) by (simp_all add: bytes_at_append)
  have sub: "span p (length ?e) \<subseteq> R" "span (p + of_nat (length ?e)) (length ?es) \<subseteq> R"
    using span_split [of p "length ?e" "length ?es" R] Cons.prems(4) by simp_all
  obtain w1 m1 where 1: "showMessage lit p (w, m) = Some (0, w1, m1)" "ok w1" "printed w1 = printed w @ [deviceLine d]"
    "\<forall>a \<in> R. m1 a = m a"
    using showMessage_prints [OF nest Cons.prems(1) b(1) sub(1) Cons.prems(2) d] by blast
  have b1: "bytes_at m1 p ?e" "bytes_at m1 (p + of_nat (length ?e)) ?es"
    using bytes_at_cong [of p ?e m1 m] bytes_at_cong [of "p + of_nat (length ?e)" ?es m1 m] b sub 1(4) by blast+
  have sk: "msgPackSeek m1 p = Some (p + of_nat (length ?e))"
    using seek_encode [OF deviceFields_small [OF d]] b1(1) by (simp add: seeks_def)
  have n1: "names_in lit m1 R" using names_in_cong [OF Cons.prems(2)] 1(4) by blast
  have ds: "\<forall>d \<in> set ds. unat (pci_class d) < length classNames" using Cons.prems(5) by simp
  obtain w2 m2 where 2: "showMessages lit (p + of_nat (length ?e)) (length ds) (w1, m1) = Some (w2, m2)" "ok w2"
    "printed w2 = printed w1 @ map deviceLine ds"
    using Cons.IH [OF 1(2) n1 b1(2) sub(2) ds] by blast
  then show ?case using 1(1,3) sk by simp
qed simp


text \<open>For the example: areas at fixed distances, by the number of areas in use.\<close>

definition areas :: "Call list \<Rightarrow> int" where
  "areas cs = (\<Sum>c \<leftarrow> cs. case c of Malloc _ \<Rightarrow> 1 | Free _ \<Rightarrow> - 1 | _ \<Rightarrow> 0)"

definition exampleAnswers :: "u32 \<Rightarrow> Call list \<Rightarrow> u32" where
  "exampleAnswers data cs = (case last cs of Malloc _ \<Rightarrow> 0x10000 + of_int (areas cs) * 0x1000 | _ \<Rightarrow> data)"

lemma span_beyond: "i + j \<le> k \<Longrightarrow> k + l \<le> 4294967296 \<Longrightarrow> span (of_nat k) l \<inter> span (of_nat i) j = {}"
  using span_apart [of i j k l 0] by (simp add: Int_commute)

lemma example_nested:
  "nested (\<lambda>w. answers w = exampleAnswers data \<and> areas (trace w) = 0)
     (\<lambda>r n w. answers w = exampleAnswers data \<and> areas (trace w) = 1 \<and> r = 0x11000 \<and> n \<le> 40) (span 0 0x1000) 40"
proof -
  have a: "span 0x11000 n \<inter> span 0 0x1000 = {}" "span 0x12000 n \<inter> span 0 0x1000 = {}" if "n \<le> 40" for n
    using span_beyond [of 0 "0x1000" "0x11000" n] span_beyond [of 0 "0x1000" "0x12000" n] that by simp_all
  have b: "span 0x12000 n \<inter> span 0x11000 k = {}" if "n \<le> 40" "k \<le> 40" for n k
    using span_beyond [of "0x11000" k "0x12000" n] that by simp
  show ?thesis
    unfolding nested_def scratch_def
    by (auto simp: mallocArea_def freeArea_def exampleAnswers_def areas_def Int_Un_distrib a b)
qed


end
