(* ===== verification/Spec2Isabelle.thy ===== *)
theory Spec2Isabelle
  imports Messages Hlib KeyboardProps Timers Mouse Vga PciProps Ps2 StorageProps XhciProps UsbProps IoManager Tools HeapRuns Rounds Buffers
begin

text \<open>
  A verification development of honey-os, a small operating system for the i686. The paths below are those of the
  repository, under \<open>src/src/\<close>.

  \<^bold>\<open>The system.\<close> The kernel (\<open>kernel/\<close>) manages pages and address spaces, a heap for its own objects, services, and the
  calls between them. A service is a program loaded from an ELF file in the boot archive, with an address space of its
  own, functions other services can request, and events they can wait for or subscribe to. All work of the kernel is
  a queue of calls: a system call of a program or an interrupt changes the kernel's objects and puts calls on the
  queue, either functions to run or calls to resume. Programs (\<open>userland/\<close>) are linked with the library \<open>hlib/\<close>, which
  contains the system call stubs, formatted output, lists, the allocator and the MessagePack encoding. The drivers and
  tools are such programs: they use ports, shared pages, events and each other's functions.

  \<^bold>\<open>Conventions\<close> (\<open>Prelude\<close>). Machine words keep their width (\<open>u8\<close>, \<open>u16\<close>, \<open>u32\<close>), arithmetic wraps around as in C. A
  computation has type \<open>'a option\<close>: \<open>None\<close> is an execution that faults (an index outside an array, a null pointer that is
  followed, a division by zero) or never returns, which for loops without a bound is \<open>partial_function (option)\<close>. An
  array is a function with a checked index (\<open>aget\<close>, \<open>aset\<close>), memory a function from addresses to bytes. Loops are \<open>ofold\<close>
  over the indices, or recursion. What is not in the repository or has no meaning in C is an argument of the
  definitions: what an allocator of pages gives (\<open>pageSource\<close>, \<open>alloc\<close>), what the processor makes of a shift by 32 and more
  (\<open>over\<close>), how the system call instruction answers (\<open>sys\<close>), what devices and other services answer (\<open>answers\<close>, \<open>reply\<close>,
  \<open>memory_after\<close>), the texts behind string numbers (\<open>strings\<close>).

  \<^bold>\<open>The kernel.\<close>
  \<^item> \<open>PageBitmap\<close>, \<open>PageTables\<close>, \<open>PageAlloc\<close> model \<open>kernel/memory/paging.c\<close>: bitmaps of used pages with their search in
    three levels, page tables reached through a temporary window, and the functions that hand out and take back
    pages. The locale \<open>page_allocator\<close> is the contract of the bitmaps; the properties are that the search finds the
    first free run, that mapping changes one translation only and nothing in other address spaces, that pages
    handed out were unused, and that the start-up state satisfies the invariant \<open>kernel_ok\<close>. \<open>Spaces\<close> follows several
    address spaces through these operations and counts the pages they use.
  \<^item> \<open>Malloc\<close> models \<open>kernel/memory/malloc.c\<close>, which the library compiles in as well: zeroed, disjoint slots, which \<open>free\<close>
    gives back one at a time; \<open>HeapRuns\<close> shows that any sequence of these operations is one of an abstract memory of
    separate areas. \<open>Allocator\<close> states this contract as a locale for the code that allocates, \<open>Lists\<close>
    (\<open>kernel/util/list.c\<close>, \<open>hlib/list.c\<close>) and \<open>StringMap\<close> (\<open>kernel/stringmap/stringmap.c\<close>) use it.
  \<^item> \<open>Strings\<close> (\<open>kernel/util/strings.c\<close>, \<open>memutil.c\<close>) holds the byte and string functions, \<open>Boot\<close> the boot information and the
    archive, \<open>Machine\<close> the interrupt and segment tables.
  \<^item> \<open>KernelState\<close> is the kernel as a record: its memory, heap, objects by address, and the lists as sequences, which are
    shown to refine the linked lists. \<open>Services\<close> and \<open>Syscalls\<close> have one definition for each function of
    \<open>kernel/service/\<close>, \<open>kernel/syscalls/\<close> and the handlers of the system calls, with the table \<open>syscallHandlers\<close>.
    \<open>EventProps\<close> shows which calls an event wakes, \<open>ScheduleProps\<close> that a scheduled call finds its frame through its own
    page tables, \<open>SyscallProps\<close> how a request ends, \<open>HandlerProps\<close> what the single calls do.
    \<open>Rounds\<close> runs the main loop as a transition system, whose rounds are runs in user mode with their interrupts and the
    system call or exception that ends them: what the kernel keeps for good (the order of the queue, the numbers of services and events) is an ordered type \<open>Journal\<close> that
    no operation makes smaller, so that calls are handled in turn and numbers stay valid.

  \<^bold>\<open>The library.\<close> \<open>Hlib\<close> has the stubs, the request macros and events over the parameter \<open>sys\<close>; \<open>Stdio\<close> the formatted
  output with its reference texts; \<open>MsgPack\<close>, \<open>MsgPackProps\<close> and \<open>Messages\<close> the encoding, the macros that build messages
  from a description, and that reading gives back what was written. \<open>MsgPackQuery\<close> is the lookup of a name in an
  encoded map, through memory the allocator gives, \<open>MsgPackDump\<close> the printer \<open>_msgPackDump\<close>, which ends behind the value it shows.

  \<^bold>\<open>The programs.\<close> A program is the sequence of the library calls it makes (\<open>Programs\<close>: the \<open>World\<close> with its trace and
  arbitrary answers); a program that shares memory with devices or other programs also has that memory, which calls
  can change (\<open>Shared\<close>).
  \<^item> \<open>Hid\<close>, \<open>HidProps\<close> (\<open>userland/hid\<close>): report descriptors and reports; \<open>Keyboard\<close>, \<open>KeyboardProps\<close> (\<open>keyboard\<close>, \<open>ps2kb\<close>,
    \<open>include/keycodes.h\<close>): the keys pressed and the text they send; both together, the keys of a report reach the
    keyboard service. \<open>Mouse\<close> (\<open>mouse\<close>, \<open>ps2mouse\<close>), \<open>Ps2\<close> (\<open>ps2\<close>), \<open>Timers\<close> (\<open>pic\<close>, \<open>pit\<close>), \<open>Vga\<close> (\<open>vga\<close>).
  \<^item> \<open>IoManager\<close> (\<open>ioManager\<close>): log lines, focus, and the line editor behind \<open>gets\<close>. \<open>Tools\<close> (\<open>log\<close>, \<open>parallel\<close>, \<open>shell\<close>,
    \<open>loader\<close>, \<open>crashTest\<close>).
  \<^item> \<open>Pci\<close>, \<open>PciProps\<close> (\<open>lspci\<close>): the search for devices, which ends for any hardware. \<open>PciDump\<close> is the page \<open>dumpAll\<close>
    fills with the encoded devices, \<open>Buffers\<close> the program \<open>buffersTests\<close> that prints the devices of such a page.
  \<^item> \<open>TrbRing\<close> (\<open>usb/xhci/trbRing.c\<close>): the rings between driver and host controller, with a locale \<open>bounded_fifo\<close>
    interpreted for both directions. \<open>Xhci\<close>, \<open>XhciProps\<close> (\<open>usb/xhci/\<close>): the controller, its commands, transfers and
    interrupts. \<open>Usb\<close>, \<open>UsbProps\<close> (\<open>usb/main.c\<close>): descriptors and the set-up of devices.
  \<^item> \<open>Storage\<close>, \<open>StorageProps\<close> (\<open>usbStorage\<close>, \<open>scisi\<close>, \<open>mbr\<close>): the commands of a disk from the reader of partition tables to
    the bytes sent to the device.

  \<^bold>\<open>Bounds and fuel.\<close> Only one loop needs a bound that is not in the code: the search of buses calls itself for every
  bridge and is given the depth 257; there are 256 buses and each is searched once, so that it always suffices
  (\<open>PciProps\<close>). All other loops are bounded by the code, end by a measure, or may run forever and are then partial, with
  termination proved where it holds.

  \<^bold>\<open>Not modelled.\<close> The assembler files (boot, interrupt and system call entry, the switch to a service), whose effect
  on the kernel's state is nothing but saved registers; page faults for unmapped addresses and the translation cache.
  Calls of one service that run at the same time are modelled one after the other, with the waiting of one call as the
  place where others run; locks are free when a call enters.
\<close>

end
